(* ===== verification/FF_Prelude.thy ===== *)
theory FF_Prelude
  imports Main "HOL-Library.Word" "HOL-Library.Char_ord" "HOL-Library.List_Lexorder"
begin

section \<open>Shared types, ordered containers and integers on the wire\<close>

text \<open>
  What every component of the library shares:
  \<^item> the machine integers of the code as words of their width (\<open>uint8_t\<close> to \<open>uint64_t\<close>;
    \<open>size_t\<close> is 64 bits on the platform the code targets);
  \<^item> \<open>std::string\<close> as \<open>string\<close>: a list of bytes, ordered lexicographically by unsigned byte value,
    as \<open>char_traits<char>\<close> orders it;
  \<^item> C++ exceptions as values: a computation that may throw returns \<open>exn + 'a\<close>;
  \<^item> \<open>std::map\<close> as an association list kept in strictly increasing key order, so that iterating it
    visits the keys as the code's iterators do, and \<open>std::set\<close> as a strictly increasing list;
  \<^item> the little-endian byte image of an integer, which is what \<open>memcpy\<close> of the integer copies.
\<close>

type_synonym u8 = "8 word"
type_synonym u16 = "16 word"
type_synonym u32 = "32 word"
type_synonym u64 = "64 word"
type_synonym size_t = "64 word"

text \<open>
  The exceptions the code raises (\<open>std::runtime_error\<close> with its text) and the undefined behaviour
  the models make visible instead of hiding: a null dereference, the use of an iterator or pointer
  that no longer refers to a live object, an index outside a vector.
\<close>

datatype exn =
    Runtime_error string
  | Null_deref
  | Dangling
  | Out_of_range

type_synonym 'a exc = "exn + 'a"

named_theorems omap_simps \<open>lookup laws of the ordered containers\<close>
named_theorems wire_simps \<open>evaluation of the wire encodings\<close>

lemma take_of_append_eq: "xs @ ys = zs @ us \<Longrightarrow> length xs \<le> length zs \<Longrightarrow> take (length xs) zs = xs"
  by (metis append_eq_conv_conj diff_is_0_eq' self_append_conv take_0 take_append)

lemma rest_of_append_eq:
  assumes "xs @ ys = zs @ us" "length xs \<le> length zs"
  shows "xs @ take (length zs - length xs) ys = zs" "drop (length zs - length xs) ys = us"
  using arg_cong [OF assms(1), of "take (length zs)"] arg_cong [OF assms(1), of "drop (length zs)"] assms(2)
  by simp_all

subsection \<open>\<open>std::map\<close>\<close>

type_synonym ('k, 'v) omap = "('k \<times> 'v) list"

text \<open>\<open>m[k] = v\<close>: overwrites, or inserts at the key's place.\<close>

fun om_put :: "'k::linorder \<Rightarrow> 'v \<Rightarrow> ('k, 'v) omap \<Rightarrow> ('k, 'v) omap" where
  "om_put k v [] = [(k, v)]"
| "om_put k v ((a, b) # m) =
     (if k < a then (k, v) # (a, b) # m
      else if k = a then (k, v) # m
      else (a, b) # om_put k v m)"

text \<open>\<open>m.erase(k)\<close>.\<close>

fun om_erase :: "'k::linorder \<Rightarrow> ('k, 'v) omap \<Rightarrow> ('k, 'v) omap" where
  "om_erase k [] = []"
| "om_erase k ((a, b) # m) = (if k = a then m else (a, b) # om_erase k m)"

text \<open>\<open>m.insert(make_pair(k, v))\<close>: keeps the old value of a key that is there; the result's second
  component is the \<open>second\<close> of the pair the code gets back.\<close>

definition om_insert :: "'k::linorder \<Rightarrow> 'v \<Rightarrow> ('k, 'v) omap \<Rightarrow> ('k, 'v) omap \<times> bool" where
  "om_insert k v m = (case map_of m k of None \<Rightarrow> (om_put k v m, True) | Some _ \<Rightarrow> (m, False))"

definition om_wf :: "('k::linorder, 'v) omap \<Rightarrow> bool" where
  "om_wf m \<longleftrightarrow> sorted_wrt (<) (map fst m)"

lemma om_wf_Nil [simp]: "om_wf []"
  by (simp add: om_wf_def)

lemma om_wf_Cons: "om_wf ((a, b) # m) \<longleftrightarrow> (\<forall>k \<in> fst ` set m. a < k) \<and> om_wf m"
  by (auto simp: om_wf_def)

lemma set_fst_om_put [simp]: "fst ` set (om_put k v m) = insert k (fst ` set m)"
  by (induction k v m rule: om_put.induct) (simp_all add: insert_commute)

lemma om_wf_put [simp, intro]: "om_wf m \<Longrightarrow> om_wf (om_put k v m)"
proof (induction k v m rule: om_put.induct)
  case (2 k v a b m)
  then show ?case
    by (simp add: om_wf_Cons) (metis linorder_less_linear order_less_trans)
qed (simp add: om_wf_def)

lemma map_of_om_put [omap_simps, simp]: "map_of (om_put k v m) = (map_of m)(k \<mapsto> v)"
  by (induction m) (auto simp: fun_eq_iff)

lemma om_erase_absent: "k \<notin> fst ` set m \<Longrightarrow> om_erase k m = m"
  by (induction m) auto

lemma set_fst_om_erase: "om_wf m \<Longrightarrow> fst ` set (om_erase k m) = fst ` set m - {k}"
proof (induction k m rule: om_erase.induct)
  case (2 k a b m)
  then have m: "om_wf m" and gt: "\<forall>k \<in> fst ` set m. a < k"
    by (simp_all add: om_wf_Cons)
  from gt have "a \<notin> fst ` set m" by auto
  with m 2 show ?case by auto
qed simp

lemma set_om_erase_subset: "set (om_erase k m) \<subseteq> set m"
  by (induction k m rule: om_erase.induct) auto

lemma om_wf_erase [simp, intro]: "om_wf m \<Longrightarrow> om_wf (om_erase k m)"
proof (induction k m rule: om_erase.induct)
  case (2 k a b m)
  then show ?case using set_om_erase_subset [of k m]
    by (auto simp: om_wf_Cons)
qed simp

lemma map_of_om_erase [omap_simps]:
  "om_wf m \<Longrightarrow> map_of (om_erase k m) = (map_of m)(k := None)"
proof (induction k m rule: om_erase.induct)
  case (2 k a b m)
  then have "a \<notin> fst ` set m" and "om_wf m"
    by (auto simp: om_wf_Cons)
  with 2 show ?case by (auto simp: fun_eq_iff map_of_eq_None_iff [THEN iffD2])
qed simp

lemma om_wf_distinct: "om_wf m \<Longrightarrow> distinct (map fst m)"
  by (simp add: om_wf_def strict_sorted_iff)

lemma map_of_rev_distinct: "distinct (map fst xs) \<Longrightarrow> map_of (rev xs) = map_of xs"
  by (subst map_of_inject_set) (simp_all add: rev_map [symmetric])

lemma om_wf_insert [simp, intro]: "om_wf m \<Longrightarrow> om_wf (fst (om_insert k v m))"
  by (simp add: om_insert_def split: option.splits)

lemma map_of_om_insert [omap_simps]:
  "map_of (fst (om_insert k v m)) k' =
     (if k' = k then Some (case map_of m k of None \<Rightarrow> v | Some w \<Rightarrow> w) else map_of m k')"
  by (auto simp: om_insert_def split: option.splits)

lemma om_insert_snd [simp]: "snd (om_insert k v m) \<longleftrightarrow> map_of m k = None"
  by (auto simp: om_insert_def split: option.splits)

text \<open>Two ordered maps with the same lookups are the same list: the order leaves no freedom.\<close>

lemma om_as_map:
  assumes "om_wf m"
  shows "map (\<lambda>k. (k, the (map_of m k))) (map fst m) = m"
proof -
  have "(fst p, the (map_of m (fst p))) = p" if "p \<in> set m" for p
    using om_wf_distinct [OF assms] that by (cases p) (simp add: map_of_is_SomeI)
  then show ?thesis by (simp add: map_idI)
qed

lemma om_wf_ext:
  assumes "om_wf m" "om_wf n" "map_of m = map_of n"
  shows "m = n"
proof -
  have "set (map fst m) = set (map fst n)"
    using assms(3) by (metis dom_map_of_conv_image_fst set_map)
  then have "map fst m = map fst n"
    using assms(1,2) unfolding om_wf_def by (auto intro: strict_sorted_equal)
  then show ?thesis
    using om_as_map [OF assms(1)] om_as_map [OF assms(2)] assms(3) by metis
qed

subsection \<open>The contract of an associative container\<close>

text \<open>
  What the components rely on when they keep a table: a lookup sees the last store, stores to other
  keys do not disturb it, and the well-formedness is kept. The lemmas about loops that fill a table
  are proved once, from the contract.
\<close>

locale assoc_table =
  fixes find :: "'m \<Rightarrow> 'k \<Rightarrow> 'v option"
    and put :: "'k \<Rightarrow> 'v \<Rightarrow> 'm \<Rightarrow> 'm"
    and erase :: "'k \<Rightarrow> 'm \<Rightarrow> 'm"
    and wf :: "'m \<Rightarrow> bool"
  assumes find_put: "wf m \<Longrightarrow> find (put k v m) k' = (if k' = k then Some v else find m k')"
    and find_erase: "wf m \<Longrightarrow> find (erase k m) k' = (if k' = k then None else find m k')"
    and wf_put: "wf m \<Longrightarrow> wf (put k v m)"
    and wf_erase: "wf m \<Longrightarrow> wf (erase k m)"
begin

lemma puts:
  assumes "wf m"
  shows "wf (fold (\<lambda>(k, v). put k v) kvs m) \<and>
    find (fold (\<lambda>(k, v). put k v) kvs m) k =
      (case map_of (rev kvs) k of None \<Rightarrow> find m k | Some v \<Rightarrow> Some v)"
  using assms
proof (induction kvs arbitrary: m)
  case (Cons p kvs)
  obtain a b where p: "p = (a, b)" by (cases p)
  have "wf (put a b m)" using Cons.prems by (rule wf_put)
  with Cons.IH [of "put a b m"] Cons.prems show ?case
    by (auto simp: p find_put map_add_def split: option.splits)
qed simp

lemma erases:
  assumes "wf m"
  shows "wf (fold erase ks m) \<and>
    find (fold erase ks m) k = (if k \<in> set ks then None else find m k)"
  using assms
proof (induction ks arbitrary: m)
  case (Cons a ks)
  have "wf (erase a m)" using Cons.prems by (rule wf_erase)
  with Cons.IH [of "erase a m"] Cons.prems show ?case
    by (auto simp: find_erase)
qed simp

text \<open>A loop that stores only keys that are not there yet: the first store of a key wins.\<close>

lemma put_absents:
  assumes "wf m"
  shows "wf (fold (\<lambda>(k, v) m. if find m k = None then put k v m else m) kvs m) \<and>
    find (fold (\<lambda>(k, v) m. if find m k = None then put k v m else m) kvs m) k =
      (case find m k of None \<Rightarrow> map_of kvs k | Some v \<Rightarrow> Some v)"
  using assms
proof (induction kvs arbitrary: m)
  case (Cons p kvs)
  obtain a b where p: "p = (a, b)" by (cases p)
  show ?case
  proof (cases "find m a")
    case None
    have "wf (put a b m)" using Cons.prems by (rule wf_put)
    with Cons.IH [of "put a b m"] Cons.prems None show ?thesis
      by (auto simp: p find_put split: option.splits)
  next
    case (Some v)
    with Cons show ?thesis by (auto simp: p split: option.splits)
  qed
qed (simp split: option.splits)

end

interpretation om: assoc_table map_of om_put om_erase om_wf
  by unfold_locales (auto simp: map_of_om_erase)

subsection \<open>\<open>std::set\<close>\<close>

type_synonym 'a oset = "'a list"

fun os_insert :: "'a::linorder \<Rightarrow> 'a oset \<Rightarrow> 'a oset" where
  "os_insert x [] = [x]"
| "os_insert x (y # ys) =
     (if x < y then x # y # ys else if x = y then y # ys else y # os_insert x ys)"

definition os_erase :: "'a::linorder \<Rightarrow> 'a oset \<Rightarrow> 'a oset" where
  "os_erase x ys = filter (\<lambda>y. y \<noteq> x) ys"

definition os_wf :: "'a::linorder oset \<Rightarrow> bool" where
  "os_wf ys \<longleftrightarrow> sorted_wrt (<) ys"

lemma set_os_insert [simp]: "set (os_insert x ys) = insert x (set ys)"
  by (induction ys) auto

lemma set_os_erase [simp]: "set (os_erase x ys) = set ys - {x}"
  by (auto simp: os_erase_def)

lemma os_wf_Nil [simp]: "os_wf []"
  by (simp add: os_wf_def)

lemma os_wf_insert [simp, intro]: "os_wf ys \<Longrightarrow> os_wf (os_insert x ys)"
  by (induction ys) (auto simp: os_wf_def)

lemma os_wf_erase [simp, intro]: "os_wf ys \<Longrightarrow> os_wf (os_erase x ys)"
  by (simp add: os_wf_def os_erase_def sorted_wrt_filter)

subsection \<open>Integers on the wire\<close>

text \<open>
  The \<open>k\<close> bytes that \<open>memcpy\<close> copies out of a \<open>k\<close>-byte integer on a little-endian machine, and the
  integer they make when copied back.
\<close>

fun le_bytes :: "nat \<Rightarrow> nat \<Rightarrow> string" where
  "le_bytes 0 n = []"
| "le_bytes (Suc k) n = char_of (n mod 256) # le_bytes k (n div 256)"

fun le_nat :: "string \<Rightarrow> nat" where
  "le_nat [] = 0"
| "le_nat (c # cs) = of_char c + 256 * le_nat cs"

lemma le_bytes_numeral [wire_simps]:
  "le_bytes (numeral k) n = char_of (n mod 256) # le_bytes (pred_numeral k) (n div 256)"
  unfolding numeral_eq_Suc [of k] by simp

lemma length_le_bytes [simp]: "length (le_bytes k n) = k"
  by (induction k arbitrary: n) auto

lemma le_nat_le_bytes [simp]: "le_nat (le_bytes k n) = n mod 256 ^ k"
proof (induction k arbitrary: n)
  case (Suc k)
  have "n mod 256 + 256 * (n div 256 mod 256 ^ k) = n mod (256 * 256 ^ k)"
    by (metis add.commute mod_mult2_eq)
  with Suc show ?case by simp
qed simp

lemma le_nat_bound: "le_nat s < 256 ^ length s"
proof (induction s)
  case (Cons c s)
  have "of_char c < (256 :: nat)" by simp
  then have "of_char c + 256 * le_nat s < 256 * (le_nat s + 1)" by simp
  also have "\<dots> \<le> 256 * 256 ^ length s" using Cons by simp
  finally show ?case by simp
qed simp

lemma le_bytes_le_nat: "le_bytes (length s) (le_nat s) = s"
  by (induction s) auto

lemma le_nat_append: "le_nat (xs @ ys) = le_nat xs + 256 ^ length xs * le_nat ys"
  by (induction xs) (auto simp: algebra_simps)

lemma char_of_0 [simp]: "char_of (0 :: nat) = CHR 0x00"
  by (simp add: char_of_def)

lemma le_nat_zeros: "le_nat (replicate k (CHR 0x00)) = 0"
  by (induction k) auto

text \<open>An integer of the code's widths survives the copy out and back, and so do its bytes.\<close>

lemma unat_mod_width [simp]:
  "unat (a :: u8) mod 256 = unat a"
  "unat (b :: u16) mod 65536 = unat b"
  "unat (c :: u32) mod 4294967296 = unat c"
  "unat (d :: u64) mod 18446744073709551616 = unat d"
  using unsigned_less [where 'a = nat, of a] unsigned_less [where 'a = nat, of b]
    unsigned_less [where 'a = nat, of c] unsigned_less [where 'a = nat, of d] by simp_all

lemma le_word_bytes:
  "length s = 1 \<Longrightarrow> le_bytes 1 (unat (word_of_nat (le_nat s) :: u8)) = s"
  "length s = 2 \<Longrightarrow> le_bytes 2 (unat (word_of_nat (le_nat s) :: u16)) = s"
  "length s = 4 \<Longrightarrow> le_bytes 4 (unat (word_of_nat (le_nat s) :: u32)) = s"
  "length s = 8 \<Longrightarrow> le_bytes 8 (unat (word_of_nat (le_nat s) :: u64)) = s"
  using le_nat_bound [of s] le_bytes_le_nat [of s]
  by (simp_all add: unat_of_nat take_bit_nat_eq_self)

text \<open>\<open>memcpy(p + i, xs, length xs)\<close> into the object whose bytes are \<open>s\<close>.\<close>

definition overlay :: "nat \<Rightarrow> string \<Rightarrow> string \<Rightarrow> string" where
  "overlay i xs s = take i s @ xs @ drop (i + length xs) s"

lemma length_overlay [simp]: "i + length xs \<le> length s \<Longrightarrow> length (overlay i xs s) = length s"
  by (simp add: overlay_def)

lemma overlay_append:
  "i + length xs + length ys \<le> length s \<Longrightarrow>
    overlay (i + length xs) ys (overlay i xs s) = overlay i (xs @ ys) s"
  by (simp add: overlay_def ac_simps)

lemma unat_u32_of_nat: "n < 2 ^ 32 \<Longrightarrow> unat (word_of_nat n :: u32) = n"
  by (simp add: unat_of_nat take_bit_nat_eq_self)

lemma unat_ucast_u32 [simp]: "unat (ucast (w :: u32) :: u64) = unat w"
proof -
  have "unat w < 2 ^ 64"
    using unsigned_less [where 'a = nat, of w] by simp
  then show ?thesis by (simp add: unsigned_ucast_eq take_bit_nat_eq_self)
qed

lemma ucast_u32_eq_0 [simp]: "(ucast (w :: u32) :: u64) = 0 \<longleftrightarrow> w = 0"
  by (metis unat_ucast_u32 unat_eq_0)

text \<open>A \<open>size_t\<close> that holds the length of a string.\<close>

definition len_t :: "'a list \<Rightarrow> size_t" where
  "len_t xs = word_of_nat (length xs)"

lemma unat_len_t: "length xs < 2 ^ 64 \<Longrightarrow> unat (len_t xs) = length xs"
  by (simp add: len_t_def unat_of_nat take_bit_nat_eq_self)

end
