(* ===== verification/Codec.thy ===== *)
theory Codec
  imports FF_Prelude "HOL-Library.Sublist"
begin

section \<open>Binary serialisation\<close>

text \<open>
  \<^verbatim>\<open>net/codec.h\<close>: \<open>bin_encoder_t\<close>, which appends to a buffer, and \<open>bin_decoder_t\<close>, which walks a
  pointer and a remaining length over a buffer. The decoder's state is the part of the buffer that is
  left; an operator that finds too few bytes throws. Values are copied in and out by \<open>memcpy\<close>, so
  their image is the little-endian one of the prelude; the memory layout of the structures that are
  copied whole (\<open>id_info_t\<close>) has no padding.
\<close>

subsection \<open>The decoder's operators\<close>

type_synonym 'a decoder = "string \<Rightarrow> ('a \<times> string) exc"

definition size_error :: exn where
  "size_error = Runtime_error ''bin_decoder_t:msg size not enough''"

text \<open>\<open>copy_value(void*, uint32_t)\<close>.\<close>

definition copy_raw :: "nat \<Rightarrow> string decoder" where
  "copy_raw var_size s =
     (if length s < var_size then Inl size_error else Inr (take var_size s, drop var_size s))"

definition dec_map_result :: "('a \<Rightarrow> 'b) \<Rightarrow> 'a decoder \<Rightarrow> 'b decoder" where
  "dec_map_result f d s = (case d s of Inl e \<Rightarrow> Inl e | Inr (x, r) \<Rightarrow> Inr (f x, r))"

text \<open>\<open>operator>>\<close> on the integer types: \<open>copy_value(&dest_, sizeof(T))\<close>.\<close>

definition dec_u8 :: "u8 decoder" where
  "dec_u8 = dec_map_result (\<lambda>b. word_of_nat (le_nat b)) (copy_raw 1)"

definition dec_u16 :: "u16 decoder" where
  "dec_u16 = dec_map_result (\<lambda>b. word_of_nat (le_nat b)) (copy_raw 2)"

definition dec_u32 :: "u32 decoder" where
  "dec_u32 = dec_map_result (\<lambda>b. word_of_nat (le_nat b)) (copy_raw 4)"

definition dec_u64 :: "u64 decoder" where
  "dec_u64 = dec_map_result (\<lambda>b. word_of_nat (le_nat b)) (copy_raw 8)"

definition dec_bool :: "bool decoder" where
  "dec_bool = dec_map_result (\<lambda>b. le_nat b \<noteq> 0) (copy_raw 1)"

text \<open>\<open>copy_value(string&)\<close>: a 32-bit length, then that many bytes.\<close>

definition dec_string :: "string decoder" where
  "dec_string s = (case dec_u32 s of Inl e \<Rightarrow> Inl e | Inr (str_len, r) \<Rightarrow> copy_raw (unat str_len) r)"

text \<open>\<open>operator>>(vector<T>&)\<close>: a 32-bit count, then that many elements, pushed at the back of \<open>dest_vt_\<close>.\<close>

fun dec_elems :: "'a decoder \<Rightarrow> nat \<Rightarrow> 'a list \<Rightarrow> 'a list decoder" where
  "dec_elems d 0 dest s = Inr (dest, s)"
| "dec_elems d (Suc n) dest s =
     (case d s of Inl e \<Rightarrow> Inl e | Inr (tmp, r) \<Rightarrow> dec_elems d n (dest @ [tmp]) r)"

definition dec_vector :: "'a decoder \<Rightarrow> 'a list \<Rightarrow> 'a list decoder" where
  "dec_vector d dest s =
     (case dec_u32 s of Inl e \<Rightarrow> Inl e | Inr (vt_size, r) \<Rightarrow> dec_elems d (unat vt_size) dest r)"

text \<open>\<open>operator>>(map<T, R>&)\<close>: a 32-bit count, then that many keys and values, stored one by one.\<close>

fun dec_entries ::
  "'k::linorder decoder \<Rightarrow> 'v decoder \<Rightarrow> nat \<Rightarrow> ('k, 'v) omap \<Rightarrow> ('k, 'v) omap decoder" where
  "dec_entries dk dv 0 dest s = Inr (dest, s)"
| "dec_entries dk dv (Suc n) dest s =
     (case dk s of Inl e \<Rightarrow> Inl e | Inr (key, r) \<Rightarrow>
       (case dv r of Inl e \<Rightarrow> Inl e | Inr (val, r') \<Rightarrow> dec_entries dk dv n (om_put key val dest) r'))"

definition dec_omap ::
  "'k::linorder decoder \<Rightarrow> 'v decoder \<Rightarrow> ('k, 'v) omap \<Rightarrow> ('k, 'v) omap decoder" where
  "dec_omap dk dv dest s =
     (case dec_u32 s of Inl e \<Rightarrow> Inl e | Inr (sz, r) \<Rightarrow> dec_entries dk dv (unat sz) dest r)"

subsection \<open>The encoder's operators\<close>

text \<open>What each \<open>operator<<\<close> appends to \<open>m_dest_buff\<close>.\<close>

definition enc_u8 :: "u8 \<Rightarrow> string" where
  "enc_u8 v = le_bytes 1 (unat v)"

definition enc_u16 :: "u16 \<Rightarrow> string" where
  "enc_u16 v = le_bytes 2 (unat v)"

definition enc_u32 :: "u32 \<Rightarrow> string" where
  "enc_u32 v = le_bytes 4 (unat v)"

definition enc_u64 :: "u64 \<Rightarrow> string" where
  "enc_u64 v = le_bytes 8 (unat v)"

definition enc_bool :: "bool \<Rightarrow> string" where
  "enc_bool v = le_bytes 1 (if v then 1 else 0)"

definition enc_string :: "string \<Rightarrow> string" where
  "enc_string str = enc_u32 (word_of_nat (length str)) @ str"

text \<open>The loop over a vector counts in \<open>uint32_t\<close> up to the narrowed size.\<close>

definition enc_vector :: "('a \<Rightarrow> string) \<Rightarrow> 'a list \<Rightarrow> string" where
  "enc_vector e src =
     (let vt_size = word_of_nat (length src) :: u32
      in enc_u32 vt_size @ concat (map e (take (unat vt_size) src)))"

text \<open>The loop over a map walks its iterator to the end.\<close>

definition enc_omap :: "('k \<Rightarrow> string) \<Rightarrow> ('v \<Rightarrow> string) \<Rightarrow> ('k, 'v) omap \<Rightarrow> string" where
  "enc_omap ek ev src =
     enc_u32 (word_of_nat (length src)) @ concat (map (\<lambda>(k, v). ek k @ ev v) src)"

text \<open>\<open>operator<<(option_t<T>&)\<close>: an unset option writes nothing at all.\<close>

definition enc_option :: "('a \<Rightarrow> string) \<Rightarrow> 'a option \<Rightarrow> string" where
  "enc_option e dest = (case dest of None \<Rightarrow> [] | Some x \<Rightarrow> e x)"

subsection \<open>The contract of a wire format\<close>

text \<open>
  What a reader relies on: what was written is read back and the bytes after it are left alone; a
  successful read depends only on the bytes it consumed; and a value that was cut off anywhere is
  refused with the size error, never read as something else.
\<close>

lemma strict_prefix_append_same [simp]: "strict_prefix (xs @ ys) (xs @ zs) \<longleftrightarrow> strict_prefix ys zs"
  by (simp add: strict_prefix_def)

locale wire =
  fixes enc :: "'a \<Rightarrow> string"
    and dec :: "'a decoder"
    and wf :: "'a \<Rightarrow> bool"
  assumes dec_enc: "wf x \<Longrightarrow> dec (enc x @ rest) = Inr (x, rest)"
    and dec_used: "dec s = Inr (x, rest) \<Longrightarrow> \<exists>used. s = used @ rest \<and> (\<forall>r. dec (used @ r) = Inr (x, r))"
    and dec_short: "wf x \<Longrightarrow> strict_prefix p (enc x) \<Longrightarrow> dec p = Inl size_error"
begin

lemma enc_inj: "wf x \<Longrightarrow> wf y \<Longrightarrow> enc x = enc y \<Longrightarrow> x = y"
  using dec_enc [of x "[]"] dec_enc [of y "[]"] by simp

lemma enc_prefix_free: "wf x \<Longrightarrow> wf y \<Longrightarrow> enc x @ r = enc y @ r' \<Longrightarrow> x = y \<and> r = r'"
  by (metis Inr_inject dec_enc prod.inject)

text \<open>A prefix of a value and more is a cut value, or the value and a prefix of the rest.\<close>

lemma dec_prefix:
  assumes "wf x" "prefix p (enc x @ r)"
  shows "dec p = Inl size_error \<and> strict_prefix p (enc x) \<or>
    (\<exists>p'. p = enc x @ p' \<and> prefix p' r \<and> dec p = Inr (x, p'))"
proof (cases "strict_prefix p (enc x)")
  case True
  with assms(1) show ?thesis by (simp add: dec_short)
next
  case False
  with assms(2) obtain p' where "p = enc x @ p'" "prefix p' r"
    by (auto simp: prefix_append strict_prefix_def)
  with assms(1) show ?thesis by (simp add: dec_enc)
qed

text \<open>Vectors of such values, from an empty destination.\<close>

lemma dec_elems_enc:
  "\<forall>x \<in> set xs. wf x \<Longrightarrow>
    dec_elems dec (length xs) dest (concat (map enc xs) @ rest) = Inr (dest @ xs, rest)"
  by (induction xs arbitrary: dest) (auto simp: dec_enc)

lemma dec_elems_used:
  "dec_elems dec n dest s = Inr (ys, rest) \<Longrightarrow>
    \<exists>used. s = used @ rest \<and> (\<forall>r. dec_elems dec n dest (used @ r) = Inr (ys, r))"
proof (induction n arbitrary: dest s)
  case (Suc n)
  then obtain x r where d: "dec s = Inr (x, r)" and e: "dec_elems dec n (dest @ [x]) r = Inr (ys, rest)"
    by (auto split: sum.splits)
  from dec_used [OF d] obtain u where u: "s = u @ r" "\<forall>r. dec (u @ r) = Inr (x, r)" by blast
  from Suc.IH [OF e] obtain v where "r = v @ rest" "\<forall>r. dec_elems dec n (dest @ [x]) (v @ r) = Inr (ys, r)"
    by blast
  with u show ?case by (intro exI [of _ "u @ v"]) simp
qed simp

lemma dec_elems_short:
  "\<forall>x \<in> set xs. wf x \<Longrightarrow> strict_prefix p (concat (map enc xs)) \<Longrightarrow>
    dec_elems dec (length xs) dest p = Inl size_error"
proof (induction xs arbitrary: dest p)
  case (Cons x xs)
  then have "prefix p (enc x @ concat (map enc xs))" and x: "wf x" by (auto simp: strict_prefix_def)
  from dec_prefix [OF x this(1)] show ?case
  proof
    assume "\<exists>p'. p = enc x @ p' \<and> prefix p' (concat (map enc xs)) \<and> dec p = Inr (x, p')"
    then obtain p' where p: "p = enc x @ p'" "dec p = Inr (x, p')" by blast
    then have "strict_prefix p' (concat (map enc xs))" using Cons.prems(2) by auto
    with Cons p show ?thesis by simp
  qed simp
qed simp

end

text \<open>The formats that copy a fixed number of bytes.\<close>

lemma wire_raw:
  assumes "\<And>x. length (e x) = n" "\<And>x. f (e x) = x"
    and "\<And>s. d s = dec_map_result f (copy_raw n) s"
  shows "wire e d (\<lambda>_. True)"
proof
  fix x rest
  show "d (e x @ rest) = Inr (x, rest)"
    using assms by (simp add: dec_map_result_def copy_raw_def)
next
  fix s x rest
  assume "d s = Inr (x, rest)"
  then have "s = take n s @ rest" "length (take n s) = n" "x = f (take n s)"
    using assms(3) by (auto simp: dec_map_result_def copy_raw_def split: if_splits)
  moreover from this have "d (take n s @ r) = Inr (x, r)" for r
    using assms(3) [of "take n s @ r"] by (simp add: dec_map_result_def copy_raw_def)
  ultimately show "\<exists>used. s = used @ rest \<and> (\<forall>r. d (used @ r) = Inr (x, r))" by blast
next
  fix x p
  assume "strict_prefix p (e x)"
  then have "length p < n" using assms(1) by (metis prefix_length_less)
  then show "d p = Inl size_error"
    using assms(3) by (simp add: dec_map_result_def copy_raw_def)
qed

interpretation u8w: wire enc_u8 dec_u8 "\<lambda>_. True"
  by (rule wire_raw [of _ 1 "\<lambda>b. word_of_nat (le_nat b)"])
    (simp_all add: enc_u8_def dec_u8_def)

interpretation u16w: wire enc_u16 dec_u16 "\<lambda>_. True"
  by (rule wire_raw [of _ 2 "\<lambda>b. word_of_nat (le_nat b)"])
    (simp_all add: enc_u16_def dec_u16_def)

interpretation u32w: wire enc_u32 dec_u32 "\<lambda>_. True"
  by (rule wire_raw [of _ 4 "\<lambda>b. word_of_nat (le_nat b)"])
    (simp_all add: enc_u32_def dec_u32_def)

interpretation u64w: wire enc_u64 dec_u64 "\<lambda>_. True"
  by (rule wire_raw [of _ 8 "\<lambda>b. word_of_nat (le_nat b)"])
    (simp_all add: enc_u64_def dec_u64_def)

interpretation boolw: wire enc_bool dec_bool "\<lambda>_. True"
  by (rule wire_raw [of _ 1 "\<lambda>b. le_nat b \<noteq> 0"])
    (simp_all add: enc_bool_def dec_bool_def)

text \<open>Two values one after the other, as a chain of two operators reads and writes them.\<close>

definition dec_pair :: "'a decoder \<Rightarrow> 'b decoder \<Rightarrow> ('a \<times> 'b) decoder" where
  "dec_pair d1 d2 s =
     (case d1 s of Inl e \<Rightarrow> Inl e
      | Inr (x, r) \<Rightarrow> (case d2 r of Inl e \<Rightarrow> Inl e | Inr (y, r') \<Rightarrow> Inr ((x, y), r')))"

lemma wire_pair:
  assumes "wire e1 d1 w1" "wire e2 d2 w2"
  shows "wire (\<lambda>(x, y). e1 x @ e2 y) (dec_pair d1 d2) (\<lambda>(x, y). w1 x \<and> w2 y)"
proof
  fix x :: "'a \<times> 'b" and rest
  assume "case x of (x, y) \<Rightarrow> w1 x \<and> w2 y"
  then show "dec_pair d1 d2 ((case x of (x, y) \<Rightarrow> e1 x @ e2 y) @ rest) = Inr (x, rest)"
    using wire.dec_enc [OF assms(1)] wire.dec_enc [OF assms(2)]
    by (auto simp: dec_pair_def split: prod.splits)
next
  fix s rest and x :: "'a \<times> 'b"
  assume "dec_pair d1 d2 s = Inr (x, rest)"
  then obtain a b r where x: "x = (a, b)" "d1 s = Inr (a, r)" "d2 r = Inr (b, rest)"
    by (auto simp: dec_pair_def split: sum.splits)
  from wire.dec_used [OF assms(1) x(2)] obtain u where "s = u @ r" "\<forall>r. d1 (u @ r) = Inr (a, r)" by blast
  moreover from wire.dec_used [OF assms(2) x(3)] obtain v where
    "r = v @ rest" "\<forall>r. d2 (v @ r) = Inr (b, r)" by blast
  ultimately show "\<exists>used. s = used @ rest \<and> (\<forall>r. dec_pair d1 d2 (used @ r) = Inr (x, r))"
    by (intro exI [of _ "u @ v"]) (simp add: dec_pair_def x)
next
  fix p and x :: "'a \<times> 'b"
  assume w: "case x of (x, y) \<Rightarrow> w1 x \<and> w2 y" and p: "strict_prefix p (case x of (x, y) \<Rightarrow> e1 x @ e2 y)"
  obtain a b where x: "x = (a, b)" by (cases x)
  have "prefix p (e1 a @ e2 b)" "w1 a" using w p by (auto simp: x strict_prefix_def)
  from wire.dec_prefix [OF assms(1) this(2,1)] show "dec_pair d1 d2 p = Inl size_error"
  proof
    assume "\<exists>p'. p = e1 a @ p' \<and> prefix p' (e2 b) \<and> d1 p = Inr (a, p')"
    then obtain p' where p': "p = e1 a @ p'" "d1 p = Inr (a, p')" by blast
    then have "strict_prefix p' (e2 b)" using p by (auto simp: x)
    then have "d2 p' = Inl size_error" using wire.dec_short [OF assms(2), of b] w by (simp add: x)
    then show ?thesis using p' by (simp add: dec_pair_def x)
  qed (simp add: dec_pair_def)
qed

text \<open>A format whose length is announced by a 32-bit count, read by a loop \<open>body\<close>.\<close>

lemma wire_counted:
  assumes enc: "\<And>x. ok x \<Longrightarrow> e x = enc_u32 (word_of_nat (n x)) @ b x \<and> n x < 2 ^ 32"
    and dec: "\<And>s. d s = (case dec_u32 s of Inl err \<Rightarrow> Inl err | Inr (k, r) \<Rightarrow> body (unat k) r)"
    and body_enc: "\<And>x rest. ok x \<Longrightarrow> body (n x) (b x @ rest) = Inr (x, rest)"
    and body_used: "\<And>k s x rest. body k s = Inr (x, rest) \<Longrightarrow>
      \<exists>used. s = used @ rest \<and> (\<forall>r. body k (used @ r) = Inr (x, r))"
    and body_short: "\<And>x p. ok x \<Longrightarrow> strict_prefix p (b x) \<Longrightarrow> body (n x) p = Inl size_error"
  shows "wire e d ok"
proof
  fix x rest
  assume "ok x"
  then show "d (e x @ rest) = Inr (x, rest)"
    using enc [of x] body_enc [of x] by (simp add: dec u32w.dec_enc unat_u32_of_nat)
next
  fix s x rest
  assume "d s = Inr (x, rest)"
  then obtain k r where k: "dec_u32 s = Inr (k, r)" "body (unat k) r = Inr (x, rest)"
    by (auto simp: dec split: sum.splits)
  from u32w.dec_used [OF k(1)] obtain u where "s = u @ r" "\<forall>r. dec_u32 (u @ r) = Inr (k, r)" by blast
  moreover from body_used [OF k(2)] obtain v where
    "r = v @ rest" "\<forall>r. body (unat k) (v @ r) = Inr (x, r)" by blast
  ultimately show "\<exists>used. s = used @ rest \<and> (\<forall>r. d (used @ r) = Inr (x, r))"
    by (intro exI [of _ "u @ v"]) (simp add: dec)
next
  fix x p
  assume w: "ok x" and p: "strict_prefix p (e x)"
  then have "prefix p (enc_u32 (word_of_nat (n x)) @ b x)"
    using enc [OF w] by (metis strict_prefix_def)
  from u32w.dec_prefix [OF _ this] show "d p = Inl size_error"
  proof
    assume "\<exists>p'. p = enc_u32 (word_of_nat (n x)) @ p' \<and> prefix p' (b x) \<and> dec_u32 p = Inr (word_of_nat (n x), p')"
    then obtain p' where p': "p = enc_u32 (word_of_nat (n x)) @ p'" "dec_u32 p = Inr (word_of_nat (n x), p')"
      by blast
    then have "strict_prefix p' (b x)" using p enc [OF w] by simp
    with p' body_short [OF w] enc [OF w] show ?thesis by (simp add: dec unat_u32_of_nat)
  qed (simp_all add: dec)
qed

interpretation strw: wire enc_string dec_string "\<lambda>str. length str < 2 ^ 32"
proof (rule wire_counted [where n = length and b = "\<lambda>str. str" and body = copy_raw])
  show "\<exists>used. s = used @ rest \<and> (\<forall>r. copy_raw k (used @ r) = Inr (x, r))"
    if "copy_raw k s = Inr (x, rest)" for k s x rest
    using that by (intro exI [of _ "take k s"]) (auto simp: copy_raw_def split: if_splits)
  show "copy_raw (length x) p = Inl size_error" if "strict_prefix p x" for x p
    using prefix_length_less [OF that] by (simp add: copy_raw_def)
qed (simp_all add: enc_string_def dec_string_def copy_raw_def)

context wire
begin

lemma vector_wire:
  "wire (enc_vector enc) (dec_vector dec []) (\<lambda>xs. length xs < 2 ^ 32 \<and> (\<forall>x \<in> set xs. wf x))"
  by (rule wire_counted [where n = length and b = "\<lambda>xs. concat (map enc xs)"
        and body = "\<lambda>k. dec_elems dec k []"])
    (auto simp: enc_vector_def Let_def unat_u32_of_nat dec_vector_def dec_elems_enc dec_elems_short
      intro: dec_elems_used)

end

subsection \<open>Maps and structures on the wire\<close>

text \<open>Reading a map is reading its entries as pairs and storing them in turn.\<close>

lemma dec_elems_acc:
  "dec_elems d n acc s =
    (case dec_elems d n [] s of Inl e \<Rightarrow> Inl e | Inr (xs, r) \<Rightarrow> Inr (acc @ xs, r))"
proof (induction n arbitrary: acc s)
  case (Suc n)
  show ?case
  proof (cases "d s")
    case (Inr p)
    obtain x r where "p = (x, r)" by (cases p)
    then show ?thesis
      using Inr Suc [of "acc @ [x]" r] Suc [of "[x]" r] by (auto split: sum.splits)
  qed simp
qed simp

lemma dec_elems_count:
  "dec_elems d n dest s = Inr (xs, r) \<Longrightarrow> \<exists>new. xs = dest @ new \<and> length new = n"
  by (induction n arbitrary: dest s) (fastforce split: sum.splits)+

lemma dec_entries_elems:
  "dec_entries dk dv n dest s =
    (case dec_elems (dec_pair dk dv) n [] s of Inl e \<Rightarrow> Inl e
     | Inr (kvs, r) \<Rightarrow> Inr (fold (\<lambda>(k, v). om_put k v) kvs dest, r))"
proof (induction n arbitrary: dest s)
  case (Suc n)
  show ?case
  proof (cases "dec_pair dk dv s")
    case (Inl e)
    then show ?thesis by (auto simp: dec_pair_def split: sum.splits)
  next
    case (Inr p)
    then obtain k v r r' where "p = ((k, v), r')" "dk s = Inr (k, r)" "dv r = Inr (v, r')"
      by (auto simp: dec_pair_def split: sum.splits)
    then show ?thesis
      using Inr Suc [of "om_put k v dest" r'] dec_elems_acc [of "dec_pair dk dv" n "[(k, v)]" r']
      by (auto split: sum.splits)
  qed
qed simp

lemma fold_om_put_wf:
  assumes "om_wf m"
  shows "fold (\<lambda>(k, v). om_put k v) m [] = m"
proof (rule om_wf_ext)
  show "om_wf (fold (\<lambda>(k, v). om_put k v) m [])" using om.puts [of "[]" m] by simp
  show "map_of (fold (\<lambda>(k, v). om_put k v) m []) = map_of m"
    using om.puts [of "[]" m] om_wf_distinct [OF assms]
    by (simp add: fun_eq_iff map_of_rev_distinct split: option.splits)
qed (rule assms)

lemma omap_wire:
  assumes "wire ek dk wk" "wire ev dv wv"
  shows "wire (enc_omap ek ev) (dec_omap dk dv [])
    (\<lambda>m. om_wf m \<and> length m < 2 ^ 32 \<and> (\<forall>(k, v) \<in> set m. wk k \<and> wv v))"
proof -
  let ?e = "\<lambda>(k, v). ek k @ ev v" and ?w = "\<lambda>(k, v). wk k \<and> wv v"
  note pw = wire_pair [OF assms]
  show ?thesis
  proof (rule wire_counted [where n = length and b = "\<lambda>m. concat (map ?e m)"
        and body = "\<lambda>k. dec_entries dk dv k []"])
    fix m rest assume m: "om_wf m \<and> length m < 2 ^ 32 \<and> (\<forall>(k, v) \<in> set m. wk k \<and> wv v)"
    then have "\<forall>x \<in> set m. ?w x" by blast
    with m show "dec_entries dk dv (length m) [] (concat (map ?e m) @ rest) = Inr (m, rest)"
      by (simp add: dec_entries_elems wire.dec_elems_enc [OF pw] fold_om_put_wf)
  next
    fix k s m rest assume "dec_entries dk dv k [] s = Inr (m, rest)"
    then obtain kvs where "dec_elems (dec_pair dk dv) k [] s = Inr (kvs, rest)"
      "m = fold (\<lambda>(k, v). om_put k v) kvs []"
      by (auto simp: dec_entries_elems split: sum.splits)
    with wire.dec_elems_used [OF pw, of k "[]" s kvs rest]
    show "\<exists>used. s = used @ rest \<and> (\<forall>r. dec_entries dk dv k [] (used @ r) = Inr (m, r))"
      by (auto simp: dec_entries_elems)
  next
    fix m p assume m: "om_wf m \<and> length m < 2 ^ 32 \<and> (\<forall>(k, v) \<in> set m. wk k \<and> wv v)"
      and p: "strict_prefix p (concat (map ?e m))"
    then have "\<forall>x \<in> set m. ?w x" by blast
    then show "dec_entries dk dv (length m) [] p = Inl size_error"
      using wire.dec_elems_short [OF pw, of m p "[]"] p by (simp add: dec_entries_elems)
  qed (auto simp: enc_omap_def dec_omap_def)
qed

text \<open>\<open>push_init_data_t::id_info_t\<close>, copied whole: three 16-bit fields, 6 bytes.\<close>

record id_info_t =
  ii_sgid :: u16
  ii_sid :: u16
  ii_node_id :: u16

definition enc_id_info :: "id_info_t \<Rightarrow> string" where
  "enc_id_info i = enc_u16 (ii_sgid i) @ enc_u16 (ii_sid i) @ enc_u16 (ii_node_id i)"

definition dec_id_info :: "id_info_t decoder" where
  "dec_id_info = dec_map_result (\<lambda>b. \<lparr>ii_sgid = word_of_nat (le_nat (take 2 b)),
     ii_sid = word_of_nat (le_nat (take 2 (drop 2 b))),
     ii_node_id = word_of_nat (le_nat (drop 4 b))\<rparr>) (copy_raw 6)"

interpretation idw: wire enc_id_info dec_id_info "\<lambda>_. True"
  by (rule wire_raw [OF _ _ fun_cong [OF dec_id_info_def]])
    (simp_all add: enc_id_info_def enc_u16_def)

interpretation vec_u16w: wire "enc_vector enc_u16" "dec_vector dec_u16 []"
  "\<lambda>xs. length xs < 2 ^ 32 \<and> (\<forall>x \<in> set xs. True)"
  by (rule u16w.vector_wire)

interpretation vec_strw: wire "enc_vector enc_string" "dec_vector dec_string []"
  "\<lambda>xs. length xs < 2 ^ 32 \<and> (\<forall>x \<in> set xs. length x < 2 ^ 32)"
  by (rule strw.vector_wire)

interpretation vec_idw: wire "enc_vector enc_id_info" "dec_vector dec_id_info []"
  "\<lambda>xs. length xs < 2 ^ 32 \<and> (\<forall>x \<in> set xs. True)"
  by (rule idw.vector_wire)

interpretation map_str_u16w: wire "enc_omap enc_string enc_u16" "dec_omap dec_string dec_u16 []"
  "\<lambda>m. om_wf m \<and> length m < 2 ^ 32 \<and> (\<forall>(k, v) \<in> set m. length k < 2 ^ 32 \<and> True)"
  by (rule omap_wire [OF strw.wire_axioms u16w.wire_axioms])

lemmas wire_dec_enc = u8w.dec_enc u16w.dec_enc u32w.dec_enc u64w.dec_enc boolw.dec_enc strw.dec_enc
  idw.dec_enc vec_u16w.dec_enc vec_strw.dec_enc vec_idw.dec_enc map_str_u16w.dec_enc

lemmas wire_defs = enc_u8_def enc_u16_def enc_u32_def enc_u64_def enc_bool_def enc_string_def
  dec_u8_def dec_u16_def dec_u32_def dec_u64_def dec_bool_def dec_string_def
  dec_map_result_def copy_raw_def

subsection \<open>Properties\<close>

text \<open>
  (C32) A map is written and read back entry for entry with the following bytes untouched, and a map
  cut at any byte is refused with the decoder's size error. (The counts and lengths on the wire are
  32-bit numbers, so this is for maps and strings below that size.)
\<close>

theorem map_roundtrip:
  assumes "om_wf m" "length m < 2 ^ 32" "\<forall>k \<in> fst ` set m. length k < 2 ^ 32"
  shows "dec_omap dec_string dec_u16 [] (enc_omap enc_string enc_u16 m @ rest) = Inr (m, rest) \<and>
    (strict_prefix p (enc_omap enc_string enc_u16 m) \<longrightarrow>
      dec_omap dec_string dec_u16 [] p = Inl size_error)"
  using map_str_u16w.dec_enc [of m rest] map_str_u16w.dec_short [of m p] assms by fastforce

theorem map_roundtrip_witness:
  "dec_omap dec_string dec_u16 [] (enc_omap enc_string enc_u16 [(''a'', 1), (''b'', 2)] @ ''x'')
     = Inr ([(''a'', 1), (''b'', 2)], ''x'')"
  using map_roundtrip [of "[(''a'', 1), (''b'', 2)]" "''x''" "[]"]
  by (simp add: om_wf_def less_char_def)

text \<open>
  Decoding never looks past what it consumes and never moves backwards: when a vector of strings
  is read from any bytes at all, the rest it leaves is a suffix of them, the same result is read from
  the consumed bytes followed by anything else, the values are appended to the destination, and their
  number is the announced count.
\<close>

theorem vector_decode_local:
  assumes "dec_vector dec_string dest s = Inr (xs, rest)"
  shows "\<exists>used new. s = used @ rest \<and> xs = dest @ new \<and> 4 \<le> length used \<and>
    length new = le_nat (take 4 s) \<and>
    (\<forall>r. dec_vector dec_string dest (used @ r) = Inr (xs, r))"
proof -
  obtain k r0 where k: "dec_u32 s = Inr (k, r0)" and e: "dec_elems dec_string (unat k) dest r0 = Inr (xs, rest)"
    using assms by (auto simp: dec_vector_def split: sum.splits)
  from k have s4: "4 \<le> length s" "r0 = drop 4 s" "unat k = le_nat (take 4 s)"
    using le_nat_bound [of "take 4 s"]
    by (auto simp: dec_u32_def dec_map_result_def copy_raw_def unat_u32_of_nat min_def split: if_splits)
  from strw.dec_elems_used [OF e] obtain v where
    v: "r0 = v @ rest" "\<forall>r. dec_elems dec_string (unat k) dest (v @ r) = Inr (xs, r)" by blast
  have s: "s = (take 4 s @ v) @ rest" using s4(2) v(1) by (metis append.assoc append_take_drop_id)
  have "dec_u32 ((take 4 s @ v) @ r) = Inr (k, v @ r)" for r
    using s4 k by (simp add: dec_u32_def dec_map_result_def copy_raw_def)
  then have "dec_vector dec_string dest ((take 4 s @ v) @ r) = Inr (xs, r)" for r
    using v(2) by (simp add: dec_vector_def)
  moreover obtain new where "xs = dest @ new" "length new = unat k"
    using e dec_elems_count by blast
  ultimately show ?thesis using s s4 by (intro exI [of _ "take 4 s @ v"] exI [of _ new]) simp
qed

theorem vector_decode_local_witness:
  "\<exists>used new. enc_vector enc_string [''ab''] @ ''z'' = used @ ''z'' \<and> [''q'', ''ab''] = [''q''] @ new \<and>
    4 \<le> length used \<and> length new = le_nat (take 4 (enc_vector enc_string [''ab''] @ ''z'')) \<and>
    (\<forall>r. dec_vector dec_string [''q''] (used @ r) = Inr ([''q'', ''ab''], r))"
  by (rule vector_decode_local)
    (simp add: dec_vector_def enc_vector_def u32w.dec_enc strw.dec_enc)

end
