(* ===== verification/Msg_Store.thy ===== *)
theory Msg_Store
  imports FF_Prelude
begin

section \<open>The table of message names and ids\<close>

text \<open>
  \<open>rpc_msg_cmd_e\<close> and \<open>msg_name_store_t\<close> of \<^verbatim>\<open>net/codec.h\<close>: the process-wide table that gives every
  message name its 16-bit id. Readers take the current table with an atomic load and never lock; a
  writer copies it, changes the copy and publishes the copy, and every table ever published stays
  alive in \<open>m_data_history\<close>. A table pointer is modelled by its index in that history.
\<close>

datatype rpc_msg_cmd =
    CREATE_SERVICE_GROUP | CREATE_SERVICE_GROUP_RET | CREATE_SERVICE | CREATE_SERVICE_RET
  | REG_INTERFACE | REG_INTERFACE_RET | SYNC_ALL_SERVICE | SYNC_ALL_SERVICE_RET
  | CALL_INTERFACE | CALL_INTERFACE_RET | INTREFACE_CALLBACK | INTREFACE_CALLBACK_RE
  | PUSH_INIT_DATA | PUSH_ADD_SERVICE_GROUP | PUSH_ADD_SERVICE | PUSH_ADD_MSG | REG_SLAVE_BROKER

fun cmd_id :: "rpc_msg_cmd \<Rightarrow> u16" where
  "cmd_id CREATE_SERVICE_GROUP = 1"
| "cmd_id CREATE_SERVICE_GROUP_RET = 2"
| "cmd_id CREATE_SERVICE = 3"
| "cmd_id CREATE_SERVICE_RET = 4"
| "cmd_id REG_INTERFACE = 5"
| "cmd_id REG_INTERFACE_RET = 6"
| "cmd_id SYNC_ALL_SERVICE = 7"
| "cmd_id SYNC_ALL_SERVICE_RET = 8"
| "cmd_id CALL_INTERFACE = 9"
| "cmd_id CALL_INTERFACE_RET = 10"
| "cmd_id INTREFACE_CALLBACK = 11"
| "cmd_id INTREFACE_CALLBACK_RE = 12"
| "cmd_id PUSH_INIT_DATA = 13"
| "cmd_id PUSH_ADD_SERVICE_GROUP = 14"
| "cmd_id PUSH_ADD_SERVICE = 15"
| "cmd_id PUSH_ADD_MSG = 16"
| "cmd_id REG_SLAVE_BROKER = 17"

record data_t =
  m_null_str :: string
  m_name_to_id :: "(string, u16) omap"
  m_id_to_name :: "(u16, string) omap"

record msg_name_store_t =
  m_data :: nat
  m_data_history :: "data_t list"

definition new_data :: data_t where
  "new_data = \<lparr>m_null_str = [], m_name_to_id = [], m_id_to_name = []\<rparr>"

definition set_msg_name2id :: "string \<Rightarrow> u16 \<Rightarrow> data_t \<Rightarrow> data_t" where
  "set_msg_name2id name i data =
     data\<lparr>m_name_to_id := om_put name i (m_name_to_id data),
          m_id_to_name := om_put i name (m_id_to_name data)\<rparr>"

text \<open>The names the constructor enters, in its order.\<close>

definition builtin_names :: "(string \<times> u16) list" where
  "builtin_names = [
    (''create_service_group_t::in_t'', cmd_id CREATE_SERVICE_GROUP),
    (''create_service_group_t::out_t'', cmd_id CREATE_SERVICE_GROUP_RET),
    (''create_service_t::in_t'', cmd_id CREATE_SERVICE),
    (''create_service_t::out_t'', cmd_id CREATE_SERVICE_RET),
    (''reg_interface_t::in_t'', cmd_id REG_INTERFACE),
    (''reg_interface_t::out_t'', cmd_id REG_INTERFACE_RET),
    (''sync_all_service_t::in_t'', cmd_id SYNC_ALL_SERVICE),
    (''sync_all_service_t::out_t'', cmd_id SYNC_ALL_SERVICE_RET),
    (''push_init_data_t::in_t'', cmd_id PUSH_INIT_DATA),
    (''push_add_service_group_t::in_t'', cmd_id PUSH_ADD_SERVICE_GROUP),
    (''push_add_service_t::in_t'', cmd_id PUSH_ADD_SERVICE),
    (''push_set_msg_name2id_t::in_t'', cmd_id PUSH_ADD_MSG),
    (''reg_slave_broker_t::in_t'', cmd_id REG_SLAVE_BROKER)]"

definition new_store :: msg_name_store_t where
  "new_store = \<lparr>m_data = 0,
     m_data_history = [fold (\<lambda>(name, i). set_msg_name2id name i) builtin_names new_data]\<rparr>"

definition cur_data :: "msg_name_store_t \<Rightarrow> data_t" where
  "cur_data st = m_data_history st ! m_data st"

definition add_msg :: "string \<Rightarrow> u16 \<Rightarrow> msg_name_store_t \<Rightarrow> msg_name_store_t" where
  "add_msg name i st =
     (let pdata = cur_data st
      in if map_of (m_name_to_id pdata) name \<noteq> None then st
         else let nd = new_data\<lparr>m_name_to_id := m_name_to_id pdata, m_id_to_name := m_id_to_name pdata\<rparr>;
                  nd = set_msg_name2id name i nd
              in st\<lparr>m_data := length (m_data_history st),
                    m_data_history := m_data_history st @ [nd]\<rparr>)"

definition name_to_id :: "msg_name_store_t \<Rightarrow> string \<Rightarrow> u16" where
  "name_to_id st name = (case map_of (m_name_to_id (cur_data st)) name of Some i \<Rightarrow> i | None \<Rightarrow> 0)"

definition id_to_name :: "msg_name_store_t \<Rightarrow> u16 \<Rightarrow> string" where
  "id_to_name st i = (case map_of (m_id_to_name (cur_data st)) i of Some n \<Rightarrow> n
     | None \<Rightarrow> m_null_str (cur_data st))"

definition all_msg :: "msg_name_store_t \<Rightarrow> (string, u16) omap" where
  "all_msg st = m_name_to_id (cur_data st)"

subsection \<open>The two directions agree\<close>

definition data_wf :: "data_t \<Rightarrow> bool" where
  "data_wf d \<longleftrightarrow> m_null_str d = [] \<and> om_wf (m_name_to_id d) \<and> om_wf (m_id_to_name d) \<and>
     (\<forall>(n, i) \<in> set (m_name_to_id d). map_of (m_id_to_name d) i = Some n) \<and>
     (\<forall>(i, n) \<in> set (m_id_to_name d). map_of (m_name_to_id d) n = Some i)"

definition store_wf :: "msg_name_store_t \<Rightarrow> bool" where
  "store_wf st \<longleftrightarrow> m_data st < length (m_data_history st) \<and> (\<forall>d \<in> set (m_data_history st). data_wf d)"

lemma data_wf_inverse:
  assumes "data_wf d"
  shows "map_of (m_name_to_id d) n = Some i \<longleftrightarrow> map_of (m_id_to_name d) i = Some n"
  using assms unfolding data_wf_def by (fastforce dest: map_of_SomeD)

lemma data_wf_new [simp]: "data_wf new_data"
  by (simp add: data_wf_def new_data_def)

lemma data_wfI:
  assumes "m_null_str d = []" "om_wf (m_name_to_id d)" "om_wf (m_id_to_name d)"
    and "\<And>n i. map_of (m_name_to_id d) n = Some i \<longleftrightarrow> map_of (m_id_to_name d) i = Some n"
  shows "data_wf d"
  using assms om_wf_distinct [OF assms(2)] om_wf_distinct [OF assms(3)]
  by (auto simp: data_wf_def map_of_is_SomeI)

lemma data_wf_set:
  assumes "data_wf d" "map_of (m_name_to_id d) n = None" "map_of (m_id_to_name d) i = None"
  shows "data_wf (set_msg_name2id n i d)"
proof (rule data_wfI)
  fix n' i'
  show "map_of (m_name_to_id (set_msg_name2id n i d)) n' = Some i' \<longleftrightarrow>
      map_of (m_id_to_name (set_msg_name2id n i d)) i' = Some n'"
    using assms(2,3) data_wf_inverse [OF assms(1), of n' i']
      data_wf_inverse [OF assms(1), of n' i] data_wf_inverse [OF assms(1), of n i']
    by (auto simp: set_msg_name2id_def)
qed (use assms(1) in \<open>auto simp: set_msg_name2id_def data_wf_def\<close>)

lemma data_wf_sets:
  assumes "data_wf d" "distinct (map fst xs)" "distinct (map snd xs)"
    and "\<forall>(n, i) \<in> set xs. map_of (m_name_to_id d) n = None \<and> map_of (m_id_to_name d) i = None"
  shows "data_wf (fold (\<lambda>(n, i). set_msg_name2id n i) xs d)"
  using assms
proof (induction xs arbitrary: d)
  case (Cons x xs)
  obtain n i where x: "x = (n, i)" by (cases x)
  have "data_wf (set_msg_name2id n i d)" using Cons.prems x by (auto intro: data_wf_set)
  moreover have "\<forall>(n', i') \<in> set xs. map_of (m_name_to_id (set_msg_name2id n i d)) n' = None \<and>
      map_of (m_id_to_name (set_msg_name2id n i d)) i' = None"
    using Cons.prems x by (auto simp: set_msg_name2id_def rev_image_eqI)
  ultimately show ?case using Cons.prems x by (auto intro: Cons.IH)
qed simp

lemma store_wf_new [simp]: "store_wf new_store"
proof -
  have "data_wf (fold (\<lambda>(n, i). set_msg_name2id n i) builtin_names new_data)"
    by (rule data_wf_sets [OF data_wf_new]) (auto simp: new_data_def builtin_names_def)
  then show ?thesis by (simp add: store_wf_def new_store_def)
qed

lemma cur_data_wf: "store_wf st \<Longrightarrow> data_wf (cur_data st)"
  by (simp add: store_wf_def cur_data_def)

lemma cur_data_add_msg:
  "store_wf st \<Longrightarrow> cur_data (add_msg n i st) =
    (if map_of (m_name_to_id (cur_data st)) n \<noteq> None then cur_data st
     else set_msg_name2id n i (cur_data st))"
proof -
  assume "store_wf st"
  then have "m_null_str (cur_data st) = []" using cur_data_wf data_wf_def by blast
  then show ?thesis
    by (auto simp: add_msg_def cur_data_def Let_def set_msg_name2id_def new_data_def)
qed

lemma all_msg_add_msg:
  "all_msg (add_msg n i st) =
    (if map_of (all_msg st) n \<noteq> None then all_msg st else om_put n i (all_msg st))"
  by (simp add: all_msg_def add_msg_def cur_data_def Let_def set_msg_name2id_def new_data_def)

lemma all_msg_add_msgs:
  "map_of (all_msg (fold (\<lambda>(n, i). add_msg n i) xs st)) n =
    (case map_of (all_msg st) n of None \<Rightarrow> map_of xs n | Some i \<Rightarrow> Some i)"
  by (induction xs arbitrary: st) (auto simp: all_msg_add_msg split: option.splits if_splits)

lemma m_data_add_msg_less:
  "m_data st < length (m_data_history st) \<Longrightarrow>
    m_data (add_msg n i st) < length (m_data_history (add_msg n i st))"
  by (simp add: add_msg_def Let_def)

lemma name_to_id_all_msg: "name_to_id st n = (case map_of (all_msg st) n of Some i \<Rightarrow> i | None \<Rightarrow> 0)"
  by (simp add: name_to_id_def all_msg_def)

text \<open>
  A published table is never changed: a call of \<open>add_msg\<close> leaves every table of the history as
  it was, so a reader that has loaded a table pointer keeps reading the same answers, and what the
  new current table says of a name that was known does not change either (the first id wins).
\<close>

theorem add_msg_snapshot:
  "take (length (m_data_history st)) (m_data_history (add_msg n i st)) = m_data_history st \<and>
   (map_of (all_msg st) n' = Some j \<longrightarrow>
     name_to_id (add_msg n i st) n' = j \<and> map_of (all_msg (add_msg n i st)) n' = Some j)"
  by (auto simp: name_to_id_all_msg all_msg_add_msg) (simp_all add: add_msg_def Let_def)

theorem add_msg_snapshot_witness:
  "name_to_id (add_msg ''reg_interface_t::in_t'' 200 new_store) ''reg_interface_t::in_t'' = 5"
proof -
  have "map_of (all_msg new_store) ''reg_interface_t::in_t'' = Some 5"
    by (simp add: all_msg_def cur_data_def new_store_def builtin_names_def set_msg_name2id_def)
  then show ?thesis
    using add_msg_snapshot [of new_store "''reg_interface_t::in_t''" 200 "''reg_interface_t::in_t''" 5]
    by simp
qed

lemma add_msg_store_wf:
  assumes "store_wf st" "map_of (m_name_to_id (cur_data st)) n = None"
    and "map_of (m_id_to_name (cur_data st)) i = None"
  shows "store_wf (add_msg n i st)"
proof -
  let ?st = "add_msg n i st"
  have "data_wf (cur_data ?st)"
    using assms cur_data_wf by (simp add: cur_data_add_msg data_wf_set)
  moreover have "set (m_data_history ?st) = insert (cur_data ?st) (set (m_data_history st))"
    using assms(2) by (auto simp: add_msg_def Let_def cur_data_def)
  moreover have "m_data ?st < length (m_data_history ?st)"
    using assms(1) m_data_add_msg_less by (simp add: store_wf_def)
  ultimately show ?thesis using assms(1) by (simp add: store_wf_def)
qed

text \<open>
  With an id that no name has yet, \<open>add_msg\<close> keeps the two directions of the table inverse to
  each other, gives a new name that id in both directions and leaves all other names and ids alone.
\<close>

theorem add_msg_inverse:
  assumes "store_wf st" "map_of (m_name_to_id (cur_data st)) n = None"
    and "map_of (m_id_to_name (cur_data st)) i = None"
  shows "store_wf (add_msg n i st) \<and> name_to_id (add_msg n i st) n = i \<and> id_to_name (add_msg n i st) i = n \<and>
    (\<forall>m. m \<noteq> n \<longrightarrow> name_to_id (add_msg n i st) m = name_to_id st m) \<and>
    (\<forall>j. j \<noteq> i \<longrightarrow> id_to_name (add_msg n i st) j = id_to_name st j)"
proof -
  have d: "cur_data (add_msg n i st) = set_msg_name2id n i (cur_data st)"
    using assms by (simp add: cur_data_add_msg)
  show ?thesis
    using add_msg_store_wf [OF assms]
    by (auto simp: name_to_id_def id_to_name_def d set_msg_name2id_def split: option.splits)
qed

theorem add_msg_inverse_witness:
  "id_to_name (add_msg ''echo_t::in_t'' 101 new_store) 101 = ''echo_t::in_t''"
proof -
  have "map_of (m_name_to_id (cur_data new_store)) ''echo_t::in_t'' = None"
    "map_of (m_id_to_name (cur_data new_store)) 101 = None"
    by (simp_all add: cur_data_def new_store_def builtin_names_def set_msg_name2id_def new_data_def)
  then show ?thesis
    using add_msg_inverse [of new_store "''echo_t::in_t''" 101] by simp
qed

text \<open>
  The constructor enters \<open>PUSH_ADD_MSG\<close> under a name no message has: the table starts without
  the name \<open>push_add_msg_t::in_t\<close>, so a message of that type is sent with the id 0, while every
  other built-in message finds its id.
\<close>

theorem push_add_msg_unregistered:
  "name_to_id new_store ''push_add_msg_t::in_t'' = 0 \<and>
   id_to_name new_store (cmd_id PUSH_ADD_MSG) \<noteq> ''push_add_msg_t::in_t'' \<and>
   name_to_id new_store ''push_add_service_t::in_t'' = cmd_id PUSH_ADD_SERVICE \<and>
   name_to_id new_store ''push_add_service_group_t::in_t'' = cmd_id PUSH_ADD_SERVICE_GROUP \<and>
   name_to_id new_store ''push_init_data_t::in_t'' = cmd_id PUSH_INIT_DATA \<and>
   name_to_id new_store ''reg_slave_broker_t::in_t'' = cmd_id REG_SLAVE_BROKER"
  by (simp add: name_to_id_def id_to_name_def cur_data_def new_store_def builtin_names_def
      set_msg_name2id_def new_data_def)

end
