(* ===== verification/Rpc_Msg.thy ===== *)
theory Rpc_Msg
  imports Codec Msg_Store
begin

section \<open>The messages of the RPC layer\<close>

text \<open>
  \<open>msg_i\<close> and the message structures of \<^verbatim>\<open>net/codec.h\<close>, one record per structure and one definition
  per \<open>encode\<close> and \<open>decode\<close>. A message owns its encoder: \<open>m_dest_buff\<close> is the field \<open>encoder\<close>, and
  since \<open>bin_encoder_t::init\<close> does not clear it, \<open>encode\<close> returns the changed message beside the
  bytes. Decoding reads field after field; when it throws, the fields read before keep their new
  values, which is the second component of \<open>Throw\<close>: the callback wrappers of the RPC layer swallow the
  exception and go on with that message.
\<close>

subsection \<open>The common head\<close>

record msg_i =
  cmd :: u16
  uuid :: u32
  service_group_id :: u16
  service_id :: u16
  msg_id :: u16
  msg_name :: string
  encoder :: string
  encode_name :: bool

definition msg_i_set :: "u16 \<Rightarrow> u16 \<Rightarrow> u32 \<Rightarrow> u16 \<Rightarrow> 'a msg_i_scheme \<Rightarrow> 'a msg_i_scheme" where
  "msg_i_set group_id i uu mid m =
     m\<lparr>service_group_id := group_id, service_id := i, uuid := uu, msg_id := mid\<rparr>"

text \<open>\<open>get_name\<close> asks the process-wide table when the message does not carry its name.\<close>

definition get_name :: "msg_name_store_t \<Rightarrow> 'a msg_i_scheme \<Rightarrow> string" where
  "get_name st m = (if msg_name m \<noteq> [] then msg_name m else id_to_name st (msg_id m))"

definition set_gate :: "'a msg_i_scheme \<Rightarrow> 'a msg_i_scheme" where
  "set_gate m = m\<lparr>encode_name := True\<rparr>"

text \<open>What \<open>operator<<\<close> on the message's encoder does.\<close>

definition put_enc :: "string \<Rightarrow> 'a msg_i_scheme \<Rightarrow> 'a msg_i_scheme" where
  "put_enc b m = m\<lparr>encoder := encoder m @ b\<rparr>"

definition init_encoder :: "'a msg_i_scheme \<Rightarrow> 'a msg_i_scheme" where
  "init_encoder m =
     (if \<not> encode_name m
      then put_enc (enc_u32 (uuid m) @ enc_u16 (service_group_id m) @ enc_u16 (service_id m) @
                    enc_u16 (msg_id m)) m
      else put_enc (enc_string (msg_name m)) m)"

datatype 'm dres = Ok 'm string | Throw exn 'm

text \<open>\<open>dec >> m.field\<close>.\<close>

definition dec_into :: "'a decoder \<Rightarrow> ('a \<Rightarrow> 'm \<Rightarrow> 'm) \<Rightarrow> 'm dres \<Rightarrow> 'm dres" where
  "dec_into d upd r = (case r of Throw e m \<Rightarrow> Throw e m
     | Ok m s \<Rightarrow> (case d s of Inl e \<Rightarrow> Throw e m | Inr (v, s') \<Rightarrow> Ok (upd v m) s'))"

text \<open>
  \<open>dec >> m.vector_field\<close>: the elements go behind those the vector has. The loop of
  \<open>operator>>(vector<T>&)\<close> pushes into the destination, which keeps them when a later element throws.
\<close>

fun dec_pushes :: "'a decoder \<Rightarrow> nat \<Rightarrow> 'a list \<Rightarrow> string \<Rightarrow> 'a list dres" where
  "dec_pushes d 0 dest s = Ok dest s"
| "dec_pushes d (Suc n) dest s =
     (case d s of Inl e \<Rightarrow> Throw e dest | Inr (tmp, r) \<Rightarrow> dec_pushes d n (dest @ [tmp]) r)"

definition dec_push :: "'a decoder \<Rightarrow> ('m \<Rightarrow> 'a list) \<Rightarrow> ('a list \<Rightarrow> 'm \<Rightarrow> 'm) \<Rightarrow> 'm dres \<Rightarrow> 'm dres" where
  "dec_push d get upd r = (case r of Throw e m \<Rightarrow> Throw e m
     | Ok m s \<Rightarrow> (case dec_u32 s of Inl e \<Rightarrow> Throw e m
       | Inr (vt_size, s1) \<Rightarrow> (case dec_pushes d (unat vt_size) (get m) s1 of
             Throw e v \<Rightarrow> Throw e (upd v m) | Ok v s' \<Rightarrow> Ok (upd v m) s')))"

definition init_decoder :: "string \<Rightarrow> 'a msg_i_scheme \<Rightarrow> 'a msg_i_scheme dres" where
  "init_decoder buff m =
     dec_into dec_u16 (\<lambda>v m. m\<lparr>msg_id := v\<rparr>)
       (dec_into dec_u16 (\<lambda>v m. m\<lparr>service_id := v\<rparr>)
         (dec_into dec_u16 (\<lambda>v m. m\<lparr>service_group_id := v\<rparr>)
           (dec_into dec_u32 (\<lambda>v m. m\<lparr>uuid := v\<rparr>) (Ok m buff))))"

text \<open>\<open>return (\<dots>).get_buff()\<close>: the message with the extended encoder, and the whole buffer.\<close>

definition get_buff :: "'a msg_i_scheme \<Rightarrow> 'a msg_i_scheme \<times> string" where
  "get_buff m = (m, encoder m)"

subsection \<open>The message structures\<close>

definition encode_base_msg :: "'a msg_i_scheme \<Rightarrow> 'a msg_i_scheme \<times> string" where
  "encode_base_msg m = get_buff (init_encoder m)"

definition decode_base_msg :: "string \<Rightarrow> 'a msg_i_scheme \<Rightarrow> 'a msg_i_scheme dres" where
  "decode_base_msg s m = init_decoder s m"

record bool_ret_msg_t = msg_i +
  ret_value :: bool

definition encode_bool_ret :: "bool_ret_msg_t \<Rightarrow> bool_ret_msg_t \<times> string" where
  "encode_bool_ret m = get_buff (put_enc (enc_bool (ret_value m)) (init_encoder m))"

definition decode_bool_ret :: "string \<Rightarrow> bool_ret_msg_t \<Rightarrow> bool_ret_msg_t dres" where
  "decode_bool_ret s m = dec_into dec_bool (\<lambda>v m. m\<lparr>ret_value := v\<rparr>) (init_decoder s m)"

record create_service_group_in = msg_i +
  service_name :: string

definition encode_csg_in :: "create_service_group_in \<Rightarrow> create_service_group_in \<times> string" where
  "encode_csg_in m =
     get_buff (put_enc (enc_string (service_name m)) (init_encoder m))"

definition decode_csg_in :: "string \<Rightarrow> create_service_group_in \<Rightarrow> create_service_group_in dres" where
  "decode_csg_in s m =
     dec_into dec_string (\<lambda>v m. m\<lparr>service_name := v\<rparr>)
       (init_decoder s m)"

record create_service_group_out = msg_i +
  out_service_id :: u16

definition encode_csg_out :: "create_service_group_out \<Rightarrow> create_service_group_out \<times> string" where
  "encode_csg_out m =
     get_buff (put_enc (enc_u16 (out_service_id m)) (init_encoder m))"

definition decode_csg_out :: "string \<Rightarrow> create_service_group_out \<Rightarrow> create_service_group_out dres" where
  "decode_csg_out s m =
     dec_into dec_u16 (\<lambda>v m. m\<lparr>out_service_id := v\<rparr>)
       (init_decoder s m)"

record create_service_in = msg_i +
  new_service_group_id :: u16
  new_service_id :: u16

definition encode_cs_in :: "create_service_in \<Rightarrow> create_service_in \<times> string" where
  "encode_cs_in m =
     get_buff (put_enc (enc_u16 (new_service_group_id m) @
       enc_u16 (new_service_id m)) (init_encoder m))"

definition decode_cs_in :: "string \<Rightarrow> create_service_in \<Rightarrow> create_service_in dres" where
  "decode_cs_in s m =
     dec_into dec_u16 (\<lambda>v m. m\<lparr>new_service_id := v\<rparr>)
       (dec_into dec_u16 (\<lambda>v m. m\<lparr>new_service_group_id := v\<rparr>)
       (init_decoder s m))"

record reg_interface_in = msg_i +
  ri_sgid :: u16
  ri_sid :: u16
  in_msg_name :: string
  out_msg_name :: string

definition encode_ri_in :: "reg_interface_in \<Rightarrow> reg_interface_in \<times> string" where
  "encode_ri_in m =
     get_buff (put_enc (enc_u16 (ri_sgid m) @
       enc_u16 (ri_sid m) @
       enc_string (in_msg_name m) @
       enc_string (out_msg_name m)) (init_encoder m))"

definition decode_ri_in :: "string \<Rightarrow> reg_interface_in \<Rightarrow> reg_interface_in dres" where
  "decode_ri_in s m =
     dec_into dec_string (\<lambda>v m. m\<lparr>out_msg_name := v\<rparr>)
       (dec_into dec_string (\<lambda>v m. m\<lparr>in_msg_name := v\<rparr>)
       (dec_into dec_u16 (\<lambda>v m. m\<lparr>ri_sid := v\<rparr>)
       (dec_into dec_u16 (\<lambda>v m. m\<lparr>ri_sgid := v\<rparr>)
       (init_decoder s m))))"

record reg_interface_out = msg_i +
  alloc_id :: u16
  out_alloc_id :: u16

definition encode_ri_out :: "reg_interface_out \<Rightarrow> reg_interface_out \<times> string" where
  "encode_ri_out m =
     get_buff (put_enc (enc_u16 (alloc_id m) @
       enc_u16 (out_alloc_id m)) (init_encoder m))"

definition decode_ri_out :: "string \<Rightarrow> reg_interface_out \<Rightarrow> reg_interface_out dres" where
  "decode_ri_out s m =
     dec_into dec_u16 (\<lambda>v m. m\<lparr>out_alloc_id := v\<rparr>)
       (dec_into dec_u16 (\<lambda>v m. m\<lparr>alloc_id := v\<rparr>)
       (init_decoder s m))"

record sync_all_service_in = msg_i +
  slave_host :: string

definition encode_sas_in :: "sync_all_service_in \<Rightarrow> sync_all_service_in \<times> string" where
  "encode_sas_in m =
     get_buff (put_enc (enc_string (slave_host m)) (init_encoder m))"

definition decode_sas_in :: "string \<Rightarrow> sync_all_service_in \<Rightarrow> sync_all_service_in dres" where
  "decode_sas_in s m =
     dec_into dec_string (\<lambda>v m. m\<lparr>slave_host := v\<rparr>)
       (init_decoder s m)"

record push_init_data_in = msg_i +
  group_name_vt :: "string list"
  group_id_vt :: "u16 list"
  id_info_vt :: "id_info_t list"
  msg_name_vt :: "string list"
  msg_id_vt :: "u16 list"
  pi_node_id :: u32
  bind_id :: u32
  broker_slave_host :: "string list"

definition encode_pid_in :: "push_init_data_in \<Rightarrow> push_init_data_in \<times> string" where
  "encode_pid_in m =
     get_buff (put_enc (enc_vector enc_string (group_name_vt m) @
       enc_vector enc_u16 (group_id_vt m) @
       enc_vector enc_id_info (id_info_vt m) @
       enc_vector enc_string (msg_name_vt m) @
       enc_vector enc_u16 (msg_id_vt m) @
       enc_u32 (pi_node_id m) @
       enc_u32 (bind_id m) @
       enc_vector enc_string (broker_slave_host m)) (init_encoder m))"

definition decode_pid_in :: "string \<Rightarrow> push_init_data_in \<Rightarrow> push_init_data_in dres" where
  "decode_pid_in s m =
     dec_push dec_string broker_slave_host (\<lambda>v m. m\<lparr>broker_slave_host := v\<rparr>)
       (dec_into dec_u32 (\<lambda>v m. m\<lparr>bind_id := v\<rparr>)
       (dec_into dec_u32 (\<lambda>v m. m\<lparr>pi_node_id := v\<rparr>)
       (dec_push dec_u16 msg_id_vt (\<lambda>v m. m\<lparr>msg_id_vt := v\<rparr>)
       (dec_push dec_string msg_name_vt (\<lambda>v m. m\<lparr>msg_name_vt := v\<rparr>)
       (dec_push dec_id_info id_info_vt (\<lambda>v m. m\<lparr>id_info_vt := v\<rparr>)
       (dec_push dec_u16 group_id_vt (\<lambda>v m. m\<lparr>group_id_vt := v\<rparr>)
       (dec_push dec_string group_name_vt (\<lambda>v m. m\<lparr>group_name_vt := v\<rparr>)
       (init_decoder s m))))))))"

record push_add_service_group_in = msg_i +
  pg_name :: string
  pg_sgid :: u16

definition encode_pasg_in :: "push_add_service_group_in \<Rightarrow> push_add_service_group_in \<times> string" where
  "encode_pasg_in m =
     get_buff (put_enc (enc_string (pg_name m) @
       enc_u16 (pg_sgid m)) (init_encoder m))"

definition decode_pasg_in :: "string \<Rightarrow> push_add_service_group_in \<Rightarrow> push_add_service_group_in dres" where
  "decode_pasg_in s m =
     dec_into dec_u16 (\<lambda>v m. m\<lparr>pg_sgid := v\<rparr>)
       (dec_into dec_string (\<lambda>v m. m\<lparr>pg_name := v\<rparr>)
       (init_decoder s m))"

record push_add_service_in = msg_i +
  pa_sgid :: u16
  pa_sid :: u16
  pa_node_id :: u16

definition encode_pas_in :: "push_add_service_in \<Rightarrow> push_add_service_in \<times> string" where
  "encode_pas_in m =
     get_buff (put_enc (enc_u16 (pa_sgid m) @
       enc_u16 (pa_sid m) @
       enc_u16 (pa_node_id m)) (init_encoder m))"

definition decode_pas_in :: "string \<Rightarrow> push_add_service_in \<Rightarrow> push_add_service_in dres" where
  "decode_pas_in s m =
     dec_into dec_u16 (\<lambda>v m. m\<lparr>pa_node_id := v\<rparr>)
       (dec_into dec_u16 (\<lambda>v m. m\<lparr>pa_sid := v\<rparr>)
       (dec_into dec_u16 (\<lambda>v m. m\<lparr>pa_sgid := v\<rparr>)
       (init_decoder s m)))"

record push_add_msg_in = msg_i +
  pm_name :: string
  pm_msg_id :: u16

definition encode_pam_in :: "push_add_msg_in \<Rightarrow> push_add_msg_in \<times> string" where
  "encode_pam_in m =
     get_buff (put_enc (enc_string (pm_name m) @
       enc_u16 (pm_msg_id m)) (init_encoder m))"

definition decode_pam_in :: "string \<Rightarrow> push_add_msg_in \<Rightarrow> push_add_msg_in dres" where
  "decode_pam_in s m =
     dec_into dec_u16 (\<lambda>v m. m\<lparr>pm_msg_id := v\<rparr>)
       (dec_into dec_string (\<lambda>v m. m\<lparr>pm_name := v\<rparr>)
       (init_decoder s m))"

record reg_slave_broker_in = msg_i +
  rb_node_id :: u16

definition encode_rsb_in :: "reg_slave_broker_in \<Rightarrow> reg_slave_broker_in \<times> string" where
  "encode_rsb_in m =
     get_buff (put_enc (enc_u16 (rb_node_id m)) (init_encoder m))"

definition decode_rsb_in :: "string \<Rightarrow> reg_slave_broker_in \<Rightarrow> reg_slave_broker_in dres" where
  "decode_rsb_in s m =
     dec_into dec_u16 (\<lambda>v m. m\<lparr>rb_node_id := v\<rparr>)
       (init_decoder s m)"

subsection \<open>The constructors\<close>

text \<open>
  Each structure hands its name to \<open>msg_i(const char*)\<close>. Integer fields that a constructor leaves
  uninitialised are 0 here; the code assigns or decodes them before it reads them.
\<close>

definition new_msg_i :: "string \<Rightarrow> msg_i" where
  "new_msg_i name = \<lparr>cmd = 0, uuid = 0, service_group_id = 0, service_id = 0, msg_id = 0,
     msg_name = name, encoder = [], encode_name = False\<rparr>"

definition new_bool_ret :: "string \<Rightarrow> bool_ret_msg_t" where
  "new_bool_ret name = msg_i.extend (new_msg_i name) (bool_ret_msg_t.fields False)"

text \<open>\<open>msg_tool_t\<close>.\<close>

definition new_msg_tool :: msg_i where
  "new_msg_tool = new_msg_i []"

definition new_csg_in :: create_service_group_in where
  "new_csg_in = msg_i.extend (new_msg_i ''create_service_group_t::in_t'') (create_service_group_in.fields [])"

definition new_csg_out :: create_service_group_out where
  "new_csg_out = msg_i.extend (new_msg_i ''create_service_group_t::out_t'') (create_service_group_out.fields 0)"

definition new_cs_in :: create_service_in where
  "new_cs_in = msg_i.extend (new_msg_i ''create_service_t::in_t'') (create_service_in.fields 0 0)"

definition new_cs_out :: bool_ret_msg_t where
  "new_cs_out = new_bool_ret ''create_service_group_t::out_t''"

definition new_ri_in :: reg_interface_in where
  "new_ri_in = msg_i.extend (new_msg_i ''reg_interface_t::in_t'') (reg_interface_in.fields 0 0 [] [])"

definition new_ri_out :: reg_interface_out where
  "new_ri_out = msg_i.extend (new_msg_i ''reg_interface_t::out_t'') (reg_interface_out.fields 0 0)"

definition new_sas_in :: sync_all_service_in where
  "new_sas_in = msg_i.extend (new_msg_i ''sync_all_service_t::in_t'') (sync_all_service_in.fields [])"

definition new_sas_out :: bool_ret_msg_t where
  "new_sas_out = new_bool_ret ''sync_all_service_t::out_t''"

definition new_pid_in :: push_init_data_in where
  "new_pid_in = msg_i.extend (new_msg_i ''push_init_data_t::in_t'') (push_init_data_in.fields [] [] [] [] [] 0 0 [])"

definition new_pasg_in :: push_add_service_group_in where
  "new_pasg_in = msg_i.extend (new_msg_i ''push_add_service_group_t::in_t'') (push_add_service_group_in.fields [] 0)"

definition new_pas_in :: push_add_service_in where
  "new_pas_in = msg_i.extend (new_msg_i ''push_add_service_t::in_t'') (push_add_service_in.fields 0 0 0)"

definition new_pam_in :: push_add_msg_in where
  "new_pam_in = msg_i.extend (new_msg_i ''push_add_msg_t::in_t'') (push_add_msg_in.fields [] 0)"

definition new_rsb_in :: reg_slave_broker_in where
  "new_rsb_in = msg_i.extend (new_msg_i ''reg_slave_broker_t::in_t'') (reg_slave_broker_in.fields 0)"

lemmas new_msg_defs = new_msg_i_def new_bool_ret_def new_msg_tool_def new_csg_in_def new_csg_out_def new_cs_in_def new_cs_out_def new_ri_in_def new_ri_out_def new_sas_in_def new_sas_out_def new_pid_in_def new_pasg_in_def new_pas_in_def new_pam_in_def new_rsb_in_def
  msg_i.defs bool_ret_msg_t.defs create_service_group_in.defs create_service_group_out.defs create_service_in.defs reg_interface_in.defs reg_interface_out.defs sync_all_service_in.defs push_init_data_in.defs push_add_service_group_in.defs push_add_service_in.defs push_add_msg_in.defs reg_slave_broker_in.defs

subsection \<open>Messages between a gateway and its clients\<close>

text \<open>
  \<open>gate_msg_tool_t\<close> carries a client's packet through the gateway: \<open>gate_decode\<close> keeps the packet and
  reads the name in front; \<open>encode\<close> puts the RPC head in place of that name (\<open>substr\<close> throws when the
  kept packet is shorter than the name's image). \<open>client_msg_i\<close> is a message with only its name as
  head.
\<close>

record gate_msg_tool_t = msg_i +
  packet_body :: string

definition substr :: "nat \<Rightarrow> string \<Rightarrow> string exc" where
  "substr pos s = (if length s < pos then Inl Out_of_range else Inr (drop pos s))"

definition encode_gate :: "gate_msg_tool_t \<Rightarrow> (gate_msg_tool_t \<times> string) exc" where
  "encode_gate m =
     (let (m', dest) = get_buff (init_encoder m)
      in case substr (4 + length (msg_name m)) (packet_body m) of
           Inl e \<Rightarrow> Inl e | Inr tl_ \<Rightarrow> Inr (m', dest @ tl_))"

definition gate_decode :: "string \<Rightarrow> gate_msg_tool_t \<Rightarrow> gate_msg_tool_t dres" where
  "gate_decode s m = dec_into dec_string (\<lambda>v m. m\<lparr>msg_name := v\<rparr>) (Ok (m\<lparr>packet_body := s\<rparr>) s)"

definition decode_gate :: "string \<Rightarrow> gate_msg_tool_t \<Rightarrow> gate_msg_tool_t dres" where
  "decode_gate s m = init_decoder s m"

record client_msg_i =
  cm_name :: string
  cm_encoder :: string

definition client_init_encoder :: "'a client_msg_i_scheme \<Rightarrow> 'a client_msg_i_scheme" where
  "client_init_encoder m = m\<lparr>cm_encoder := cm_encoder m @ enc_string (cm_name m)\<rparr>"

definition client_init_decoder :: "string \<Rightarrow> 'a client_msg_i_scheme \<Rightarrow> 'a client_msg_i_scheme dres" where
  "client_init_decoder s m = dec_into dec_string (\<lambda>v m. m\<lparr>cm_name := v\<rparr>) (Ok m s)"

subsection \<open>Chains of operators\<close>

text \<open>
  A decoding function reads the image \<open>img\<close> with the effect \<open>f\<close> on the message: it leaves the bytes
  behind \<open>img\<close>, and throws the size error on every cut image.
\<close>

definition decodes :: "(string \<Rightarrow> 'm \<Rightarrow> 'm dres) \<Rightarrow> string \<Rightarrow> ('m \<Rightarrow> 'm) \<Rightarrow> bool" where
  "decodes D img f \<longleftrightarrow>
     (\<forall>m rest. D (img @ rest) m = Ok (f m) rest) \<and>
     (\<forall>m p. strict_prefix p img \<longrightarrow> (\<exists>m1. D p m = Throw size_error m1))"

lemma concat_replicate_last: "concat (replicate (Suc n) x) = concat (replicate n x) @ x"
  by (induction n) simp_all

lemma decodes_ok: "decodes D img f \<Longrightarrow> D (img @ rest) m = Ok (f m) rest"
  by (simp add: decodes_def)

lemma decodes_short: "decodes D img f \<Longrightarrow> strict_prefix p img \<Longrightarrow> \<exists>m1. D p m = Throw size_error m1"
  by (simp add: decodes_def)

lemma decodes_cong: "decodes D img f \<Longrightarrow> (\<And>m. f m = g m) \<Longrightarrow> decodes D img g"
  by (simp add: decodes_def)

lemma decodes_step:
  assumes "decodes D img f"
    and "\<And>e m. K (Throw e m) = Throw e m" "\<And>m rest. K (Ok m (i @ rest)) = Ok (g m) rest"
    and "\<And>m p. strict_prefix p i \<Longrightarrow> \<exists>m1. K (Ok m p) = Throw size_error m1"
  shows "decodes (\<lambda>s m. K (D s m)) (img @ i) (\<lambda>m. g (f m))"
  unfolding decodes_def
proof (intro conjI allI impI)
  fix m p
  assume p: "strict_prefix p (img @ i)"
  show "\<exists>m1. K (D p m) = Throw size_error m1"
  proof (cases "strict_prefix p img")
    case True
    then show ?thesis using decodes_short [OF assms(1), of p m] assms(2) by auto
  next
    case False
    have "prefix p (img @ i)" using p by (simp add: strict_prefix_def)
    with False obtain p' where p': "p = img @ p'" by (auto simp: prefix_append strict_prefix_def)
    with p have "strict_prefix p' i" by simp
    then show ?thesis using assms(4) by (simp add: p' decodes_ok [OF assms(1)])
  qed
qed (simp add: decodes_ok [OF assms(1)] assms(3))

lemma decodes_into:
  assumes "wire e d w" "decodes D img f" "w x"
  shows "decodes (\<lambda>s m. dec_into d upd (D s m)) (img @ e x) (\<lambda>m. upd x (f m))"
  using assms(1,3)
  by (intro decodes_step [OF assms(2)]) (simp_all add: dec_into_def wire.dec_enc wire.dec_short)

text \<open>The pushing loop and the loop of \<open>Codec\<close> succeed and fail together.\<close>

lemma dec_pushes_elems:
  "(case dec_elems d n dest s of Inl e \<Rightarrow> \<exists>v. dec_pushes d n dest s = Throw e v
    | Inr (v, r) \<Rightarrow> dec_pushes d n dest s = Ok v r)"
proof (induction n arbitrary: dest s)
  case (Suc n)
  show ?case
  proof (cases "d s")
    case (Inr p)
    obtain x r where "p = (x, r)" by (cases p)
    then show ?thesis using Inr Suc [of "dest @ [x]" r] by (auto split: sum.splits)
  qed simp
qed simp

lemma dec_push_vector:
  "case dec_vector d [] s of Inl e \<Rightarrow> \<exists>m1. dec_push d get upd (Ok m s) = Throw e m1
    | Inr (v, r) \<Rightarrow> dec_push d get upd (Ok m s) = Ok (upd (get m @ v) m) r"
proof (cases "dec_u32 s")
  case (Inr p)
  obtain k r where p: "p = (k, r)" by (cases p)
  show ?thesis
    using Inr p dec_pushes_elems [of d "unat k" "get m" r] dec_elems_acc [of d "unat k" "get m" r]
    by (auto simp: dec_push_def dec_vector_def split: sum.splits prod.splits)
qed (simp add: dec_push_def dec_vector_def)

lemma decodes_push:
  assumes "wire (enc_vector e) (dec_vector d []) w" "decodes D img f" "w x"
  shows "decodes (\<lambda>s m. dec_push d get upd (D s m)) (img @ enc_vector e x)
    (\<lambda>m. upd (get (f m) @ x) (f m))"
proof (rule decodes_step [OF assms(2), where g = "\<lambda>m. upd (get m @ x) m"])
  show "dec_push d get upd (Ok m (enc_vector e x @ rest)) = Ok (upd (get m @ x) m) rest" for m rest
    using dec_push_vector [where s = "enc_vector e x @ rest" and d = d and get = get and upd = upd and m = m] wire.dec_enc [OF assms(1,3), of rest]
    by simp
  show "\<exists>m1. dec_push d get upd (Ok m p) = Throw size_error m1" if "strict_prefix p (enc_vector e x)" for m p
    using dec_push_vector [where s = p and d = d and get = get and upd = upd and m = m] wire.dec_short [OF assms(1,3) that] by simp
qed (simp add: dec_push_def)

lemma decodes_init: "decodes (\<lambda>s m. Ok m s) [] (\<lambda>m. m)"
  by (simp add: decodes_def)

lemmas decodes_u32 = decodes_into [OF u32w.wire_axioms _ TrueI]

lemmas decodes_u16 = decodes_into [OF u16w.wire_axioms _ TrueI]

lemmas decodes_fields = decodes_u16 decodes_u32 decodes_into [OF boolw.wire_axioms _ TrueI]
  decodes_into [OF strw.wire_axioms] decodes_push [OF vec_u16w.wire_axioms]
  decodes_push [OF vec_strw.wire_axioms] decodes_push [OF vec_idw.wire_axioms]

text \<open>The head: its image, and the effect of reading it.\<close>

definition head_image :: "'a msg_i_scheme \<Rightarrow> string" where
  "head_image m = (if \<not> encode_name m
     then enc_u32 (uuid m) @ enc_u16 (service_group_id m) @ enc_u16 (service_id m) @ enc_u16 (msg_id m)
     else enc_string (msg_name m))"

definition head_from :: "'a msg_i_scheme \<Rightarrow> 'a msg_i_scheme \<Rightarrow> 'a msg_i_scheme" where
  "head_from m m0 = m0\<lparr>uuid := uuid m, service_group_id := service_group_id m,
     service_id := service_id m, msg_id := msg_id m\<rparr>"

lemma init_encoder_image: "init_encoder m = put_enc (head_image m) m"
  by (simp add: init_encoder_def head_image_def)

lemma head_image_encoder [simp]: "head_image (m\<lparr>encoder := b\<rparr>) = head_image m"
  by (simp add: head_image_def)

lemma decodes_head:
  assumes "\<not> encode_name m"
  shows "decodes init_decoder (head_image m) (head_from m)"
proof -
  have "decodes init_decoder
     (((([] @ enc_u32 (uuid m)) @ enc_u16 (service_group_id m)) @ enc_u16 (service_id m)) @ enc_u16 (msg_id m))
     (\<lambda>m0. m0\<lparr>uuid := uuid m, service_group_id := service_group_id m,
       service_id := service_id m, msg_id := msg_id m\<rparr>)"
    unfolding init_decoder_def [abs_def]
    by (rule decodes_u16 decodes_u32 decodes_init)+
  with assms show ?thesis
    by (simp add: head_image_def head_from_def [abs_def])
qed

subsection \<open>The contract of a message structure\<close>

text \<open>
  What the services rely on: a message is read back from what \<open>encode\<close> made of it, onto the fields
  of whatever message receives it; a message cut anywhere is refused; and although \<open>encode\<close> appends
  to what the message's encoder already holds, the receiver still reads the first image.
\<close>

locale msg_codec =
  fixes encode :: "'a msg_i_scheme \<Rightarrow> 'a msg_i_scheme \<times> string"
    and decode :: "string \<Rightarrow> 'a msg_i_scheme \<Rightarrow> 'a msg_i_scheme dres"
    and image :: "'a msg_i_scheme \<Rightarrow> string"
    and fill :: "'a msg_i_scheme \<Rightarrow> 'a msg_i_scheme \<Rightarrow> 'a msg_i_scheme"
    and ok :: "'a msg_i_scheme \<Rightarrow> bool"
  assumes encode_image: "encode m = get_buff (put_enc (image m) m)"
    and image_encoder: "image (m\<lparr>encoder := b\<rparr>) = image m"
    and decode_image: "ok m \<Longrightarrow> decodes decode (image m) (fill m)"
begin

lemma encode_fresh: "encoder m = [] \<Longrightarrow> snd (encode m) = image m"
  by (simp add: encode_image get_buff_def put_enc_def)

lemma roundtrip: "ok m \<Longrightarrow> encoder m = [] \<Longrightarrow> decode (snd (encode m)) m0 = Ok (fill m m0) []"
  using decodes_ok [OF decode_image, of m "[]"] by (simp add: encode_fresh)

lemma trailing: "ok m \<Longrightarrow> encoder m = [] \<Longrightarrow> decode (snd (encode m) @ rest) m0 = Ok (fill m m0) rest"
  by (simp add: encode_fresh decodes_ok [OF decode_image])

lemma truncated:
  "ok m \<Longrightarrow> encoder m = [] \<Longrightarrow> strict_prefix p (snd (encode m)) \<Longrightarrow>
    \<exists>m1. decode p m0 = Throw size_error m1"
  using decodes_short [OF decode_image] by (simp add: encode_fresh)

text \<open>The \<open>n\<close>-th \<open>encode\<close> of the same message object.\<close>

lemma encode_again:
  "encoder m = [] \<Longrightarrow>
    snd (encode (((\<lambda>x. fst (encode x)) ^^ n) m)) = concat (replicate (Suc n) (image m))"
proof -
  assume e: "encoder m = []"
  have "((\<lambda>x. fst (encode x)) ^^ n) m = m\<lparr>encoder := concat (replicate n (image m))\<rparr>"
    by (induction n)
      (simp_all add: e encode_image get_buff_def put_enc_def image_encoder concat_replicate_last
        del: replicate_Suc)
  then show ?thesis
    by (simp add: encode_image get_buff_def put_enc_def image_encoder concat_replicate_last
        del: replicate_Suc)
qed

lemma decode_again:
  "ok m \<Longrightarrow> encoder m = [] \<Longrightarrow>
    \<exists>rest. decode (snd (encode (((\<lambda>x. fst (encode x)) ^^ n) m))) m0 = Ok (fill m m0) rest"
  by (simp add: encode_again decodes_ok [OF decode_image])

end

lemmas encode_unfold = get_buff_def put_enc_def init_encoder_image

definition image_bool_ret :: "bool_ret_msg_t \<Rightarrow> string" where
  "image_bool_ret m = head_image m @ enc_bool (ret_value m)"

definition fill_bool_ret :: "bool_ret_msg_t \<Rightarrow> bool_ret_msg_t \<Rightarrow> bool_ret_msg_t" where
  "fill_bool_ret m m0 = (head_from m m0)\<lparr>ret_value := ret_value m\<rparr>"

definition ok_bool_ret :: "bool_ret_msg_t \<Rightarrow> bool" where
  "ok_bool_ret m \<longleftrightarrow> \<not> encode_name m"

interpretation bool_ret: msg_codec encode_bool_ret decode_bool_ret image_bool_ret fill_bool_ret ok_bool_ret
proof
  show "decodes decode_bool_ret (image_bool_ret m) (fill_bool_ret m)" if "ok_bool_ret m" for m
    unfolding decode_bool_ret_def [abs_def] image_bool_ret_def
    by (rule decodes_cong, (rule decodes_fields decodes_head)+)
      (use that in \<open>simp_all add: ok_bool_ret_def fill_bool_ret_def head_from_def\<close>)
qed (simp_all add: encode_bool_ret_def encode_unfold image_bool_ret_def)

definition image_csg_in :: "create_service_group_in \<Rightarrow> string" where
  "image_csg_in m = head_image m @ enc_string (service_name m)"

definition fill_csg_in :: "create_service_group_in \<Rightarrow> create_service_group_in \<Rightarrow> create_service_group_in" where
  "fill_csg_in m m0 = (head_from m m0)\<lparr>service_name := service_name m\<rparr>"

definition ok_csg_in :: "create_service_group_in \<Rightarrow> bool" where
  "ok_csg_in m \<longleftrightarrow> \<not> encode_name m \<and>
     length (service_name m) < 2 ^ 32"

interpretation csg_in: msg_codec encode_csg_in decode_csg_in image_csg_in fill_csg_in ok_csg_in
proof
  show "decodes decode_csg_in (image_csg_in m) (fill_csg_in m)" if "ok_csg_in m" for m
    unfolding decode_csg_in_def [abs_def] image_csg_in_def
    by (rule decodes_cong, (rule decodes_fields decodes_head)+)
      (use that in \<open>simp_all add: ok_csg_in_def fill_csg_in_def head_from_def\<close>)
qed (simp_all add: encode_csg_in_def encode_unfold image_csg_in_def)

definition image_csg_out :: "create_service_group_out \<Rightarrow> string" where
  "image_csg_out m = head_image m @ enc_u16 (out_service_id m)"

definition fill_csg_out :: "create_service_group_out \<Rightarrow> create_service_group_out \<Rightarrow> create_service_group_out" where
  "fill_csg_out m m0 = (head_from m m0)\<lparr>out_service_id := out_service_id m\<rparr>"

definition ok_csg_out :: "create_service_group_out \<Rightarrow> bool" where
  "ok_csg_out m \<longleftrightarrow> \<not> encode_name m"

interpretation csg_out: msg_codec encode_csg_out decode_csg_out image_csg_out fill_csg_out ok_csg_out
proof
  show "decodes decode_csg_out (image_csg_out m) (fill_csg_out m)" if "ok_csg_out m" for m
    unfolding decode_csg_out_def [abs_def] image_csg_out_def
    by (rule decodes_cong, (rule decodes_fields decodes_head)+)
      (use that in \<open>simp_all add: ok_csg_out_def fill_csg_out_def head_from_def\<close>)
qed (simp_all add: encode_csg_out_def encode_unfold image_csg_out_def)

definition image_cs_in :: "create_service_in \<Rightarrow> string" where
  "image_cs_in m = (head_image m @ enc_u16 (new_service_group_id m)) @ enc_u16 (new_service_id m)"

definition fill_cs_in :: "create_service_in \<Rightarrow> create_service_in \<Rightarrow> create_service_in" where
  "fill_cs_in m m0 = (head_from m m0)\<lparr>new_service_group_id := new_service_group_id m, new_service_id := new_service_id m\<rparr>"

definition ok_cs_in :: "create_service_in \<Rightarrow> bool" where
  "ok_cs_in m \<longleftrightarrow> \<not> encode_name m"

interpretation cs_in: msg_codec encode_cs_in decode_cs_in image_cs_in fill_cs_in ok_cs_in
proof
  show "decodes decode_cs_in (image_cs_in m) (fill_cs_in m)" if "ok_cs_in m" for m
    unfolding decode_cs_in_def [abs_def] image_cs_in_def
    by (rule decodes_cong, (rule decodes_fields decodes_head)+)
      (use that in \<open>simp_all add: ok_cs_in_def fill_cs_in_def head_from_def\<close>)
qed (simp_all add: encode_cs_in_def encode_unfold image_cs_in_def)

definition image_ri_in :: "reg_interface_in \<Rightarrow> string" where
  "image_ri_in m = (((head_image m @ enc_u16 (ri_sgid m)) @ enc_u16 (ri_sid m)) @ enc_string (in_msg_name m)) @ enc_string (out_msg_name m)"

definition fill_ri_in :: "reg_interface_in \<Rightarrow> reg_interface_in \<Rightarrow> reg_interface_in" where
  "fill_ri_in m m0 = (head_from m m0)\<lparr>ri_sgid := ri_sgid m, ri_sid := ri_sid m, in_msg_name := in_msg_name m, out_msg_name := out_msg_name m\<rparr>"

definition ok_ri_in :: "reg_interface_in \<Rightarrow> bool" where
  "ok_ri_in m \<longleftrightarrow> \<not> encode_name m \<and>
     length (in_msg_name m) < 2 ^ 32 \<and>
     length (out_msg_name m) < 2 ^ 32"

interpretation ri_in: msg_codec encode_ri_in decode_ri_in image_ri_in fill_ri_in ok_ri_in
proof
  show "decodes decode_ri_in (image_ri_in m) (fill_ri_in m)" if "ok_ri_in m" for m
    unfolding decode_ri_in_def [abs_def] image_ri_in_def
    by (rule decodes_cong, (rule decodes_fields decodes_head)+)
      (use that in \<open>simp_all add: ok_ri_in_def fill_ri_in_def head_from_def\<close>)
qed (simp_all add: encode_ri_in_def encode_unfold image_ri_in_def)

definition image_ri_out :: "reg_interface_out \<Rightarrow> string" where
  "image_ri_out m = (head_image m @ enc_u16 (alloc_id m)) @ enc_u16 (out_alloc_id m)"

definition fill_ri_out :: "reg_interface_out \<Rightarrow> reg_interface_out \<Rightarrow> reg_interface_out" where
  "fill_ri_out m m0 = (head_from m m0)\<lparr>alloc_id := alloc_id m, out_alloc_id := out_alloc_id m\<rparr>"

definition ok_ri_out :: "reg_interface_out \<Rightarrow> bool" where
  "ok_ri_out m \<longleftrightarrow> \<not> encode_name m"

interpretation ri_out: msg_codec encode_ri_out decode_ri_out image_ri_out fill_ri_out ok_ri_out
proof
  show "decodes decode_ri_out (image_ri_out m) (fill_ri_out m)" if "ok_ri_out m" for m
    unfolding decode_ri_out_def [abs_def] image_ri_out_def
    by (rule decodes_cong, (rule decodes_fields decodes_head)+)
      (use that in \<open>simp_all add: ok_ri_out_def fill_ri_out_def head_from_def\<close>)
qed (simp_all add: encode_ri_out_def encode_unfold image_ri_out_def)

definition image_sas_in :: "sync_all_service_in \<Rightarrow> string" where
  "image_sas_in m = head_image m @ enc_string (slave_host m)"

definition fill_sas_in :: "sync_all_service_in \<Rightarrow> sync_all_service_in \<Rightarrow> sync_all_service_in" where
  "fill_sas_in m m0 = (head_from m m0)\<lparr>slave_host := slave_host m\<rparr>"

definition ok_sas_in :: "sync_all_service_in \<Rightarrow> bool" where
  "ok_sas_in m \<longleftrightarrow> \<not> encode_name m \<and>
     length (slave_host m) < 2 ^ 32"

interpretation sas_in: msg_codec encode_sas_in decode_sas_in image_sas_in fill_sas_in ok_sas_in
proof
  show "decodes decode_sas_in (image_sas_in m) (fill_sas_in m)" if "ok_sas_in m" for m
    unfolding decode_sas_in_def [abs_def] image_sas_in_def
    by (rule decodes_cong, (rule decodes_fields decodes_head)+)
      (use that in \<open>simp_all add: ok_sas_in_def fill_sas_in_def head_from_def\<close>)
qed (simp_all add: encode_sas_in_def encode_unfold image_sas_in_def)

definition image_pid_in :: "push_init_data_in \<Rightarrow> string" where
  "image_pid_in m = (((((((head_image m @ enc_vector enc_string (group_name_vt m)) @ enc_vector enc_u16 (group_id_vt m)) @ enc_vector enc_id_info (id_info_vt m)) @ enc_vector enc_string (msg_name_vt m)) @ enc_vector enc_u16 (msg_id_vt m)) @ enc_u32 (pi_node_id m)) @ enc_u32 (bind_id m)) @ enc_vector enc_string (broker_slave_host m)"

definition fill_pid_in :: "push_init_data_in \<Rightarrow> push_init_data_in \<Rightarrow> push_init_data_in" where
  "fill_pid_in m m0 = (head_from m m0)\<lparr>group_name_vt := group_name_vt m0 @ group_name_vt m, group_id_vt := group_id_vt m0 @ group_id_vt m, id_info_vt := id_info_vt m0 @ id_info_vt m, msg_name_vt := msg_name_vt m0 @ msg_name_vt m, msg_id_vt := msg_id_vt m0 @ msg_id_vt m, pi_node_id := pi_node_id m, bind_id := bind_id m, broker_slave_host := broker_slave_host m0 @ broker_slave_host m\<rparr>"

definition ok_pid_in :: "push_init_data_in \<Rightarrow> bool" where
  "ok_pid_in m \<longleftrightarrow> \<not> encode_name m \<and>
     length (group_name_vt m) < 2 ^ 32 \<and> (\<forall>x \<in> set (group_name_vt m). length x < 2 ^ 32) \<and>
     length (group_id_vt m) < 2 ^ 32 \<and>
     length (id_info_vt m) < 2 ^ 32 \<and>
     length (msg_name_vt m) < 2 ^ 32 \<and> (\<forall>x \<in> set (msg_name_vt m). length x < 2 ^ 32) \<and>
     length (msg_id_vt m) < 2 ^ 32 \<and>
     length (broker_slave_host m) < 2 ^ 32 \<and> (\<forall>x \<in> set (broker_slave_host m). length x < 2 ^ 32)"

interpretation pid_in: msg_codec encode_pid_in decode_pid_in image_pid_in fill_pid_in ok_pid_in
proof
  show "decodes decode_pid_in (image_pid_in m) (fill_pid_in m)" if "ok_pid_in m" for m
    unfolding decode_pid_in_def [abs_def] image_pid_in_def
    by (rule decodes_cong, (rule decodes_fields decodes_head)+)
      (use that in \<open>simp_all add: ok_pid_in_def fill_pid_in_def head_from_def\<close>)
qed (simp_all add: encode_pid_in_def encode_unfold image_pid_in_def)

definition image_pasg_in :: "push_add_service_group_in \<Rightarrow> string" where
  "image_pasg_in m = (head_image m @ enc_string (pg_name m)) @ enc_u16 (pg_sgid m)"

definition fill_pasg_in :: "push_add_service_group_in \<Rightarrow> push_add_service_group_in \<Rightarrow> push_add_service_group_in" where
  "fill_pasg_in m m0 = (head_from m m0)\<lparr>pg_name := pg_name m, pg_sgid := pg_sgid m\<rparr>"

definition ok_pasg_in :: "push_add_service_group_in \<Rightarrow> bool" where
  "ok_pasg_in m \<longleftrightarrow> \<not> encode_name m \<and>
     length (pg_name m) < 2 ^ 32"

interpretation pasg_in: msg_codec encode_pasg_in decode_pasg_in image_pasg_in fill_pasg_in ok_pasg_in
proof
  show "decodes decode_pasg_in (image_pasg_in m) (fill_pasg_in m)" if "ok_pasg_in m" for m
    unfolding decode_pasg_in_def [abs_def] image_pasg_in_def
    by (rule decodes_cong, (rule decodes_fields decodes_head)+)
      (use that in \<open>simp_all add: ok_pasg_in_def fill_pasg_in_def head_from_def\<close>)
qed (simp_all add: encode_pasg_in_def encode_unfold image_pasg_in_def)

definition image_pas_in :: "push_add_service_in \<Rightarrow> string" where
  "image_pas_in m = ((head_image m @ enc_u16 (pa_sgid m)) @ enc_u16 (pa_sid m)) @ enc_u16 (pa_node_id m)"

definition fill_pas_in :: "push_add_service_in \<Rightarrow> push_add_service_in \<Rightarrow> push_add_service_in" where
  "fill_pas_in m m0 = (head_from m m0)\<lparr>pa_sgid := pa_sgid m, pa_sid := pa_sid m, pa_node_id := pa_node_id m\<rparr>"

definition ok_pas_in :: "push_add_service_in \<Rightarrow> bool" where
  "ok_pas_in m \<longleftrightarrow> \<not> encode_name m"

interpretation pas_in: msg_codec encode_pas_in decode_pas_in image_pas_in fill_pas_in ok_pas_in
proof
  show "decodes decode_pas_in (image_pas_in m) (fill_pas_in m)" if "ok_pas_in m" for m
    unfolding decode_pas_in_def [abs_def] image_pas_in_def
    by (rule decodes_cong, (rule decodes_fields decodes_head)+)
      (use that in \<open>simp_all add: ok_pas_in_def fill_pas_in_def head_from_def\<close>)
qed (simp_all add: encode_pas_in_def encode_unfold image_pas_in_def)

definition image_pam_in :: "push_add_msg_in \<Rightarrow> string" where
  "image_pam_in m = (head_image m @ enc_string (pm_name m)) @ enc_u16 (pm_msg_id m)"

definition fill_pam_in :: "push_add_msg_in \<Rightarrow> push_add_msg_in \<Rightarrow> push_add_msg_in" where
  "fill_pam_in m m0 = (head_from m m0)\<lparr>pm_name := pm_name m, pm_msg_id := pm_msg_id m\<rparr>"

definition ok_pam_in :: "push_add_msg_in \<Rightarrow> bool" where
  "ok_pam_in m \<longleftrightarrow> \<not> encode_name m \<and>
     length (pm_name m) < 2 ^ 32"

interpretation pam_in: msg_codec encode_pam_in decode_pam_in image_pam_in fill_pam_in ok_pam_in
proof
  show "decodes decode_pam_in (image_pam_in m) (fill_pam_in m)" if "ok_pam_in m" for m
    unfolding decode_pam_in_def [abs_def] image_pam_in_def
    by (rule decodes_cong, (rule decodes_fields decodes_head)+)
      (use that in \<open>simp_all add: ok_pam_in_def fill_pam_in_def head_from_def\<close>)
qed (simp_all add: encode_pam_in_def encode_unfold image_pam_in_def)

definition image_rsb_in :: "reg_slave_broker_in \<Rightarrow> string" where
  "image_rsb_in m = head_image m @ enc_u16 (rb_node_id m)"

definition fill_rsb_in :: "reg_slave_broker_in \<Rightarrow> reg_slave_broker_in \<Rightarrow> reg_slave_broker_in" where
  "fill_rsb_in m m0 = (head_from m m0)\<lparr>rb_node_id := rb_node_id m\<rparr>"

definition ok_rsb_in :: "reg_slave_broker_in \<Rightarrow> bool" where
  "ok_rsb_in m \<longleftrightarrow> \<not> encode_name m"

interpretation rsb_in: msg_codec encode_rsb_in decode_rsb_in image_rsb_in fill_rsb_in ok_rsb_in
proof
  show "decodes decode_rsb_in (image_rsb_in m) (fill_rsb_in m)" if "ok_rsb_in m" for m
    unfolding decode_rsb_in_def [abs_def] image_rsb_in_def
    by (rule decodes_cong, (rule decodes_fields decodes_head)+)
      (use that in \<open>simp_all add: ok_rsb_in_def fill_rsb_in_def head_from_def\<close>)
qed (simp_all add: encode_rsb_in_def encode_unfold image_rsb_in_def)

subsection \<open>Properties\<close>

text \<open>
  What the broker pushes to a newly synchronised service is what the service reads: every table
  of \<open>push_init_data_t\<close> comes back in order, behind whatever the receiving message held, together
  with the head, and the reader stops exactly where the message ends.
\<close>

theorem push_init_data_roundtrip:
  assumes "ok_pid_in m" "encoder m = []"
  shows "decode_pid_in (snd (encode_pid_in m) @ rest) m0 = Ok (m0\<lparr>
     uuid := uuid m, service_group_id := service_group_id m, service_id := service_id m, msg_id := msg_id m,
     group_name_vt := group_name_vt m0 @ group_name_vt m, group_id_vt := group_id_vt m0 @ group_id_vt m,
     id_info_vt := id_info_vt m0 @ id_info_vt m, msg_name_vt := msg_name_vt m0 @ msg_name_vt m,
     msg_id_vt := msg_id_vt m0 @ msg_id_vt m, pi_node_id := pi_node_id m, bind_id := bind_id m,
     broker_slave_host := broker_slave_host m0 @ broker_slave_host m\<rparr>) rest"
  using pid_in.trailing [OF assms] by (simp add: fill_pid_in_def head_from_def)

definition sample_init_data :: push_init_data_in where
  "sample_init_data = \<lparr>cmd = 0, uuid = 7, service_group_id = 1, service_id = 2, msg_id = 13, msg_name = [],
     encoder = [], encode_name = False, group_name_vt = [''echo''], group_id_vt = [100],
     id_info_vt = [\<lparr>ii_sgid = 100, ii_sid = 0, ii_node_id = 3\<rparr>], msg_name_vt = [''echo_t::in_t''],
     msg_id_vt = [101], pi_node_id = 5, bind_id = 6, broker_slave_host = [''tcp://a'']\<rparr>"

definition blank_init_data :: push_init_data_in where
  "blank_init_data = \<lparr>cmd = 0, uuid = 0, service_group_id = 0, service_id = 0, msg_id = 0, msg_name = [],
     encoder = [], encode_name = False, group_name_vt = [], group_id_vt = [], id_info_vt = [],
     msg_name_vt = [], msg_id_vt = [], pi_node_id = 0, bind_id = 0, broker_slave_host = []\<rparr>"

theorem push_init_data_roundtrip_witness:
  "decode_pid_in (snd (encode_pid_in sample_init_data) @ ''tail'') blank_init_data = Ok sample_init_data ''tail''"
  using push_init_data_roundtrip [of sample_init_data "''tail''" blank_init_data]
  by (simp add: sample_init_data_def blank_init_data_def ok_pid_in_def)

text \<open>
  A registration request that was cut anywhere, in the head or in any field, makes \<open>decode\<close>
  throw the decoder's size error; no cut request is taken for another one.
\<close>

theorem reg_interface_truncated:
  assumes "ok_ri_in m" "encoder m = []" "strict_prefix p (snd (encode_ri_in m))"
  shows "\<exists>m1. decode_ri_in p m0 = Throw size_error m1"
  by (rule ri_in.truncated [OF assms])

definition sample_reg_interface :: reg_interface_in where
  "sample_reg_interface = \<lparr>cmd = 0, uuid = 7, service_group_id = 0, service_id = 0, msg_id = 5, msg_name = [],
     encoder = [], encode_name = False, ri_sgid = 100, ri_sid = 1, in_msg_name = ''a::in'', out_msg_name = ''a::out''\<rparr>"

theorem reg_interface_truncated_witness:
  "\<exists>m1. decode_ri_in (take 20 (snd (encode_ri_in sample_reg_interface))) sample_reg_interface
     = Throw size_error m1"
proof (rule reg_interface_truncated [of sample_reg_interface])
  have "length (snd (encode_ri_in sample_reg_interface)) = 33"
    by (simp add: ri_in.encode_fresh sample_reg_interface_def image_ri_in_def head_image_def
        enc_u16_def enc_u32_def enc_string_def)
  then show "strict_prefix (take 20 (snd (encode_ri_in sample_reg_interface)))
      (snd (encode_ri_in sample_reg_interface))"
    by (simp add: strict_prefix_def take_is_prefix take_all_iff del: take_all)
qed (simp_all add: sample_reg_interface_def ok_ri_in_def)

text \<open>
  Encoding the same message object again does not start over: the encoder keeps its buffer, so
  the \<open>n+1\<close>-st \<open>encode\<close> returns \<open>n+1\<close> images. The receiver reads the first image and ignores the
  rest, so the message still arrives as it was sent.
\<close>

theorem encode_again_appends:
  assumes "ok_pas_in m" "encoder m = []"
  shows "length (snd (encode_pas_in (((\<lambda>x. fst (encode_pas_in x)) ^^ n) m))) = 16 * Suc n \<and>
    (\<exists>rest. decode_pas_in (snd (encode_pas_in (((\<lambda>x. fst (encode_pas_in x)) ^^ n) m))) m0 =
      Ok (m0\<lparr>uuid := uuid m, service_group_id := service_group_id m, service_id := service_id m,
        msg_id := msg_id m, pa_sgid := pa_sgid m, pa_sid := pa_sid m, pa_node_id := pa_node_id m\<rparr>) rest)"
proof
  have "length (image_pas_in m) = 16"
    using assms(1) by (simp add: image_pas_in_def head_image_def ok_pas_in_def wire_defs)
  then show "length (snd (encode_pas_in (((\<lambda>x. fst (encode_pas_in x)) ^^ n) m))) = 16 * Suc n"
    by (simp add: pas_in.encode_again [OF assms(2)] length_concat sum_list_replicate)
qed (use pas_in.decode_again [OF assms, of n m0] in \<open>simp add: fill_pas_in_def head_from_def\<close>)

definition sample_add_service :: push_add_service_in where
  "sample_add_service = \<lparr>cmd = 0, uuid = 0, service_group_id = 0, service_id = 0, msg_id = 15, msg_name = [],
     encoder = [], encode_name = False, pa_sgid = 100, pa_sid = 1, pa_node_id = 4\<rparr>"

theorem encode_again_appends_witness:
  "length (snd (encode_pas_in (fst (encode_pas_in sample_add_service)))) = 32"
  using encode_again_appends [of sample_add_service 1]
  by (simp add: sample_add_service_def ok_pas_in_def)

text \<open>
  A client's packet through the gateway: from the bytes of a client message (its name and its
  fields) \<open>gate_decode\<close> takes the name, and the \<open>encode\<close> that forwards it puts the RPC head the
  gateway filled in exactly in place of the name and leaves the client's fields as they were.
\<close>

theorem gate_forward:
  assumes "length name < 2 ^ 32" "encoder m = []" "\<not> encode_name m"
  shows "\<exists>m1. gate_decode (enc_string name @ body) m = Ok m1 body \<and> msg_name m1 = name \<and>
    encode_gate (msg_i_set gid sid uu mid m1) =
      Inr (m1\<lparr>service_group_id := gid, service_id := sid, uuid := uu, msg_id := mid,
              encoder := enc_u32 uu @ enc_u16 gid @ enc_u16 sid @ enc_u16 mid\<rparr>,
           enc_u32 uu @ enc_u16 gid @ enc_u16 sid @ enc_u16 mid @ body)"
proof -
  let ?m = "m\<lparr>packet_body := enc_string name @ body, msg_name := name\<rparr>"
  have "substr (4 + length name) (enc_string name @ body) = Inr body"
    by (simp add: substr_def enc_string_def enc_u32_def)
  with assms show ?thesis
    by (intro exI [of _ ?m])
      (simp add: gate_decode_def dec_into_def strw.dec_enc encode_gate_def encode_unfold head_image_def
        msg_i_set_def)
qed

theorem gate_forward_witness:
  "\<exists>m1. gate_decode (enc_string ''chat'' @ ''hi'') \<lparr>cmd = 0, uuid = 0, service_group_id = 0, service_id = 0,
      msg_id = 0, msg_name = [], encoder = [], encode_name = False, packet_body = []\<rparr> = Ok m1 ''hi'' \<and>
    msg_name m1 = ''chat''"
  using gate_forward [of "''chat''" "\<lparr>cmd = 0, uuid = 0, service_group_id = 0, service_id = 0,
      msg_id = 0, msg_name = [], encoder = [], encode_name = False, packet_body = []\<rparr>" "''hi''" 1 2 3 4]
  by auto

end
