(* ===== verification/Message.thy ===== *)
theory Message
  imports FF_Prelude
begin

section \<open>Packets and their reassembly from the byte stream\<close>

text \<open>
  \<^verbatim>\<open>net/message.h\<close> (the packet head and the packet under construction),
  \<^verbatim>\<open>net/msg_sender.h\<close> (the packet image that is sent) and
  \<^verbatim>\<open>net/common_socket_controller.cpp\<close> (the loop that cuts the received bytes into packets).
  The head is the 8-byte object \<open>{uint32_t size; uint16_t cmd; uint16_t flag}\<close>, copied byte by byte
  by \<open>memcpy\<close>; on the little-endian machines the code runs on its image is \<open>head_bytes\<close>.
  The handler call \<open>m_msg_handler->handle_msg\<close> is an output of the model: the list of packets
  handed over, in order.
\<close>

subsection \<open>The packet head\<close>

record message_head_t =
  h_size :: u32
  h_cmd :: u16
  h_flag :: u16

definition new_head :: "u16 \<Rightarrow> message_head_t" where
  "new_head c = \<lparr>h_size = 0, h_cmd = c, h_flag = 0\<rparr>"

text \<open>The object's bytes, and the object that given bytes make.\<close>

definition head_bytes :: "message_head_t \<Rightarrow> string" where
  "head_bytes h = le_bytes 4 (unat (h_size h)) @ le_bytes 2 (unat (h_cmd h)) @ le_bytes 2 (unat (h_flag h))"

definition head_of_bytes :: "string \<Rightarrow> message_head_t" where
  "head_of_bytes s = \<lparr>h_size = word_of_nat (le_nat (take 4 s)),
     h_cmd = word_of_nat (le_nat (take 2 (drop 4 s))),
     h_flag = word_of_nat (le_nat (take 2 (drop 6 s)))\<rparr>"

abbreviation sizeof_head :: nat where
  "sizeof_head \<equiv> 8"

lemma length_head_bytes [simp]: "length (head_bytes h) = sizeof_head"
  by (simp add: head_bytes_def)

lemma head_of_bytes_head_bytes [simp]: "head_of_bytes (head_bytes h) = h"
  by (simp add: head_of_bytes_def head_bytes_def)

lemma head_bytes_head_of_bytes: "length s = sizeof_head \<Longrightarrow> head_bytes (head_of_bytes s) = s"
proof -
  assume l: "length s = sizeof_head"
  have "take (4 + (2 + 2)) s = take 4 s @ take 2 (drop 4 s) @ take 2 (drop 6 s)"
    by (simp only: take_add drop_drop) simp
  with l show ?thesis
    by (simp add: head_bytes_def head_of_bytes_def le_word_bytes)
qed

subsection \<open>The packet under construction\<close>

record message_t =
  m_head :: message_head_t
  m_body :: string

definition new_message :: message_t where
  "new_message = \<lparr>m_head = new_head 0, m_body = []\<rparr>"

definition get_cmd :: "message_t \<Rightarrow> u16" where
  "get_cmd m = h_cmd (m_head m)"

definition get_body :: "message_t \<Rightarrow> string" where
  "get_body m = m_body m"

definition msg_size :: "message_t \<Rightarrow> size_t" where
  "msg_size m = ucast (h_size (m_head m))"

definition get_flag :: "message_t \<Rightarrow> u16" where
  "get_flag m = h_flag (m_head m)"

text \<open>
  \<open>append_head\<close> copies what fits of the rest of the head over the head's bytes from
  \<open>index_\<close> on, and returns how many bytes it took. Its only caller guards \<open>index_ < sizeof(m_head)\<close>,
  so the unsigned subtraction does not wrap.
\<close>

definition append_head :: "nat \<Rightarrow> string \<Rightarrow> message_t \<Rightarrow> message_t \<times> nat" where
  "append_head index buff m =
     (let will_append = min (sizeof_head - index) (length buff)
      in (m\<lparr>m_head := head_of_bytes (overlay index (take will_append buff) (head_bytes (m_head m)))\<rparr>,
          will_append))"

text \<open>\<open>append_msg\<close> computes the missing length in \<open>size_t\<close>, where the subtraction wraps around.\<close>

definition append_msg :: "string \<Rightarrow> message_t \<Rightarrow> message_t \<times> nat" where
  "append_msg buff m =
     (let will_append = min (unat (msg_size m - len_t (m_body m))) (length buff)
      in (m\<lparr>m_body := m_body m @ take will_append buff\<rparr>, will_append))"

definition clear :: "message_t \<Rightarrow> message_t" where
  "clear m = m\<lparr>m_head := \<lparr>h_size = 0, h_cmd = 0, h_flag = 0\<rparr>, m_body := []\<rparr>"

definition append_to_body :: "string \<Rightarrow> message_t \<Rightarrow> message_t" where
  "append_to_body buff m = m\<lparr>m_body := m_body m @ buff\<rparr>"

definition have_recv_head :: "nat \<Rightarrow> bool" where
  "have_recv_head have_recv_size \<longleftrightarrow> sizeof_head \<le> have_recv_size"

lemma clear_eq [simp]: "clear m = new_message"
  by (simp add: clear_def new_message_def new_head_def)

subsection \<open>The image a sender puts on the stream\<close>

text \<open>
  The three packet-building senders of \<open>msg_sender_t\<close>: a head with the body's size (narrowed to 32
  bits) followed by the body. \<open>send_to_client\<close> is the same with command 0.
\<close>

definition packet :: "u16 \<Rightarrow> string \<Rightarrow> string" where
  "packet cmd str = head_bytes ((new_head cmd)\<lparr>h_size := word_of_nat (length str)\<rparr>) @ str"

definition packet_to_client :: "string \<Rightarrow> string" where
  "packet_to_client str = packet 0 str"

subsection \<open>The receiving controller\<close>

record common_socket_controller =
  m_have_recv_size :: nat
  m_message :: message_t

definition new_controller :: common_socket_controller where
  "new_controller = \<lparr>m_have_recv_size = 0, m_message = new_message\<rparr>"

text \<open>
  One turn of the loop of \<open>handle_read\<close>: the state after it, the bytes left, and the packet handed to
  \<open>handle_msg\<close>, if there was one.
\<close>

definition read_turn ::
  "common_socket_controller \<Rightarrow> string \<Rightarrow> common_socket_controller \<times> string \<times> message_t list" where
  "read_turn st buff =
     (let (msg1, tmp1) = (if \<not> have_recv_head (m_have_recv_size st)
                          then append_head (m_have_recv_size st) buff (m_message st)
                          else (m_message st, 0));
          buff1 = drop tmp1 buff;
          (msg2, tmp2) = append_msg buff1 msg1;
          buff2 = drop tmp2 buff1;
          recv = m_have_recv_size st + tmp1 + tmp2
      in if len_t (get_body msg2) = msg_size msg2
         then (\<lparr>m_have_recv_size = 0, m_message = clear msg2\<rparr>, buff2, [msg2])
         else (\<lparr>m_have_recv_size = recv, m_message = msg2\<rparr>, buff2, []))"

text \<open>
  A turn consumes a byte, or it hands over a packet that was complete already: the loop ends.
\<close>

lemma append_head_fst [simp]:
  "m_body (fst (append_head i b m)) = m_body m"
  "snd (append_head i b m) = min (sizeof_head - i) (length b)"
  by (simp_all add: append_head_def Let_def)

lemma append_msg_simps [simp]:
  "m_head (fst (append_msg b m)) = m_head m"
  "snd (append_msg b m) = min (unat (msg_size m - len_t (m_body m))) (length b)"
  "m_body (fst (append_msg b m)) = m_body m @ take (snd (append_msg b m)) b"
  by (simp_all add: append_msg_def Let_def)

lemma msg_size_append_msg [simp]: "msg_size (fst (append_msg b m)) = msg_size m"
  by (simp add: msg_size_def)

lemma append_msg_0:
  assumes "snd (append_msg b m) = 0" "b \<noteq> []"
  shows "len_t (m_body (fst (append_msg b m))) = msg_size (fst (append_msg b m))"
proof -
  from assms have "unat (msg_size m - len_t (m_body m)) = 0" by (auto simp: min_def split: if_splits)
  then have "msg_size m = len_t (m_body m)" by (simp add: unat_eq_0)
  with assms show ?thesis by simp
qed

lemma read_turn_progress:
  assumes "buff \<noteq> []"
  shows "length (fst (snd (read_turn st buff))) < length buff \<or>
    length (fst (snd (read_turn st buff))) = length buff \<and>
    have_recv_head (m_have_recv_size st) \<and>
    \<not> have_recv_head (m_have_recv_size (fst (read_turn st buff)))"
proof (cases "have_recv_head (m_have_recv_size st)")
  case False
  with assms show ?thesis
    by (auto simp: read_turn_def Let_def have_recv_head_def split_beta)
next
  case True
  show ?thesis
  proof (cases "snd (append_msg buff (m_message st)) = 0")
    case z: True
    with append_msg_0 [OF z assms] True show ?thesis
      by (simp add: read_turn_def Let_def split_beta get_body_def have_recv_head_def)
  next
    case False
    with True assms show ?thesis
      by (auto simp: read_turn_def Let_def split_beta get_body_def have_recv_head_def)
  qed
qed

function handle_read ::
  "common_socket_controller \<Rightarrow> string \<Rightarrow> common_socket_controller \<times> message_t list" where
  "handle_read st buff =
     (if buff = [] then (st, [])
      else let (st', rest, out) = read_turn st buff;
               (st'', out') = handle_read st' rest
           in (st'', out @ out'))"
  by pat_completeness auto
termination
proof (relation "measures [\<lambda>(st, buff). length buff,
    \<lambda>(st, buff). if have_recv_head (m_have_recv_size st) then 1 else 0]", goal_cases)
  case (2 st buff x st' y rest out)
  then have "read_turn st buff = (st', rest, out)" by simp
  with 2(1) show ?case using read_turn_progress [of buff st] by auto
qed simp

declare handle_read.simps [simp del]

lemma handle_read_Nil [simp]: "handle_read st [] = (st, [])"
  by (simp add: handle_read.simps)


subsection \<open>Reassembly\<close>

text \<open>The packet a receiver should hand over for a sent \<open>packet cmd body\<close>.\<close>

definition sent_message :: "u16 \<Rightarrow> string \<Rightarrow> message_t" where
  "sent_message cmd body = \<lparr>m_head = (new_head cmd)\<lparr>h_size := word_of_nat (length body)\<rparr>, m_body = body\<rparr>"

text \<open>The controller's state once it has taken the bytes \<open>p\<close> of a packet that is not complete yet.\<close>

definition pending :: "string \<Rightarrow> common_socket_controller" where
  "pending p = \<lparr>m_have_recv_size = length p,
     m_message = \<lparr>m_head = head_of_bytes (overlay 0 (take sizeof_head p) (head_bytes (new_head 0))),
                  m_body = drop sizeof_head p\<rparr>\<rparr>"

lemma pending_Nil: "pending [] = new_controller"
  by (simp add: pending_def new_controller_def new_message_def overlay_def)

lemma length_packet [simp]: "length (packet cmd body) = sizeof_head + length body"
  by (simp add: packet_def)

lemma pending_append_head:
  assumes "length p < sizeof_head"
  shows "fst (append_head (length p) buff (m_message (pending p))) =
    m_message (pending (p @ take (sizeof_head - length p) buff))"
proof -
  let ?z = "head_bytes (new_head 0)" and ?q = "take (sizeof_head - length p) buff"
  have le: "length p + length ?q \<le> sizeof_head" using assms by simp
  have "overlay (length p) ?q (head_bytes (head_of_bytes (overlay 0 p ?z))) = overlay 0 (p @ ?q) ?z"
    using overlay_append [of 0 p ?q ?z] le assms
    by (simp add: head_bytes_head_of_bytes)
  moreover have "take (min (sizeof_head - length p) (length buff)) buff = ?q"
    by (simp add: min_def)
  ultimately show ?thesis using assms
    by (simp add: append_head_def pending_def Let_def)
qed

lemma pending_full_head:
  assumes "sizeof_head \<le> length p" "take (length p) (packet cmd body) = p"
  shows "m_message (pending p) =
    \<lparr>m_head = (new_head cmd)\<lparr>h_size := word_of_nat (length body)\<rparr>, m_body = drop sizeof_head p\<rparr>"
proof -
  have "take sizeof_head p = take sizeof_head (packet cmd body)"
    using assms by (metis min.absorb1 take_take)
  then have "overlay 0 (take sizeof_head p) (head_bytes (new_head 0)) =
      head_bytes ((new_head cmd)\<lparr>h_size := word_of_nat (length body)\<rparr>)"
    by (simp add: overlay_def packet_def)
  then show ?thesis by (simp add: pending_def)
qed



lemma len_t_eq_iff:
  "length xs < 2 ^ 64 \<Longrightarrow> unat w < 2 ^ 64 \<Longrightarrow> len_t xs = w \<longleftrightarrow> length xs = unat w"
  by (metis unat_len_t word_unat_eq_iff)

lemma msg_size_full:
  "length body < 2 ^ 32 \<Longrightarrow>
    unat (msg_size \<lparr>m_head = (new_head cmd)\<lparr>h_size := word_of_nat (length body)\<rparr>, m_body = b\<rparr>) = length body"
  by (simp add: msg_size_def unat_u32_of_nat)

lemma pending_append_msg:
  assumes p: "sizeof_head \<le> length p" "length p \<le> length (packet cmd body)"
    "take (length p) (packet cmd body) = p"
    and body: "length body < 2 ^ 32"
    and buff: "take (length (p @ buff)) (packet cmd body) = take (length (packet cmd body)) (p @ buff)"
  shows "append_msg buff (m_message (pending p)) =
    (m_message (pending (p @ take (length (packet cmd body) - length p) buff)),
     min (length (packet cmd body) - length p) (length buff))"
proof -
  let ?L = "length (packet cmd body)" and ?h = "(new_head cmd)\<lparr>h_size := word_of_nat (length body)\<rparr>"
  let ?q = "take (?L - length p) buff"
  have m: "m_message (pending p) = \<lparr>m_head = ?h, m_body = drop sizeof_head p\<rparr>"
    using p by (intro pending_full_head) auto
  have "length (drop sizeof_head p) \<le> length body" using p by simp
  then have "unat (msg_size (m_message (pending p)) - len_t (drop sizeof_head p)) = ?L - length p"
    using p body unfolding m
    by (subst unat_sub) (simp_all add: word_le_nat_alt msg_size_full unat_len_t)
  moreover have "take (length (p @ ?q)) (packet cmd body) = p @ ?q"
    using p(2) arg_cong [OF buff, of "take (length (p @ ?q))"] by (simp add: min_def split: if_splits)
  then have "m_message (pending (p @ ?q)) = \<lparr>m_head = ?h, m_body = drop sizeof_head (p @ ?q)\<rparr>"
    using p by (intro pending_full_head) auto
  moreover have "take (min (?L - length p) (length buff)) buff = ?q" by (simp add: min_def)
  ultimately show ?thesis using p(1)
    by (simp add: append_msg_def m Let_def)
qed

text \<open>
  One turn from a pending state: the head takes what it lacks, the body the rest, and the packet is
  handed over when the sizes agree.
\<close>

lemma read_turn_stage:
  "read_turn (pending p) buff =
    (let k = sizeof_head - length p; p1 = p @ take k buff; b1 = drop k buff;
         (msg, t) = append_msg b1 (m_message (pending p1))
     in if len_t (m_body msg) = msg_size msg then (new_controller, drop t b1, [msg])
        else (\<lparr>m_have_recv_size = length p1 + t, m_message = msg\<rparr>, drop t b1, []))"
proof -
  let ?k = "sizeof_head - length p"
  have head: "(if \<not> have_recv_head (m_have_recv_size (pending p))
       then append_head (m_have_recv_size (pending p)) buff (m_message (pending p))
       else (m_message (pending p), 0)) = (m_message (pending (p @ take ?k buff)), min ?k (length buff))"
  proof (cases "length p < sizeof_head")
    case True
    then show ?thesis using pending_append_head [OF True, of buff]
      by (simp add: have_recv_head_def prod_eq_iff) (simp add: pending_def)
  qed (simp add: have_recv_head_def pending_def)
  have "drop (min ?k (length buff)) buff = drop ?k buff" by (simp add: min_def)
  moreover have "m_have_recv_size (pending p) + min ?k (length buff) = length (p @ take ?k buff)"
    by (simp add: pending_def min.commute)
  moreover obtain msg t where "append_msg (drop ?k buff) (m_message (pending (p @ take ?k buff))) = (msg, t)"
    by fastforce
  ultimately show ?thesis
    by (simp add: read_turn_def head get_body_def new_controller_def Let_def del: drop_drop)
qed


text \<open>The turn completes the packet.\<close>

lemma read_turn_complete:
  assumes p: "take (length p) (packet cmd body) = p" "length p \<le> length (packet cmd body)"
    and body: "length body < 2 ^ 32"
    and buff: "p @ buff = packet cmd body @ rest"
  shows "read_turn (pending p) buff = (new_controller, rest, [sent_message cmd body])"
proof -
  let ?P = "packet cmd body" and ?k = "sizeof_head - length p"
  let ?p1 = "p @ take ?k buff" and ?b1 = "drop ?k buff"
  have eq: "?p1 @ ?b1 = ?P @ rest" using buff by simp
  have len: "length p + length buff = length ?P + length rest" using arg_cong [OF buff, of length] by simp
  then have le: "sizeof_head \<le> length ?p1" "length ?p1 \<le> length ?P" using p(2) by auto
  have p1: "take (length ?p1) ?P = ?p1"
    using eq le(2) by (rule take_of_append_eq)
  have "append_msg ?b1 (m_message (pending ?p1)) =
      (m_message (pending (?p1 @ take (length ?P - length ?p1) ?b1)),
       min (length ?P - length ?p1) (length ?b1))"
    using le p1 body eq by (intro pending_append_msg) (auto simp del: length_packet)
  moreover have "?p1 @ take (length ?P - length ?p1) ?b1 = ?P"
    using eq le(2) by (rule rest_of_append_eq(1))
  moreover have "drop (length ?P - length ?p1) ?b1 = rest"
    using eq le(2) by (rule rest_of_append_eq(2))
  moreover have "min (length ?P - length ?p1) (length ?b1) = length ?P - length ?p1"
    using arg_cong [OF eq, of length] by simp
  moreover have "m_message (pending ?P) = sent_message cmd body"
    using pending_full_head [of ?P cmd body] by (simp add: sent_message_def packet_def)
  moreover have "len_t body = msg_size (sent_message cmd body)"
    using body msg_size_full [of body cmd body] by (simp add: len_t_eq_iff sent_message_def)
  ultimately show ?thesis
    by (simp add: read_turn_stage Let_def sent_message_def del: length_packet drop_drop)
qed




text \<open>
  The bytes of a sequence of packets, taken from the middle of the first: whatever the buffer is, the
  packets it completes are handed over and the controller is pending on the rest.
\<close>

definition packets :: "(u16 \<times> string) list \<Rightarrow> string" where
  "packets ms = concat (map (\<lambda>(cmd, body). packet cmd body) ms)"

definition sent_messages :: "(u16 \<times> string) list \<Rightarrow> message_t list" where
  "sent_messages ms = map (\<lambda>(cmd, body). sent_message cmd body) ms"







text \<open>
  A buffer that holds whole packets only is cut correctly for every body a 32-bit size can
  describe, multiples of 256 and the empty body included.
\<close>

theorem whole_packets:
  "\<forall>(cmd, body) \<in> set ms. length body < 2 ^ 32 \<Longrightarrow>
    handle_read new_controller (packets ms) = (new_controller, sent_messages ms)"
proof (induction ms)
  case Nil
  then show ?case by (simp add: packets_def sent_messages_def)
next
  case (Cons m ms)
  obtain cmd body where m: "m = (cmd, body)" by (cases m)
  have "read_turn new_controller (packet cmd body @ packets ms) =
      (new_controller, packets ms, [sent_message cmd body])"
    using read_turn_complete [of "[]" cmd body] Cons.prems by (simp add: pending_Nil m)
  moreover have "packets (m # ms) = packet cmd body @ packets ms" by (simp add: m packets_def)
  moreover have "packet cmd body \<noteq> []" using length_packet [of cmd body] by fastforce
  ultimately show ?case using Cons
    by (subst handle_read.simps) (simp add: sent_messages_def m)
qed

theorem whole_packets_witness:
  "handle_read new_controller (packets [(3, []), (4, ''x'')]) =
    (new_controller, sent_messages [(3, []), (4, ''x'')])"
  using whole_packets [of "[(3, []), (4, ''x'')]"] by simp

text \<open>
  What the proviso of the reassembly excludes does go wrong. When a body's length is a multiple
  of 256 (the empty body included) and the first buffer ends inside the head after the first byte,
  the controller takes the half-read size 0 for the whole size: it hands over an empty packet with
  command 0 that nobody sent and forgets the byte, so the stream is out of step from there on.
\<close>

theorem split_head_spurious:
  assumes "length body mod 256 = 0"
  shows "handle_read new_controller (take 1 (packet cmd body)) = (new_controller, [new_message])"
proof -
  let ?w = "word_of_nat (length body) :: u32"
  have "unat ?w mod 256 = length body mod 256"
    by (simp add: unat_of_nat take_bit_eq_mod mod_mod_cancel)
  then have "take 1 (packet cmd body) = [CHR 0x00]"
    using assms by (simp add: packet_def head_bytes_def wire_simps)
  moreover have "read_turn (pending []) [CHR 0x00] = (new_controller, [], [new_message])"
    by (subst read_turn_stage) (simp add: append_msg_def pending_def overlay_def head_bytes_def new_head_def
        wire_simps head_of_bytes_def msg_size_def len_t_def new_message_def)
  ultimately show ?thesis
    by (subst handle_read.simps) (simp add: pending_Nil)
qed

theorem split_head_spurious_witness:
  "handle_read new_controller (take 1 (packet 7 [])) = (new_controller, [new_message])"
  using split_head_spurious [of "[]" 7] by simp

subsection \<open>Any bytes at all\<close>

text \<open>
  Between two calls the counter is the number of bytes taken of the packet in progress, and that
  packet is not complete.
\<close>

definition ctl_inv :: "common_socket_controller \<Rightarrow> bool" where
  "ctl_inv st \<longleftrightarrow>
     (if m_have_recv_size st < sizeof_head then m_body (m_message st) = []
      else m_have_recv_size st = sizeof_head + length (m_body (m_message st)) \<and>
           length (m_body (m_message st)) < unat (h_size (m_head (m_message st))))"

lemma ctl_inv_new [simp]: "ctl_inv new_controller"
  by (simp add: ctl_inv_def new_controller_def new_message_def)

lemma h_size_lt: "unat (h_size h) < 2 ^ 32"
  using unsigned_less [where 'a = nat, of "h_size h"] by simp

lemma unat_msg_size [simp]: "unat (msg_size m) = unat (h_size (m_head m))"
  by (simp add: msg_size_def)

lemma append_msg_within:
  assumes "length (m_body m) \<le> unat (h_size (m_head m))" "append_msg b m = (m', t)"
  shows "t = min (unat (h_size (m_head m)) - length (m_body m)) (length b)"
    and "m_head m' = m_head m" "length (m_body m') = length (m_body m) + t"
    and "len_t (m_body m') = msg_size m' \<longleftrightarrow> length (m_body m') = unat (h_size (m_head m'))"
proof -
  have l: "unat (len_t (m_body m)) = length (m_body m)"
    using assms(1) h_size_lt [of "m_head m"] by (intro unat_len_t) simp
  have sub: "unat (msg_size m - len_t (m_body m)) = unat (h_size (m_head m)) - length (m_body m)"
    using assms(1) l by (subst unat_sub) (simp_all add: word_le_nat_alt)
  have t: "t = snd (append_msg b m)" and m': "m' = fst (append_msg b m)" using assms(2) by simp_all
  show "t = min (unat (h_size (m_head m)) - length (m_body m)) (length b)"
    by (simp add: t sub)
  show "m_head m' = m_head m" by (simp add: m')
  show len: "length (m_body m') = length (m_body m) + t" by (simp add: m' t)
  have "length (m_body m') < 2 ^ 64"
    using len assms(1) h_size_lt [of "m_head m"] by (simp add: t sub)
  then show "len_t (m_body m') = msg_size m' \<longleftrightarrow> length (m_body m') = unat (h_size (m_head m'))"
    using unat_len_t [of "m_body m'"] by (metis unat_msg_size word_unat_eq_iff)
qed

lemma read_turn_inv:
  assumes "ctl_inv st" "read_turn st buff = (st', rest, out)"
  shows "ctl_inv st' \<and> (\<forall>m \<in> set out. length (m_body m) = unat (h_size (m_head m)))"
proof -
  define msg1 where "msg1 = (if \<not> have_recv_head (m_have_recv_size st)
      then fst (append_head (m_have_recv_size st) buff (m_message st)) else m_message st)"
  define t1 where "t1 = (if \<not> have_recv_head (m_have_recv_size st)
      then snd (append_head (m_have_recv_size st) buff (m_message st)) else 0)"
  obtain msg2 t2 where am: "append_msg (drop t1 buff) msg1 = (msg2, t2)" by fastforce
  have body: "length (m_body msg1) \<le> unat (h_size (m_head msg1))"
    using assms(1) by (auto simp: msg1_def ctl_inv_def have_recv_head_def)
  note w = append_msg_within [OF body am]
  have hd: "(if \<not> have_recv_head (m_have_recv_size st)
      then append_head (m_have_recv_size st) buff (m_message st) else (m_message st, 0)) = (msg1, t1)"
    by (simp add: msg1_def t1_def del: append_head_fst)
  have st': "(st', rest, out) = (if len_t (m_body msg2) = msg_size msg2
      then (\<lparr>m_have_recv_size = 0, m_message = new_message\<rparr>, drop t2 (drop t1 buff), [msg2])
      else (\<lparr>m_have_recv_size = m_have_recv_size st + t1 + t2, m_message = msg2\<rparr>,
            drop t2 (drop t1 buff), []))"
    using assms(2) by (simp add: read_turn_def hd am get_body_def Let_def del: drop_drop split: if_splits)
  have "m_have_recv_size st + t1 < sizeof_head \<Longrightarrow> length (m_body msg1) = 0 \<and> t2 = 0"
    and "sizeof_head \<le> m_have_recv_size st + t1 \<Longrightarrow> m_have_recv_size st + t1 = sizeof_head + length (m_body msg1)"
    using assms(1) w(1) by (auto simp: msg1_def t1_def ctl_inv_def have_recv_head_def split: if_splits)
  then show ?thesis
    using st' w body
    by (cases "m_have_recv_size st + t1 < sizeof_head")
      (auto simp: ctl_inv_def new_message_def not_less split: if_splits)
qed

text \<open>
  (C37) Robustness: whatever bytes arrive, every packet handed over has a body of exactly the length
  its head announces, and the controller is left with a packet in progress that is incomplete and a
  byte counter that counts it, below 8 bytes plus the 32-bit size.
\<close>

theorem handle_read_inv:
  assumes "ctl_inv st" "handle_read st buff = (st', out)"
  shows "ctl_inv st' \<and> m_have_recv_size st' < sizeof_head + 2 ^ 32 \<and>
    (\<forall>m \<in> set out. length (m_body m) = unat (h_size (m_head m)))"
proof -
  have "ctl_inv st' \<and> (\<forall>m \<in> set out. length (m_body m) = unat (h_size (m_head m)))"
    using assms
  proof (induction st buff arbitrary: st' out rule: handle_read.induct)
    case (1 st buff)
    show ?case
    proof (cases "buff = []")
      case True
      with 1 show ?thesis by auto
    next
      case False
      obtain st1 rest o1 where rt: "read_turn st buff = (st1, rest, o1)" by (cases "read_turn st buff")
      obtain st2 o2 where hr: "handle_read st1 rest = (st2, o2)" by fastforce
      have "ctl_inv st1" "\<forall>m \<in> set o1. length (m_body m) = unat (h_size (m_head m))"
        using read_turn_inv [OF 1(2) rt] by auto
      moreover have "st' = st2" "out = o1 @ o2"
        using 1(3) False rt hr by (simp_all add: handle_read.simps [of st buff])
      ultimately show ?thesis
        using 1(1) [OF False rt [symmetric] refl refl _ hr] by auto
    qed
  qed
  then show ?thesis
    using h_size_lt [of "m_head (m_message st')"] by (auto simp: ctl_inv_def split: if_splits)
qed

theorem handle_read_inv_witness:
  "ctl_inv (fst (handle_read new_controller ''any bytes at all''))"
  using handle_read_inv [OF ctl_inv_new, of "''any bytes at all''"]
  by (metis prod.collapse)

end
