(* ===== verification/Rpc_Callback.thy ===== *)
theory Rpc_Callback
  imports Rpc_Msg Message
begin

section \<open>Sending messages and answering requests\<close>

text \<open>
  \<^verbatim>\<open>net/msg_sender.h\<close> on a socket pointer that may be NULL, \<open>rpc_callcack_t\<close> of
  \<^verbatim>\<open>rpc/rpc_callback.h\<close> (the object a handler answers through), and the wrappers that decode a message
  before they call a handler. What leaves the process is a list of effects, in order.
\<close>

type_synonym sock = nat

datatype effect =
    Async_send sock string
  | Safe_delete sock
  | Perf_post string u64

text \<open>\<open>msg_sender_t::send(socket_ptr_t, uint16_t, const string&)\<close>.\<close>

definition send_str :: "sock option \<Rightarrow> u16 \<Rightarrow> string \<Rightarrow> effect list" where
  "send_str sp c str = (case sp of None \<Rightarrow> [] | Some k \<Rightarrow> [Async_send k (packet c str)])"

text \<open>\<open>msg_sender_t::send(socket_ptr_t, uint16_t, codec_i&)\<close>: encodes only for a socket.\<close>

definition send_codec ::
  "('m \<Rightarrow> 'm \<times> string) \<Rightarrow> sock option \<Rightarrow> u16 \<Rightarrow> 'm \<Rightarrow> 'm \<times> effect list" where
  "send_codec encode sp c m = (case sp of None \<Rightarrow> (m, [])
     | Some k \<Rightarrow> (let (m', body) = encode m in (m', [Async_send k (packet c body)])))"

text \<open>\<open>msg_sender_t::send_to_client\<close>.\<close>

definition send_to_client :: "('m \<Rightarrow> 'm \<times> string) \<Rightarrow> sock option \<Rightarrow> 'm \<Rightarrow> 'm \<times> effect list" where
  "send_to_client encode sp m = (case sp of None \<Rightarrow> (m, [])
     | Some k \<Rightarrow> (let (m', body) = encode m in (m', [Async_send k (packet_to_client body)])))"

subsection \<open>The answer to a request\<close>

record rpc_callcack_t =
  cb_socket :: "sock option"
  cb_cmd :: u16
  cb_sgid :: u16
  cb_sid :: u16
  cb_uuid :: u32

text \<open>The constructor, then \<open>init_data\<close> and \<open>set_socket\<close>, as every user of the class runs them.\<close>

definition make_callcack :: "u16 \<Rightarrow> u16 \<Rightarrow> u16 \<Rightarrow> u32 \<Rightarrow> sock option \<Rightarrow> rpc_callcack_t" where
  "make_callcack c sgid sid uu sp =
     \<lparr>cb_socket = sp, cb_cmd = c, cb_sgid = sgid, cb_sid = sid, cb_uuid = uu\<rparr>"

text \<open>\<open>rpc_callcack_base_t::exe(msg_i&)\<close>.\<close>

definition callcack_exe ::
  "('a msg_i_scheme \<Rightarrow> 'a msg_i_scheme \<times> string) \<Rightarrow> rpc_callcack_t \<Rightarrow> 'a msg_i_scheme \<Rightarrow>
   'a msg_i_scheme \<times> effect list" where
  "callcack_exe encode cb m =
     (let m1 = (if cb_sgid cb \<noteq> 0 then m\<lparr>service_group_id := cb_sgid cb, service_id := cb_sid cb\<rparr> else m);
          m2 = m1\<lparr>uuid := cb_uuid cb\<rparr>
      in send_codec encode (cb_socket cb) (cmd_id INTREFACE_CALLBACK) m2)"

text \<open>
  \<open>rpc_callcack_t<MSGT>::operator()(MSGT&)\<close>. The id comes from \<open>msg_traits_t<MSGT>::get_id\<close>, which
  looks up the name of a default-constructed message and keeps a non-zero answer; the answer for a
  name never changes (\<open>add_msg\<close> leaves known names alone), so it is the lookup in the current table.
\<close>

definition callcack_call ::
  "('a msg_i_scheme \<Rightarrow> 'a msg_i_scheme \<times> string) \<Rightarrow> msg_name_store_t \<Rightarrow> string \<Rightarrow> rpc_callcack_t \<Rightarrow>
   'a msg_i_scheme \<Rightarrow> effect list" where
  "callcack_call encode st name cb m = snd (callcack_exe encode cb (m\<lparr>msg_id := name_to_id st name\<rparr>))"

subsection \<open>The wrappers around handlers\<close>

text \<open>
  \<open>msg_process_func_impl_t::exe\<close> and \<open>msg_process_class_func_impl_t::exe\<close>: decode into a fresh message
  (an exception leaves \<open>exe\<close>), build the answer object from the request's \<open>uuid\<close>, call the handler.
\<close>

definition process_func_exe ::
  "(string \<Rightarrow> 'a msg_i_scheme \<Rightarrow> 'a msg_i_scheme dres) \<Rightarrow> 'a msg_i_scheme \<Rightarrow>
   ('a msg_i_scheme \<Rightarrow> rpc_callcack_t \<Rightarrow> 'r) \<Rightarrow> u16 \<Rightarrow> u16 \<Rightarrow> string \<Rightarrow> u16 \<Rightarrow> sock option \<Rightarrow> 'r exc" where
  "process_func_exe decode fresh interface sgid sid msg c sp =
     (case decode msg fresh of Throw e _ \<Rightarrow> Inl e
      | Ok in_msg _ \<Rightarrow> Inr (interface in_msg (make_callcack c sgid sid (uuid in_msg) sp)))"

text \<open>
  \<open>callback_wrapper_cfunc_impl_t::callback\<close> and \<open>callback_wrapper_class_impl_t::callback\<close>: the exception
  is swallowed and the callback runs on what was decoded.
\<close>

definition callback_swallow ::
  "(string \<Rightarrow> 'm \<Rightarrow> 'm dres) \<Rightarrow> 'm \<Rightarrow> ('m \<Rightarrow> 'r) \<Rightarrow> string \<Rightarrow> 'r" where
  "callback_swallow decode fresh callback buff =
     (case decode buff fresh of Throw _ m \<Rightarrow> callback m | Ok m _ \<Rightarrow> callback m)"

text \<open>The wrappers that \<open>binder_t::callback\<close> builds for bound arguments do not catch.\<close>

definition callback_bound ::
  "(string \<Rightarrow> 'm \<Rightarrow> 'm dres) \<Rightarrow> 'm \<Rightarrow> ('m \<Rightarrow> 'r) \<Rightarrow> string \<Rightarrow> 'r exc" where
  "callback_bound decode fresh callback buff =
     (case decode buff fresh of Throw e _ \<Rightarrow> Inl e | Ok m _ \<Rightarrow> Inr (callback m))"

lemma make_callcack_simps [simp]:
  "cb_socket (make_callcack c g i u sp) = sp" "cb_uuid (make_callcack c g i u sp) = u"
  by (simp_all add: make_callcack_def)

lemma callcack_call_socket:
  "callcack_call encode st name (make_callcack c 0 0 uu (Some k)) m =
    [Async_send k (packet (cmd_id INTREFACE_CALLBACK)
      (snd (encode (m\<lparr>msg_id := name_to_id st name, uuid := uu\<rparr>))))]"
  by (simp add: callcack_call_def callcack_exe_def make_callcack_def send_codec_def Let_def split_beta)

text \<open>
  Who gets the answer: an answer goes to the socket the request came from, as one
  \<open>INTREFACE_CALLBACK\<close> packet whose body carries the \<open>uuid\<close> of the request, the id registered for the
  answer's type and, when the handler belongs to a service, that service's group and id; without a
  socket nothing is sent.
\<close>

theorem answer_carries_uuid:
  assumes "ok_bool_ret m" "encoder m = []"
  shows "callcack_call encode_bool_ret st name (make_callcack c sgid sid uu None) m = [] \<and>
    (\<exists>body. callcack_call encode_bool_ret st name (make_callcack c sgid sid uu (Some k)) m =
        [Async_send k (packet (cmd_id INTREFACE_CALLBACK) body)] \<and>
      (\<forall>m0. decode_bool_ret body m0 = Ok (m0\<lparr>uuid := uu, msg_id := name_to_id st name,
        service_group_id := (if sgid \<noteq> 0 then sgid else service_group_id m),
        service_id := (if sgid \<noteq> 0 then sid else service_id m), ret_value := ret_value m\<rparr>) []))"
proof -
  define m1 where "m1 = (if sgid \<noteq> 0 then m\<lparr>msg_id := name_to_id st name, service_group_id := sgid,
    service_id := sid, uuid := uu\<rparr> else m\<lparr>msg_id := name_to_id st name, uuid := uu\<rparr>)"
  have m1: "ok_bool_ret m1" "encoder m1 = []" using assms by (simp_all add: m1_def ok_bool_ret_def)
  have "callcack_call encode_bool_ret st name (make_callcack c sgid sid uu (Some k)) m =
      [Async_send k (packet (cmd_id INTREFACE_CALLBACK) (snd (encode_bool_ret m1)))]"
    by (simp add: callcack_call_def callcack_exe_def make_callcack_def send_codec_def m1_def Let_def split_beta)
  moreover have "decode_bool_ret (snd (encode_bool_ret m1)) m0 = Ok (m0\<lparr>uuid := uu,
      msg_id := name_to_id st name, service_group_id := (if sgid \<noteq> 0 then sgid else service_group_id m),
      service_id := (if sgid \<noteq> 0 then sid else service_id m), ret_value := ret_value m\<rparr>) []" for m0
    unfolding bool_ret.roundtrip [OF m1] by (simp add: fill_bool_ret_def head_from_def m1_def)
  moreover have "callcack_call encode_bool_ret st name (make_callcack c sgid sid uu None) m = []"
    by (simp add: callcack_call_def callcack_exe_def make_callcack_def send_codec_def Let_def)
  ultimately show ?thesis by blast
qed

theorem answer_carries_uuid_witness:
  "\<exists>body. callcack_call encode_bool_ret new_store ''sync_all_service_t::out_t''
      (make_callcack 11 3 4 77 (Some 9)) new_sas_out = [Async_send 9 (packet 11 body)]"
  using answer_carries_uuid [of new_sas_out new_store "''sync_all_service_t::out_t''" 11 3 4 77 9]
  by (auto simp: new_msg_defs ok_bool_ret_def)

end
