(* ===== verification/Broker.thy ===== *)
theory Broker
  imports Rpc_Callback
begin

section \<open>The broker\<close>

text \<open>
  \<open>broker_service_t\<close> of \<^verbatim>\<open>rpc/broker_service.h\<close> and \<^verbatim>\<open>rpc/broker_service.cpp\<close>: the directory of service
  groups and services, the relay of calls and answers between them, and the pushes that keep every
  connected process informed. \<open>m_mutex\<close> is held by every handler from its first to its last
  statement, so a handler is one step on the state. The process-wide name table (\<open>names\<close>) and the
  session pointer each socket carries (\<open>session\<close>) are part of the state; what is sent, deleted or
  posted to the performance daemon is appended to \<open>effects\<close>. The clock is an argument.
\<close>

subsection \<open>State\<close>

record socket_session_info_t =
  node_id :: u16
  sess_slave_host :: string

record proc_stack_t =
  ps_start_time :: u64
  ps_req_msg :: string
  ps_uuid :: u32
  ps_socket :: sock

record service_obj_t =
  so_name :: string
  so_group_id :: u16
  so_id :: u16
  so_socket :: "sock option"
  so_uuid :: u32
  so_node_id :: u16
  so_callback_map :: "(u32, proc_stack_t) omap"

record service_obj_mgr_t =
  mgr_id :: u16
  mgr_name :: string
  service_objs :: "(u16, service_obj_t) omap"

record broker_service_t =
  m_service_obj_mgr :: "(u16, service_obj_mgr_t) omap"
  m_uuid :: u32
  m_msg_uuid :: u32
  m_all_sockets :: "sock oset"
  m_all_slave_host :: "string list"
  names :: msg_name_store_t
  session :: "sock \<Rightarrow> socket_session_info_t option"
  effects :: "effect list"

definition new_broker :: broker_service_t where
  "new_broker = \<lparr>m_service_obj_mgr = [], m_uuid = 0, m_msg_uuid = 100, m_all_sockets = [],
     m_all_slave_host = [], names = new_store, session = (\<lambda>_. None), effects = []\<rparr>"

definition emit :: "effect list \<Rightarrow> broker_service_t \<Rightarrow> broker_service_t" where
  "emit es b = b\<lparr>effects := effects b @ es\<rparr>"

text \<open>A manager as \<open>map::operator[]\<close> value-initialises it for a key that is not there.\<close>

definition null_mgr :: service_obj_mgr_t where
  "null_mgr = \<lparr>mgr_id = 0, mgr_name = [], service_objs = []\<rparr>"

definition mgr_at :: "u16 \<Rightarrow> broker_service_t \<Rightarrow> service_obj_mgr_t" where
  "mgr_at k b = (case map_of (m_service_obj_mgr b) k of Some som \<Rightarrow> som | None \<Rightarrow> null_mgr)"

definition set_mgr :: "u16 \<Rightarrow> service_obj_mgr_t \<Rightarrow> broker_service_t \<Rightarrow> broker_service_t" where
  "set_mgr k som b = b\<lparr>m_service_obj_mgr := om_put k som (m_service_obj_mgr b)\<rparr>"

definition new_service_obj :: "string \<Rightarrow> u16 \<Rightarrow> u16 \<Rightarrow> sock option \<Rightarrow> u16 \<Rightarrow> service_obj_t" where
  "new_service_obj name gid i sp nid = \<lparr>so_name = name, so_group_id = gid, so_id = i, so_socket = sp,
     so_uuid = 0, so_node_id = nid, so_callback_map = []\<rparr>"

subsection \<open>Replication from the master\<close>

definition sync_group :: "string \<times> u16 \<Rightarrow> broker_service_t \<Rightarrow> broker_service_t" where
  "sync_group ng b = b\<lparr>m_service_obj_mgr := fst (om_insert (snd ng)
     \<lparr>mgr_id = snd ng, mgr_name = fst ng, service_objs = []\<rparr> (m_service_obj_mgr b))\<rparr>"

definition sync_service :: "id_info_t \<Rightarrow> broker_service_t \<Rightarrow> broker_service_t" where
  "sync_service i b = (case map_of (m_service_obj_mgr b) (ii_sgid i) of
     None \<Rightarrow> b
   | Some som \<Rightarrow> set_mgr (ii_sgid i) (som\<lparr>service_objs := om_put (ii_sid i)
       (new_service_obj (mgr_name som) (ii_sgid i) (ii_sid i) None (ii_node_id i)) (service_objs som)\<rparr>) b)"

definition sync_msg :: "string \<times> u16 \<Rightarrow> broker_service_t \<Rightarrow> broker_service_t" where
  "sync_msg ni b = b\<lparr>names := add_msg (fst ni) (snd ni) (names b)\<rparr>"

text \<open>The loops index the id vectors by the positions of the name vectors.\<close>

definition process_sync_data :: "push_init_data_in \<Rightarrow> broker_service_t \<Rightarrow> broker_service_t exc" where
  "process_sync_data out b =
     (if length (group_id_vt out) < length (group_name_vt out) \<or> length (msg_id_vt out) < length (msg_name_vt out)
      then Inl Out_of_range
      else Inr (fold sync_msg (zip (msg_name_vt out) (msg_id_vt out))
             (fold sync_service (id_info_vt out)
               (fold sync_group (zip (group_name_vt out) (group_id_vt out)) b))))"

subsection \<open>A socket breaks\<close>

definition purge_callbacks :: "sock \<Rightarrow> service_obj_t \<Rightarrow> service_obj_t" where
  "purge_callbacks sk so =
     (let del_callback_uuid = map fst (filter (\<lambda>(u, ps). ps_socket ps = sk) (so_callback_map so))
      in so\<lparr>so_callback_map := fold om_erase del_callback_uuid (so_callback_map so)\<rparr>)"

definition purge_mgr :: "sock \<Rightarrow> service_obj_mgr_t \<Rightarrow> service_obj_mgr_t" where
  "purge_mgr sk som = som\<lparr>service_objs := map (\<lambda>(i, so). (i, purge_callbacks sk so)) (service_objs som)\<rparr>"

text \<open>The pairs of \<open>del_sgid\<close> and \<open>del_sid\<close>.\<close>

definition broken_services :: "sock \<Rightarrow> (u16, service_obj_mgr_t) omap \<Rightarrow> (u16 \<times> u16) list" where
  "broken_services sk mgrs =
     concat (map (\<lambda>(g, som). map (\<lambda>(i, so). (g, i)) (filter (\<lambda>(i, so). so_socket so = Some sk) (service_objs som))) mgrs)"

definition del_service :: "u16 \<times> u16 \<Rightarrow> broker_service_t \<Rightarrow> broker_service_t" where
  "del_service gi b =
     (let som = mgr_at (fst gi) b;
          som' = som\<lparr>service_objs := om_erase (snd gi) (service_objs som)\<rparr>;
          b' = set_mgr (fst gi) som' b
      in if service_objs som' = [] then b'\<lparr>m_service_obj_mgr := om_erase (fst gi) (m_service_obj_mgr b')\<rparr>
         else b')"

definition handle_broken :: "sock \<Rightarrow> broker_service_t \<Rightarrow> broker_service_t" where
  "handle_broken sk b =
     (let dels = broken_services sk (m_service_obj_mgr b);
          b1 = b\<lparr>m_service_obj_mgr := map (\<lambda>(g, som). (g, purge_mgr sk som)) (m_service_obj_mgr b)\<rparr>;
          b2 = fold del_service dels b1;
          b3 = (case session b2 sk of None \<Rightarrow> b2
                | Some info \<Rightarrow> b2\<lparr>m_all_slave_host := remove1 (sess_slave_host info) (m_all_slave_host b2),
                                  session := (session b2)(sk := None)\<rparr>);
          b4 = emit [Safe_delete sk] b3
      in b4\<lparr>m_all_sockets := os_erase sk (m_all_sockets b4)\<rparr>)"

subsection \<open>Pushing to the other sockets\<close>

fun push_loop :: "('m \<Rightarrow> 'm \<times> string) \<Rightarrow> sock option \<Rightarrow> sock list \<Rightarrow> 'm \<Rightarrow> effect list" where
  "push_loop encode except [] m = []"
| "push_loop encode except (k # ks) m =
     (if Some k \<noteq> except
      then let (m', es) = send_codec encode (Some k) (cmd_id CALL_INTERFACE) m
           in es @ push_loop encode except ks m'
      else push_loop encode except ks m)"

definition push_msg_except ::
  "('a msg_i_scheme \<Rightarrow> 'a msg_i_scheme \<times> string) \<Rightarrow> sock option \<Rightarrow> 'a msg_i_scheme \<Rightarrow>
   broker_service_t \<Rightarrow> broker_service_t" where
  "push_msg_except encode except m b =
     (let m' = m\<lparr>msg_id := name_to_id (names b) (get_name (names b) m)\<rparr>
      in emit (push_loop encode except (m_all_sockets b) m') b)"

subsection \<open>The requests to the broker itself\<close>

text \<open>The loops of \<open>sync_all_service\<close> over the directory and the name table.\<close>

definition sync_init_data :: "broker_service_t \<Rightarrow> push_init_data_in" where
  "sync_init_data b = new_pid_in\<lparr>
     group_name_vt := map (\<lambda>(g, som). mgr_name som) (m_service_obj_mgr b),
     group_id_vt := map (\<lambda>(g, som). mgr_id som) (m_service_obj_mgr b),
     id_info_vt := concat (map (\<lambda>(g, som). map (\<lambda>(i, so).
       \<lparr>ii_sgid = so_group_id so, ii_sid = so_id so, ii_node_id = so_node_id so\<rparr>) (service_objs som))
       (m_service_obj_mgr b)),
     msg_name_vt := map fst (all_msg (names b)),
     msg_id_vt := map snd (all_msg (names b))\<rparr>"

definition sync_all_service :: "sync_all_service_in \<Rightarrow> rpc_callcack_t \<Rightarrow> broker_service_t \<Rightarrow> broker_service_t exc" where
  "sync_all_service in_msg cb b =
     (case cb_socket cb of None \<Rightarrow> Inl Null_deref
      | Some sk \<Rightarrow>
        (let ret = (sync_init_data b)\<lparr>uuid := uuid in_msg, pi_node_id := m_uuid b + 1, bind_id := 0\<rparr>;
             b1 = b\<lparr>m_uuid := m_uuid b + 1,
                    m_all_slave_host := m_all_slave_host b @
                      (if slave_host in_msg \<noteq> [] then [slave_host in_msg] else [])\<rparr>;
             ret = ret\<lparr>broker_slave_host := m_all_slave_host b1\<rparr>;
             b2 = b1\<lparr>session := (session b1)(sk \<mapsto>
                    \<lparr>node_id = ucast (pi_node_id ret), sess_slave_host = slave_host in_msg\<rparr>)\<rparr>;
             ret = ret\<lparr>msg_id := name_to_id (names b2) (get_name (names b2) ret)\<rparr>;
             b3 = emit (snd (send_codec encode_pid_in (Some sk) (cmd_id PUSH_INIT_DATA) ret)) b2;
             out = new_sas_out\<lparr>ret_value := True\<rparr>
         in Inr (emit (callcack_call encode_bool_ret (names b3) (msg_name new_sas_out) cb out) b3)))"

definition create_service_group ::
  "create_service_group_in \<Rightarrow> rpc_callcack_t \<Rightarrow> broker_service_t \<Rightarrow> broker_service_t" where
  "create_service_group in_msg cb b =
     (let (ret, b1) = (case find (\<lambda>(g, som). mgr_name som = service_name in_msg) (m_service_obj_mgr b) of
            Some (g, som) \<Rightarrow> (new_csg_out\<lparr>out_service_id := mgr_id som\<rparr>, b)
          | None \<Rightarrow>
              (let i = ucast (m_uuid b + 1)
               in (new_csg_out\<lparr>out_service_id := i\<rparr>,
                   b\<lparr>m_uuid := m_uuid b + 1,
                     m_service_obj_mgr := fst (om_insert i
                       \<lparr>mgr_id = i, mgr_name = service_name in_msg, service_objs = []\<rparr>
                       (m_service_obj_mgr b))\<rparr>)));
          ret = ret\<lparr>uuid := uuid in_msg\<rparr>;
          push_msg = new_pasg_in\<lparr>pg_name := service_name in_msg, pg_sgid := out_service_id ret\<rparr>;
          b2 = push_msg_except encode_pasg_in None push_msg b1
      in emit (callcack_call encode_csg_out (names b2) (msg_name new_csg_out) cb ret) b2)"

definition create_service ::
  "create_service_in \<Rightarrow> rpc_callcack_t \<Rightarrow> broker_service_t \<Rightarrow> broker_service_t exc" where
  "create_service in_msg cb b =
     (let gid = new_service_group_id in_msg;
          sid = new_service_id in_msg;
          som = mgr_at gid b;
          b0 = set_mgr gid som b
      in case cb_socket cb of None \<Rightarrow> Inl Null_deref
         | Some sk \<Rightarrow> (case session b sk of None \<Rightarrow> Inl Null_deref
           | Some info \<Rightarrow>
             (let (ret, b1) =
                (if map_of (service_objs som) sid \<noteq> None then (new_cs_out\<lparr>ret_value := False\<rparr>, b0)
                 else (new_cs_out\<lparr>ret_value := True\<rparr>,
                       set_mgr gid (som\<lparr>service_objs := om_put sid
                         (new_service_obj (mgr_name som) gid sid (Some sk) (node_id info)) (service_objs som)\<rparr>) b0));
                  ret = ret\<lparr>uuid := uuid in_msg\<rparr>;
                  push_msg = new_pas_in\<lparr>pa_sgid := gid, pa_sid := sid, pa_node_id := node_id info\<rparr>;
                  b2 = push_msg_except encode_pas_in None push_msg b1
              in Inr (emit (callcack_call encode_bool_ret (names b2) (msg_name new_cs_out) cb ret) b2))))"

text \<open>The id of a message name: the registered one, or the next number narrowed to 16 bits.\<close>

definition alloc_msg_id :: "string \<Rightarrow> broker_service_t \<Rightarrow> u16 \<times> broker_service_t" where
  "alloc_msg_id name b =
     (let tmp_id = name_to_id (names b) name
      in if tmp_id \<noteq> 0 then (tmp_id, b)
         else (ucast (m_msg_uuid b + 1), b\<lparr>m_msg_uuid := m_msg_uuid b + 1\<rparr>))"

definition reg_interface ::
  "reg_interface_in \<Rightarrow> rpc_callcack_t \<Rightarrow> broker_service_t \<Rightarrow> broker_service_t" where
  "reg_interface in_msg cb b =
     (let ret = new_ri_out\<lparr>alloc_id := - 1, uuid := uuid in_msg\<rparr>;
          som = mgr_at (ri_sgid in_msg) b;
          b0 = set_mgr (ri_sgid in_msg) som b;
          (ret, b1) =
            (if map_of (service_objs som) (ri_sid in_msg) \<noteq> None
             then let (i, b1) = alloc_msg_id (in_msg_name in_msg) b0;
                      (j, b2) = alloc_msg_id (out_msg_name in_msg) b1
                  in (ret\<lparr>alloc_id := i, out_alloc_id := j\<rparr>,
                      b2\<lparr>names := add_msg (out_msg_name in_msg) j (add_msg (in_msg_name in_msg) i (names b2))\<rparr>)
             else (ret, b0));
          b2 = emit (callcack_call encode_ri_out (names b1) (msg_name new_ri_out) cb ret) b1;
          b3 = push_msg_except encode_pam_in (cb_socket cb)
                 (new_pam_in\<lparr>pm_name := in_msg_name in_msg, pm_msg_id := alloc_id ret\<rparr>) b2
      in push_msg_except encode_pam_in (cb_socket cb)
           (new_pam_in\<lparr>pm_name := out_msg_name in_msg, pm_msg_id := out_alloc_id ret\<rparr>) b3)"

fun find_socket_by_node :: "u16 \<Rightarrow> (sock \<Rightarrow> socket_session_info_t option) \<Rightarrow> sock list \<Rightarrow> sock option exc" where
  "find_socket_by_node nid ses [] = Inr None"
| "find_socket_by_node nid ses (k # ks) = (case ses k of None \<Rightarrow> Inl Null_deref
     | Some info \<Rightarrow> if nid = node_id info then Inr (Some k) else find_socket_by_node nid ses ks)"

definition reg_slave_broker :: "reg_slave_broker_in \<Rightarrow> sock \<Rightarrow> broker_service_t \<Rightarrow> broker_service_t" where
  "reg_slave_broker in_msg sk b =
     b\<lparr>m_service_obj_mgr := map (\<lambda>(g, som). (g, som\<lparr>service_objs := map (\<lambda>(i, so).
           (i, if so_node_id so = rb_node_id in_msg then so\<lparr>so_socket := Some sk\<rparr> else so)) (service_objs som)\<rparr>))
         (m_service_obj_mgr b),
       session := (session b)(sk \<mapsto> \<lparr>node_id = rb_node_id in_msg, sess_slave_host = []\<rparr>),
       m_all_sockets := os_insert sk (m_all_sockets b)\<rparr>"

definition push_add_service_group :: "push_add_service_group_in \<Rightarrow> broker_service_t \<Rightarrow> broker_service_t" where
  "push_add_service_group in_msg b = sync_group (pg_name in_msg, pg_sgid in_msg) b"

definition push_add_service :: "push_add_service_in \<Rightarrow> broker_service_t \<Rightarrow> broker_service_t exc" where
  "push_add_service in_msg b = (case map_of (m_service_obj_mgr b) (pa_sgid in_msg) of
     None \<Rightarrow> Inr b
   | Some som \<Rightarrow> (case find_socket_by_node (pa_node_id in_msg) (session b) (m_all_sockets b) of
       Inl e \<Rightarrow> Inl e
     | Inr sp \<Rightarrow> Inr (set_mgr (pa_sgid in_msg) (som\<lparr>service_objs := om_put (pa_sid in_msg)
         (new_service_obj (mgr_name som) (pa_sgid in_msg) (pa_sid in_msg) sp (pa_node_id in_msg))
         (service_objs som)\<rparr>) b)))"

subsection \<open>Relaying\<close>

text \<open>\<open>*((uint32_t*)dest.data()) = uuid\<close>: the first four bytes of the body are the request's number.\<close>

definition put_uuid :: "u32 \<Rightarrow> string \<Rightarrow> string" where
  "put_uuid u body = overlay 0 (enc_u32 u) body"

definition async_call ::
  "u64 \<Rightarrow> msg_name_store_t \<Rightarrow> msg_i \<Rightarrow> string \<Rightarrow> sock \<Rightarrow> service_obj_t \<Rightarrow> service_obj_t \<times> effect list" where
  "async_call now st msg body sk so =
     (let stack = \<lparr>ps_start_time = now, ps_req_msg = get_name st msg, ps_uuid = uuid msg, ps_socket = sk\<rparr>;
          u = so_uuid so + 1;
          dest = put_uuid u body
      in (so\<lparr>so_uuid := u, so_callback_map := om_put u stack (so_callback_map so)\<rparr>,
          send_str (so_socket so) (cmd_id CALL_INTERFACE) dest))"

definition interface_callback ::
  "u64 \<Rightarrow> msg_i \<Rightarrow> string \<Rightarrow> service_obj_t \<Rightarrow> service_obj_t \<times> effect list" where
  "interface_callback now msg body so = (case map_of (so_callback_map so) (uuid msg) of
     None \<Rightarrow> (so, [])
   | Some ps \<Rightarrow>
      (let dest = put_uuid (ps_uuid ps) body
       in (so\<lparr>so_callback_map := om_erase (uuid msg) (so_callback_map so)\<rparr>,
           send_str (Some (ps_socket ps)) (cmd_id INTREFACE_CALLBACK) dest @
           [Perf_post (ps_req_msg ps) (now - ps_start_time ps)])))"

subsection \<open>Dispatch\<close>

definition decoded :: "'m dres \<Rightarrow> ('m \<Rightarrow> 'b exc) \<Rightarrow> 'b exc" where
  "decoded r k = (case r of Throw e _ \<Rightarrow> Inl e | Ok m _ \<Rightarrow> k m)"

definition exc_map :: "('a \<Rightarrow> 'b) \<Rightarrow> 'a exc \<Rightarrow> 'b exc" where
  "exc_map f r = (case r of Inl e \<Rightarrow> Inl e | Inr x \<Rightarrow> Inr (f x))"

text \<open>The messages to the broker itself: group 0, service 0. Unknown ids fall through.\<close>

definition broker_msg :: "u16 \<Rightarrow> string \<Rightarrow> sock \<Rightarrow> broker_service_t \<Rightarrow> broker_service_t exc" where
  "broker_msg mid body sk b =
     (let cb = (\<lambda>uu. make_callcack (cmd_id INTREFACE_CALLBACK) 0 0 uu (Some sk))
      in if mid = cmd_id CREATE_SERVICE_GROUP then
           decoded (decode_csg_in body new_csg_in) (\<lambda>i. Inr (create_service_group i (cb (uuid i)) b))
         else if mid = cmd_id CREATE_SERVICE then
           decoded (decode_cs_in body new_cs_in) (\<lambda>i. create_service i (cb (uuid i)) b)
         else if mid = cmd_id REG_INTERFACE then
           decoded (decode_ri_in body new_ri_in) (\<lambda>i. Inr (reg_interface i (cb (uuid i)) b))
         else if mid = cmd_id SYNC_ALL_SERVICE then
           decoded (decode_sas_in body new_sas_in) (\<lambda>i.
             exc_map (\<lambda>b'. b'\<lparr>m_all_sockets := os_insert sk (m_all_sockets b')\<rparr>)
               (sync_all_service i (cb (uuid i)) b))
         else if mid = cmd_id PUSH_INIT_DATA then
           decoded (decode_pid_in body new_pid_in) (\<lambda>i. process_sync_data i b)
         else if mid = cmd_id REG_SLAVE_BROKER then
           decoded (decode_rsb_in body new_rsb_in) (\<lambda>i. Inr (reg_slave_broker i sk b))
         else if mid = cmd_id PUSH_ADD_SERVICE_GROUP then
           decoded (decode_pasg_in body new_pasg_in) (\<lambda>i. Inr (push_add_service_group i b))
         else if mid = cmd_id PUSH_ADD_SERVICE then
           decoded (decode_pas_in body new_pas_in) (\<lambda>i. push_add_service i b)
         else if mid = cmd_id PUSH_ADD_MSG then
           decoded (decode_pam_in body new_pam_in) (\<lambda>i.
             Inr (b\<lparr>names := add_msg (pm_name i) (pm_msg_id i) (names b)\<rparr>))
         else Inr b)"

text \<open>The messages that are relayed.\<close>

definition relay_msg :: "u64 \<Rightarrow> u16 \<Rightarrow> msg_i \<Rightarrow> string \<Rightarrow> sock \<Rightarrow> broker_service_t \<Rightarrow> broker_service_t \<times> int" where
  "relay_msg now c tool body sk b =
     (case map_of (m_service_obj_mgr b) (service_group_id tool) of None \<Rightarrow> (b, - 1)
      | Some som \<Rightarrow> (case map_of (service_objs som) (service_id tool) of None \<Rightarrow> (b, - 1)
        | Some so \<Rightarrow>
          (let (so', es) = (if c = cmd_id CALL_INTERFACE then async_call now (names b) tool body sk so
                            else if c = cmd_id INTREFACE_CALLBACK then interface_callback now tool body so
                            else (so, []))
           in (emit es (set_mgr (service_group_id tool)
                 (som\<lparr>service_objs := om_put (service_id tool) so' (service_objs som)\<rparr>) b), 0))))"

definition handle_msg :: "u64 \<Rightarrow> message_t \<Rightarrow> sock \<Rightarrow> broker_service_t \<Rightarrow> (broker_service_t \<times> int) exc" where
  "handle_msg now msg sk b =
     (case decode_base_msg (get_body msg) new_msg_tool of
        Throw e _ \<Rightarrow> Inr (b, - 1)
      | Ok tool _ \<Rightarrow>
          (if service_group_id tool = 0 \<and> service_id tool = 0
           then exc_map (\<lambda>b'. (b', 0)) (broker_msg (msg_id tool) (get_body msg) sk b)
           else Inr (relay_msg now (get_cmd msg) tool (get_body msg) sk b)))"

subsection \<open>The directory\<close>

text \<open>
  The two levels of maps as one: the service registered under a group and a service id. The lemmas
  below say what each update does to it, so that the properties need not look at the lists.
\<close>

definition svc :: "broker_service_t \<Rightarrow> u16 \<Rightarrow> u16 \<Rightarrow> service_obj_t option" where
  "svc b g i = (case map_of (m_service_obj_mgr b) g of None \<Rightarrow> None | Some som \<Rightarrow> map_of (service_objs som) i)"

definition mgr_wf :: "service_obj_mgr_t \<Rightarrow> bool" where
  "mgr_wf som \<longleftrightarrow> om_wf (service_objs som) \<and> (\<forall>(i, so) \<in> set (service_objs som). om_wf (so_callback_map so))"

definition broker_wf :: "broker_service_t \<Rightarrow> bool" where
  "broker_wf b \<longleftrightarrow> om_wf (m_service_obj_mgr b) \<and> (\<forall>(g, som) \<in> set (m_service_obj_mgr b). mgr_wf som) \<and>
     os_wf (m_all_sockets b)"

lemma set_om_put_subset: "set (om_put k v m) \<subseteq> insert (k, v) (set m)"
  by (induction k v m rule: om_put.induct) auto

lemma svc_fields [simp]:
  "svc (b\<lparr>m_uuid := u\<rparr>) = svc b" "svc (b\<lparr>m_msg_uuid := u\<rparr>) = svc b"
  "svc (b\<lparr>m_all_sockets := s\<rparr>) = svc b" "svc (b\<lparr>m_all_slave_host := h\<rparr>) = svc b"
  "svc (b\<lparr>names := n\<rparr>) = svc b" "svc (b\<lparr>session := ss\<rparr>) = svc b" "svc (b\<lparr>effects := e\<rparr>) = svc b"
  by (simp_all add: svc_def fun_eq_iff)

lemma broker_wf_fields [simp]:
  "broker_wf (b\<lparr>m_uuid := u\<rparr>) = broker_wf b" "broker_wf (b\<lparr>m_msg_uuid := u\<rparr>) = broker_wf b"
  "broker_wf (b\<lparr>m_all_slave_host := h\<rparr>) = broker_wf b"
  "broker_wf (b\<lparr>names := n\<rparr>) = broker_wf b" "broker_wf (b\<lparr>session := ss\<rparr>) = broker_wf b"
  "broker_wf (b\<lparr>effects := e\<rparr>) = broker_wf b"
  by (simp_all add: broker_wf_def)

lemma svc_set_mgr [simp]:
  "svc (set_mgr g som b) g' i = (if g' = g then map_of (service_objs som) i else svc b g' i)"
  by (simp add: svc_def set_mgr_def)

lemma map_of_mgr_at [simp]: "map_of (service_objs (mgr_at g b)) i = svc b g i"
  by (simp add: svc_def mgr_at_def null_mgr_def split: option.splits)

lemma mgr_wf_at: "broker_wf b \<Longrightarrow> mgr_wf (mgr_at g b)"
  by (auto simp: mgr_at_def null_mgr_def mgr_wf_def broker_wf_def dest!: map_of_SomeD split: option.splits)

lemma mgr_wf_put: "mgr_wf som \<Longrightarrow> om_wf (so_callback_map so) \<Longrightarrow>
    mgr_wf (som\<lparr>service_objs := om_put i so (service_objs som)\<rparr>)"
  using set_om_put_subset [of i so "service_objs som"] by (fastforce simp: mgr_wf_def)

lemma mgr_wf_erase: "mgr_wf som \<Longrightarrow> mgr_wf (som\<lparr>service_objs := om_erase i (service_objs som)\<rparr>)"
  using set_om_erase_subset [of i "service_objs som"] by (auto simp: mgr_wf_def)

lemma broker_wf_set_mgr: "broker_wf b \<Longrightarrow> mgr_wf som \<Longrightarrow> broker_wf (set_mgr g som b)"
  using set_om_put_subset [of g som "m_service_obj_mgr b"] by (fastforce simp: broker_wf_def set_mgr_def)

lemma broker_wf_mgr: "broker_wf b \<Longrightarrow> map_of (m_service_obj_mgr b) g = Some som \<Longrightarrow> mgr_wf som"
  by (auto simp: broker_wf_def dest: map_of_SomeD)

lemma broker_wf_svc: "broker_wf b \<Longrightarrow> svc b g i = Some so \<Longrightarrow> om_wf (so_callback_map so)"
  by (auto simp: svc_def broker_wf_def mgr_wf_def dest!: map_of_SomeD split: option.splits)

lemma svc_erase_mgr:
  "om_wf (m_service_obj_mgr b) \<Longrightarrow>
    svc (b\<lparr>m_service_obj_mgr := om_erase g (m_service_obj_mgr b)\<rparr>) g' i = (if g' = g then None else svc b g' i)"
  by (simp add: svc_def map_of_om_erase)

lemma svc_del_service:
  assumes "broker_wf b"
  shows "svc (del_service gi b) g i = (if (g, i) = gi then None else svc b g i)"
proof -
  have w: "om_wf (service_objs (mgr_at (fst gi) b))" "om_wf (m_service_obj_mgr b)"
    using assms mgr_wf_at by (auto simp: mgr_wf_def broker_wf_def)
  show ?thesis
  proof (cases "om_erase (snd gi) (service_objs (mgr_at (fst gi) b)) = []")
    case True
    then have "svc b (fst gi) i' = None" if "i' \<noteq> snd gi" for i'
      using map_of_om_erase [OF w(1), of "snd gi"] that by (metis fun_upd_apply map_of.simps(1) map_of_mgr_at)
    moreover have "om_wf (m_service_obj_mgr (set_mgr (fst gi) (mgr_at (fst gi) b\<lparr>service_objs := []\<rparr>) b))"
      using w(2) by (auto simp: set_mgr_def)
    ultimately show ?thesis
      using True by (cases gi) (auto simp: del_service_def Let_def svc_erase_mgr)
  next
    case False
    then show ?thesis
      using w by (cases gi) (simp add: del_service_def Let_def map_of_om_erase)
  qed
qed

lemma del_service_fields [simp]:
  "m_all_sockets (del_service gi b) = m_all_sockets b" "session (del_service gi b) = session b"
  "m_all_slave_host (del_service gi b) = m_all_slave_host b" "names (del_service gi b) = names b"
  "effects (del_service gi b) = effects b" "m_uuid (del_service gi b) = m_uuid b"
  "m_msg_uuid (del_service gi b) = m_msg_uuid b"
  by (simp_all add: del_service_def set_mgr_def Let_def)

lemma broker_wf_del_service: "broker_wf b \<Longrightarrow> broker_wf (del_service gi b)"
proof -
  assume b: "broker_wf b"
  let ?som = "mgr_at (fst gi) b"
  have "broker_wf (set_mgr (fst gi) (?som\<lparr>service_objs := om_erase (snd gi) (service_objs ?som)\<rparr>) b)" (is "broker_wf ?b")
    by (intro broker_wf_set_mgr mgr_wf_erase mgr_wf_at b)
  moreover from this have "broker_wf (?b\<lparr>m_service_obj_mgr := om_erase (fst gi) (m_service_obj_mgr ?b)\<rparr>)"
    using set_om_erase_subset [of "fst gi" "m_service_obj_mgr ?b"] by (auto simp: broker_wf_def)
  ultimately show ?thesis unfolding del_service_def Let_def by (split if_split) blast
qed

lemma del_services:
  "broker_wf b \<Longrightarrow> broker_wf (fold del_service gis b) \<and>
    svc (fold del_service gis b) g i = (if (g, i) \<in> set gis then None else svc b g i) \<and>
    m_all_sockets (fold del_service gis b) = m_all_sockets b \<and> session (fold del_service gis b) = session b \<and>
    m_all_slave_host (fold del_service gis b) = m_all_slave_host b \<and> names (fold del_service gis b) = names b \<and>
    effects (fold del_service gis b) = effects b"
  by (induction gis arbitrary: b) (auto simp: broker_wf_del_service svc_del_service)

subsection \<open>What a broken socket leaves behind\<close>

lemma om_wf_filter: "om_wf m \<Longrightarrow> om_wf (filter P m)"
  unfolding om_wf_def by (induction m) auto

lemma map_of_filter_wf:
  "om_wf m \<Longrightarrow> map_of (filter P m) k = (case map_of m k of None \<Rightarrow> None | Some v \<Rightarrow> if P (k, v) then Some v else None)"
proof (cases "map_of m k")
  case (Some v)
  assume w: "om_wf m"
  then have d: "distinct (map fst m)" "distinct (map fst (filter P m))"
    by (auto intro: om_wf_distinct om_wf_filter)
  show ?thesis
    using Some d by (auto simp: map_of_eq_Some_iff map_of_eq_None_iff) (metis eq_key_imp_eq_value)
next
  case None
  then have "map_of (filter P m) k = None" by (auto simp: map_of_eq_None_iff)
  with None show ?thesis by simp
qed

lemma purge_callbacks_filter:
  assumes "om_wf (so_callback_map so)"
  shows "purge_callbacks sk so = so\<lparr>so_callback_map := filter (\<lambda>(u, ps). ps_socket ps \<noteq> sk) (so_callback_map so)\<rparr>"
proof -
  let ?m = "so_callback_map so" and ?del = "map fst (filter (\<lambda>(u, ps). ps_socket ps = sk) (so_callback_map so))"
  have "fold om_erase ?del ?m = filter (\<lambda>(u, ps). ps_socket ps \<noteq> sk) ?m"
  proof (rule om_wf_ext)
    have "u \<in> set ?del \<longleftrightarrow> (\<exists>ps. map_of ?m u = Some ps \<and> ps_socket ps = sk)" for u
      using om_wf_distinct [OF assms] by (force simp: map_of_eq_Some_iff)
    then show "map_of (fold om_erase ?del ?m) = map_of (filter (\<lambda>(u, ps). ps_socket ps \<noteq> sk) ?m)"
      using om.erases [OF assms, of ?del] by (auto simp: fun_eq_iff map_of_filter_wf [OF assms] split: option.splits)
  qed (use om.erases [OF assms] in \<open>auto intro: om_wf_filter assms\<close>)
  then show ?thesis by (simp add: purge_callbacks_def Let_def)
qed

lemma om_wf_map_snd [simp]: "om_wf (map (\<lambda>(k, v). (k, f v)) m) = om_wf m"
  by (simp add: om_wf_def split_def comp_def)

lemma svc_map_mgrs:
  assumes "\<And>som i. map_of (service_objs (F som)) i = map_option f (map_of (service_objs som) i)"
  shows "svc (b\<lparr>m_service_obj_mgr := map (\<lambda>(g, som). (g, F som)) (m_service_obj_mgr b)\<rparr>) g i = map_option f (svc b g i)"
  by (simp add: svc_def map_of_map assms split: option.splits)

lemma svc_member:
  assumes "broker_wf b"
  shows "svc b g i = Some so \<longleftrightarrow> (\<exists>som. (g, som) \<in> set (m_service_obj_mgr b) \<and> (i, so) \<in> set (service_objs som))"
proof
  assume "\<exists>som. (g, som) \<in> set (m_service_obj_mgr b) \<and> (i, so) \<in> set (service_objs som)"
  then obtain som where som: "(g, som) \<in> set (m_service_obj_mgr b)" "(i, so) \<in> set (service_objs som)" by blast
  then have "map_of (m_service_obj_mgr b) g = Some som" "map_of (service_objs som) i = Some so"
    using assms by (auto simp: broker_wf_def mgr_wf_def intro!: map_of_is_SomeI om_wf_distinct)
  then show "svc b g i = Some so" by (simp add: svc_def)
qed (auto simp: svc_def dest!: map_of_SomeD split: option.splits)

lemma in_broken_services:
  assumes "broker_wf b"
  shows "(g, i) \<in> set (broken_services sk (m_service_obj_mgr b)) \<longleftrightarrow>
    (\<exists>so. svc b g i = Some so \<and> so_socket so = Some sk)"
  unfolding svc_member [OF assms] by (force simp: broken_services_def)

lemma purge_mgr_wf:
  assumes "broker_wf b"
  shows "broker_wf (b\<lparr>m_service_obj_mgr := map (\<lambda>(g, som). (g, purge_mgr sk som)) (m_service_obj_mgr b)\<rparr>)"
proof -
  have "mgr_wf (purge_mgr sk som)" if "mgr_wf som" for som
    using that by (auto simp: mgr_wf_def purge_mgr_def purge_callbacks_filter intro!: om_wf_filter)
  with assms show ?thesis by (auto simp: broker_wf_def)
qed

lemma svc_purge:
  assumes "broker_wf b"
  shows "svc (b\<lparr>m_service_obj_mgr := map (\<lambda>(g, som). (g, purge_mgr sk som)) (m_service_obj_mgr b)\<rparr>) g i =
    map_option (\<lambda>so. so\<lparr>so_callback_map := filter (\<lambda>(u, ps). ps_socket ps \<noteq> sk) (so_callback_map so)\<rparr>) (svc b g i)"
proof (cases "svc b g i")
  case (Some so)
  then show ?thesis
    using svc_map_mgrs [of "purge_mgr sk" "purge_callbacks sk" b g i] broker_wf_svc [OF assms Some]
    by (simp add: purge_mgr_def map_of_map purge_callbacks_filter)
qed (use svc_map_mgrs [of "purge_mgr sk" "purge_callbacks sk" b g i] in \<open>simp add: purge_mgr_def map_of_map\<close>)

lemma broker_wf_handle_broken: "broker_wf b \<Longrightarrow> broker_wf (handle_broken sk b)"
proof -
  assume "broker_wf b"
  then have "broker_wf (fold del_service gis
      (b\<lparr>m_service_obj_mgr := map (\<lambda>(g, som). (g, purge_mgr sk som)) (m_service_obj_mgr b)\<rparr>))" for gis
    using del_services [OF purge_mgr_wf] by blast
  then show ?thesis
    by (simp add: handle_broken_def Let_def emit_def broker_wf_def os_wf_erase split: option.splits)
qed

lemma handle_broken_effect:
  assumes "broker_wf b"
  shows "svc (handle_broken sk b) g i = (case svc b g i of None \<Rightarrow> None
      | Some so \<Rightarrow> if so_socket so = Some sk then None
          else Some (so\<lparr>so_callback_map := filter (\<lambda>(u, ps). ps_socket ps \<noteq> sk) (so_callback_map so)\<rparr>)) \<and>
    set (m_all_sockets (handle_broken sk b)) = set (m_all_sockets b) - {sk} \<and>
    session (handle_broken sk b) = (session b)(sk := None) \<and>
    effects (handle_broken sk b) = effects b @ [Safe_delete sk]"
proof -
  let ?b1 = "b\<lparr>m_service_obj_mgr := map (\<lambda>(g, som). (g, purge_mgr sk som)) (m_service_obj_mgr b)\<rparr>"
  note d = del_services [OF purge_mgr_wf [OF assms], of "broken_services sk (m_service_obj_mgr b)" sk]
  have "svc (handle_broken sk b) g i = svc (fold del_service (broken_services sk (m_service_obj_mgr b)) ?b1) g i"
    by (simp add: handle_broken_def Let_def emit_def split: option.splits)
  then have "svc (handle_broken sk b) g i = (case svc b g i of None \<Rightarrow> None
      | Some so \<Rightarrow> if so_socket so = Some sk then None
          else Some (so\<lparr>so_callback_map := filter (\<lambda>(u, ps). ps_socket ps \<noteq> sk) (so_callback_map so)\<rparr>))"
    using d [of g i] by (auto simp: svc_purge [OF assms] in_broken_services [OF assms] split: option.splits)
  then show ?thesis
    using d by (auto simp: handle_broken_def Let_def emit_def split: option.splits)
qed

text \<open>
  (C9) What \<open>handle_broken\<close> does to the directory: exactly the services that were reached through the
  broken socket are gone; every other service is still there with the calls that are waiting for an
  answer, less those whose caller was the broken socket; the socket is out of the set of connected
  sockets, its session is freed, and it is deleted once.
\<close>

theorem handle_broken_purges:
  assumes "broker_wf b"
  shows "svc (handle_broken sk b) g i = (case svc b g i of None \<Rightarrow> None
      | Some so \<Rightarrow> if so_socket so = Some sk then None
          else Some (so\<lparr>so_callback_map := filter (\<lambda>(u, ps). ps_socket ps \<noteq> sk) (so_callback_map so)\<rparr>)) \<and>
    set (m_all_sockets (handle_broken sk b)) = set (m_all_sockets b) - {sk} \<and>
    session (handle_broken sk b) = (session b)(sk := None) \<and>
    effects (handle_broken sk b) = effects b @ [Safe_delete sk]"
  by (rule handle_broken_effect [OF assms])

text \<open>A broker with one service of socket 1, one of socket 2, and a call from 1 to the latter.\<close>

definition sample_broker :: broker_service_t where
  "sample_broker = new_broker\<lparr>m_uuid := 4, m_all_sockets := [1, 2],
     session := [1 \<mapsto> \<lparr>node_id = 1, sess_slave_host = []\<rparr>, 2 \<mapsto> \<lparr>node_id = 2, sess_slave_host = []\<rparr>],
     m_service_obj_mgr := [
       (3, \<lparr>mgr_id = 3, mgr_name = ''a'', service_objs = [(0, new_service_obj ''a'' 3 0 (Some 1) 1)]\<rparr>),
       (4, \<lparr>mgr_id = 4, mgr_name = ''b'', service_objs = [(0, (new_service_obj ''b'' 4 0 (Some 2) 2)
         \<lparr>so_uuid := 1, so_callback_map := [(1, \<lparr>ps_start_time = 0, ps_req_msg = ''q'', ps_uuid = 9, ps_socket = 1\<rparr>)]\<rparr>)]\<rparr>)]\<rparr>"

lemma sample_broker_wf: "broker_wf sample_broker"
  by (simp add: sample_broker_def new_broker_def broker_wf_def mgr_wf_def om_wf_def os_wf_def new_service_obj_def)

theorem handle_broken_purges_witness:
  "svc (handle_broken 1 sample_broker) 3 0 = None \<and>
   map_option so_callback_map (svc (handle_broken 1 sample_broker) 4 0) = Some [] \<and>
   svc sample_broker 3 0 \<noteq> None \<and> map_option so_callback_map (svc sample_broker 4 0) \<noteq> Some []"
  using handle_broken_purges [OF sample_broker_wf, of 1 3 0] handle_broken_purges [OF sample_broker_wf, of 1 4 0]
  by (simp add: svc_def sample_broker_def new_service_obj_def)

subsection \<open>The sockets the broker can reach\<close>

text \<open>
  The sockets the state refers to: the connected ones, those with a session, those services are
  reached through and those that wait for an answer. \<open>safe k b b'\<close> says that a handler run for
  socket \<open>k\<close> may lead from \<open>b\<close> to \<open>b'\<close>: it refers to no socket but \<open>k\<close> that was not known before,
  everything it emitted goes to \<open>k\<close> or to a known socket, and connected sockets have sessions if
  they had before.
\<close>

definition svc_refs :: "service_obj_t \<Rightarrow> sock set" where
  "svc_refs so = set_option (so_socket so) \<union> ps_socket ` snd ` set (so_callback_map so)"

definition refs :: "broker_service_t \<Rightarrow> sock set" where
  "refs b = set (m_all_sockets b) \<union> dom (session b) \<union> {k. \<exists>g i so. svc b g i = Some so \<and> k \<in> svc_refs so}"

fun effect_sock :: "effect \<Rightarrow> sock set" where
  "effect_sock (Async_send k p) = {k}"
| "effect_sock (Safe_delete k) = {k}"
| "effect_sock (Perf_post q c) = {}"

definition targets :: "effect list \<Rightarrow> sock set" where
  "targets es = (\<Union>e \<in> set es. effect_sock e)"

definition sessions_ok :: "broker_service_t \<Rightarrow> bool" where
  "sessions_ok b \<longleftrightarrow> set (m_all_sockets b) \<subseteq> dom (session b)"

definition safe :: "sock \<Rightarrow> broker_service_t \<Rightarrow> broker_service_t \<Rightarrow> bool" where
  "safe k b b' \<longleftrightarrow> broker_wf b' \<and> refs b' \<subseteq> insert k (refs b) \<and>
     (\<exists>es. effects b' = effects b @ es \<and> targets es \<subseteq> insert k (refs b)) \<and>
     (sessions_ok b \<longrightarrow> sessions_ok b')"

lemma targets_simps [simp]:
  "targets [] = {}" "targets (e # es) = effect_sock e \<union> targets es" "targets (es @ es') = targets es \<union> targets es'"
  by (auto simp: targets_def)

lemma refs_subset:
  "refs b \<subseteq> S \<longleftrightarrow> set (m_all_sockets b) \<subseteq> S \<and> dom (session b) \<subseteq> S \<and>
    (\<forall>g i so. svc b g i = Some so \<longrightarrow> svc_refs so \<subseteq> S)"
  unfolding refs_def by blast

lemma refs_svc: "svc b g i = Some so \<Longrightarrow> svc_refs so \<subseteq> refs b"
  unfolding refs_def by blast

lemma refs_sockets: "set (m_all_sockets b) \<subseteq> refs b"
  unfolding refs_def by blast

lemma set_mgr_fields [simp]:
  "m_all_sockets (set_mgr g som b) = m_all_sockets b" "session (set_mgr g som b) = session b"
  "effects (set_mgr g som b) = effects b" "names (set_mgr g som b) = names b"
  "m_uuid (set_mgr g som b) = m_uuid b" "m_msg_uuid (set_mgr g som b) = m_msg_uuid b"
  "m_all_slave_host (set_mgr g som b) = m_all_slave_host b"
  by (simp_all add: set_mgr_def)

lemma emit_fields [simp]:
  "m_service_obj_mgr (emit es b) = m_service_obj_mgr b" "m_all_sockets (emit es b) = m_all_sockets b"
  "session (emit es b) = session b" "effects (emit es b) = effects b @ es" "names (emit es b) = names b"
  "m_uuid (emit es b) = m_uuid b" "m_msg_uuid (emit es b) = m_msg_uuid b"
  "m_all_slave_host (emit es b) = m_all_slave_host b" "svc (emit es b) = svc b" "broker_wf (emit es b) = broker_wf b"
  by (simp_all add: emit_def)

lemma safe_refl [simp]: "broker_wf b \<Longrightarrow> safe k b b"
  by (auto simp: safe_def)

lemma safe_fields [simp]:
  "safe k b (b'\<lparr>m_uuid := u\<rparr>) = safe k b b'" "safe k b (b'\<lparr>m_msg_uuid := u\<rparr>) = safe k b b'"
  "safe k b (b'\<lparr>m_all_slave_host := h\<rparr>) = safe k b b'" "safe k b (b'\<lparr>names := n\<rparr>) = safe k b b'"
  by (simp_all add: safe_def refs_def sessions_ok_def)

lemma safe_refsD: "safe k b b' \<Longrightarrow> x \<in> refs b' \<Longrightarrow> x \<in> insert k (refs b)"
  by (auto simp: safe_def)

lemma safe_wfD: "safe k b b' \<Longrightarrow> broker_wf b'"
  by (simp add: safe_def)

lemma safe_svcD: "safe k b b' \<Longrightarrow> svc b' g i = Some so \<Longrightarrow> svc_refs so \<subseteq> insert k (refs b)"
  unfolding safe_def using refs_svc by blast

lemma safe_emit: "safe k b b' \<Longrightarrow> targets es \<subseteq> insert k (refs b) \<Longrightarrow> safe k b (emit es b')"
  by (auto simp: safe_def refs_subset sessions_ok_def)

lemma safe_set_mgr:
  assumes "safe k b b'" "mgr_wf som"
    and "\<And>i so. map_of (service_objs som) i = Some so \<Longrightarrow> svc_refs so \<subseteq> insert k (refs b)"
  shows "safe k b (set_mgr g som b')"
proof -
  have "refs (set_mgr g som b') \<subseteq> insert k (refs b)"
    using assms(1,3) by (simp add: refs_subset safe_def)
  moreover have "broker_wf (set_mgr g som b')" by (intro broker_wf_set_mgr safe_wfD [OF assms(1)] assms(2))
  ultimately show ?thesis
    using assms(1) by (simp add: safe_def sessions_ok_def)
qed

lemma safe_same_mgr: "safe k b b' \<Longrightarrow> safe k b (set_mgr g (mgr_at g b') b')"
  by (rule safe_set_mgr) (auto intro: mgr_wf_at dest: safe_wfD safe_svcD)

lemma safe_put_svc:
  assumes "safe k b b'" "mgr_wf som" "\<And>i so. map_of (service_objs som) i = Some so \<Longrightarrow> svc_refs so \<subseteq> insert k (refs b)"
    and "om_wf (so_callback_map so)" "svc_refs so \<subseteq> insert k (refs b)"
  shows "safe k b (set_mgr g (som\<lparr>service_objs := om_put i so (service_objs som)\<rparr>) b')"
  using assms by (intro safe_set_mgr mgr_wf_put) (auto split: if_splits)

lemma safe_session: "safe k b b' \<Longrightarrow> safe k b (b'\<lparr>session := (session b')(k \<mapsto> x)\<rparr>)"
  by (auto simp: safe_def refs_subset sessions_ok_def)

lemma safe_socket:
  "safe k b b' \<Longrightarrow> session b' k \<noteq> None \<Longrightarrow> safe k b (b'\<lparr>m_all_sockets := os_insert k (m_all_sockets b')\<rparr>)"
  by (auto simp: safe_def refs_subset sessions_ok_def broker_wf_def)

lemma targets_push_loop: "targets (push_loop encode except ks m) \<subseteq> set ks"
  by (induction ks arbitrary: m) (auto simp: send_codec_def split_beta Let_def dest!: subsetD)

lemma safe_push:
  assumes "safe k b b'"
  shows "safe k b (push_msg_except encode except m b')"
proof -
  have "targets (push_loop encode except (m_all_sockets b') m') \<subseteq> insert k (refs b)" for m'
    by (rule subset_trans [OF subset_trans [OF targets_push_loop refs_sockets]])
      (use assms in \<open>simp add: safe_def\<close>)
  then show ?thesis unfolding push_msg_except_def Let_def by (intro safe_emit assms)
qed

lemma targets_callcack [simp]:
  "targets (callcack_call encode st name (make_callcack c g i u (Some k)) m) = {k}"
  by (simp add: callcack_call_def callcack_exe_def make_callcack_def send_codec_def split_beta Let_def)

lemma svc_refs_new [simp]: "svc_refs (new_service_obj n g i sp nid) = set_option sp"
  by (simp add: svc_refs_def new_service_obj_def)

lemma callback_map_new [simp]: "so_callback_map (new_service_obj n g i sp nid) = []"
  by (simp add: new_service_obj_def)

lemma targets_send_str [simp]: "targets (send_str sp c s) = set_option sp"
  by (simp add: send_str_def split: option.splits)

lemma targets_send_codec [simp]: "targets (snd (send_codec e sp c m)) = set_option sp"
  by (simp add: send_codec_def split_beta split: option.splits)

subsection \<open>Every handler is safe\<close>

lemma safe_insert_mgr:
  assumes "safe k b b'"
  shows "safe k b (b'\<lparr>m_service_obj_mgr := fst (om_insert j \<lparr>mgr_id = i, mgr_name = n, service_objs = []\<rparr>
    (m_service_obj_mgr b'))\<rparr>)"
proof (cases "map_of (m_service_obj_mgr b') j")
  case None
  have "safe k b (set_mgr j \<lparr>mgr_id = i, mgr_name = n, service_objs = []\<rparr> b')"
    by (rule safe_set_mgr [OF assms]) (simp_all add: mgr_wf_def)
  with None show ?thesis by (simp add: om_insert_def set_mgr_def)
qed (simp add: om_insert_def assms)

lemma safe_create_service_group:
  assumes "broker_wf b"
  shows "safe k b (create_service_group i (make_callcack c 0 0 u (Some k)) b)"
proof -
  have "safe k b (b\<lparr>m_uuid := v, m_service_obj_mgr := fst (om_insert j \<lparr>mgr_id = j, mgr_name = n, service_objs = []\<rparr>
      (m_service_obj_mgr b))\<rparr>)" for v j n
    using safe_insert_mgr [of k b "b\<lparr>m_uuid := v\<rparr>" j j n] assms by simp
  then show ?thesis
    unfolding create_service_group_def Let_def
    by (auto intro!: safe_emit safe_push simp: assms split: option.splits)
qed

lemma safe_create_service:
  assumes "broker_wf b" "create_service i (make_callcack c 0 0 u (Some k)) b = Inr b'"
  shows "safe k b b'"
proof -
  let ?g = "new_service_group_id i" and ?s = "new_service_id i"
  let ?b0 = "set_mgr ?g (mgr_at ?g b) b"
  have b0: "safe k b ?b0" by (intro safe_same_mgr safe_refl assms(1))
  have b1: "safe k b (set_mgr ?g (mgr_at ?g b\<lparr>service_objs := om_put ?s so (service_objs (mgr_at ?g b))\<rparr>) ?b0)"
    if "so_callback_map so = []" "svc_refs so \<subseteq> {k}" for so
    using that assms(1) by (intro safe_put_svc b0) (auto intro: mgr_wf_at dest: refs_svc)
  show ?thesis
    using assms(2) unfolding create_service_def Let_def
    by (auto intro!: safe_emit safe_push b0 b1 split: option.splits if_splits)
qed

lemma alloc_msg_id_safe: "safe k b b1 \<Longrightarrow> safe k b (snd (alloc_msg_id n b1))"
  by (simp add: alloc_msg_id_def Let_def)

lemma safe_reg_interface:
  assumes "broker_wf b"
  shows "safe k b (reg_interface i (make_callcack c 0 0 u (Some k)) b)"
proof -
  have "safe k b (set_mgr g (mgr_at g b) b)" for g by (intro safe_same_mgr safe_refl assms)
  then show ?thesis
    unfolding reg_interface_def Let_def split_beta
    by (intro safe_push safe_emit) (simp_all add: alloc_msg_id_safe)
qed

lemma safe_sync_all_service:
  assumes "broker_wf b" "sync_all_service i (make_callcack c 0 0 u (Some k)) b = Inr b'"
  shows "safe k b (b'\<lparr>m_all_sockets := os_insert k (m_all_sockets b')\<rparr>)"
proof -
  obtain h ses ret es where b': "b' = emit es (emit (snd (send_codec encode_pid_in (Some k) (cmd_id PUSH_INIT_DATA) ret))
      (b\<lparr>m_uuid := m_uuid b + 1, m_all_slave_host := h, session := (session b)(k \<mapsto> ses)\<rparr>))"
    and es: "targets es = {k}"
    using assms(2) unfolding sync_all_service_def Let_def by auto
  have "safe k b (b\<lparr>m_uuid := m_uuid b + 1, m_all_slave_host := h, session := (session b)(k \<mapsto> ses)\<rparr>)"
    using safe_session [of k b "b\<lparr>m_uuid := m_uuid b + 1, m_all_slave_host := h\<rparr>" ses] assms(1) by simp
  then have "safe k b b'" unfolding b' by (intro safe_emit) (auto simp: es)
  then show ?thesis by (rule safe_socket) (simp add: b')
qed

lemma safe_fold: "safe k b b' \<Longrightarrow> (\<And>x b'. safe k b b' \<Longrightarrow> safe k b (f x b')) \<Longrightarrow> safe k b (fold f xs b')"
  by (induction xs arbitrary: b') auto

lemma safe_sync_group: "safe k b b' \<Longrightarrow> safe k b (sync_group ng b')"
  unfolding sync_group_def by (rule safe_insert_mgr)

lemma svc_of_mgr: "map_of (m_service_obj_mgr b) g = Some som \<Longrightarrow> map_of (service_objs som) i = svc b g i"
  by (simp add: svc_def)

lemma safe_put_new_svc:
  assumes "safe k b b'" "map_of (m_service_obj_mgr b') g = Some som" "set_option sp \<subseteq> insert k (refs b)"
  shows "safe k b (set_mgr g' (som\<lparr>service_objs := om_put i (new_service_obj n g'' i' sp nid) (service_objs som)\<rparr>) b')"
  using assms
  by (intro safe_put_svc) (auto intro: broker_wf_mgr safe_wfD simp: svc_of_mgr dest: safe_svcD)

lemma safe_sync_service: "safe k b b' \<Longrightarrow> safe k b (sync_service i b')"
  by (auto simp: sync_service_def intro!: safe_put_new_svc split: option.splits)

lemma safe_process_sync_data:
  assumes "broker_wf b" "process_sync_data out b = Inr b'"
  shows "safe k b b'"
proof -
  have "safe k b (fold sync_msg ms (fold sync_service ss (fold sync_group gs b)))" for ms ss gs
    by (intro safe_fold safe_sync_group safe_sync_service) (simp_all add: assms(1) sync_msg_def)
  then show ?thesis using assms(2) by (auto simp: process_sync_data_def split: if_splits)
qed

lemma safe_reg_slave_broker:
  assumes "broker_wf b"
  shows "safe k b (reg_slave_broker i k b)"
proof -
  let ?f = "\<lambda>so. if so_node_id so = rb_node_id i then so\<lparr>so_socket := Some k\<rparr> else so"
  let ?F = "\<lambda>som. som\<lparr>service_objs := map (\<lambda>(i, so). (i, ?f so)) (service_objs som)\<rparr>"
  let ?b = "b\<lparr>m_service_obj_mgr := map (\<lambda>(g, som). (g, ?F som)) (m_service_obj_mgr b)\<rparr>"
  have sv: "svc ?b g j = map_option ?f (svc b g j)" for g j
    by (rule svc_map_mgrs) (simp add: map_of_map)
  have rf: "svc_refs (?f so) \<subseteq> insert k (refs b)" if "svc b g j = Some so" for g j so
    using refs_svc [OF that] by (auto simp: svc_refs_def)
  have "refs ?b \<subseteq> insert k (refs b)"
    unfolding refs_subset
  proof (intro conjI allI impI)
    show "svc_refs so \<subseteq> insert k (refs b)" if "svc ?b g j = Some so" for g j so
      using that rf [of g j] unfolding sv by auto
  qed (auto simp: refs_def)
  moreover have "broker_wf ?b" using assms by (fastforce simp: broker_wf_def mgr_wf_def)
  ultimately have "safe k b ?b" by (simp add: safe_def sessions_ok_def)
  from safe_socket [OF safe_session [OF this]] show ?thesis by (simp add: reg_slave_broker_def)
qed

lemma find_socket_by_node_in: "find_socket_by_node nid ses ks = Inr (Some k) \<Longrightarrow> k \<in> set ks"
  by (induction ks) (auto split: option.splits if_splits)

lemma safe_push_add_service:
  assumes "broker_wf b" "push_add_service i b = Inr b'"
  shows "safe k b b'"
proof -
  have "set_option sp \<subseteq> insert k (refs b)" if "find_socket_by_node n (session b) (m_all_sockets b) = Inr sp" for n sp
    using that refs_sockets [of b] by (cases sp) (auto dest: find_socket_by_node_in)
  with assms show ?thesis
    by (auto simp: push_add_service_def intro!: safe_put_new_svc split: option.splits sum.splits)
qed

lemma safe_broker_msg:
  assumes "broker_wf b" "broker_msg mid body k b = Inr b'"
  shows "safe k b b'"
proof -
  have dec: "\<exists>m. f m = Inr b'" if "decoded r f = Inr b'" for r :: "'m dres" and f
    using that by (auto simp: decoded_def split: dres.splits)
  have grp: "safe k b (push_add_service_group i b)" for i
    using assms(1) by (simp add: push_add_service_group_def safe_sync_group)
  have syn: "safe k b b'" if "exc_map (\<lambda>b'. b'\<lparr>m_all_sockets := os_insert k (m_all_sockets b')\<rparr>)
      (sync_all_service i (make_callcack c 0 0 u (Some k)) b) = Inr b'" for i c u
    using that safe_sync_all_service [OF assms(1)] by (auto simp: exc_map_def split: sum.splits)
  show ?thesis
    using assms unfolding broker_msg_def Let_def
    by (auto split: if_splits dest!: dec dest: safe_create_service syn
        safe_process_sync_data safe_push_add_service
        intro: safe_create_service_group safe_reg_interface safe_reg_slave_broker grp)
qed

lemma svc_refs_put_callback:
  assumes "ps_socket ps = k"
  shows "svc_refs (so\<lparr>so_uuid := v, so_callback_map := om_put u ps (so_callback_map so)\<rparr>) \<subseteq> insert k (svc_refs so)"
proof -
  have "ps_socket ` snd ` set (om_put u ps (so_callback_map so)) \<subseteq> ps_socket ` snd ` insert (u, ps) (set (so_callback_map so))"
    by (intro image_mono set_om_put_subset)
  then show ?thesis using assms by (auto simp: svc_refs_def)
qed

lemma so_socket_refs: "set_option (so_socket so) \<subseteq> insert k (svc_refs so)"
  by (auto simp: svc_refs_def)

lemma svc_refs_erase_callback:
  "svc_refs (so\<lparr>so_callback_map := om_erase u (so_callback_map so)\<rparr>) \<subseteq> svc_refs so"
  unfolding svc_refs_def by (auto intro!: image_eqI dest: subsetD [OF set_om_erase_subset])

lemma relay_service:
  fixes now st tool body k so c
  defines "r \<equiv> (if c = cmd_id CALL_INTERFACE then async_call now st tool body k so
     else if c = cmd_id INTREFACE_CALLBACK then interface_callback now tool body so else (so, []))"
  assumes "om_wf (so_callback_map so)"
  shows "om_wf (so_callback_map (fst r)) \<and> svc_refs (fst r) \<subseteq> insert k (svc_refs so) \<and>
    targets (snd r) \<subseteq> insert k (svc_refs so)"
proof (cases "c = cmd_id CALL_INTERFACE")
  case True
  then show ?thesis
    using assms(2) by (simp add: r_def async_call_def Let_def svc_refs_put_callback so_socket_refs om_wf_put)
next
  case False
  show ?thesis
  proof (cases "c = cmd_id INTREFACE_CALLBACK \<and> map_of (so_callback_map so) (uuid tool) \<noteq> None")
    case True
    then obtain ps where "map_of (so_callback_map so) (uuid tool) = Some ps" by blast
    moreover from this have "ps_socket ps \<in> svc_refs so" by (force simp: svc_refs_def dest: map_of_SomeD)
    ultimately show ?thesis
      using True False assms(2) svc_refs_erase_callback [where so = so]
      by (auto simp: r_def interface_callback_def Let_def dest!: subsetD)
  qed (use assms(2) False in \<open>auto simp: r_def interface_callback_def split: option.splits\<close>)
qed

lemma safe_relay_msg:
  assumes "broker_wf b"
  shows "safe k b (fst (relay_msg now c tool body k b))"
proof (cases "map_of (m_service_obj_mgr b) (service_group_id tool)")
  case (Some som)
  show ?thesis
  proof (cases "map_of (service_objs som) (service_id tool)")
    case None
    with Some assms show ?thesis by (simp add: relay_msg_def)
  next
    case so: (Some so)
    then have svc: "svc b (service_group_id tool) (service_id tool) = Some so" using Some by (simp add: svc_def)
    let ?r = "if c = cmd_id CALL_INTERFACE then async_call now (names b) tool body k so
      else if c = cmd_id INTREFACE_CALLBACK then interface_callback now tool body so else (so, [])"
    note r = relay_service [OF broker_wf_svc [OF assms svc], where now = now and st = "names b" and tool = tool
        and body = body and k = k and c = c]
    have old: "svc_refs so' \<subseteq> insert k (refs b)" if "map_of (service_objs som) i = Some so'" for i so'
      using that refs_svc by (fastforce simp: svc_of_mgr [OF Some])
    have "insert k (svc_refs so) \<subseteq> insert k (refs b)" using refs_svc [OF svc] by blast
    with r have r': "svc_refs (fst ?r) \<subseteq> insert k (refs b)" "targets (snd ?r) \<subseteq> insert k (refs b)"
      by (meson subset_trans)+
    have "fst (relay_msg now c tool body k b) = emit (snd ?r) (set_mgr (service_group_id tool)
        (som\<lparr>service_objs := om_put (service_id tool) (fst ?r) (service_objs som)\<rparr>) b)"
      by (simp add: relay_msg_def Some so split_beta del: cmd_id.simps)
    moreover have "safe k b (emit (snd ?r) (set_mgr (service_group_id tool)
        (som\<lparr>service_objs := om_put (service_id tool) (fst ?r) (service_objs som)\<rparr>) b))"
      by (rule safe_emit [OF safe_put_svc [OF safe_refl [OF assms] broker_wf_mgr [OF assms Some] old _ r'(1)] r'(2)])
        (use r in blast)+
    ultimately show ?thesis by simp
  qed
qed (simp add: relay_msg_def assms)

lemma safe_handle_msg:
  assumes "broker_wf b" "handle_msg now m k b = Inr (b', r)"
  shows "safe k b b'"
proof (cases "decode_base_msg (get_body m) new_msg_tool")
  case (Ok tool s)
  show ?thesis
  proof (cases "service_group_id tool = 0 \<and> service_id tool = 0")
    case True
    with assms Ok show ?thesis
      by (auto simp: handle_msg_def exc_map_def dest: safe_broker_msg split: sum.splits)
  next
    case False
    with assms Ok have "relay_msg now (get_cmd m) tool (get_body m) k b = (b', r)"
      by (auto simp: handle_msg_def)
    then show ?thesis using safe_relay_msg [OF assms(1)] by (metis fst_conv)
  qed
qed (use assms in \<open>simp add: handle_msg_def\<close>)

subsection \<open>Runs of the broker\<close>

text \<open>
  The network layer opens sockets, delivers their packets, and reports each broken socket once, after
  which it delivers nothing more from it. The first component of a state is the set of sockets that
  are open and not yet reported; an address may be used again by a later socket.
\<close>

inductive broker_step :: "sock set \<times> broker_service_t \<Rightarrow> sock set \<times> broker_service_t \<Rightarrow> bool" where
  accept: "broker_step (live, b) (insert k live, b)"
| deliver: "k \<in> live \<Longrightarrow> handle_msg now m k b = Inr (b', r) \<Longrightarrow> broker_step (live, b) (live, b')"
| break: "k \<in> live \<Longrightarrow> broker_step (live, b) (live - {k}, handle_broken k b)"

inductive_cases broker_stepE: "broker_step (live, b) s"

inductive broker_reach :: "sock set \<Rightarrow> broker_service_t \<Rightarrow> bool" where
  start: "broker_reach {} new_broker"
| step: "broker_reach live b \<Longrightarrow> broker_step (live, b) (live', b') \<Longrightarrow> broker_reach live' b'"

definition broker_inv :: "sock set \<Rightarrow> broker_service_t \<Rightarrow> bool" where
  "broker_inv live b \<longleftrightarrow> broker_wf b \<and> refs b \<subseteq> live \<and> sessions_ok b"

lemma refs_handle_broken:
  assumes "broker_wf b"
  shows "refs (handle_broken k b) \<subseteq> refs b - {k}"
  unfolding refs_subset
proof (intro conjI allI impI)
  fix g i so'
  assume "svc (handle_broken k b) g i = Some so'"
  with handle_broken_effect [OF assms, of k g i] obtain so where so: "svc b g i = Some so" "so_socket so \<noteq> Some k"
    and so': "so' = so\<lparr>so_callback_map := filter (\<lambda>(u, ps). ps_socket ps \<noteq> k) (so_callback_map so)\<rparr>"
    by (auto split: option.splits if_splits)
  have "svc_refs so' \<subseteq> svc_refs so - {k}" using so(2) by (auto simp: so' svc_refs_def)
  then show "svc_refs so' \<subseteq> refs b - {k}" using refs_svc [OF so(1)] by blast
qed (use handle_broken_effect [OF assms, of k] in \<open>auto simp: refs_def\<close>)

lemma broker_reach_inv: "broker_reach live b \<Longrightarrow> broker_inv live b"
proof (induction rule: broker_reach.induct)
  case start
  then show ?case
    by (simp add: broker_inv_def broker_wf_def new_broker_def refs_def svc_def sessions_ok_def)
next
  case (step live b live' b')
  from step(2) step(3) show ?case
  proof (cases rule: broker_step.cases)
    case (deliver k now m r)
    with step(3) have "safe k b b'" by (auto simp: broker_inv_def intro: safe_handle_msg)
    with deliver step(3) show ?thesis by (auto simp: safe_def broker_inv_def)
  next
    case (break k)
    with step(3) show ?thesis
      using refs_handle_broken [of b k] handle_broken_effect [of b k]
      by (auto simp: broker_inv_def broker_wf_handle_broken sessions_ok_def)
  qed (auto simp: broker_inv_def)
qed

text \<open>
  (C4) The broker never touches a socket it has given up: in every state that some sequence of
  accepted sockets, packets and breaks leads to, the directory, the waiting calls, the sessions and
  the set of connected sockets refer only to open sockets, and whatever the next packet makes it send
  goes to open sockets.
\<close>

theorem no_send_to_broken:
  assumes "broker_reach live b" "k \<in> live" "handle_msg now m k b = Inr (b', r)"
  shows "refs b' \<subseteq> live \<and> (\<exists>es. effects b' = effects b @ es \<and> targets es \<subseteq> live)"
proof -
  have "broker_inv live b" by (rule broker_reach_inv [OF assms(1)])
  moreover have "safe k b b'" using calculation assms(3) by (auto simp: broker_inv_def intro: safe_handle_msg)
  ultimately show ?thesis using assms(2) by (auto simp: broker_inv_def safe_def)
qed

theorem no_send_to_broken_witness:
  "\<exists>b'. handle_msg 0 \<lparr>m_head = new_head 9, m_body = ''abc''\<rparr> 5 new_broker = Inr (b', -1) \<and> refs b' \<subseteq> {5}"
proof -
  have "broker_reach {5} new_broker" by (rule broker_reach.step [OF broker_reach.start]) (rule broker_step.accept)
  moreover have "handle_msg 0 \<lparr>m_head = new_head 9, m_body = ''abc''\<rparr> 5 new_broker = Inr (new_broker, -1)"
    by (simp add: handle_msg_def get_body_def decode_base_msg_def init_decoder_def dec_into_def wire_defs)
  ultimately show ?thesis using no_send_to_broken by blast
qed

subsection \<open>Relaying calls and answers\<close>

text \<open>The body of a relayed message: the head's four numbers, then the fields.\<close>

definition rpc_body :: "u32 \<Rightarrow> u16 \<Rightarrow> u16 \<Rightarrow> u16 \<Rightarrow> string \<Rightarrow> string" where
  "rpc_body u g i mid args = enc_u32 u @ enc_u16 g @ enc_u16 i @ enc_u16 mid @ args"

definition rpc_message :: "rpc_msg_cmd \<Rightarrow> string \<Rightarrow> message_t" where
  "rpc_message c body = \<lparr>m_head = (new_head (cmd_id c))\<lparr>h_size := word_of_nat (length body)\<rparr>, m_body = body\<rparr>"

lemma decode_rpc_body:
  "decode_base_msg (rpc_body u g i mid args) m0 =
    Ok (m0\<lparr>uuid := u, service_group_id := g, service_id := i, msg_id := mid\<rparr>) args"
  by (simp add: rpc_body_def decode_base_msg_def init_decoder_def dec_into_def u32w.dec_enc u16w.dec_enc)

lemma put_uuid_body [simp]: "put_uuid v (rpc_body u g i mid args) = rpc_body v g i mid args"
  by (simp add: put_uuid_def overlay_def rpc_body_def enc_u32_def)

lemma rpc_message_simps [simp]:
  "get_body (rpc_message c body) = body" "get_cmd (rpc_message c body) = cmd_id c"
  by (simp_all add: rpc_message_def get_body_def get_cmd_def new_head_def)

definition tool_of :: "u32 \<Rightarrow> u16 \<Rightarrow> u16 \<Rightarrow> u16 \<Rightarrow> msg_i" where
  "tool_of u g i mid = new_msg_tool\<lparr>uuid := u, service_group_id := g, service_id := i, msg_id := mid\<rparr>"

lemma handle_relayed:
  assumes "(g, i) \<noteq> (0, 0)"
  shows "handle_msg now (rpc_message c (rpc_body u g i mid args)) k b =
    Inr (relay_msg now (cmd_id c) (tool_of u g i mid) (rpc_body u g i mid args) k b)"
  using assms by (auto simp: handle_msg_def decode_rpc_body tool_of_def)

lemma tool_of_simps [simp]:
  "uuid (tool_of u g i mid) = u" "service_group_id (tool_of u g i mid) = g" "service_id (tool_of u g i mid) = i"
  by (simp_all add: tool_of_def)

text \<open>What a relayed message does to the directory, per service.\<close>

lemma svc_relay:
  "svc (fst (relay_msg now c tool body k b)) g i =
    (case svc b (service_group_id tool) (service_id tool) of None \<Rightarrow> svc b g i
     | Some so \<Rightarrow> if (g, i) = (service_group_id tool, service_id tool)
        then Some (fst (if c = cmd_id CALL_INTERFACE then async_call now (names b) tool body k so
                        else if c = cmd_id INTREFACE_CALLBACK then interface_callback now tool body so
                        else (so, [])))
        else svc b g i)"
proof (cases "svc b (service_group_id tool) (service_id tool)")
  case (Some so)
  then obtain som where som: "map_of (m_service_obj_mgr b) (service_group_id tool) = Some som"
    "map_of (service_objs som) (service_id tool) = Some so"
    by (auto simp: svc_def split: option.splits)
  then show ?thesis
    using svc_of_mgr [OF som(1)] by (simp add: relay_msg_def split_beta Some)
qed (auto simp: relay_msg_def svc_def split: option.splits)

lemma effects_relay:
  "svc b (service_group_id tool) (service_id tool) = Some so \<Longrightarrow>
   effects (fst (relay_msg now c tool body k b)) = effects b @
     snd (if c = cmd_id CALL_INTERFACE then async_call now (names b) tool body k so
          else if c = cmd_id INTREFACE_CALLBACK then interface_callback now tool body so else (so, [])) \<and>
   snd (relay_msg now c tool body k b) = 0"
  by (auto simp: relay_msg_def split_beta svc_def split: option.splits)

lemma relay_call_answer:
  assumes "broker_wf b" "(g, i) \<noteq> (0, 0)" "svc b g i = Some so" "so_socket so = Some s"
  shows "\<exists>b1 b2.
    handle_msg t1 (rpc_message CALL_INTERFACE (rpc_body u g i mid args)) c b = Inr (b1, 0) \<and>
    effects b1 = effects b @ [Async_send s (packet (cmd_id CALL_INTERFACE) (rpc_body (so_uuid so + 1) g i mid args))] \<and>
    handle_msg t2 (rpc_message INTREFACE_CALLBACK (rpc_body (so_uuid so + 1) g i mid' res)) s b1 = Inr (b2, 0) \<and>
    effects b2 = effects b1 @ [Async_send c (packet (cmd_id INTREFACE_CALLBACK) (rpc_body u g i mid' res)),
      Perf_post (id_to_name (names b) mid) (t2 - t1)] \<and>
    (\<exists>b3. handle_msg t3 (rpc_message INTREFACE_CALLBACK (rpc_body (so_uuid so + 1) g i mid' res)) s b2 = Inr (b3, 0) \<and>
      effects b3 = effects b2)"
proof -
  let ?u = "so_uuid so + 1"
  define b1 where "b1 = fst (relay_msg t1 (cmd_id CALL_INTERFACE) (tool_of u g i mid) (rpc_body u g i mid args) c b)"
  define b2 where "b2 = fst (relay_msg t2 (cmd_id INTREFACE_CALLBACK) (tool_of ?u g i mid') (rpc_body ?u g i mid' res) s b1)"
  define b3 where "b3 = fst (relay_msg t3 (cmd_id INTREFACE_CALLBACK) (tool_of ?u g i mid') (rpc_body ?u g i mid' res) s b2)"
  let ?ps = "\<lparr>ps_start_time = t1, ps_req_msg = id_to_name (names b) mid, ps_uuid = u, ps_socket = c\<rparr>"
  have name: "get_name (names b) (tool_of u g i mid) = id_to_name (names b) mid"
    by (simp add: get_name_def tool_of_def new_msg_defs)
  have wf: "om_wf (so_callback_map so)" by (rule broker_wf_svc [OF assms(1,3)])
  have s1: "svc b1 g i = Some (so\<lparr>so_uuid := ?u, so_callback_map := om_put ?u ?ps (so_callback_map so)\<rparr>)"
    by (simp add: b1_def svc_relay assms(3) async_call_def Let_def name)
  have s2: "svc b2 g i = Some (so\<lparr>so_uuid := ?u, so_callback_map := om_erase ?u (om_put ?u ?ps (so_callback_map so))\<rparr>)"
    by (simp add: b2_def svc_relay s1 interface_callback_def Let_def)
  have e1: "effects b1 = effects b @ [Async_send s (packet (cmd_id CALL_INTERFACE) (rpc_body ?u g i mid args))]"
    using effects_relay [of b "tool_of u g i mid" so] assms(3,4)
    by (simp add: b1_def async_call_def Let_def send_str_def)
  have e2: "effects b2 = effects b1 @ [Async_send c (packet (cmd_id INTREFACE_CALLBACK) (rpc_body u g i mid' res)),
      Perf_post (id_to_name (names b) mid) (t2 - t1)]"
    using effects_relay [of b1 "tool_of ?u g i mid'"] s1
    by (simp add: b2_def interface_callback_def Let_def send_str_def)
  have e3: "effects b3 = effects b2"
    using effects_relay [of b2 "tool_of ?u g i mid'"] s2 wf
    by (simp add: b3_def interface_callback_def map_of_om_erase om_wf_put)
  have "snd (relay_msg t1 (cmd_id CALL_INTERFACE) (tool_of u g i mid) (rpc_body u g i mid args) c b) = 0"
    "snd (relay_msg t2 (cmd_id INTREFACE_CALLBACK) (tool_of ?u g i mid') (rpc_body ?u g i mid' res) s b1) = 0"
    "snd (relay_msg t3 (cmd_id INTREFACE_CALLBACK) (tool_of ?u g i mid') (rpc_body ?u g i mid' res) s b2) = 0"
    using effects_relay [of _ "tool_of _ g i _"] assms(3) s1 s2 by simp_all
  then show ?thesis
    unfolding handle_relayed [OF assms(2)] using e1 e2 e3 b1_def b2_def b3_def
    by (metis (no_types) prod.collapse)
qed

text \<open>
  (C8) A call and its answer: the broker passes a call on to the service's socket with a number of
  its own in place of the caller's; when the answer to that number comes, it goes to the caller's
  socket with the caller's number back in place and the fields untouched, the waiting entry is gone
  and the time it took is posted; the same answer once more is dropped.
\<close>

theorem relay_roundtrip:
  assumes "broker_wf b" "(g, i) \<noteq> (0, 0)" "svc b g i = Some so" "so_socket so = Some s"
  shows "\<exists>b1 b2.
    handle_msg t1 (rpc_message CALL_INTERFACE (rpc_body u g i mid args)) c b = Inr (b1, 0) \<and>
    effects b1 = effects b @ [Async_send s (packet (cmd_id CALL_INTERFACE) (rpc_body (so_uuid so + 1) g i mid args))] \<and>
    handle_msg t2 (rpc_message INTREFACE_CALLBACK (rpc_body (so_uuid so + 1) g i mid' res)) s b1 = Inr (b2, 0) \<and>
    effects b2 = effects b1 @ [Async_send c (packet (cmd_id INTREFACE_CALLBACK) (rpc_body u g i mid' res)),
      Perf_post (id_to_name (names b) mid) (t2 - t1)] \<and>
    (\<exists>b3. handle_msg t3 (rpc_message INTREFACE_CALLBACK (rpc_body (so_uuid so + 1) g i mid' res)) s b2 = Inr (b3, 0) \<and>
      effects b3 = effects b2)"
  by (rule relay_call_answer [OF assms])

theorem relay_roundtrip_witness:
  "\<exists>b1 b2.
    handle_msg 10 (rpc_message CALL_INTERFACE (rpc_body 7 4 0 101 ''args'')) 1 sample_broker = Inr (b1, 0) \<and>
    effects b1 = [Async_send 2 (packet 9 (rpc_body 2 4 0 101 ''args''))] \<and>
    handle_msg 25 (rpc_message INTREFACE_CALLBACK (rpc_body 2 4 0 102 ''res'')) 2 b1 = Inr (b2, 0) \<and>
    effects b2 = effects b1 @ [Async_send 1 (packet 11 (rpc_body 7 4 0 102 ''res'')), Perf_post [] 15]"
proof -
  have "svc sample_broker 4 0 = Some ((new_service_obj ''b'' 4 0 (Some 2) 2)\<lparr>so_uuid := 1,
      so_callback_map := [(1, \<lparr>ps_start_time = 0, ps_req_msg = ''q'', ps_uuid = 9, ps_socket = 1\<rparr>)]\<rparr>)"
    by (simp add: svc_def sample_broker_def)
  moreover have "id_to_name (names sample_broker) 101 = []" "effects sample_broker = []"
    by (simp_all add: sample_broker_def new_broker_def id_to_name_def cur_data_def new_store_def
        builtin_names_def set_msg_name2id_def new_data_def)
  ultimately show ?thesis
    using relay_roundtrip [OF sample_broker_wf, of 4 0 _ 2 10 7 101 "''args''" 1 25 102 "''res''" 26]
    by (auto simp: new_service_obj_def)
qed

text \<open>
  (C13) A waiting call is not lost while other traffic is relayed: a call or an answer for any service
  keeps the entry under which a call waits, unless it is the answer to that very number at that very
  service, or the service's 32-bit counter has come round to that number again.
\<close>

theorem waiting_call_survives:
  assumes "broker_wf b" "(g', i') \<noteq> (0, 0)" "svc b g i = Some so" "map_of (so_callback_map so) w = Some ps"
    and "c = CALL_INTERFACE \<longrightarrow> (g', i') = (g, i) \<longrightarrow> so_uuid so + 1 \<noteq> w"
    and "c = INTREFACE_CALLBACK \<longrightarrow> (g', i') = (g, i) \<longrightarrow> u \<noteq> w"
    and "handle_msg now (rpc_message c (rpc_body u g' i' mid args)) k b = Inr (b', r)"
  shows "\<exists>so'. svc b' g i = Some so' \<and> map_of (so_callback_map so') w = Some ps"
proof -
  have b': "b' = fst (relay_msg now (cmd_id c) (tool_of u g' i' mid) (rpc_body u g' i' mid args) k b)"
    using assms(7) by (simp add: handle_relayed [OF assms(2)])
  have inj: "cmd_id c = cmd_id CALL_INTERFACE \<longleftrightarrow> c = CALL_INTERFACE"
    "cmd_id c = cmd_id INTREFACE_CALLBACK \<longleftrightarrow> c = INTREFACE_CALLBACK" by (cases c; simp)+
  show ?thesis
  proof (cases "(g', i') = (g, i)")
    case True
    have "om_wf (so_callback_map so)" by (rule broker_wf_svc [OF assms(1,3)])
    then show ?thesis
      using True assms(3-6) unfolding b' svc_relay inj
      by (auto simp: async_call_def interface_callback_def Let_def map_of_om_erase split: option.splits)
  next
    case False
    then show ?thesis
      using assms(3,4) by (auto simp: b' svc_relay split: option.splits)
  qed
qed

theorem waiting_call_survives_witness:
  "\<exists>b' r so'. handle_msg 5 (rpc_message CALL_INTERFACE (rpc_body 7 4 0 101 ''x'')) 1 sample_broker = Inr (b', r) \<and>
    svc b' 4 0 = Some so' \<and> map_of (so_callback_map so') 1 \<noteq> None"
proof -
  let ?m = "rpc_message CALL_INTERFACE (rpc_body 7 4 0 101 ''x'')"
  obtain so where so: "svc sample_broker 4 0 = Some so" "so_uuid so = 1" "map_of (so_callback_map so) 1 \<noteq> None"
    by (simp add: svc_def sample_broker_def new_service_obj_def)
  then obtain ps where ps: "map_of (so_callback_map so) 1 = Some ps" by blast
  obtain b' r where m: "handle_msg 5 ?m 1 sample_broker = Inr (b', r)" by (simp add: handle_relayed) (metis prod.collapse)
  have "\<exists>so'. svc b' 4 0 = Some so' \<and> map_of (so_callback_map so') 1 = Some ps"
    by (rule waiting_call_survives [OF sample_broker_wf _ so(1) ps _ _ m]) (use so(2) in simp_all)
  with m show ?thesis by auto
qed

subsection \<open>What can go wrong in a handler\<close>

lemma decoded_Inl: "decoded r f = Inl e \<Longrightarrow> (\<exists>m1. r = Throw e m1) \<or> (\<exists>m s. r = Ok m s \<and> f m = Inl e)"
  by (auto simp: decoded_def split: dres.splits)

lemma dec_errors:
  "dec_u16 s = Inl e \<Longrightarrow> e = size_error" "dec_u32 s = Inl e \<Longrightarrow> e = size_error"
  "dec_string s = Inl e \<Longrightarrow> e = size_error" "dec_id_info s = Inl e \<Longrightarrow> e = size_error"
  by (auto simp: dec_u16_def dec_u32_def dec_string_def dec_id_info_def dec_map_result_def copy_raw_def
      split: if_splits sum.splits)

lemma dec_into_error:
  "dec_into d upd r = Throw e m \<Longrightarrow> (\<And>s e. d s = Inl e \<Longrightarrow> e = size_error) \<Longrightarrow>
    (\<And>e m. r = Throw e m \<Longrightarrow> e = size_error) \<Longrightarrow> e = size_error"
  by (auto simp: dec_into_def split: dres.splits sum.splits)

lemma dec_pushes_error:
  "dec_pushes d n dest s = Throw e m \<Longrightarrow> \<forall>s e. d s = Inl e \<longrightarrow> e = size_error \<Longrightarrow> e = size_error"
  by (induction n arbitrary: dest s) (auto split: sum.splits)

lemma dec_push_error:
  "dec_push d get upd r = Throw e m \<Longrightarrow> \<forall>s e. d s = Inl e \<longrightarrow> e = size_error \<Longrightarrow>
    (\<And>e m. r = Throw e m \<Longrightarrow> e = size_error) \<Longrightarrow> e = size_error"
  by (auto simp: dec_push_def dest: dec_errors dec_pushes_error split: dres.splits sum.splits)

lemma init_decoder_error: "init_decoder s m = Throw e m1 \<Longrightarrow> e = size_error"
  unfolding init_decoder_def by (fast elim: dec_into_error dest: dec_errors)

lemma message_decode_errors:
  "decode_csg_in s m = Throw e x \<Longrightarrow> e = size_error" "decode_cs_in s m1 = Throw e x1 \<Longrightarrow> e = size_error"
  "decode_ri_in s m2 = Throw e x2 \<Longrightarrow> e = size_error" "decode_sas_in s m3 = Throw e x3 \<Longrightarrow> e = size_error"
  "decode_rsb_in s m5 = Throw e x5 \<Longrightarrow> e = size_error"
  "decode_pasg_in s m6 = Throw e x6 \<Longrightarrow> e = size_error" "decode_pas_in s m7 = Throw e x7 \<Longrightarrow> e = size_error"
  "decode_pam_in s m8 = Throw e x8 \<Longrightarrow> e = size_error"
  unfolding decode_csg_in_def decode_cs_in_def decode_ri_in_def decode_sas_in_def
    decode_rsb_in_def decode_pasg_in_def decode_pas_in_def decode_pam_in_def
  by (fast elim: dec_into_error dest: dec_errors init_decoder_error)+

lemma pid_decode_error: "decode_pid_in s m = Throw e x \<Longrightarrow> e = size_error"
  unfolding decode_pid_in_def
  by (elim dec_into_error dec_push_error) (auto dest: dec_errors init_decoder_error)

lemma find_socket_ok: "set ks \<subseteq> dom ses \<Longrightarrow> find_socket_by_node nid ses ks \<noteq> Inl e"
  by (induction ks) (auto split: option.splits)

lemma push_add_service_ok: "sessions_ok b \<Longrightarrow> push_add_service i b \<noteq> Inl e"
  by (auto simp: push_add_service_def sessions_ok_def find_socket_ok split: option.splits sum.splits)

lemma create_service_error:
  "create_service i (make_callcack c g s u (Some k)) b = Inl e \<longleftrightarrow> e = Null_deref \<and> session b k = None"
  by (auto simp: create_service_def Let_def split_beta split: option.splits)

text \<open>
  A request to the broker that is cut: the decoding of the message that belongs to the id throws.
\<close>

definition throws :: "'m dres \<Rightarrow> bool" where
  "throws r = (case r of Throw _ _ \<Rightarrow> True | Ok _ _ \<Rightarrow> False)"

definition request_cut :: "u16 \<Rightarrow> string \<Rightarrow> bool" where
  "request_cut mid body \<longleftrightarrow>
     mid = cmd_id CREATE_SERVICE_GROUP \<and> throws (decode_csg_in body new_csg_in) \<or>
     mid = cmd_id CREATE_SERVICE \<and> throws (decode_cs_in body new_cs_in) \<or>
     mid = cmd_id REG_INTERFACE \<and> throws (decode_ri_in body new_ri_in) \<or>
     mid = cmd_id SYNC_ALL_SERVICE \<and> throws (decode_sas_in body new_sas_in) \<or>
     mid = cmd_id PUSH_INIT_DATA \<and> throws (decode_pid_in body new_pid_in) \<or>
     mid = cmd_id REG_SLAVE_BROKER \<and> throws (decode_rsb_in body new_rsb_in) \<or>
     mid = cmd_id PUSH_ADD_SERVICE_GROUP \<and> throws (decode_pasg_in body new_pasg_in) \<or>
     mid = cmd_id PUSH_ADD_SERVICE \<and> throws (decode_pas_in body new_pas_in) \<or>
     mid = cmd_id PUSH_ADD_MSG \<and> throws (decode_pam_in body new_pam_in)"

text \<open>Initial data with an id vector shorter than its name vector.\<close>

definition ids_short :: "push_init_data_in \<Rightarrow> bool" where
  "ids_short i \<longleftrightarrow> length (group_id_vt i) < length (group_name_vt i) \<or> length (msg_id_vt i) < length (msg_name_vt i)"

lemma decoded_fails:
  "(\<And>e' x. r = Throw e' x \<Longrightarrow> e' = size_error) \<Longrightarrow>
    decoded r f = Inl e \<longleftrightarrow> e = size_error \<and> throws r \<or> (\<exists>m s. r = Ok m s \<and> f m = Inl e)"
  by (auto simp: decoded_def throws_def split: dres.splits)

lemma process_sync_data_fails: "process_sync_data i b = Inl e \<longleftrightarrow> e = Out_of_range \<and> ids_short i"
  by (auto simp: process_sync_data_def ids_short_def Let_def)

lemma sync_all_service_fine: "sync_all_service i (make_callcack c g s u (Some k)) b \<noteq> Inl e"
  by (simp add: sync_all_service_def Let_def)

lemma exc_map_fails: "exc_map f r = Inl e \<longleftrightarrow> r = Inl e"
  by (auto simp: exc_map_def split: sum.splits)

lemma broker_msg_fails:
  assumes "sessions_ok b"
  shows "broker_msg mid body k b = Inl e \<longleftrightarrow>
    e = size_error \<and> request_cut mid body \<or>
    e = Out_of_range \<and> mid = cmd_id PUSH_INIT_DATA \<and> (\<exists>i s. decode_pid_in body new_pid_in = Ok i s \<and> ids_short i) \<or>
    e = Null_deref \<and> mid = cmd_id CREATE_SERVICE \<and> (\<exists>i s. decode_cs_in body new_cs_in = Ok i s) \<and> session b k = None"
  by (auto simp: broker_msg_def Let_def request_cut_def create_service_error process_sync_data_fails
      exc_map_fails sync_all_service_fine
      push_add_service_ok [OF assms] decoded_fails [OF message_decode_errors(1)] decoded_fails [OF message_decode_errors(2)]
      decoded_fails [OF message_decode_errors(3)] decoded_fails [OF message_decode_errors(4)]
      decoded_fails [OF message_decode_errors(5)] decoded_fails [OF message_decode_errors(6)]
      decoded_fails [OF message_decode_errors(7)] decoded_fails [OF message_decode_errors(8)]
      decoded_fails [OF pid_decode_error])

text \<open>
  (C12) Exactly when a packet brings a handler down, in any state the broker can reach, and with
  what: its head decodes and names the broker itself (group 0, service 0), and either the message
  of its id is cut (the exception is not caught there), or it is initial data with an id vector
  shorter than its name vector (read out of bounds), or it is a request to create a service on a
  socket that has not synchronised (null session). A cut head, a relayed packet and every other
  request are survived; in particular the lookup of a socket by node never meets a socket without a
  session.
\<close>

theorem handle_msg_failures:
  assumes "broker_reach live b"
  shows "handle_msg now m k b = Inl e \<longleftrightarrow>
    (\<exists>tool rest. decode_base_msg (get_body m) new_msg_tool = Ok tool rest \<and>
      service_group_id tool = 0 \<and> service_id tool = 0 \<and>
      (e = size_error \<and> request_cut (msg_id tool) (get_body m) \<or>
       e = Out_of_range \<and> msg_id tool = cmd_id PUSH_INIT_DATA \<and>
         (\<exists>i s. decode_pid_in (get_body m) new_pid_in = Ok i s \<and>
           (length (group_id_vt i) < length (group_name_vt i) \<or> length (msg_id_vt i) < length (msg_name_vt i))) \<or>
       e = Null_deref \<and> msg_id tool = cmd_id CREATE_SERVICE \<and>
         (\<exists>i s. decode_cs_in (get_body m) new_cs_in = Ok i s) \<and> session b k = None))"
proof -
  have ses: "sessions_ok b" using broker_reach_inv [OF assms] by (simp add: broker_inv_def)
  show ?thesis
    by (cases "decode_base_msg (get_body m) new_msg_tool")
      (auto simp: handle_msg_def exc_map_fails broker_msg_fails [OF ses] ids_short_def)
qed

theorem handle_msg_failures_witness:
  "handle_msg 0 (rpc_message CALL_INTERFACE (rpc_body 1 0 0 (cmd_id CREATE_SERVICE) (enc_u16 3 @ enc_u16 0))) 5 new_broker
     = Inl Null_deref"
proof -
  let ?m = "rpc_message CALL_INTERFACE (rpc_body 1 0 0 (cmd_id CREATE_SERVICE) (enc_u16 3 @ enc_u16 0))"
  let ?i = "new_cs_in\<lparr>uuid := 1, service_group_id := 0, service_id := 0,
      msg_id := 3, new_service_group_id := 3, new_service_id := 0\<rparr>"
  have d: "decode_cs_in (get_body ?m) new_cs_in = Ok ?i []"
    using u16w.dec_enc [of 0 "[]"]
    by (simp add: decode_cs_in_def init_decoder_def dec_into_def rpc_body_def u32w.dec_enc u16w.dec_enc)
  have "session new_broker 5 = None" by (simp add: new_broker_def)
  with d show ?thesis
    by (subst handle_msg_failures [OF broker_reach.start]) (simp add: decode_rpc_body)
qed

end
