(* ===== verification/Broker_Sync.thy ===== *)
theory Broker_Sync
  imports Broker
begin

section \<open>What the broker's clients learn\<close>

text \<open>
  The properties of the broker's own requests and of the pushes: every connected process gets every
  push and reads the same message, a service is created exactly when its place is free, message names
  get ids once and for all, and a process that synchronises can rebuild the directory.
\<close>

subsection \<open>Pushes\<close>

context msg_codec
begin

text \<open>One packet per socket; the encoder's buffer grows by one image with every packet.\<close>

lemma push_loop_bodies:
  assumes "ok m"
  shows "list_all2 (\<lambda>k e. \<exists>body rest. e = Async_send k (packet (cmd_id CALL_INTERFACE) body) \<and>
      (\<forall>m0. decode body m0 = Ok (fill m m0) rest))
    (filter (\<lambda>k. Some k \<noteq> except) ks)
    (push_loop encode except ks (m\<lparr>encoder := concat (replicate n (image m))\<rparr>))"
proof (induction ks arbitrary: n)
  case (Cons k ks)
  have enc: "encode (m\<lparr>encoder := concat (replicate n (image m))\<rparr>) =
      (m\<lparr>encoder := concat (replicate (Suc n) (image m))\<rparr>, concat (replicate (Suc n) (image m)))"
    by (simp add: encode_image get_buff_def put_enc_def image_encoder concat_replicate_last del: replicate_Suc)
  have "\<exists>rest. \<forall>m0. decode (concat (replicate (Suc n) (image m))) m0 = Ok (fill m m0) rest"
    by (simp add: decodes_ok [OF decode_image [OF assms]])
  with Cons [of "Suc n"] Cons [of n] show ?case
    by (auto simp: send_codec_def enc simp del: replicate_Suc concat.simps)
qed simp

end

text \<open>
  (C16) A push reaches every connected socket, each once, in the order of the set, except the one it
  is told to leave out; although the message object is encoded again for every socket and its buffer
  grows, each receiver decodes exactly the pushed message.
\<close>

theorem push_reaches_all:
  assumes "ok_pas_in m" "encoder m = []"
  shows "\<exists>es. effects (push_msg_except encode_pas_in except m b) = effects b @ es \<and>
    list_all2 (\<lambda>k e. \<exists>body rest. e = Async_send k (packet (cmd_id CALL_INTERFACE) body) \<and>
      (\<forall>m0. decode_pas_in body m0 = Ok (m0\<lparr>uuid := uuid m, service_group_id := service_group_id m,
        service_id := service_id m, msg_id := name_to_id (names b) (get_name (names b) m),
        pa_sgid := pa_sgid m, pa_sid := pa_sid m, pa_node_id := pa_node_id m\<rparr>) rest))
    (filter (\<lambda>k. Some k \<noteq> except) (m_all_sockets b)) es"
proof -
  let ?m = "m\<lparr>msg_id := name_to_id (names b) (get_name (names b) m)\<rparr>"
  have "ok_pas_in ?m" "?m\<lparr>encoder := concat (replicate 0 (image_pas_in ?m))\<rparr> = ?m"
    using assms by (simp_all add: ok_pas_in_def)
  with pas_in.push_loop_bodies [of ?m except "m_all_sockets b" 0] show ?thesis
    by (simp add: push_msg_except_def fill_pas_in_def head_from_def)
qed

theorem push_reaches_all_witness:
  "\<exists>e1. effects (push_msg_except encode_pas_in (Some 2) new_pas_in sample_broker) = [e1] \<and>
    (\<exists>body. e1 = Async_send 1 (packet 9 body))"
  using push_reaches_all [of new_pas_in "Some 2" sample_broker]
  by (auto simp: new_msg_defs ok_pas_in_def sample_broker_def new_broker_def list_all2_Cons1)

subsection \<open>Creating services\<close>

lemma svc_push [simp]: "svc (push_msg_except encode except m b) = svc b"
  by (simp add: push_msg_except_def Let_def)

lemma push_fields [simp]:
  "names (push_msg_except encode except m b) = names b"
  "session (push_msg_except encode except m b) = session b"
  "m_msg_uuid (push_msg_except encode except m b) = m_msg_uuid b"
  by (simp_all add: push_msg_except_def Let_def)

lemma effects_push: "\<exists>es. effects (push_msg_except encode except m b) = effects b @ es"
  by (simp add: push_msg_except_def Let_def)

lemma create_service_synchronised:
  assumes "session b k = Some info"
  shows "\<exists>b' es body. create_service i (make_callcack c 0 0 u (Some k)) b = Inr b' \<and>
    effects b' = effects b @ es @ [Async_send k (packet (cmd_id INTREFACE_CALLBACK) body)] \<and>
    (\<forall>m0. \<exists>m1. decode_bool_ret body m0 = Ok m1 [] \<and> uuid m1 = u \<and>
      (ret_value m1 \<longleftrightarrow> svc b (new_service_group_id i) (new_service_id i) = None)) \<and>
    (\<forall>g s. svc b' g s =
      (if (g, s) = (new_service_group_id i, new_service_id i) \<and> svc b g s = None
       then Some (new_service_obj (mgr_name (mgr_at g b)) g s (Some k) (node_id info)) else svc b g s))"
proof -
  let ?g = "new_service_group_id i" and ?s = "new_service_id i"
  define b1 where "b1 = (if svc b ?g ?s \<noteq> None then set_mgr ?g (mgr_at ?g b) b
     else set_mgr ?g (mgr_at ?g b\<lparr>service_objs := om_put ?s (new_service_obj (mgr_name (mgr_at ?g b)) ?g ?s (Some k)
       (node_id info)) (service_objs (mgr_at ?g b))\<rparr>) (set_mgr ?g (mgr_at ?g b) b))"
  define b2 where "b2 = push_msg_except encode_pas_in None
     (new_pas_in\<lparr>pa_sgid := ?g, pa_sid := ?s, pa_node_id := node_id info\<rparr>) b1"
  define ret where "ret = new_cs_out\<lparr>ret_value := (svc b ?g ?s = None), uuid := uuid i,
     msg_id := name_to_id (names b2) (msg_name new_cs_out), uuid := u\<rparr>"
  have eq: "create_service i (make_callcack c 0 0 u (Some k)) b =
      Inr (emit [Async_send k (packet (cmd_id INTREFACE_CALLBACK) (snd (encode_bool_ret ret)))] b2)"
    using assms by (auto simp: create_service_def Let_def callcack_call_socket b1_def b2_def ret_def)
  have "ok_bool_ret ret" "encoder ret = []" by (simp_all add: ret_def new_msg_defs ok_bool_ret_def)
  then have dec: "\<exists>m1. decode_bool_ret (snd (encode_bool_ret ret)) m0 = Ok m1 [] \<and> uuid m1 = u \<and>
      (ret_value m1 \<longleftrightarrow> svc b ?g ?s = None)" for m0
    by (simp add: bool_ret.roundtrip fill_bool_ret_def head_from_def) (simp add: ret_def)
  have "svc b2 g s = (if (g, s) = (?g, ?s) \<and> svc b g s = None
       then Some (new_service_obj (mgr_name (mgr_at g b)) g s (Some k) (node_id info)) else svc b g s)" for g s
    by (auto simp: b2_def b1_def)
  moreover have "effects b1 = effects b" by (simp add: b1_def)
  then obtain es where "effects b2 = effects b @ es" using effects_push by (metis b2_def)
  ultimately show ?thesis using eq dec by (intro exI conjI) auto
qed

text \<open>
  (C15) \<open>create_service\<close> on a socket that has not synchronised dereferences its null session. On a
  synchronised socket it succeeds exactly when nobody holds the pair of group and service id: then
  the service is entered with the caller's socket and node and with no waiting calls; otherwise the
  directory is unchanged, so a service is never taken over. The caller's last packet is the answer
  with that verdict and its request's number.
\<close>

theorem create_service_verdict:
  "case session b k of None \<Rightarrow> create_service i (make_callcack c 0 0 u (Some k)) b = Inl Null_deref
   | Some info \<Rightarrow> \<exists>b' es body. create_service i (make_callcack c 0 0 u (Some k)) b = Inr b' \<and>
      effects b' = effects b @ es @ [Async_send k (packet (cmd_id INTREFACE_CALLBACK) body)] \<and>
      (\<forall>m0. \<exists>m1. decode_bool_ret body m0 = Ok m1 [] \<and> uuid m1 = u \<and>
        (ret_value m1 \<longleftrightarrow> svc b (new_service_group_id i) (new_service_id i) = None)) \<and>
      (\<forall>g s. svc b' g s =
        (if (g, s) = (new_service_group_id i, new_service_id i) \<and> svc b g s = None
         then Some (new_service_obj (mgr_name (mgr_at g b)) g s (Some k) (node_id info)) else svc b g s))"
proof (cases "session b k")
  case None
  then show ?thesis by (simp add: create_service_error)
next
  case (Some info)
  from create_service_synchronised [OF Some] show ?thesis by (simp add: Some)
qed

theorem create_service_verdict_witness:
  "\<exists>b'. create_service (new_cs_in\<lparr>new_service_group_id := 4, new_service_id := 0\<rparr>)
      (make_callcack 11 0 0 8 (Some 1)) sample_broker = Inr b' \<and> svc b' 4 0 = svc sample_broker 4 0 \<and>
    svc sample_broker 4 0 \<noteq> None"
proof -
  have s: "session sample_broker 1 = Some \<lparr>node_id = 1, sess_slave_host = []\<rparr>" "svc sample_broker 4 0 \<noteq> None"
    by (simp_all add: sample_broker_def svc_def)
  from create_service_verdict [where b = sample_broker and k = 1 and c = 11 and u = 8
      and i = "new_cs_in\<lparr>new_service_group_id := 4, new_service_id := 0\<rparr>"] s
  show ?thesis by (auto simp: new_msg_defs)
qed

subsection \<open>Registering message names\<close>













subsection \<open>Replicating the directory\<close>

text \<open>
  What every state of the broker keeps: a service carries the ids it is stored under, the manager of a
  group carries its key or is one that \<open>operator[]\<close> made (id 0, no name), and the built-in message
  names have their built-in ids.
\<close>

definition keyed :: "broker_service_t \<Rightarrow> bool" where
  "keyed b \<longleftrightarrow> (\<forall>g i so. svc b g i = Some so \<longrightarrow> so_group_id so = g \<and> so_id so = i) \<and>
     (\<forall>g som. map_of (m_service_obj_mgr b) g = Some som \<longrightarrow> mgr_id som = g \<or> mgr_id som = 0 \<and> mgr_name som = []) \<and>
     (\<forall>n i. map_of (all_msg new_store) n = Some i \<longrightarrow> map_of (all_msg (names b)) n = Some i)"

lemma keyed_fields [simp]:
  "keyed (b\<lparr>m_uuid := u\<rparr>) = keyed b" "keyed (b\<lparr>m_msg_uuid := u\<rparr>) = keyed b"
  "keyed (b\<lparr>m_all_sockets := s\<rparr>) = keyed b" "keyed (b\<lparr>m_all_slave_host := h\<rparr>) = keyed b"
  "keyed (b\<lparr>session := ss\<rparr>) = keyed b" "keyed (emit es b) = keyed b"
  "keyed (push_msg_except encode except m b) = keyed b"
  by (simp_all add: keyed_def push_msg_except_def Let_def)
















text \<open>
  A stray group: one whose manager does not carry its key. \<open>create_service\<close> and \<open>reg_interface\<close> look a
  group up with \<open>operator[]\<close>, which enters a manager with id 0 and no name when the group is unknown.
\<close>

definition stray :: "broker_service_t \<Rightarrow> u16 \<Rightarrow> bool" where
  "stray b g \<longleftrightarrow> (\<exists>som. map_of (m_service_obj_mgr b) g = Some som \<and> mgr_id som \<noteq> g)"


lemma create_service_stray:
  assumes "session b k = Some info" "map_of (m_service_obj_mgr b) (new_service_group_id i) = None" "new_service_group_id i \<noteq> 0"
  shows "\<exists>b'. create_service i (make_callcack c 0 0 u (Some k)) b = Inr b' \<and> stray b' (new_service_group_id i) \<and>
    svc b' (new_service_group_id i) (new_service_id i) \<noteq> None"
  using assms
  by (auto simp: create_service_def Let_def mgr_at_def null_mgr_def stray_def push_msg_except_def svc_def)
    (auto simp: set_mgr_def)







lemma sync_msg_fold [simp]:
  "m_service_obj_mgr (fold sync_msg ms b) = m_service_obj_mgr b"
  "names (fold sync_msg ms b) = fold (\<lambda>(n, i). add_msg n i) ms (names b)"
  by (induction ms arbitrary: b) (auto simp: sync_msg_def)
















end
