(* ===== verification/Ffrpc.thy ===== *)
theory Ffrpc
  imports Broker_Sync
begin

section \<open>The process side of RPC\<close>

text \<open>
  \<open>ffrpc_t\<close> (\<^verbatim>\<open>rpc/ffrpc.h\<close>, \<^verbatim>\<open>rpc/ffrpc.cpp\<close>), \<open>rpc_service_t\<close>, \<open>rpc_service_group_t\<close> and \<open>rpc_future_t\<close>:
  what a process keeps about the services it can call or offers. \<open>m_mutex\<close> is held while the state
  changes; a callback or an interface runs after it was released, and what it does to this object (a
  further call, say) is a later operation of the model. What user code does is a list of user events
  \<open>'u\<close>, a list of effects, and the exception it ended with, if any. A blocking call is split where
  \<open>rpc_future_t::call\<close> waits: the part before sends the request with a callback that records the answer
  as a user event, the part after (\<open>_done\<close>) goes on with the answer.

  \<open>get_socket\<close> chooses a connection by the address of the service object, so objects have addresses: \<open>fr_addr
  n\<close> is the one that the \<open>n\<close>-th \<open>new\<close> returns.
\<close>

type_synonym 'u ucode = "'u list \<times> effect list \<times> exn option"
type_synonym 'u callback_wrapper = "string \<Rightarrow> 'u ucode"
type_synonym 'u msg_process_func = "string \<Rightarrow> u16 \<Rightarrow> sock option \<Rightarrow> 'u ucode"

record 'u rpc_service_t =
  sv_group_id :: u16
  sv_id :: u16
  sv_uuid :: u32
  sv_callback_map :: "(u32, 'u callback_wrapper) omap"
  sv_interface_map :: "(u32, 'u msg_process_func) omap"
  sv_addr :: nat

record 'u rpc_service_group_t =
  gr_id :: u16
  gr_name :: string
  gr_services :: "(u16, 'u rpc_service_t) omap"

record 'u ffrpc_t =
  fr_service_map :: "(u16, 'u rpc_service_group_t) omap"
  fr_broker_service :: "'u rpc_service_t option"
  fr_socket :: "sock option"
  fr_broker_slaves :: "sock list"
  fr_history_sockets :: "sock list"
  fr_names :: msg_name_store_t
  fr_addr :: "nat \<Rightarrow> nat"
  fr_news :: nat
  fr_user :: "'u list"
  fr_out :: "effect list"

text \<open>The constructor leaves \<open>m_socket\<close> as the memory was: \<open>sp\<close>.\<close>

definition new_ffrpc :: "sock option \<Rightarrow> (nat \<Rightarrow> nat) \<Rightarrow> 'u ffrpc_t" where
  "new_ffrpc sp addr = \<lparr>fr_service_map = [], fr_broker_service = None, fr_socket = sp, fr_broker_slaves = [],
     fr_history_sockets = [], fr_names = new_store, fr_addr = addr, fr_news = 0, fr_user = [], fr_out = []\<rparr>"

subsection \<open>Services and groups\<close>

definition new_service :: "u16 \<Rightarrow> u16 \<Rightarrow> nat \<Rightarrow> 'u rpc_service_t" where
  "new_service gid sid addr = \<lparr>sv_group_id = gid, sv_id = sid, sv_uuid = 0, sv_callback_map = [],
     sv_interface_map = [], sv_addr = addr\<rparr>"

definition new_group :: "string \<Rightarrow> u16 \<Rightarrow> 'u rpc_service_group_t" where
  "new_group name i = \<lparr>gr_id = i, gr_name = name, gr_services = []\<rparr>"

definition add_service :: "u16 \<Rightarrow> 'u rpc_service_t \<Rightarrow> 'u rpc_service_group_t \<Rightarrow> 'u rpc_service_group_t \<times> int" where
  "add_service i rs grp =
     (let (m, inserted) = om_insert i rs (gr_services grp) in (grp\<lparr>gr_services := m\<rparr>, if inserted then 0 else - 1))"

text \<open>\<open>rpc_service_t::async_call(msg_i&, uint16_t, callback_wrapper_i*)\<close> on the socket that \<open>get_socket\<close> gave.\<close>

definition sv_async_call ::
  "('a msg_i_scheme \<Rightarrow> 'a msg_i_scheme \<times> string) \<Rightarrow> sock option \<Rightarrow> 'a msg_i_scheme \<Rightarrow> u16 \<Rightarrow> 'u callback_wrapper \<Rightarrow>
   'u rpc_service_t \<Rightarrow> 'u rpc_service_t \<times> 'a msg_i_scheme \<times> effect list" where
  "sv_async_call encode sp msg mid callback rs =
     (let u = sv_uuid rs + 1;
          msg1 = msg_i_set (sv_group_id rs) (sv_id rs) u mid msg;
          rs1 = rs\<lparr>sv_uuid := u, sv_callback_map := om_put u callback (sv_callback_map rs)\<rparr>;
          (msg2, es) = send_codec encode sp (cmd_id CALL_INTERFACE) msg1
      in (rs1, msg2, es))"

definition del_callback :: "u32 \<Rightarrow> 'u rpc_service_t \<Rightarrow> 'u callback_wrapper option \<times> 'u rpc_service_t" where
  "del_callback uu rs = (case map_of (sv_callback_map rs) uu of
     None \<Rightarrow> (None, rs)
   | Some cb \<Rightarrow> (Some cb, rs\<lparr>sv_callback_map := om_erase uu (sv_callback_map rs)\<rparr>))"

definition get_interface_func :: "u32 \<Rightarrow> 'u rpc_service_t \<Rightarrow> 'u msg_process_func option" where
  "get_interface_func i rs = map_of (sv_interface_map rs) i"

subsection \<open>Running user code\<close>

definition absorb :: "'u ucode \<Rightarrow> 'u ffrpc_t \<Rightarrow> 'u ffrpc_t" where
  "absorb r f = f\<lparr>fr_user := fr_user f @ fst r, fr_out := fr_out f @ fst (snd r)\<rparr>"

text \<open>\<open>catch (exception&)\<close> catches a \<open>runtime_error\<close>; undefined behaviour is not caught.\<close>

definition guard_exe :: "'u callback_wrapper option \<Rightarrow> string \<Rightarrow> 'u ffrpc_t \<Rightarrow> ('u ffrpc_t \<times> int) exc" where
  "guard_exe cb buff f = (case cb of None \<Rightarrow> Inr (f, - 1)
   | Some c \<Rightarrow> (let r = c buff in case snd (snd r) of
        None \<Rightarrow> Inr (absorb r f, 0)
      | Some (Runtime_error _) \<Rightarrow> Inr (absorb r f, - 1)
      | Some e \<Rightarrow> Inl e))"

definition call_interface :: "'u msg_process_func option \<Rightarrow> string \<Rightarrow> sock \<Rightarrow> 'u ffrpc_t \<Rightarrow> ('u ffrpc_t \<times> int) exc" where
  "call_interface func buff sk f =
     (let rcb_exe = (\<lambda>str. ([], send_str (Some sk) (cmd_id INTREFACE_CALLBACK) str, None))
      in case func of
        None \<Rightarrow> Inr (absorb (rcb_exe ''interface not existed'') f, - 1)
      | Some fn \<Rightarrow> (let r = fn buff (cmd_id INTREFACE_CALLBACK) (Some sk) in case snd (snd r) of
           None \<Rightarrow> Inr (absorb r f, 0)
         | Some (Runtime_error e) \<Rightarrow> Inr (absorb (rcb_exe e) (absorb r f), - 1)
         | Some e \<Rightarrow> Inl e))"

subsection \<open>The directory of the process\<close>

definition get_service_group :: "u16 \<Rightarrow> 'u ffrpc_t \<Rightarrow> 'u rpc_service_group_t option" where
  "get_service_group i f = map_of (fr_service_map f) i"

text \<open>By name: the key is returned with the group, to say which entry it is.\<close>

definition get_service_group_name :: "string \<Rightarrow> 'u ffrpc_t \<Rightarrow> (u16 \<times> 'u rpc_service_group_t) option" where
  "get_service_group_name name f = find (\<lambda>(k, g). gr_name g = name) (fr_service_map f)"

definition get_service :: "string \<Rightarrow> u16 \<Rightarrow> 'u ffrpc_t \<Rightarrow> 'u rpc_service_t option" where
  "get_service name i f = (case get_service_group_name name f of None \<Rightarrow> None | Some (k, g) \<Rightarrow> map_of (gr_services g) i)"

definition service_num :: "string \<Rightarrow> 'u ffrpc_t \<Rightarrow> size_t" where
  "service_num name f = (case get_service_group_name name f of None \<Rightarrow> 0 | Some (k, g) \<Rightarrow> len_t (gr_services g))"

definition set_group :: "u16 \<Rightarrow> 'u rpc_service_group_t \<Rightarrow> 'u ffrpc_t \<Rightarrow> 'u ffrpc_t" where
  "set_group k g f = f\<lparr>fr_service_map := om_put k g (fr_service_map f)\<rparr>"

definition set_service :: "u16 \<Rightarrow> 'u rpc_service_group_t \<Rightarrow> u16 \<Rightarrow> 'u rpc_service_t \<Rightarrow> 'u ffrpc_t \<Rightarrow> 'u ffrpc_t" where
  "set_service k g i rs f = set_group k (g\<lparr>gr_services := om_put i rs (gr_services g)\<rparr>) f"

definition get_socket :: "'u rpc_service_t \<Rightarrow> 'u ffrpc_t \<Rightarrow> sock option" where
  "get_socket rs f =
     (if map_option sv_addr (fr_broker_service f) \<noteq> Some (sv_addr rs) \<and> fr_broker_slaves f \<noteq> []
      then Some (fr_broker_slaves f ! ((sv_addr rs div 3) mod length (fr_broker_slaves f)))
      else fr_socket f)"

definition rpc_handle_broken :: "sock \<Rightarrow> 'u ffrpc_t \<Rightarrow> 'u ffrpc_t" where
  "rpc_handle_broken sk f =
     (let f1 = (if fr_socket f = Some sk then f\<lparr>fr_socket := None\<rparr> else f)
      in f1\<lparr>fr_history_sockets := fr_history_sockets f1 @ [sk]\<rparr>)"

text \<open>\<open>ffrpc_t::async_call\<close>: \<open>mname\<close> is the name of the message's type, whose id \<open>msg_traits_t\<close> looks up; an \<open>int\<close>
  index becomes a 16-bit id.\<close>

definition rpc_async_call ::
  "string \<Rightarrow> int \<Rightarrow> ('a msg_i_scheme \<Rightarrow> 'a msg_i_scheme \<times> string) \<Rightarrow> string \<Rightarrow> 'a msg_i_scheme \<Rightarrow>
   'u callback_wrapper \<Rightarrow> 'u ffrpc_t \<Rightarrow> 'u ffrpc_t \<times> int" where
  "rpc_async_call name ix encode mname msg cb f =
     (case get_service_group_name name f of None \<Rightarrow> (f, - 1)
      | Some (k, g) \<Rightarrow> (case map_of (gr_services g) (word_of_int ix) of None \<Rightarrow> (f, - 1)
        | Some rs \<Rightarrow>
           (let (rs1, _, es) = sv_async_call encode (get_socket rs f) msg (name_to_id (fr_names f) mname) cb rs
            in (absorb ([], es, None) (set_service k g (word_of_int ix) rs1 f), 0))))"

text \<open>\<open>NULL_CB\<close>.\<close>

definition null_cb :: "'u callback_wrapper" where
  "null_cb buff = callback_swallow decode_base_msg new_msg_tool (\<lambda>_. ([], [], None)) buff"

subsection \<open>Futures\<close>

text \<open>
  \<open>rpc_future_t\<close>: \<open>call\<close> sends the request with the future's \<open>callback\<close> (the wrapper for a member function,
  which swallows the exception of \<open>decode\<close>); when that runs, \<open>m_msg\<close> is what was decoded and the waiting
  thread is woken, which is the user event \<open>done m\<close>.
\<close>

definition future_callback :: "(string \<Rightarrow> 'm \<Rightarrow> 'm dres) \<Rightarrow> 'm \<Rightarrow> ('m \<Rightarrow> 'u) \<Rightarrow> 'u callback_wrapper" where
  "future_callback decode fresh dn buff = callback_swallow decode fresh (\<lambda>m. ([dn m], [], None)) buff"

text \<open>A call of the broker itself: \<open>rpc_future.call(m_broker_service, in)\<close>.\<close>

definition broker_call ::
  "('a msg_i_scheme \<Rightarrow> 'a msg_i_scheme \<times> string) \<Rightarrow> string \<Rightarrow> 'a msg_i_scheme \<Rightarrow> 'u callback_wrapper \<Rightarrow>
   'u ffrpc_t \<Rightarrow> 'u ffrpc_t exc" where
  "broker_call encode mname msg cb f = (case fr_broker_service f of None \<Rightarrow> Inl Null_deref
   | Some bs \<Rightarrow>
      (let (bs1, _, es) = sv_async_call encode (get_socket bs f) msg (name_to_id (fr_names f) mname) cb bs
       in Inr (absorb ([], es, None) (f\<lparr>fr_broker_service := Some bs1\<rparr>))))"

text \<open>\<open>open\<close>, up to the wait; \<open>conn\<close> is what \<open>net_factory_t::connect\<close> returned.\<close>

definition rpc_open :: "sock option \<Rightarrow> (bool_ret_msg_t \<Rightarrow> 'u) \<Rightarrow> 'u ffrpc_t \<Rightarrow> ('u ffrpc_t \<times> int option) exc" where
  "rpc_open conn dn f =
     (let f1 = f\<lparr>fr_socket := conn\<rparr>
      in case conn of None \<Rightarrow> Inr (f1, Some (- 1))
      | Some sk \<Rightarrow>
         (let f2 = f1\<lparr>fr_broker_service := Some (new_service 0 0 (fr_addr f1 (fr_news f1))), fr_news := fr_news f1 + 1\<rparr>
          in exc_map (\<lambda>f3. (f3, None))
               (broker_call encode_sas_in (msg_name new_sas_in) new_sas_in (future_callback decode_bool_ret new_sas_out dn) f2)))"

text \<open>\<open>create_service_group\<close>: the key of the group, or \<open>None\<close> while the answer is awaited.\<close>

definition rpc_create_service_group ::
  "string \<Rightarrow> (create_service_group_out \<Rightarrow> 'u) \<Rightarrow> 'u ffrpc_t \<Rightarrow> ('u ffrpc_t \<times> u16 option) exc" where
  "rpc_create_service_group name dn f =
     (case get_service_group_name name f of
        Some (k, g) \<Rightarrow> Inr (f, Some k)
      | None \<Rightarrow> exc_map (\<lambda>f1. (f1, None))
          (broker_call encode_csg_in (msg_name new_csg_in)
             (new_csg_in\<lparr>msg_id := cmd_id CREATE_SERVICE_GROUP, service_name := name\<rparr>)
             (future_callback decode_csg_out new_csg_out dn) f))"

definition create_service_group_done :: "create_service_group_out \<Rightarrow> 'u ffrpc_t \<Rightarrow> u16 exc" where
  "create_service_group_done out f =
     (case get_service_group (out_service_id out) f of None \<Rightarrow> Inl Null_deref | Some g \<Rightarrow> Inr (out_service_id out))"

definition register_service :: "u16 \<Rightarrow> u16 \<Rightarrow> (bool_ret_msg_t \<Rightarrow> 'u) \<Rightarrow> 'u ffrpc_t \<Rightarrow> 'u ffrpc_t exc" where
  "register_service gid i dn f = broker_call encode_cs_in (msg_name new_cs_in)
     (new_cs_in\<lparr>new_service_group_id := gid, new_service_id := i\<rparr>) (future_callback decode_bool_ret new_cs_out dn) f"

definition register_service_done :: "bool_ret_msg_t \<Rightarrow> int" where
  "register_service_done out = (if ret_value out then 0 else - 1)"

definition register_interface ::
  "string \<Rightarrow> string \<Rightarrow> u16 \<Rightarrow> u16 \<Rightarrow> (reg_interface_out \<Rightarrow> 'u) \<Rightarrow> 'u ffrpc_t \<Rightarrow> 'u ffrpc_t exc" where
  "register_interface in_name out_name gid i dn f = broker_call encode_ri_in (msg_name new_ri_in)
     (new_ri_in\<lparr>ri_sgid := gid, ri_sid := i, in_msg_name := in_name, out_msg_name := out_name\<rparr>)
     (future_callback decode_ri_out new_ri_out dn) f"

text \<open>
  \<open>rpc_service_t::add_interface\<close> after \<open>register_interface\<close> has its answer: the insertion is inside an
  assertion, which stops the process (\<open>None\<close>) when the id has a function already.
\<close>

definition add_interface_done ::
  "string \<Rightarrow> string \<Rightarrow> u16 \<Rightarrow> u16 \<Rightarrow> 'u msg_process_func \<Rightarrow> reg_interface_out \<Rightarrow> 'u ffrpc_t \<Rightarrow> 'u ffrpc_t option" where
  "add_interface_done in_name out_name gid i func out f =
     (case get_service_group gid f of None \<Rightarrow> None
      | Some g \<Rightarrow> (case map_of (gr_services g) i of None \<Rightarrow> None
        | Some rs \<Rightarrow>
           (let (m, inserted) = om_insert (ucast (alloc_id out)) func (sv_interface_map rs)
            in if \<not> inserted then None
               else let f1 = set_service gid g i (rs\<lparr>sv_interface_map := m\<rparr>) f
                    in Some (f1\<lparr>fr_names := add_msg out_name (out_alloc_id out) (add_msg in_name (alloc_id out) (fr_names f1))\<rparr>))))"

subsection \<open>Messages from the broker\<close>

definition sync_rpc_group :: "string \<times> u16 \<Rightarrow> 'u ffrpc_t \<Rightarrow> 'u ffrpc_t" where
  "sync_rpc_group ng f = set_group (snd ng) (new_group (fst ng) (snd ng)) f"

fun sync_rpc_services :: "id_info_t list \<Rightarrow> 'u ffrpc_t \<Rightarrow> 'u ffrpc_t exc" where
  "sync_rpc_services [] f = Inr f"
| "sync_rpc_services (i # is) f =
     (let rs = new_service (ii_sgid i) (ii_sid i) (fr_addr f (fr_news f));
          f1 = f\<lparr>fr_news := fr_news f + 1\<rparr>
      in case get_service_group (ii_sgid i) f1 of None \<Rightarrow> Inl Null_deref
         | Some g \<Rightarrow> sync_rpc_services is (set_group (ii_sgid i) (fst (add_service (ii_sid i) rs g)) f1))"

text \<open>\<open>conn\<close> answers \<open>net_factory_t::connect\<close>; a failed connection ends the loop with -1.\<close>

fun connect_slaves :: "(string \<Rightarrow> sock option) \<Rightarrow> u16 \<Rightarrow> string list \<Rightarrow> 'u ffrpc_t \<Rightarrow> 'u ffrpc_t \<times> int" where
  "connect_slaves conn nid [] f = (f, 0)"
| "connect_slaves conn nid (host # hosts) f =
     (case conn host of None \<Rightarrow> (f, - 1)
      | Some sk \<Rightarrow>
         (let f1 = f\<lparr>fr_broker_slaves := fr_broker_slaves f @ [sk]\<rparr>;
              msg = new_rsb_in\<lparr>rb_node_id := nid\<rparr>;
              msg1 = msg\<lparr>msg_id := name_to_id (fr_names f1) (get_name (fr_names f1) msg)\<rparr>
          in connect_slaves conn nid hosts
               (absorb ([], snd (send_codec encode_rsb_in (Some sk) (cmd_id CALL_INTERFACE) msg1), None) f1)))"

definition rpc_process_sync_data ::
  "(string \<Rightarrow> sock option) \<Rightarrow> push_init_data_in \<Rightarrow> 'u ffrpc_t \<Rightarrow> ('u ffrpc_t \<times> int) exc" where
  "rpc_process_sync_data conn out f =
     (if length (group_id_vt out) < length (group_name_vt out) \<or> length (msg_id_vt out) < length (msg_name_vt out)
      then Inl Out_of_range
      else case sync_rpc_services (id_info_vt out) (fold sync_rpc_group (zip (group_name_vt out) (group_id_vt out)) f) of
        Inl e \<Rightarrow> Inl e
      | Inr f1 \<Rightarrow>
         (let f2 = f1\<lparr>fr_names := fold (\<lambda>ni. add_msg (fst ni) (snd ni)) (zip (msg_name_vt out) (msg_id_vt out)) (fr_names f1)\<rparr>
          in Inr (connect_slaves conn (ucast (pi_node_id out)) (broker_slave_host out) f2)))"

text \<open>A decoding that throws is caught at the end of \<open>handle_msg\<close>, which then returns -1.\<close>

definition or_caught :: "'m dres \<Rightarrow> 'u ffrpc_t \<Rightarrow> ('m \<Rightarrow> ('u ffrpc_t \<times> int) exc) \<Rightarrow> ('u ffrpc_t \<times> int) exc" where
  "or_caught r f k = (case r of Throw e _ \<Rightarrow> Inr (f, - 1) | Ok m _ \<Rightarrow> k m)"

text \<open>The messages of the broker: group 0, service 0.\<close>

definition rpc_broker_msg ::
  "(string \<Rightarrow> sock option) \<Rightarrow> msg_i \<Rightarrow> string \<Rightarrow> 'u ffrpc_t \<Rightarrow> ('u ffrpc_t \<times> int) exc" where
  "rpc_broker_msg conn tool body f =
     (let mid = msg_id tool
      in if mid = cmd_id PUSH_ADD_SERVICE_GROUP then
           or_caught (decode_pasg_in body new_pasg_in) f (\<lambda>i.
             Inr (if get_service_group (pg_sgid i) f = None
                  then set_group (pg_sgid i) (new_group (pg_name i) (pg_sgid i)) f else f, 0))
         else if mid = cmd_id PUSH_ADD_SERVICE then
           or_caught (decode_pas_in body new_pas_in) f (\<lambda>i.
             Inr (case get_service_group (pa_sgid i) f of None \<Rightarrow> f
                  | Some g \<Rightarrow> (if map_of (gr_services g) (pa_sid i) = None
                      then (set_group (pa_sgid i) (fst (add_service (pa_sid i)
                             (new_service (pa_sgid i) (pa_sid i) (fr_addr f (fr_news f))) g)) f)\<lparr>fr_news := fr_news f + 1\<rparr>
                      else f), 0))
         else if mid = cmd_id PUSH_ADD_MSG then
           or_caught (decode_pam_in body new_pam_in) f (\<lambda>i.
             Inr (f\<lparr>fr_names := add_msg (pm_name i) (pm_msg_id i) (fr_names f)\<rparr>, 0))
         else if mid = cmd_id PUSH_INIT_DATA then
           or_caught (decode_pid_in body new_pid_in) f (\<lambda>i.
             exc_map (\<lambda>r. (fst r, 0)) (rpc_process_sync_data conn i f))
         else (case fr_broker_service f of None \<Rightarrow> Inl Null_deref
           | Some bs \<Rightarrow> (let (cb, bs1) = del_callback (uuid tool) bs
               in exc_map (\<lambda>r. (fst r, 0)) (guard_exe cb body (f\<lparr>fr_broker_service := Some bs1\<rparr>)))))"

definition rpc_handle_msg ::
  "(string \<Rightarrow> sock option) \<Rightarrow> message_t \<Rightarrow> sock \<Rightarrow> 'u ffrpc_t \<Rightarrow> ('u ffrpc_t \<times> int) exc" where
  "rpc_handle_msg conn msg sk f =
     or_caught (decode_base_msg (get_body msg) new_msg_tool) f (\<lambda>tool.
       if service_group_id tool = 0 \<and> service_id tool = 0 then rpc_broker_msg conn tool (get_body msg) f
       else case get_service_group (service_group_id tool) f of None \<Rightarrow> Inr (f, - 1)
       | Some g \<Rightarrow> (case map_of (gr_services g) (service_id tool) of None \<Rightarrow> Inr (f, - 1)
         | Some rs \<Rightarrow>
            if get_cmd msg = cmd_id CALL_INTERFACE then
              exc_map (\<lambda>r. (fst r, 0)) (call_interface (get_interface_func (ucast (msg_id tool)) rs) (get_body msg) sk f)
            else if get_cmd msg = cmd_id INTREFACE_CALLBACK then
              (let (cb, rs1) = del_callback (uuid tool) rs
               in exc_map (\<lambda>r. (fst r, 0)) (guard_exe cb (get_body msg)
                    (set_service (service_group_id tool) g (service_id tool) rs1 f)))
            else Inr (f, - 1)))"

subsection \<open>Closing\<close>

text \<open>
  \<open>close\<close> asks the connections to close, waits until \<open>handle_broken\<close> has cleared \<open>m_socket\<close>, and then
  frees everything. The first part gives the sockets to close; the second runs when the wait is over.
\<close>

definition rpc_close_ask :: "'u ffrpc_t \<Rightarrow> sock list" where
  "rpc_close_ask f = (case fr_socket f of None \<Rightarrow> [] | Some sk \<Rightarrow> fr_broker_slaves f @ [sk])"

definition rpc_close_done :: "'u ffrpc_t \<Rightarrow> 'u ffrpc_t option" where
  "rpc_close_done f = (if fr_socket f \<noteq> None then None
     else Some (f\<lparr>fr_service_map := [], fr_out := fr_out f @ map Safe_delete (fr_history_sockets f),
                 fr_history_sockets := [], fr_broker_slaves := []\<rparr>))"

subsection \<open>Lookups\<close>

definition rsvc :: "'u ffrpc_t \<Rightarrow> u16 \<Rightarrow> u16 \<Rightarrow> 'u rpc_service_t option" where
  "rsvc f g i = (case get_service_group g f of None \<Rightarrow> None | Some grp \<Rightarrow> map_of (gr_services grp) i)"


lemma set_group_simps [simp]:
  "get_service_group g' (set_group g grp f) = (if g' = g then Some grp else get_service_group g' f)"
  "fr_out (set_group g grp f) = fr_out f" "fr_user (set_group g grp f) = fr_user f"
  "fr_names (set_group g grp f) = fr_names f" "fr_news (set_group g grp f) = fr_news f"
  by (simp_all add: set_group_def get_service_group_def)

lemma absorb_simps [simp]:
  "get_service_group g (absorb r f) = get_service_group g f" "fr_out (absorb r f) = fr_out f @ fst (snd r)"
  "fr_user (absorb r f) = fr_user f @ fst r" "fr_names (absorb r f) = fr_names f"
  by (simp_all add: absorb_def get_service_group_def)

lemma set_service_simps [simp]:
  "get_service_group g (set_service g grp i rs f) = Some (grp\<lparr>gr_services := om_put i rs (gr_services grp)\<rparr>)"
  "fr_out (set_service g grp i rs f) = fr_out f" "fr_user (set_service g grp i rs f) = fr_user f"
  "fr_names (set_service g grp i rs f) = fr_names f"
  by (simp_all add: set_service_def)

lemma rsvc_set_service [simp]:
  "get_service_group g f = Some grp \<Longrightarrow>
    rsvc (set_service g grp i rs f) g' i' = (if (g', i') = (g, i) then Some rs else rsvc f g' i')"
  by (auto simp: rsvc_def set_service_def)

lemma rsvc_absorb [simp]: "rsvc (absorb r f) = rsvc f"
  by (simp add: rsvc_def fun_eq_iff)

lemma get_group_news [simp]: "get_service_group g (f\<lparr>fr_news := n\<rparr>) = get_service_group g f"
  "get_service_group g (f\<lparr>fr_names := ns\<rparr>) = get_service_group g f"
  "get_service_group g (f\<lparr>fr_broker_slaves := ss\<rparr>) = get_service_group g f"
  by (simp_all add: get_service_group_def)

lemma by_name_member: "get_service_group_name name f = Some (g, grp) \<Longrightarrow> (g, grp) \<in> set (fr_service_map f)"
  by (auto simp: get_service_group_name_def find_Some_iff in_set_conv_nth)

lemma by_name_lookup:
  "om_wf (fr_service_map f) \<Longrightarrow> get_service_group_name name f = Some (g, grp) \<Longrightarrow> get_service_group g f = Some grp"
  by (simp add: get_service_group_def by_name_member om_wf_distinct)

subsection \<open>A call and its answer\<close>

text \<open>A call of a service: what is sent, and the callback that waits.\<close>

lemma async_call_sends:
  assumes "om_wf (fr_service_map f)" "get_service_group_name name f = Some (g, grp)"
    and "map_of (gr_services grp) i = Some rs" "i = word_of_int ix" "get_socket rs f = Some k"
    and "sv_group_id rs = g" "sv_id rs = i" "mid = name_to_id (fr_names f) mname"
    and "\<And>u. snd (encode (msg_i_set g i u mid msg)) = rpc_body u g i mid args"
  shows "\<exists>f1. rpc_async_call name ix encode mname msg cb f = (f1, 0) \<and>
    fr_out f1 = fr_out f @ [Async_send k (packet (cmd_id CALL_INTERFACE) (rpc_body (sv_uuid rs + 1) g i mid args))] \<and>
    fr_user f1 = fr_user f \<and>
    (\<forall>g' i'. rsvc f1 g' i' = (if (g', i') = (g, i)
       then Some (rs\<lparr>sv_uuid := sv_uuid rs + 1, sv_callback_map := om_put (sv_uuid rs + 1) cb (sv_callback_map rs)\<rparr>)
       else rsvc f g' i'))"
proof -
  let ?rs = "rs\<lparr>sv_uuid := sv_uuid rs + 1, sv_callback_map := om_put (sv_uuid rs + 1) cb (sv_callback_map rs)\<rparr>"
  let ?e = "[Async_send k (packet (cmd_id CALL_INTERFACE) (rpc_body (sv_uuid rs + 1) g i mid args))]"
  have grp: "get_service_group g f = Some grp" by (rule by_name_lookup [OF assms(1,2)])
  have "\<exists>m2. sv_async_call encode (Some k) msg mid cb rs = (?rs, m2, ?e)"
    using assms(6,7,9) by (simp add: sv_async_call_def send_codec_def Let_def split_beta)
  then have "rpc_async_call name ix encode mname msg cb f = (absorb ([], ?e, None) (set_service g grp i ?rs f), 0)"
    using assms(2-5,8) by (auto simp: rpc_async_call_def)
  with grp show ?thesis by (intro exI [of _ "absorb ([], ?e, None) (set_service g grp i ?rs f)"]) simp
qed

text \<open>A packet for one of the services.\<close>

lemma rpc_handle_relayed:
  assumes "(g, i) \<noteq> (0, 0)" "rsvc f g i = Some rs"
  shows "rpc_handle_msg conn (rpc_message CALL_INTERFACE (rpc_body u g i mid args)) sk f =
      exc_map (\<lambda>r. (fst r, 0)) (call_interface (get_interface_func (ucast mid) rs) (rpc_body u g i mid args) sk f)"
    "rpc_handle_msg conn (rpc_message INTREFACE_CALLBACK (rpc_body u g i mid args)) sk f =
      (let (cb, rs1) = del_callback u rs
       in exc_map (\<lambda>r. (fst r, 0)) (guard_exe cb (rpc_body u g i mid args)
            (set_service g (the (get_service_group g f)) i rs1 f)))"
proof -
  obtain grp where "get_service_group g f = Some grp" "map_of (gr_services grp) i = Some rs"
    using assms(2) by (auto simp: rsvc_def split: option.splits)
  moreover have "\<not> (g = 0 \<and> i = 0)" using assms(1) by simp
  ultimately show "rpc_handle_msg conn (rpc_message CALL_INTERFACE (rpc_body u g i mid args)) sk f =
      exc_map (\<lambda>r. (fst r, 0)) (call_interface (get_interface_func (ucast mid) rs) (rpc_body u g i mid args) sk f)"
    "rpc_handle_msg conn (rpc_message INTREFACE_CALLBACK (rpc_body u g i mid args)) sk f =
      (let (cb, rs1) = del_callback u rs
       in exc_map (\<lambda>r. (fst r, 0)) (guard_exe cb (rpc_body u g i mid args)
            (set_service g (the (get_service_group g f)) i rs1 f)))"
    by (simp_all add: rpc_handle_msg_def or_caught_def decode_rpc_body) blast+
qed

lemma callback_runs:
  assumes "(g, i) \<noteq> (0, 0)" "rsvc f g i = Some rs" "om_wf (sv_callback_map rs)"
    and "map_of (sv_callback_map rs) u = Some cb" "snd (snd (cb (rpc_body u g i mid res))) = None"
  shows "\<exists>f'. rpc_handle_msg conn (rpc_message INTREFACE_CALLBACK (rpc_body u g i mid res)) sk f = Inr (f', 0) \<and>
    fr_user f' = fr_user f @ fst (cb (rpc_body u g i mid res)) \<and>
    (\<exists>rs'. rsvc f' g i = Some rs' \<and> map_of (sv_callback_map rs') = (map_of (sv_callback_map rs))(u := None))"
proof -
  obtain grp where grp: "get_service_group g f = Some grp" using assms(2) by (auto simp: rsvc_def split: option.splits)
  let ?rs = "rs\<lparr>sv_callback_map := om_erase u (sv_callback_map rs)\<rparr>"
  have "rpc_handle_msg conn (rpc_message INTREFACE_CALLBACK (rpc_body u g i mid res)) sk f =
      Inr (absorb (cb (rpc_body u g i mid res)) (set_service g grp i ?rs f), 0)"
    using assms(4,5) grp by (simp add: rpc_handle_relayed(2) [OF assms(1,2)] del_callback_def guard_exe_def exc_map_def)
  then show ?thesis
    using grp assms(3) by (intro exI [of _ "absorb (cb (rpc_body u g i mid res)) (set_service g grp i ?rs f)"])
      (simp add: map_of_om_erase)
qed

lemma interface_runs:
  assumes "(g, i) \<noteq> (0, 0)" "rsvc f g i = Some rs" "map_of (sv_interface_map rs) (ucast mid) = Some fn"
    and "fn (rpc_body u g i mid args) (cmd_id INTREFACE_CALLBACK) (Some sk) = (evs, es, None)"
  shows "\<exists>f'. rpc_handle_msg conn (rpc_message CALL_INTERFACE (rpc_body u g i mid args)) sk f = Inr (f', 0) \<and>
    fr_user f' = fr_user f @ evs \<and> fr_out f' = fr_out f @ es \<and> rsvc f' = rsvc f"
  using assms(3,4)
  by (simp add: rpc_handle_relayed(1) [OF assms(1,2)] call_interface_def get_interface_func_def exc_map_def)


text \<open>
  (C3) A remote call end to end. A process calls service \<open>(g, i)\<close> with a callback; the broker passes the
  request to the process that offers the service, whose interface for that message answers; the broker
  passes the answer back, and the caller's process runs exactly that callback on the body the
  interface sent, under the caller's own number, after which the callback is gone; each of the five
  steps sends exactly the packet that the next one receives.
\<close>

theorem rpc_call_answered:
  assumes "om_wf (fr_service_map f)" "get_service_group_name name f = Some (g, grp)"
    and "map_of (gr_services grp) i = Some rs" "i = word_of_int ix" "get_socket rs f = Some k"
    and "sv_group_id rs = g" "sv_id rs = i" "om_wf (sv_callback_map rs)" "mid = name_to_id (fr_names f) mname"
    and "\<forall>u. snd (encode (msg_i_set g i u mid msg)) = rpc_body u g i mid args"
    and "broker_wf b" "(g, i) \<noteq> (0, 0)" "svc b g i = Some so" "so_socket so = Some s"
    and "rsvc srv g i = Some offered" "map_of (sv_interface_map offered) (ucast mid) = Some fn"
    and "\<forall>u. fn (rpc_body u g i mid args) (cmd_id INTREFACE_CALLBACK) (Some bs) =
      (evs, [Async_send bs (packet (cmd_id INTREFACE_CALLBACK) (rpc_body u g i mid' res))], None)"
    and "\<forall>u. snd (snd (cb (rpc_body u g i mid' res))) = None"
  shows "\<exists>f1 b1 srv1 b2 f2 u v.
    rpc_async_call name ix encode mname msg cb f = (f1, 0) \<and>
    fr_out f1 = fr_out f @ [Async_send k (packet (cmd_id CALL_INTERFACE) (rpc_body u g i mid args))] \<and>
    handle_msg t1 (rpc_message CALL_INTERFACE (rpc_body u g i mid args)) c b = Inr (b1, 0) \<and>
    effects b1 = effects b @ [Async_send s (packet (cmd_id CALL_INTERFACE) (rpc_body v g i mid args))] \<and>
    rpc_handle_msg conn (rpc_message CALL_INTERFACE (rpc_body v g i mid args)) bs srv = Inr (srv1, 0) \<and>
    fr_user srv1 = fr_user srv @ evs \<and>
    fr_out srv1 = fr_out srv @ [Async_send bs (packet (cmd_id INTREFACE_CALLBACK) (rpc_body v g i mid' res))] \<and>
    handle_msg t2 (rpc_message INTREFACE_CALLBACK (rpc_body v g i mid' res)) s b1 = Inr (b2, 0) \<and>
    effects b2 = effects b1 @ [Async_send c (packet (cmd_id INTREFACE_CALLBACK) (rpc_body u g i mid' res)),
      Perf_post (id_to_name (names b) mid) (t2 - t1)] \<and>
    rpc_handle_msg conn' (rpc_message INTREFACE_CALLBACK (rpc_body u g i mid' res)) k f1 = Inr (f2, 0) \<and>
    fr_user f2 = fr_user f @ fst (cb (rpc_body u g i mid' res)) \<and>
    (\<exists>rs'. rsvc f2 g i = Some rs' \<and> map_of (sv_callback_map rs') = (map_of (sv_callback_map rs))(u := None))"
proof -
  define u v where "u = sv_uuid rs + 1" and "v = so_uuid so + 1"
  obtain f1 where f1: "rpc_async_call name ix encode mname msg cb f = (f1, 0)" "fr_user f1 = fr_user f"
    "fr_out f1 = fr_out f @ [Async_send k (packet (cmd_id CALL_INTERFACE) (rpc_body u g i mid args))]"
    "rsvc f1 g i = Some (rs\<lparr>sv_uuid := u, sv_callback_map := om_put u cb (sv_callback_map rs)\<rparr>)"
    using async_call_sends [OF assms(1-7,9), where cb = cb and encode = encode and msg = msg and args = args] assms(10)
    by (auto simp: u_def)
  obtain b1 b2 where b: "handle_msg t1 (rpc_message CALL_INTERFACE (rpc_body u g i mid args)) c b = Inr (b1, 0)"
    "effects b1 = effects b @ [Async_send s (packet (cmd_id CALL_INTERFACE) (rpc_body v g i mid args))]"
    "handle_msg t2 (rpc_message INTREFACE_CALLBACK (rpc_body v g i mid' res)) s b1 = Inr (b2, 0)"
    "effects b2 = effects b1 @ [Async_send c (packet (cmd_id INTREFACE_CALLBACK) (rpc_body u g i mid' res)),
      Perf_post (id_to_name (names b) mid) (t2 - t1)]"
    using relay_call_answer [OF assms(11-14), where ?t1.0 = t1 and u = u and mid = mid and args = args and c = c
        and ?t2.0 = t2 and mid' = mid' and res = res] unfolding v_def by blast
  obtain srv1 where srv1: "rpc_handle_msg conn (rpc_message CALL_INTERFACE (rpc_body v g i mid args)) bs srv = Inr (srv1, 0)"
    "fr_user srv1 = fr_user srv @ evs"
    "fr_out srv1 = fr_out srv @ [Async_send bs (packet (cmd_id INTREFACE_CALLBACK) (rpc_body v g i mid' res))]"
    using interface_runs [OF assms(12,15,16) assms(17) [rule_format, of v]] by blast
  have "(map_of (om_put u cb (sv_callback_map rs)))(u := None) = (map_of (sv_callback_map rs))(u := None)" by simp
  then obtain f2 where f2: "rpc_handle_msg conn' (rpc_message INTREFACE_CALLBACK (rpc_body u g i mid' res)) k f1 = Inr (f2, 0)"
    "fr_user f2 = fr_user f @ fst (cb (rpc_body u g i mid' res))"
    "\<exists>rs'. rsvc f2 g i = Some rs' \<and> map_of (sv_callback_map rs') = (map_of (sv_callback_map rs))(u := None)"
    using callback_runs [OF assms(12) f1(4), of u cb mid' res conn' k] assms(8,18) f1(2) by auto
  show ?thesis using f1 b srv1 f2 by blast
qed


text \<open>A caller, a process that offers service 0 of group 4, and an interface that answers every name with true.\<close>

definition sample_interface :: "string msg_process_func" where
  "sample_interface buff c sp =
     (case process_func_exe decode_csg_in new_csg_in (\<lambda>m cb. ([service_name m],
        callcack_call encode_bool_ret new_store (msg_name new_sas_out) cb (new_sas_out\<lparr>ret_value := True\<rparr>), None)) 4 0 buff c sp of
      Inl e \<Rightarrow> ([], [], Some e) | Inr r \<Rightarrow> r)"

definition sample_caller :: "string ffrpc_t" where
  "sample_caller = (new_ffrpc None (\<lambda>n. 16 * n))\<lparr>fr_socket := Some 7,
     fr_service_map := [(4, \<lparr>gr_id = 4, gr_name = ''b'', gr_services = [(0, new_service 4 0 48)]\<rparr>)]\<rparr>"

definition sample_server :: "string ffrpc_t" where
  "sample_server = (new_ffrpc None (\<lambda>n. 16 * n))\<lparr>fr_socket := Some 3,
     fr_service_map := [(4, \<lparr>gr_id = 4, gr_name = ''b'', gr_services = [(0, (new_service 4 0 16)
       \<lparr>sv_interface_map := [(ucast (name_to_id new_store (msg_name new_csg_in)), sample_interface)]\<rparr>)]\<rparr>)]\<rparr>"

lemma sample_interface_answers:
  "sample_interface (rpc_body u 4 0 mid (enc_string ''hi'')) c (Some k) = ([''hi''],
     [Async_send k (packet (cmd_id INTREFACE_CALLBACK) (rpc_body u 4 0 (name_to_id new_store (msg_name new_sas_out)) (enc_bool True)))], None)"
proof -
  have "decode_csg_in (rpc_body u 4 0 mid (enc_string ''hi'')) new_csg_in =
      Ok (new_csg_in\<lparr>uuid := u, service_group_id := 4, service_id := 0, msg_id := mid, service_name := ''hi''\<rparr>) []"
    using strw.dec_enc [of "''hi''" "[]"]
    by (simp add: decode_csg_in_def init_decoder_def dec_into_def rpc_body_def u32w.dec_enc u16w.dec_enc)
  then show ?thesis
    by (simp add: sample_interface_def process_func_exe_def callcack_call_def callcack_exe_def make_callcack_def
        send_codec_def encode_bool_ret_def encode_unfold head_image_def rpc_body_def new_sas_out_def new_bool_ret_def
        new_msg_i_def msg_i.defs bool_ret_msg_t.defs)
qed

theorem rpc_call_answered_witness:
  "\<exists>f1 b1 srv1 b2 f2 u v body.
    rpc_async_call ''b'' 0 encode_csg_in (msg_name new_csg_in) (new_csg_in\<lparr>service_name := ''hi''\<rparr>) (\<lambda>body. ([body], [], None)) sample_caller = (f1, 0) \<and>
    handle_msg 10 (rpc_message CALL_INTERFACE (rpc_body u 4 0 (name_to_id new_store (msg_name new_csg_in)) (enc_string ''hi''))) 1 sample_broker = Inr (b1, 0) \<and>
    rpc_handle_msg (\<lambda>_. None) (rpc_message CALL_INTERFACE (rpc_body v 4 0 (name_to_id new_store (msg_name new_csg_in)) (enc_string ''hi''))) 3 sample_server = Inr (srv1, 0) \<and>
    fr_user srv1 = [''hi''] \<and>
    handle_msg 12 (rpc_message INTREFACE_CALLBACK (rpc_body v 4 0 (name_to_id new_store (msg_name new_sas_out)) (enc_bool True))) 2 b1 = Inr (b2, 0) \<and>
    rpc_handle_msg (\<lambda>_. None) (rpc_message INTREFACE_CALLBACK body) 7 f1 = Inr (f2, 0) \<and>
    body = rpc_body u 4 0 (name_to_id new_store (msg_name new_sas_out)) (enc_bool True) \<and> fr_user f2 = [body]"
proof -
  let ?mid = "name_to_id new_store (msg_name new_csg_in)"
  have enc: "snd (encode_csg_in (msg_i_set 4 0 u ?mid (new_csg_in\<lparr>service_name := ''hi''\<rparr>))) = rpc_body u 4 0 ?mid (enc_string ''hi'')" for u
    by (simp add: encode_csg_in_def encode_unfold head_image_def rpc_body_def msg_i_set_def) (simp add: new_msg_defs)
  have so: "svc sample_broker 4 0 = Some ((new_service_obj ''b'' 4 0 (Some 2) 2)\<lparr>so_uuid := 1,
      so_callback_map := [(1, \<lparr>ps_start_time = 0, ps_req_msg = ''q'', ps_uuid = 9, ps_socket = 1\<rparr>)]\<rparr>)"
    by (simp add: svc_def sample_broker_def)
  have srv: "rsvc sample_server 4 0 = Some ((new_service 4 0 16)\<lparr>sv_interface_map := [(ucast ?mid, sample_interface)]\<rparr>)"
    by (simp add: rsvc_def get_service_group_def sample_server_def)
  have caller: "get_service_group_name ''b'' sample_caller = Some (4, \<lparr>gr_id = 4, gr_name = ''b'', gr_services = [(0, new_service 4 0 48)]\<rparr>)"
    "om_wf (fr_service_map sample_caller)" "get_socket (new_service 4 0 48) sample_caller = Some 7"
    "fr_names sample_caller = new_store" "fr_user sample_caller = []" "fr_user sample_server = []"
    by (simp_all add: get_service_group_name_def sample_caller_def sample_server_def om_wf_def get_socket_def new_ffrpc_def)
  show ?thesis
    using rpc_call_answered [of sample_caller "''b''" 4 _ 0 "new_service 4 0 48" 0 7 ?mid "msg_name new_csg_in" encode_csg_in
        "new_csg_in\<lparr>service_name := ''hi''\<rparr>" "enc_string ''hi''" sample_broker _ 2 sample_server _ sample_interface 3 "[''hi'']"
        "name_to_id new_store (msg_name new_sas_out)" "enc_bool True" "\<lambda>body. ([body], [], None)" 10 1 "\<lambda>_. None" 12 "\<lambda>_. None",
        OF caller(2,1) _ _ caller(3) _ _ _ _ _ sample_broker_wf _ so _ srv]
    by (simp add: caller(4-6) enc sample_interface_answers new_service_def new_service_obj_def) blast
qed


subsection \<open>Errors\<close>

text \<open>
  A call of an interface the process does not offer is never answered: the text that
  \<open>call_interface\<close> sends is not an RPC body, the broker reads its letters as a group and a service id
  (26226 and 25441), and unless there happens to be such a service it drops the packet, keeps the
  caller waiting and changes nothing.
\<close>

theorem unknown_interface_unanswered:
  assumes "(g, i) \<noteq> (0, 0)" "rsvc f g i = Some rs" "map_of (sv_interface_map rs) (ucast mid) = None"
    and "svc b 26226 25441 = None"
  shows "\<exists>f'. rpc_handle_msg conn (rpc_message CALL_INTERFACE (rpc_body u g i mid args)) k f = Inr (f', 0) \<and>
    fr_out f' = fr_out f @ [Async_send k (packet (cmd_id INTREFACE_CALLBACK) ''interface not existed'')] \<and>
    handle_msg now (rpc_message INTREFACE_CALLBACK ''interface not existed'') s b = Inr (b, - 1)"
proof -
  have "''interface not existed'' = rpc_body 1702129257 26226 25441 8293 ''not existed''"
    by (simp add: rpc_body_def enc_u32_def enc_u16_def wire_simps) (simp add: char_of_def bit_0)
  then have "handle_msg now (rpc_message INTREFACE_CALLBACK ''interface not existed'') s b =
      Inr (relay_msg now (cmd_id INTREFACE_CALLBACK) (tool_of 1702129257 26226 25441 8293) ''interface not existed'' s b)"
    using handle_relayed [of 26226 25441] by simp
  also have "\<dots> = Inr (b, - 1)"
    using assms(4) by (auto simp: relay_msg_def svc_def tool_of_def split: option.splits)
  finally show ?thesis
    using assms(3) by (simp add: rpc_handle_relayed(1) [OF assms(1,2)] call_interface_def get_interface_func_def exc_map_def send_str_def)
qed

theorem unknown_interface_unanswered_witness:
  "\<exists>f'. rpc_handle_msg (\<lambda>_. None) (rpc_message CALL_INTERFACE (rpc_body 1 4 0 999 [])) 7 sample_caller = Inr (f', 0) \<and>
    fr_out f' = [Async_send 7 (packet 11 ''interface not existed'')] \<and>
    handle_msg 5 (rpc_message INTREFACE_CALLBACK ''interface not existed'') 2 sample_broker = Inr (sample_broker, - 1)"
  using unknown_interface_unanswered [of 4 0 sample_caller "new_service 4 0 48" 999 sample_broker "\<lambda>_. None" 1 "[]" 7 5 2]
  by (simp add: rsvc_def get_service_group_def sample_caller_def new_service_def svc_def sample_broker_def new_ffrpc_def)

text \<open>What a packet can do to a process that is not an exception \<open>handle_msg\<close> catches.\<close>

definition user_code_ok :: "'u ffrpc_t \<Rightarrow> bool" where
  "user_code_ok f \<longleftrightarrow>
     (\<forall>rs \<in> {rs. fr_broker_service f = Some rs \<or> (\<exists>g i. rsvc f g i = Some rs)}.
        (\<forall>cb \<in> snd ` set (sv_callback_map rs). \<forall>buff e. snd (snd (cb buff)) = Some e \<longrightarrow> (\<exists>s. e = Runtime_error s)) \<and>
        (\<forall>fn \<in> snd ` set (sv_interface_map rs). \<forall>buff c sk e. snd (snd (fn buff c sk)) = Some e \<longrightarrow> (\<exists>s. e = Runtime_error s)))"

lemma user_code_okD:
  assumes "user_code_ok f" "fr_broker_service f = Some rs \<or> rsvc f g i = Some rs"
  shows "cb \<in> snd ` set (sv_callback_map rs) \<Longrightarrow> snd (snd (cb buff)) = Some e \<Longrightarrow> \<exists>s. e = Runtime_error s"
    "fn \<in> snd ` set (sv_interface_map rs) \<Longrightarrow> snd (snd (fn buff c sk)) = Some e \<Longrightarrow> \<exists>s. e = Runtime_error s"
  using assms unfolding user_code_ok_def by blast+

lemma guard_exe_caught:
  assumes "\<And>c e. cb = Some c \<Longrightarrow> snd (snd (c buff)) = Some e \<Longrightarrow> \<exists>s. e = Runtime_error s"
  shows "\<exists>r. guard_exe cb buff f = Inr r"
proof (cases cb)
  case (Some c)
  then show ?thesis using assms [OF Some] by (cases "snd (snd (c buff))") (auto simp: guard_exe_def Let_def)
qed (simp add: guard_exe_def)

lemma call_interface_caught:
  assumes "\<And>c e. fn = Some c \<Longrightarrow> snd (snd (c buff (cmd_id INTREFACE_CALLBACK) (Some k))) = Some e \<Longrightarrow> \<exists>s. e = Runtime_error s"
  shows "\<exists>r. call_interface fn buff k f = Inr r"
proof (cases fn)
  case (Some c)
  then show ?thesis using assms [OF Some]
    by (cases "snd (snd (c buff (cmd_id INTREFACE_CALLBACK) (Some k)))") (auto simp: call_interface_def Let_def)
qed (simp add: call_interface_def Let_def)

lemma del_callback_cases:
  "del_callback u rs = (cb, rs') \<Longrightarrow> cb = Some c \<Longrightarrow> c \<in> snd ` set (sv_callback_map rs)"
  by (force simp: del_callback_def dest: map_of_SomeD split: option.splits)

lemma get_interface_cases: "get_interface_func n rs = Some c \<Longrightarrow> c \<in> snd ` set (sv_interface_map rs)"
  by (force simp: get_interface_func_def dest: map_of_SomeD)

lemma sync_rpc_services_fails:
  "sync_rpc_services is f = Inl e \<longleftrightarrow> e = Null_deref \<and> (\<exists>i \<in> set is. get_service_group (ii_sgid i) f = None)"
proof (induction "is" arbitrary: f)
  case (Cons i "is")
  show ?case
    by (cases "get_service_group (ii_sgid i) f")
      (auto simp: Let_def Cons.IH get_service_group_def set_group_def, metis option.distinct(1))
qed simp

lemma sync_rpc_groups_known:
  "get_service_group g (fold sync_rpc_group ngs f) = None \<longleftrightarrow> g \<notin> snd ` set ngs \<and> get_service_group g f = None"
  by (induction ngs arbitrary: f) (auto simp: sync_rpc_group_def get_service_group_def set_group_def)

lemma snd_zip: "snd ` set (zip xs ys) = set (take (length xs) ys)"
  by (metis list.set_map map_snd_zip_take min.cobounded1 min_def take_all_iff)

text \<open>Initial data that does not fit together: an id vector is too short, or a service's group is listed nowhere.\<close>

lemma rpc_process_sync_data_fails:
  "rpc_process_sync_data conn pid f = Inl e \<longleftrightarrow>
    e = Out_of_range \<and> (length (group_id_vt pid) < length (group_name_vt pid) \<or> length (msg_id_vt pid) < length (msg_name_vt pid)) \<or>
    e = Null_deref \<and> length (group_name_vt pid) \<le> length (group_id_vt pid) \<and> length (msg_name_vt pid) \<le> length (msg_id_vt pid) \<and>
      (\<exists>i \<in> set (id_info_vt pid). ii_sgid i \<notin> set (take (length (group_name_vt pid)) (group_id_vt pid)) \<and>
        get_service_group (ii_sgid i) f = None)"
proof (cases "sync_rpc_services (id_info_vt pid) (fold sync_rpc_group (zip (group_name_vt pid) (group_id_vt pid)) f)")
  case (Inl e')
  then have "e' = Null_deref \<and> (\<exists>i \<in> set (id_info_vt pid). ii_sgid i \<notin> set (take (length (group_name_vt pid)) (group_id_vt pid)) \<and>
      get_service_group (ii_sgid i) f = None)"
    by (simp add: sync_rpc_services_fails sync_rpc_groups_known snd_zip)
  with Inl show ?thesis by (auto simp: rpc_process_sync_data_def)
next
  case (Inr f')
  then have "\<not> (\<exists>i \<in> set (id_info_vt pid). ii_sgid i \<notin> set (take (length (group_name_vt pid)) (group_id_vt pid)) \<and>
      get_service_group (ii_sgid i) f = None)"
    using sync_rpc_services_fails [of "id_info_vt pid" "fold sync_rpc_group (zip (group_name_vt pid) (group_id_vt pid)) f" Null_deref]
    by (simp add: sync_rpc_groups_known snd_zip)
  with Inr show ?thesis by (auto simp: rpc_process_sync_data_def Let_def)
qed

lemma broker_msg_failures:
  assumes "user_code_ok f"
  shows "rpc_broker_msg conn tool body f = Inl e \<longleftrightarrow>
    e = Null_deref \<and> fr_broker_service f = None \<and>
      msg_id tool \<notin> {cmd_id PUSH_ADD_SERVICE_GROUP, cmd_id PUSH_ADD_SERVICE, cmd_id PUSH_ADD_MSG, cmd_id PUSH_INIT_DATA} \<or>
    msg_id tool = cmd_id PUSH_INIT_DATA \<and> (\<exists>pid s. decode_pid_in body new_pid_in = Ok pid s \<and> rpc_process_sync_data conn pid f = Inl e)"
proof (cases "msg_id tool \<in> {cmd_id PUSH_ADD_SERVICE_GROUP, cmd_id PUSH_ADD_SERVICE, cmd_id PUSH_ADD_MSG, cmd_id PUSH_INIT_DATA}")
  case True
  then show ?thesis
    by (auto simp: rpc_broker_msg_def Let_def or_caught_def exc_map_fails split: dres.splits)
next
  case False
  show ?thesis
  proof (cases "fr_broker_service f")
    case None
    with False show ?thesis by (auto simp: rpc_broker_msg_def Let_def)
  next
    case (Some bs)
    obtain cb bs1 where d: "del_callback (uuid tool) bs = (cb, bs1)" by fastforce
    have "\<exists>r. guard_exe cb body (f\<lparr>fr_broker_service := Some bs1\<rparr>) = Inr r"
      using user_code_okD(1) [OF assms(1)] Some del_callback_cases [OF d] by (intro guard_exe_caught) blast
    with False Some d show ?thesis by (auto simp: rpc_broker_msg_def Let_def exc_map_def)
  qed
qed

lemma rpc_relayed_caught:
  assumes "user_code_ok f" "decode_base_msg (get_body msg) new_msg_tool = Ok tool s"
    and "\<not> (service_group_id tool = 0 \<and> service_id tool = 0)"
  shows "rpc_handle_msg conn msg k f \<noteq> Inl e"
proof
  assume fails: "rpc_handle_msg conn msg k f = Inl e"
  with assms(2,3) obtain grp rs where g: "get_service_group (service_group_id tool) f = Some grp"
    "map_of (gr_services grp) (service_id tool) = Some rs"
    by (auto simp: rpc_handle_msg_def or_caught_def split: option.splits)
  then have rs: "rsvc f (service_group_id tool) (service_id tool) = Some rs" by (simp add: rsvc_def)
  obtain cb rs1 where cb: "del_callback (uuid tool) rs = (cb, rs1)" by fastforce
  let ?f = "set_service (service_group_id tool) grp (service_id tool) rs1 f"
  obtain r1 where r1: "guard_exe cb (get_body msg) ?f = Inr r1"
    using guard_exe_caught [of cb "get_body msg" ?f] user_code_okD(1) [OF assms(1)] rs del_callback_cases [OF cb] by metis
  obtain r2 where r2: "call_interface (get_interface_func (ucast (msg_id tool)) rs) (get_body msg) k f = Inr r2"
    using call_interface_caught [of "get_interface_func (ucast (msg_id tool)) rs" "get_body msg" k f]
      user_code_okD(2) [OF assms(1)] rs get_interface_cases by metis
  have "\<exists>r. rpc_handle_msg conn msg k f = Inr r"
    using assms(3) unfolding rpc_handle_msg_def or_caught_def assms(2) by (simp add: g cb r1 r2 exc_map_def) blast
  with fails show False by simp
qed

text \<open>
  (C24) Exactly when a packet brings a process down, and with what, as long as the user's callbacks and
  interfaces end or throw an exception \<open>handle_msg\<close> catches: the head decodes and names the broker
  (group 0, service 0), and either the packet is none of the broker's pushes and \<open>open\<close> has not made
  the broker's service yet, or it is initial data, which decodes and has an id vector shorter than its
  name vector, or else lists a service whose group is neither among its groups nor known to the
  process. Everything else, a cut packet included, is survived.
\<close>

theorem rpc_handle_msg_failures:
  assumes "user_code_ok f"
  shows "rpc_handle_msg conn msg k f = Inl e \<longleftrightarrow>
    (\<exists>tool rest. decode_base_msg (get_body msg) new_msg_tool = Ok tool rest \<and> service_group_id tool = 0 \<and> service_id tool = 0 \<and>
      (e = Null_deref \<and> fr_broker_service f = None \<and>
        msg_id tool \<notin> {cmd_id PUSH_ADD_SERVICE_GROUP, cmd_id PUSH_ADD_SERVICE, cmd_id PUSH_ADD_MSG, cmd_id PUSH_INIT_DATA} \<or>
       msg_id tool = cmd_id PUSH_INIT_DATA \<and> (\<exists>pid s. decode_pid_in (get_body msg) new_pid_in = Ok pid s \<and>
        (e = Out_of_range \<and> (length (group_id_vt pid) < length (group_name_vt pid) \<or> length (msg_id_vt pid) < length (msg_name_vt pid)) \<or>
         e = Null_deref \<and> length (group_name_vt pid) \<le> length (group_id_vt pid) \<and> length (msg_name_vt pid) \<le> length (msg_id_vt pid) \<and>
          (\<exists>i \<in> set (id_info_vt pid). ii_sgid i \<notin> set (take (length (group_name_vt pid)) (group_id_vt pid)) \<and>
            get_service_group (ii_sgid i) f = None)))))"
proof (cases "decode_base_msg (get_body msg) new_msg_tool")
  case (Ok tool rest)
  show ?thesis
  proof (cases "service_group_id tool = 0 \<and> service_id tool = 0")
    case True
    then have "rpc_handle_msg conn msg k f = rpc_broker_msg conn tool (get_body msg) f"
      by (simp add: rpc_handle_msg_def or_caught_def Ok)
    then show ?thesis
      unfolding Ok by (simp only: broker_msg_failures [OF assms] rpc_process_sync_data_fails) (use True in auto)
  next
    case False
    with rpc_relayed_caught [OF assms Ok False] show ?thesis by (auto simp: Ok)
  qed
qed (simp add: rpc_handle_msg_def or_caught_def)

theorem rpc_handle_msg_failures_witness:
  "rpc_handle_msg (\<lambda>_. None) (rpc_message INTREFACE_CALLBACK (rpc_body 1 0 0 999 [])) 7 sample_caller = Inl Null_deref \<and>
    (\<nexists>e. rpc_handle_msg (\<lambda>_. None) (rpc_message INTREFACE_CALLBACK (rpc_body 1 4 0 999 [])) 7 sample_caller = Inl e)"
proof -
  have u: "user_code_ok sample_caller"
    by (auto simp: user_code_ok_def rsvc_def get_service_group_def sample_caller_def new_ffrpc_def new_service_def split: if_splits)
  have "fr_broker_service sample_caller = None" by (simp add: sample_caller_def new_ffrpc_def)
  then show ?thesis
    unfolding rpc_handle_msg_failures [OF u] by (simp add: decode_rpc_body)
qed

subsection \<open>The directory after \<open>open\<close>\<close>






end
