(* ===== verification/Task.thy ===== *)
theory Task
  imports FF_Prelude
begin

section \<open>Tasks as values\<close>

text \<open>
  \<^verbatim>\<open>base/task_queue_i.h\<close>: \<open>task_t\<close> owns a heap object that knows which call to make, and is copied by
  forking that object, so that tasks can be kept by value in a \<open>std::list\<close>. The heap is explicit: a
  task is the address of its object, an operation on an address without an object is undefined
  behaviour (\<open>Dangling\<close>). Functions, objects and arguments are values of a type \<open>'v\<close>; running a task
  yields the call it makes.
\<close>

text \<open>
  The implementations of \<open>task_impl_i\<close>: \<open>task_impl_t\<close> with a C function and its \<open>void*\<close>, and the local
  classes \<open>lambda_t\<close> of the binders, with the copies of the arguments (and the object) they keep.
\<close>

datatype 'v task_impl =
    Task_impl 'v 'v
  | Lambda 'v "'v list"
  | Lambda_member 'v 'v "'v list"

datatype 'v call =
    Nothing
  | Call_c 'v 'v
  | Call 'v "'v list"
  | Call_member 'v 'v "'v list"

fun impl_run :: "'v task_impl \<Rightarrow> 'v call" where
  "impl_run (Task_impl f a) = Call_c f a"
| "impl_run (Lambda f args) = Call f args"
| "impl_run (Lambda_member f obj args) = Call_member f obj args"

fun impl_fork :: "'v task_impl \<Rightarrow> 'v task_impl" where
  "impl_fork (Task_impl f a) = Task_impl f a"
| "impl_fork (Lambda f args) = Lambda f args"
| "impl_fork (Lambda_member f obj args) = Lambda_member f obj args"

record 'v task_heap =
  impls :: "nat \<Rightarrow> 'v task_impl option"
  fresh :: nat

definition empty_heap :: "'v task_heap" where
  "empty_heap = \<lparr>impls = Map.empty, fresh = 0\<rparr>"

type_synonym task = nat

definition new_impl :: "'v task_impl \<Rightarrow> 'v task_heap \<Rightarrow> task \<times> 'v task_heap" where
  "new_impl t h = (fresh h, h\<lparr>impls := (impls h)(fresh h \<mapsto> t), fresh := fresh h + 1\<rparr>)"

definition delete_impl :: "nat \<Rightarrow> 'v task_heap \<Rightarrow> 'v task_heap exc" where
  "delete_impl p h = (case impls h p of None \<Rightarrow> Inl Dangling | Some _ \<Rightarrow> Inr (h\<lparr>impls := (impls h)(p := None)\<rparr>))"

subsection \<open>\<open>task_t\<close>\<close>

definition task_of_func :: "'v \<Rightarrow> 'v \<Rightarrow> 'v task_heap \<Rightarrow> task \<times> 'v task_heap" where
  "task_of_func f d h = new_impl (Task_impl f d) h"

definition task_of_impl :: "nat \<Rightarrow> task" where
  "task_of_impl p = p"

definition task_copy :: "task \<Rightarrow> 'v task_heap \<Rightarrow> (task \<times> 'v task_heap) exc" where
  "task_copy src h = (case impls h src of None \<Rightarrow> Inl Dangling | Some t \<Rightarrow> Inr (new_impl (impl_fork t) h))"

definition task_default :: "'v \<Rightarrow> 'v \<Rightarrow> 'v task_heap \<Rightarrow> task \<times> 'v task_heap" where
  "task_default dumy null h = new_impl (Task_impl dumy null) h"

definition task_destroy :: "task \<Rightarrow> 'v task_heap \<Rightarrow> 'v task_heap exc" where
  "task_destroy t h = delete_impl t h"

text \<open>\<open>operator=\<close>: deletes its own object first, then forks the source's.\<close>

definition task_assign :: "task \<Rightarrow> task \<Rightarrow> 'v task_heap \<Rightarrow> (task \<times> 'v task_heap) exc" where
  "task_assign dest src h = (case delete_impl dest h of Inl e \<Rightarrow> Inl e | Inr h1 \<Rightarrow> task_copy src h1)"

definition task_run :: "task \<Rightarrow> 'v task_heap \<Rightarrow> 'v call exc" where
  "task_run t h = (case impls h t of None \<Rightarrow> Inl Dangling | Some i \<Rightarrow> Inr (impl_run i))"

subsection \<open>The binders\<close>

text \<open>\<open>task_binder_t::gen\<close>, one definition per overload: the call with its arguments bound.\<close>

definition gen :: "'v \<Rightarrow> 'v \<Rightarrow> 'v task_heap \<Rightarrow> task \<times> 'v task_heap" where
  "gen func p h = task_of_func func p h"

text \<open>The overload for a function without arguments passes the function itself through the \<open>void*\<close>.\<close>

definition gen_void :: "'v \<Rightarrow> 'v \<Rightarrow> 'v task_heap \<Rightarrow> task \<times> 'v task_heap" where
  "gen_void trampoline func h = task_of_func trampoline func h"

definition gen1 :: "'v \<Rightarrow> 'v \<Rightarrow> 'v task_heap \<Rightarrow> task \<times> 'v task_heap" where
  "gen1 func arg1 h = new_impl (Lambda func [arg1]) h"

definition gen2 :: "'v \<Rightarrow> 'v \<Rightarrow> 'v \<Rightarrow> 'v task_heap \<Rightarrow> task \<times> 'v task_heap" where
  "gen2 func arg1 arg2 h = new_impl (Lambda func [arg1, arg2]) h"

definition gen3 :: "'v \<Rightarrow> 'v \<Rightarrow> 'v \<Rightarrow> 'v \<Rightarrow> 'v task_heap \<Rightarrow> task \<times> 'v task_heap" where
  "gen3 func arg1 arg2 arg3 h = new_impl (Lambda func [arg1, arg2, arg3]) h"

definition gen4 :: "'v \<Rightarrow> 'v \<Rightarrow> 'v \<Rightarrow> 'v \<Rightarrow> 'v \<Rightarrow> 'v task_heap \<Rightarrow> task \<times> 'v task_heap" where
  "gen4 func arg1 arg2 arg3 arg4 h = new_impl (Lambda func [arg1, arg2, arg3, arg4]) h"

definition gen5 :: "'v \<Rightarrow> 'v \<Rightarrow> 'v \<Rightarrow> 'v \<Rightarrow> 'v \<Rightarrow> 'v \<Rightarrow> 'v task_heap \<Rightarrow> task \<times> 'v task_heap" where
  "gen5 func arg1 arg2 arg3 arg4 arg5 h = new_impl (Lambda func [arg1, arg2, arg3, arg4, arg5]) h"

definition gen6 :: "'v \<Rightarrow> 'v \<Rightarrow> 'v \<Rightarrow> 'v \<Rightarrow> 'v \<Rightarrow> 'v \<Rightarrow> 'v \<Rightarrow> 'v task_heap \<Rightarrow> task \<times> 'v task_heap" where
  "gen6 func arg1 arg2 arg3 arg4 arg5 arg6 h = new_impl (Lambda func [arg1, arg2, arg3, arg4, arg5, arg6]) h"

definition gen7 :: "'v \<Rightarrow> 'v \<Rightarrow> 'v \<Rightarrow> 'v \<Rightarrow> 'v \<Rightarrow> 'v \<Rightarrow> 'v \<Rightarrow> 'v \<Rightarrow> 'v task_heap \<Rightarrow> task \<times> 'v task_heap" where
  "gen7 func arg1 arg2 arg3 arg4 arg5 arg6 arg7 h = new_impl (Lambda func [arg1, arg2, arg3, arg4, arg5, arg6, arg7]) h"

definition gen8 :: "'v \<Rightarrow> 'v \<Rightarrow> 'v \<Rightarrow> 'v \<Rightarrow> 'v \<Rightarrow> 'v \<Rightarrow> 'v \<Rightarrow> 'v \<Rightarrow> 'v \<Rightarrow> 'v task_heap \<Rightarrow> task \<times> 'v task_heap" where
  "gen8 func arg1 arg2 arg3 arg4 arg5 arg6 arg7 arg8 h = new_impl (Lambda func [arg1, arg2, arg3, arg4, arg5, arg6, arg7, arg8]) h"

definition gen9 :: "'v \<Rightarrow> 'v \<Rightarrow> 'v \<Rightarrow> 'v \<Rightarrow> 'v \<Rightarrow> 'v \<Rightarrow> 'v \<Rightarrow> 'v \<Rightarrow> 'v \<Rightarrow> 'v \<Rightarrow> 'v task_heap \<Rightarrow> task \<times> 'v task_heap" where
  "gen9 func arg1 arg2 arg3 arg4 arg5 arg6 arg7 arg8 arg9 h = new_impl (Lambda func [arg1, arg2, arg3, arg4, arg5, arg6, arg7, arg8, arg9]) h"

text \<open>The overloads for member functions.\<close>

definition gen_member0 :: "'v \<Rightarrow> 'v \<Rightarrow> 'v task_heap \<Rightarrow> task \<times> 'v task_heap" where
  "gen_member0 func obj h = new_impl (Lambda_member func obj []) h"

definition gen_member1 :: "'v \<Rightarrow> 'v \<Rightarrow> 'v \<Rightarrow> 'v task_heap \<Rightarrow> task \<times> 'v task_heap" where
  "gen_member1 func obj arg1 h = new_impl (Lambda_member func obj [arg1]) h"

definition gen_member2 :: "'v \<Rightarrow> 'v \<Rightarrow> 'v \<Rightarrow> 'v \<Rightarrow> 'v task_heap \<Rightarrow> task \<times> 'v task_heap" where
  "gen_member2 func obj arg1 arg2 h = new_impl (Lambda_member func obj [arg1, arg2]) h"

definition gen_member3 :: "'v \<Rightarrow> 'v \<Rightarrow> 'v \<Rightarrow> 'v \<Rightarrow> 'v \<Rightarrow> 'v task_heap \<Rightarrow> task \<times> 'v task_heap" where
  "gen_member3 func obj arg1 arg2 arg3 h = new_impl (Lambda_member func obj [arg1, arg2, arg3]) h"

definition gen_member4 :: "'v \<Rightarrow> 'v \<Rightarrow> 'v \<Rightarrow> 'v \<Rightarrow> 'v \<Rightarrow> 'v \<Rightarrow> 'v task_heap \<Rightarrow> task \<times> 'v task_heap" where
  "gen_member4 func obj arg1 arg2 arg3 arg4 h = new_impl (Lambda_member func obj [arg1, arg2, arg3, arg4]) h"

definition gen_member5 :: "'v \<Rightarrow> 'v \<Rightarrow> 'v \<Rightarrow> 'v \<Rightarrow> 'v \<Rightarrow> 'v \<Rightarrow> 'v \<Rightarrow> 'v task_heap \<Rightarrow> task \<times> 'v task_heap" where
  "gen_member5 func obj arg1 arg2 arg3 arg4 arg5 h = new_impl (Lambda_member func obj [arg1, arg2, arg3, arg4, arg5]) h"

definition gen_member6 :: "'v \<Rightarrow> 'v \<Rightarrow> 'v \<Rightarrow> 'v \<Rightarrow> 'v \<Rightarrow> 'v \<Rightarrow> 'v \<Rightarrow> 'v \<Rightarrow> 'v task_heap \<Rightarrow> task \<times> 'v task_heap" where
  "gen_member6 func obj arg1 arg2 arg3 arg4 arg5 arg6 h = new_impl (Lambda_member func obj [arg1, arg2, arg3, arg4, arg5, arg6]) h"

definition gen_member7 :: "'v \<Rightarrow> 'v \<Rightarrow> 'v \<Rightarrow> 'v \<Rightarrow> 'v \<Rightarrow> 'v \<Rightarrow> 'v \<Rightarrow> 'v \<Rightarrow> 'v \<Rightarrow> 'v task_heap \<Rightarrow> task \<times> 'v task_heap" where
  "gen_member7 func obj arg1 arg2 arg3 arg4 arg5 arg6 arg7 h = new_impl (Lambda_member func obj [arg1, arg2, arg3, arg4, arg5, arg6, arg7]) h"

definition gen_member8 :: "'v \<Rightarrow> 'v \<Rightarrow> 'v \<Rightarrow> 'v \<Rightarrow> 'v \<Rightarrow> 'v \<Rightarrow> 'v \<Rightarrow> 'v \<Rightarrow> 'v \<Rightarrow> 'v \<Rightarrow> 'v task_heap \<Rightarrow> task \<times> 'v task_heap" where
  "gen_member8 func obj arg1 arg2 arg3 arg4 arg5 arg6 arg7 arg8 h = new_impl (Lambda_member func obj [arg1, arg2, arg3, arg4, arg5, arg6, arg7, arg8]) h"

definition gen_member9 :: "'v \<Rightarrow> 'v \<Rightarrow> 'v \<Rightarrow> 'v \<Rightarrow> 'v \<Rightarrow> 'v \<Rightarrow> 'v \<Rightarrow> 'v \<Rightarrow> 'v \<Rightarrow> 'v \<Rightarrow> 'v \<Rightarrow> 'v task_heap \<Rightarrow> task \<times> 'v task_heap" where
  "gen_member9 func obj arg1 arg2 arg3 arg4 arg5 arg6 arg7 arg8 arg9 h = new_impl (Lambda_member func obj [arg1, arg2, arg3, arg4, arg5, arg6, arg7, arg8, arg9]) h"

subsection \<open>A list of tasks\<close>

text \<open>
  \<open>list<task_t>\<close> as \<open>task_queue_t\<close> uses it: \<open>push_back\<close> copies the task into a node; \<open>consume\<close> assigns the
  front to the caller's task and \<open>pop_front\<close> destroys the node's.
\<close>

definition list_push_back :: "task \<Rightarrow> task list \<Rightarrow> 'v task_heap \<Rightarrow> (task list \<times> 'v task_heap) exc" where
  "list_push_back t q h = (case task_copy t h of Inl e \<Rightarrow> Inl e | Inr (t', h') \<Rightarrow> Inr (q @ [t'], h'))"

definition list_take_front :: "task \<Rightarrow> task list \<Rightarrow> 'v task_heap \<Rightarrow> (task \<times> task list \<times> 'v task_heap) exc" where
  "list_take_front t q h = (case q of [] \<Rightarrow> Inl Out_of_range
     | x # xs \<Rightarrow> (case task_assign t x h of Inl e \<Rightarrow> Inl e
         | Inr (t', h1) \<Rightarrow> (case task_destroy x h1 of Inl e \<Rightarrow> Inl e | Inr h2 \<Rightarrow> Inr (t', xs, h2))))"

subsection \<open>Ownership\<close>

text \<open>The tasks \<open>ts\<close> own the objects of the heap: each its own, and there are no others.\<close>

definition owns :: "task list \<Rightarrow> 'v task_heap \<Rightarrow> bool" where
  "owns ts h \<longleftrightarrow> distinct ts \<and> set ts = dom (impls h) \<and> (\<forall>p \<in> dom (impls h). p < fresh h)"

text \<open>What the tasks of a list will do.\<close>

definition calls :: "task list \<Rightarrow> 'v task_heap \<Rightarrow> 'v call list" where
  "calls ts h = map (\<lambda>t. impl_run (the (impls h t))) ts"

lemma impl_fork_run [simp]: "impl_run (impl_fork t) = impl_run t"
  by (cases t) simp_all

lemma owns_fresh: "owns ts h \<Longrightarrow> impls h (fresh h) = None \<and> fresh h \<notin> set ts"
  by (auto simp: owns_def)

lemma live_impl: "owns ts h \<Longrightarrow> t \<in> set ts \<Longrightarrow> \<exists>i. impls h t = Some i"
  by (auto simp: owns_def)

lemma owns_new:
  assumes "owns (ts @ us) h"
  shows "owns (ts @ [fst (new_impl t h)] @ us) (snd (new_impl t h))"
proof -
  have "fresh h \<notin> set (ts @ us)" using owns_fresh [OF assms] by simp
  with assms show ?thesis by (auto simp: owns_def new_impl_def less_Suc_eq)
qed

lemma calls_upd: "x \<notin> set ts \<Longrightarrow> calls ts (h\<lparr>impls := (impls h)(x := v)\<rparr>) = calls ts h"
  by (auto simp: calls_def)

lemma calls_new: "fresh h \<notin> set ts \<Longrightarrow> calls ts (snd (new_impl t h)) = calls ts h"
  by (auto simp: calls_def new_impl_def)

lemma owns_delete:
  assumes "owns (ts @ x # us) h"
  shows "\<exists>h'. delete_impl x h = Inr h' \<and> owns (ts @ us) h' \<and> calls (ts @ us) h' = calls (ts @ us) h \<and>
    h' = h\<lparr>impls := (impls h)(x := None)\<rparr>"
proof -
  have "x \<in> dom (impls h)" "x \<notin> set (ts @ us)" using assms by (auto simp: owns_def)
  with assms show ?thesis by (auto simp: delete_impl_def owns_def calls_def)
qed

text \<open>
  Passing a task through a queue: \<open>push_back\<close> of any live task and \<open>consume\<close> into any other task
  neither leak nor use freed memory (every task owns its object and there are no others, before and
  after), the queued tasks keep what they will do, and the consumer's task makes exactly the call,
  with the arguments, that was bound when the front task was made.
\<close>

theorem task_through_list:
  assumes "owns (d # q @ ts) h"
  shows "(t \<in> set (d # q @ ts) \<longrightarrow>
      (\<exists>q' h'. list_push_back t q h = Inr (q', h') \<and> owns (d # q' @ ts) h' \<and>
        calls (d # q' @ ts) h' = calls (d # q) h @ calls [t] h @ calls ts h)) \<and>
    (\<forall>x xs. q = x # xs \<longrightarrow> (\<exists>d' h'. list_take_front d q h = Inr (d', xs, h') \<and> owns (d' # xs @ ts) h' \<and>
        task_run d' h' = task_run x h \<and> calls (xs @ ts) h' = calls (xs @ ts) h))"
proof (intro conjI impI allI)
  assume t: "t \<in> set (d # q @ ts)"
  then obtain i where i: "impls h t = Some i" using live_impl [OF assms t] by blast
  have f: "fresh h \<notin> set (d # q @ ts)" using owns_fresh [OF assms] by simp
  have "owns ((d # q) @ [fst (new_impl (impl_fork i) h)] @ ts) (snd (new_impl (impl_fork i) h))"
    by (rule owns_new) (use assms in simp)
  moreover have "calls [fst (new_impl (impl_fork i) h)] (snd (new_impl (impl_fork i) h)) = calls [t] h"
    using i by (simp add: calls_def new_impl_def)
  moreover have "calls (d # q) (snd (new_impl (impl_fork i) h)) = calls (d # q) h"
    "calls ts (snd (new_impl (impl_fork i) h)) = calls ts h" using f by (simp_all add: calls_new)
  ultimately show "\<exists>q' h'. list_push_back t q h = Inr (q', h') \<and> owns (d # q' @ ts) h' \<and>
      calls (d # q' @ ts) h' = calls (d # q) h @ calls [t] h @ calls ts h"
    using i by (simp add: list_push_back_def task_copy_def split_beta calls_def)
next
  fix x xs
  assume q: "q = x # xs"
  obtain h1 where h1: "delete_impl d h = Inr h1" "owns (x # xs @ ts) h1" "h1 = h\<lparr>impls := (impls h)(d := None)\<rparr>"
    using owns_delete [of "[]" d "q @ ts" h] assms q by auto
  obtain i where i: "impls h1 x = Some i" using live_impl [OF h1(2)] by auto
  let ?d = "fst (new_impl (impl_fork i) h1)" and ?h2 = "snd (new_impl (impl_fork i) h1)"
  have f: "fresh h1 \<notin> set (x # xs @ ts)" using owns_fresh [OF h1(2)] by simp
  have "owns ([?d] @ x # xs @ ts) ?h2" using owns_new [of "[]" "x # xs @ ts" h1 "impl_fork i"] h1(2) by simp
  from owns_delete [OF this] obtain h3 where h3: "delete_impl x ?h2 = Inr h3" "owns (?d # xs @ ts) h3"
    "h3 = ?h2\<lparr>impls := (impls ?h2)(x := None)\<rparr>" by auto
  have "task_run ?d h3 = Inr (impl_run i)" "calls (xs @ ts) h3 = calls (xs @ ts) h1"
    using f h1(2) by (auto simp: h3(3) new_impl_def task_run_def calls_def owns_def)
  moreover have "task_run x h = Inr (impl_run i)" "calls (xs @ ts) h1 = calls (xs @ ts) h"
    using i assms q by (auto simp: h1(3) task_run_def calls_def owns_def split: if_splits)
  ultimately show "\<exists>d' h'. list_take_front d q h = Inr (d', xs, h') \<and> owns (d' # xs @ ts) h' \<and>
      task_run d' h' = task_run x h \<and> calls (xs @ ts) h' = calls (xs @ ts) h"
    using h1(1) h3(1,2) i q
    by (simp add: list_take_front_def task_assign_def task_copy_def task_destroy_def split_beta)
qed

definition sample_heap :: "nat task_heap" where
  "sample_heap = snd (gen2 7 1 2 (snd (task_default 0 0 empty_heap)))"

theorem task_through_list_witness:
  "\<exists>q' h'. list_push_back 1 [] sample_heap = Inr (q', h') \<and> owns (0 # q' @ [1]) h' \<and>
     calls (0 # q' @ [1]) h' = [Call_c 0 0, Call 7 [1, 2], Call 7 [1, 2]]"
proof -
  have "owns (0 # [] @ [1]) sample_heap"
    by (auto simp: sample_heap_def owns_def gen2_def task_default_def new_impl_def empty_heap_def)
  from task_through_list [OF this, of 1] show ?thesis
    by (simp add: calls_def sample_heap_def gen2_def task_default_def new_impl_def empty_heap_def)
qed

text \<open>
  Assigning a task to itself is undefined behaviour: \<open>operator=\<close> deletes the object before it
  forks it.
\<close>

theorem self_assign_dangles: "task_assign t t h = Inl Dangling"
  by (auto simp: task_assign_def delete_impl_def task_copy_def split: option.splits)

end
