(* ===== verification/Task_Queue.thy ===== *)
theory Task_Queue
  imports FF_Prelude "HOL-Library.Multiset"
begin

section \<open>The task queue and its consumers\<close>

text \<open>
  \<^verbatim>\<open>base/task_queue_impl.h\<close>: \<open>task_queue_t\<close>, a list of tasks under a mutex and a condition variable, and
  \<open>task_queue_pool_t\<close>. Every method holds \<open>m_mutex\<close> from its first to its last statement except while
  it waits, so a method, and each stretch of \<open>consume\<close> between two waits, is one step; what the method
  does to the condition variable is part of its result. The threads that run \<open>run\<close> or
  \<open>batch_run\<close> on the queue are modelled one by one, with any interleaving of their steps.
\<close>

subsection \<open>The methods\<close>

record 't task_queue_t =
  m_flag :: bool
  m_tasklist :: "'t list"

datatype cond_op = No_signal | Signal | Broadcast

definition new_queue :: "'t task_queue_t" where
  "new_queue = \<lparr>m_flag = True, m_tasklist = []\<rparr>"

definition close :: "'t task_queue_t \<Rightarrow> 't task_queue_t \<times> cond_op" where
  "close q = (q\<lparr>m_flag := False\<rparr>, Broadcast)"

definition multi_produce :: "'t list \<Rightarrow> 't task_queue_t \<Rightarrow> 't task_queue_t \<times> cond_op" where
  "multi_produce ts q =
     (let need_sig = (m_tasklist q = [])
      in (q\<lparr>m_tasklist := m_tasklist q @ ts\<rparr>, if need_sig then Signal else No_signal))"

definition produce :: "'t \<Rightarrow> 't task_queue_t \<Rightarrow> 't task_queue_t \<times> cond_op" where
  "produce t q =
     (let need_sig = (m_tasklist q = [])
      in (q\<lparr>m_tasklist := m_tasklist q @ [t]\<rparr>, if need_sig then Signal else No_signal))"

text \<open>
  One evaluation of the loop head of \<open>consume\<close> and \<open>consume_all\<close> with the mutex held: it returns \<open>-1\<close>,
  it waits, or it takes a task (all tasks) and returns 0.
\<close>

datatype 't taken = Closed | Must_wait | Got 't

definition consume :: "'t task_queue_t \<Rightarrow> 't task_queue_t \<times> 't taken" where
  "consume q = (case m_tasklist q of
     [] \<Rightarrow> (if \<not> m_flag q then (q, Closed) else (q, Must_wait))
   | t # ts \<Rightarrow> (q\<lparr>m_tasklist := ts\<rparr>, Got t))"

definition consume_all :: "'t task_queue_t \<Rightarrow> 't task_queue_t \<times> 't list taken" where
  "consume_all q = (case m_tasklist q of
     [] \<Rightarrow> (if \<not> m_flag q then (q, Closed) else (q, Must_wait))
   | ts \<Rightarrow> (q\<lparr>m_tasklist := []\<rparr>, Got ts))"

subsection \<open>The threads\<close>

text \<open>
  A consumer thread is about to evaluate the loop head (\<open>Entering\<close>: at first, after a wake-up, after
  its tasks), blocked in \<open>wait\<close> (\<open>Waiting\<close>), running the tasks it took (\<open>Running\<close>), or has returned.
\<close>

datatype 't thread = Entering | Waiting | Running "'t list" | Done

record 't system =
  queue :: "'t task_queue_t"
  threads :: "'t thread list"
  produced :: "'t list"
  fetched :: "'t list"
  executed :: "'t list"

definition start_system :: "nat \<Rightarrow> 't system" where
  "start_system n = \<lparr>queue = new_queue, threads = replicate n Entering, produced = [], fetched = [], executed = []\<rparr>"

text \<open>The turn of thread \<open>i\<close> at the loop head of \<open>consume\<close> (\<open>run\<close>) or \<open>consume_all\<close> (\<open>batch_run\<close>).\<close>

definition take_turn :: "bool \<Rightarrow> 't task_queue_t \<Rightarrow> 't task_queue_t \<times> 't thread" where
  "take_turn batch q =
     (if batch
      then (case consume_all q of (q', Closed) \<Rightarrow> (q', Done) | (q', Must_wait) \<Rightarrow> (q', Waiting)
              | (q', Got ts) \<Rightarrow> (q', Running ts))
      else (case consume q of (q', Closed) \<Rightarrow> (q', Done) | (q', Must_wait) \<Rightarrow> (q', Waiting)
              | (q', Got t) \<Rightarrow> (q', Running [t])))"

text \<open>The tasks a thread has taken and not yet run.\<close>

fun held :: "'t thread \<Rightarrow> 't list" where
  "held (Running ts) = ts"
| "held th = []"

text \<open>
  What a signal does to the blocked threads: \<open>pthread_cond_signal\<close> wakes one of them if there is one,
  \<open>pthread_cond_broadcast\<close> all.
\<close>

inductive wakes :: "cond_op \<Rightarrow> 't thread list \<Rightarrow> 't thread list \<Rightarrow> bool" where
  nobody: "wakes No_signal ths ths"
| lost: "Waiting \<notin> set ths \<Longrightarrow> wakes Signal ths ths"
| one: "i < length ths \<Longrightarrow> ths ! i = Waiting \<Longrightarrow> wakes Signal ths (ths[i := Entering])"
| all: "wakes Broadcast ths (map (\<lambda>th. if th = Waiting then Entering else th) ths)"

inductive tq_step :: "'t system \<Rightarrow> 't system \<Rightarrow> bool" where
  s_produce: "multi_produce ts (queue s) = (q, c) \<Longrightarrow> wakes c (threads s) ths \<Longrightarrow>
    tq_step s (s\<lparr>queue := q, threads := ths, produced := produced s @ ts\<rparr>)"
| s_produce1: "produce t (queue s) = (q, c) \<Longrightarrow> wakes c (threads s) ths \<Longrightarrow>
    tq_step s (s\<lparr>queue := q, threads := ths, produced := produced s @ [t]\<rparr>)"
| s_close: "close (queue s) = (q, c) \<Longrightarrow> wakes c (threads s) ths \<Longrightarrow>
    tq_step s (s\<lparr>queue := q, threads := ths\<rparr>)"
| s_enter: "i < length (threads s) \<Longrightarrow> threads s ! i = Entering \<Longrightarrow> take_turn batch (queue s) = (q, th) \<Longrightarrow>
    tq_step s (s\<lparr>queue := q, threads := (threads s)[i := th], fetched := fetched s @ held th\<rparr>)"
| s_spurious: "i < length (threads s) \<Longrightarrow> threads s ! i = Waiting \<Longrightarrow>
    tq_step s (s\<lparr>threads := (threads s)[i := Entering]\<rparr>)"
| s_run: "i < length (threads s) \<Longrightarrow> threads s ! i = Running (t # ts) \<Longrightarrow>
    tq_step s (s\<lparr>threads := (threads s)[i := Running ts], executed := executed s @ [t]\<rparr>)"
| s_back: "i < length (threads s) \<Longrightarrow> threads s ! i = Running [] \<Longrightarrow>
    tq_step s (s\<lparr>threads := (threads s)[i := Entering]\<rparr>)"

inductive tq_reach :: "nat \<Rightarrow> 't system \<Rightarrow> bool" for n where
  tq_start: "tq_reach n (start_system n)"
| tq_next: "tq_reach n s \<Longrightarrow> tq_step s s' \<Longrightarrow> tq_reach n s'"

subsection \<open>The invariant\<close>

definition all_held :: "'t system \<Rightarrow> 't multiset" where
  "all_held s = (\<Sum>th \<leftarrow> threads s. mset (held th))"

definition awake :: "'t thread \<Rightarrow> bool" where
  "awake th \<longleftrightarrow> th \<noteq> Waiting \<and> th \<noteq> Done"

definition tq_inv :: "nat \<Rightarrow> 't system \<Rightarrow> bool" where
  "tq_inv n s \<longleftrightarrow> length (threads s) = n \<and>
     produced s = fetched s @ m_tasklist (queue s) \<and>
     mset (executed s) + all_held s = mset (fetched s) \<and>
     (Done \<in> set (threads s) \<longrightarrow> \<not> m_flag (queue s)) \<and>
     (m_tasklist (queue s) \<noteq> [] \<longrightarrow> (\<exists>th \<in> set (threads s). awake th) \<or> set (threads s) \<subseteq> {Done}) \<and>
     (\<not> m_flag (queue s) \<longrightarrow> Waiting \<notin> set (threads s))"

lemma sum_list_update_thread:
  "i < length ths \<Longrightarrow>
    (\<Sum>th \<leftarrow> ths[i := x]. mset (held th)) + mset (held (ths ! i)) = (\<Sum>th \<leftarrow> ths. mset (held th)) + mset (held x)"
proof (induction ths arbitrary: i)
  case (Cons th ths)
  show ?case
  proof (cases i)
    case 0
    then show ?thesis by (simp add: ac_simps)
  next
    case (Suc k)
    then show ?thesis using Cons.IH [of k] Cons.prems by (simp add: add.assoc)
  qed
qed simp

lemma take_turn_spec:
  assumes "take_turn batch q = (q', th)"
  shows "m_flag q' = m_flag q \<and> m_tasklist q = held th @ m_tasklist q' \<and>
    (th = Done \<longleftrightarrow> m_tasklist q = [] \<and> \<not> m_flag q) \<and> (th = Waiting \<longleftrightarrow> m_tasklist q = [] \<and> m_flag q)"
  using assms
  by (auto simp: take_turn_def consume_def consume_all_def split: if_splits list.splits)

lemma wakes_held: "wakes c ths ths' \<Longrightarrow> (\<Sum>th \<leftarrow> ths'. mset (held th)) = (\<Sum>th \<leftarrow> ths. mset (held th))"
proof (induction rule: wakes.induct)
  case (one i ths)
  then show ?case using sum_list_update_thread [of i ths Entering] by simp
next
  case (all ths)
  show ?case by (induction ths) auto
qed simp_all

lemma wakes_set:
  assumes "wakes c ths ths'"
  shows "length ths' = length ths \<and> (Done \<in> set ths' \<longleftrightarrow> Done \<in> set ths) \<and>
    ((\<exists>th \<in> set ths. awake th) \<longrightarrow> (\<exists>th \<in> set ths'. awake th)) \<and>
    (c = Signal \<longrightarrow> (\<exists>th \<in> set ths'. awake th) \<or> set ths' \<subseteq> {Done}) \<and>
    (set ths \<subseteq> {Done} \<longrightarrow> set ths' \<subseteq> {Done}) \<and>
    (c = Broadcast \<longrightarrow> Waiting \<notin> set ths') \<and> (Waiting \<notin> set ths \<longrightarrow> Waiting \<notin> set ths')"
  using assms
proof cases
  case lost
  then show ?thesis by (auto simp: awake_def)
next
  case (one i)
  have "Entering \<in> set ths'" "awake Entering" using one by (auto simp: awake_def set_update_memI)
  moreover have "Done \<in> set ths' \<longleftrightarrow> Done \<in> set ths"
    using one by (metis in_set_conv_nth length_list_update nth_list_update_eq nth_list_update_neq thread.distinct(5) thread.distinct(9))
  moreover have "Waiting \<in> set ths" using one by (metis nth_mem)
  ultimately show ?thesis using one by auto
next
  case all
  have "awake th \<Longrightarrow> (if th = Waiting then Entering else th) = th" for th by (simp add: awake_def)
  with all show ?thesis by (force split: if_splits)
qed auto

text \<open>A thread that was entering and now is \<open>th\<close>.\<close>

lemma replaced_set:
  assumes "i < length ths" "ths ! i = old" "old \<noteq> Done"
  shows "set (ths[i := th]) \<subseteq> insert th (set ths)" "th \<in> set (ths[i := th])"
    "Done \<in> set (ths[i := th]) \<longleftrightarrow> Done \<in> set ths \<or> th = Done"
proof -
  show "set (ths[i := th]) \<subseteq> insert th (set ths)" by (rule set_update_subset_insert)
  show "th \<in> set (ths[i := th])" using assms(1) by (rule set_update_memI)
  show "Done \<in> set (ths[i := th]) \<longleftrightarrow> Done \<in> set ths \<or> th = Done"
    using assms by (metis in_set_conv_nth length_list_update nth_list_update_eq nth_list_update_neq)
qed

lemma tq_inv_start: "tq_inv n (start_system n)"
proof -
  have "sum_list (replicate n ({#} :: 'a multiset)) = {#}" by (induction n) simp_all
  then show ?thesis by (auto simp: tq_inv_def start_system_def new_queue_def all_held_def)
qed

lemma tq_inv_produce:
  assumes "tq_inv n s" "wakes (if m_tasklist (queue s) = [] then Signal else No_signal) (threads s) ths"
  shows "tq_inv n (s\<lparr>queue := (queue s)\<lparr>m_tasklist := m_tasklist (queue s) @ ts\<rparr>, threads := ths, produced := produced s @ ts\<rparr>)"
  using assms(1) wakes_held [OF assms(2)] wakes_set [OF assms(2)]
  by (auto simp: tq_inv_def all_held_def split: if_splits)

lemma tq_inv_enter:
  assumes "tq_inv n s" "i < length (threads s)" "threads s ! i = Entering" "take_turn batch (queue s) = (q, th)"
  shows "tq_inv n (s\<lparr>queue := q, threads := (threads s)[i := th], fetched := fetched s @ held th\<rparr>)"
proof -
  note r = replaced_set [OF assms(2,3), of th]
  have "all_held (s\<lparr>queue := q, threads := (threads s)[i := th], fetched := fetched s @ held th\<rparr>)
      = all_held s + mset (held th)"
    using sum_list_update_thread [OF assms(2), of th] assms(3) by (simp add: all_held_def)
  moreover have "m_tasklist q \<noteq> [] \<longrightarrow> awake th"
    using take_turn_spec [OF assms(4)] by (auto simp: awake_def)
  ultimately show ?thesis
    using assms(1) take_turn_spec [OF assms(4)] r
    by (auto simp: tq_inv_def ac_simps dest: subsetD)
qed

lemma tq_inv_thread:
  assumes "tq_inv n s" "i < length (threads s)" "threads s ! i \<noteq> Done" "awake th"
    and "mset ex + mset (held th) = mset (held (threads s ! i))"
  shows "tq_inv n (s\<lparr>threads := (threads s)[i := th], executed := executed s @ ex\<rparr>)"
proof -
  note r = replaced_set [OF assms(2) refl assms(3), of th]
  have "mset ex + all_held (s\<lparr>threads := (threads s)[i := th], executed := executed s @ ex\<rparr>) = all_held s"
    using sum_list_update_thread [OF assms(2), of th] unfolding assms(5) [symmetric]
    by (simp add: all_held_def ac_simps)
  then have "mset (executed s @ ex) + all_held (s\<lparr>threads := (threads s)[i := th], executed := executed s @ ex\<rparr>) =
      mset (executed s) + all_held s" by (simp add: ac_simps)
  with assms(1,4) r show ?thesis by (auto simp: tq_inv_def awake_def dest: subsetD)
qed

lemma tq_inv_step: "tq_step s s' \<Longrightarrow> tq_inv n s \<Longrightarrow> tq_inv n s'"
proof (induction rule: tq_step.induct)
  case (s_close s q c ths)
  then have "wakes Broadcast (threads s) ths" "q = (queue s)\<lparr>m_flag := False\<rparr>" by (auto simp: close_def)
  then show ?case
    using s_close.prems wakes_held [of Broadcast "threads s" ths] wakes_set [of Broadcast "threads s" ths]
    by (auto simp: tq_inv_def all_held_def)
next
  case (s_spurious i s)
  with tq_inv_thread [of n s i Entering "[]"] show ?case by (simp add: awake_def)
next
  case (s_run i s t ts)
  with tq_inv_thread [of n s i "Running ts" "[t]"] show ?case by (simp add: awake_def)
next
  case (s_back i s)
  with tq_inv_thread [of n s i Entering "[]"] show ?case by (simp add: awake_def)
qed (auto simp: multi_produce_def produce_def Let_def intro: tq_inv_produce tq_inv_enter)

lemma tq_inv_reach: "tq_reach n s \<Longrightarrow> tq_inv n s"
  by (induction rule: tq_reach.induct) (auto intro: tq_inv_start tq_inv_step)

lemma tq_order: "tq_reach n s \<Longrightarrow> produced s = fetched s @ m_tasklist (queue s)"
  using tq_inv_reach by (auto simp: tq_inv_def)

subsection \<open>Properties\<close>

text \<open>
  (C17) Nothing is lost and nothing is run twice, however many producers and consumers there are and
  however they interleave: the tasks produced are those fetched so far, in the order they were
  produced, followed by those still queued; and the tasks fetched are those executed and those the
  consumers hold.
\<close>

theorem tasks_exactly_once:
  assumes "tq_reach n s"
  shows "produced s = fetched s @ m_tasklist (queue s) \<and> mset (executed s) + all_held s = mset (fetched s)"
  using tq_inv_reach [OF assms] by (simp add: tq_inv_def)

definition sample_run :: "nat system" where
  "sample_run = \<lparr>queue = \<lparr>m_flag = True, m_tasklist = [7]\<rparr>, threads = [Entering], produced = [7], fetched = [], executed = []\<rparr>"

lemma sample_run_reach: "tq_reach 1 sample_run"
proof -
  have "tq_step (start_system 1) sample_run"
    using s_produce1 [of 7 "start_system 1" "\<lparr>m_flag = True, m_tasklist = [7]\<rparr>" Signal "[Entering]"]
      wakes.lost [of "[Entering :: nat thread]"]
    by (simp add: start_system_def new_queue_def produce_def sample_run_def)
  then show ?thesis by (rule tq_next [OF tq_start])
qed

theorem tasks_exactly_once_witness: "produced sample_run = fetched sample_run @ [7]"
  using tasks_exactly_once [OF sample_run_reach] by (simp add: sample_run_def)

lemma run_out:
  "i < length (threads s) \<Longrightarrow> threads s ! i = Running ts \<Longrightarrow>
    tq_step\<^sup>*\<^sup>* s (s\<lparr>threads := (threads s)[i := Running []], executed := executed s @ ts\<rparr>)"
proof (induction ts arbitrary: s)
  case Nil
  then have "(threads s)[i := Running []] = threads s" by (metis list_update_id)
  then show ?case by simp
next
  case (Cons t ts)
  let ?s = "s\<lparr>threads := (threads s)[i := Running ts], executed := executed s @ [t]\<rparr>"
  have "tq_step s ?s" using Cons.prems by (rule s_run)
  moreover have "tq_step\<^sup>*\<^sup>* ?s (?s\<lparr>threads := (threads ?s)[i := Running []], executed := executed ?s @ ts\<rparr>)"
    using Cons.prems by (intro Cons.IH) simp_all
  ultimately show ?case by (simp add: converse_rtranclp_into_rtranclp)
qed

text \<open>An awake thread can come back to the loop head, having run what it holds.\<close>

lemma can_enter:
  assumes "i < length (threads s)" "awake (threads s ! i)"
  shows "tq_step\<^sup>*\<^sup>* s (s\<lparr>threads := (threads s)[i := Entering], executed := executed s @ held (threads s ! i)\<rparr>)"
proof (cases "threads s ! i")
  case Entering
  then have "(threads s)[i := Entering] = threads s" by (metis list_update_id)
  with Entering show ?thesis by simp
next
  case (Running ts)
  let ?s = "s\<lparr>threads := (threads s)[i := Running []], executed := executed s @ ts\<rparr>"
  have "tq_step\<^sup>*\<^sup>* s ?s" by (rule run_out [OF assms(1) Running])
  moreover have "tq_step ?s (?s\<lparr>threads := (threads ?s)[i := Entering]\<rparr>)"
    by (rule s_back) (use assms(1) in simp_all)
  moreover have "?s\<lparr>threads := (threads ?s)[i := Entering]\<rparr> =
      s\<lparr>threads := (threads s)[i := Entering], executed := executed s @ held (threads s ! i)\<rparr>"
    using Running by simp
  ultimately show ?thesis by (metis rtranclp.rtrancl_into_rtrancl)
qed (use assms(2) in \<open>simp_all add: awake_def\<close>)

text \<open>
  No task is stranded: although a producer signals only when the queue was empty, in every
  reachable state with queued tasks and a consumer that has not returned there is a consumer that is
  not blocked, and the consumers alone can go on to a state where the queue is empty and every task
  that was in it has been executed, in order.
\<close>

theorem queue_drains:
  assumes "tq_reach n s" "\<exists>th \<in> set (threads s). th \<noteq> Done"
  shows "\<exists>s' pre. tq_step\<^sup>*\<^sup>* s s' \<and> produced s' = produced s \<and> m_tasklist (queue s') = [] \<and>
    executed s' = executed s @ pre @ m_tasklist (queue s)"
proof (cases "m_tasklist (queue s) = []")
  case True
  then show ?thesis by (intro exI [of _ s] exI [of _ "[]"]) simp
next
  case False
  with tq_inv_reach [OF assms(1)] assms(2) obtain i where i: "i < length (threads s)" "awake (threads s ! i)"
    by (auto simp: tq_inv_def in_set_conv_nth)
  let ?h = "held (threads s ! i)" and ?ts = "m_tasklist (queue s)"
  let ?s1 = "s\<lparr>threads := (threads s)[i := Entering], executed := executed s @ ?h\<rparr>"
  let ?s2 = "?s1\<lparr>queue := (queue s)\<lparr>m_tasklist := []\<rparr>, threads := (threads ?s1)[i := Running ?ts],
    fetched := fetched ?s1 @ held (Running ?ts)\<rparr>"
  let ?s3 = "?s2\<lparr>threads := (threads ?s2)[i := Running []], executed := executed ?s2 @ ?ts\<rparr>"
  have a: "tq_step\<^sup>*\<^sup>* s ?s1" by (rule can_enter [OF i])
  have b: "tq_step ?s1 ?s2"
    by (rule s_enter [where batch = True])
      (use i(1) False in \<open>simp_all add: take_turn_def consume_all_def split: list.splits\<close>)
  have c: "tq_step\<^sup>*\<^sup>* ?s2 ?s3"
    by (rule run_out) (use i(1) in simp_all)
  have "tq_step\<^sup>*\<^sup>* s ?s3"
    by (rule rtranclp_trans [OF a converse_rtranclp_into_rtranclp [OF b c]])
  then show ?thesis by (intro exI [of _ ?s3] exI [of _ ?h]) simp
qed

theorem queue_drains_witness:
  "\<exists>s' pre. tq_step\<^sup>*\<^sup>* sample_run s' \<and> m_tasklist (queue s') = [] \<and> executed s' = pre @ [7]"
  using queue_drains [OF sample_run_reach] by (auto simp: sample_run_def)

text \<open>With one consumer, which is how \<open>task_queue_pool_t\<close> uses its queues.\<close>

lemma single_step:
  assumes "tq_step s s'" "length (threads s) = 1" "fetched s = executed s @ held (threads s ! 0)"
  shows "length (threads s') = 1 \<and> fetched s' = executed s' @ held (threads s' ! 0)"
proof -
  have w: "length ths' = 1 \<and> held (ths' ! 0) = held (ths ! 0)" if "wakes c ths ths'" "length ths = 1" for c and ths ths' :: "'a thread list"
    using that by cases auto
  from assms(1) show ?thesis
    using assms(2,3) by cases (auto dest: w)
qed

text \<open>
  With a single consumer the tasks are executed in the order they were produced, each once: at
  any time the executed ones are a prefix of the produced ones.
\<close>

theorem single_consumer_order:
  assumes "tq_reach 1 s"
  shows "produced s = executed s @ held (threads s ! 0) @ m_tasklist (queue s)"
proof -
  have "length (threads s) = 1 \<and> fetched s = executed s @ held (threads s ! 0)"
    using assms by (induction rule: tq_reach.induct) (simp add: start_system_def, blast dest: single_step)
  then show ?thesis using tq_order [OF assms] by simp
qed

theorem single_consumer_order_witness: "produced sample_run = executed sample_run @ [7]"
  using single_consumer_order [OF sample_run_reach] by (simp add: sample_run_def)

text \<open>
  Closing releases everybody: after \<open>close\<close> no consumer is left blocked and none blocks again, a
  consumer returns only once the queue is closed, and only when it finds the queue empty.
\<close>

theorem close_releases:
  assumes "tq_reach n s"
  shows "(\<not> m_flag (queue s) \<longrightarrow> Waiting \<notin> set (threads s)) \<and>
    (Done \<in> set (threads s) \<longrightarrow> \<not> m_flag (queue s)) \<and>
    (take_turn batch (queue s) = (q, Done) \<longrightarrow> m_tasklist (queue s) = [] \<and> \<not> m_flag (queue s))"
  using tq_inv_reach [OF assms] take_turn_spec [of batch "queue s" q Done] by (auto simp: tq_inv_def)

theorem close_releases_witness: "Done \<notin> set (threads sample_run)"
  using close_releases [OF sample_run_reach] by (auto simp: sample_run_def)

subsection \<open>The pool\<close>

record 't task_queue_pool_t =
  m_tqs :: "'t task_queue_t list"
  m_index :: nat

definition new_pool :: "nat \<Rightarrow> 't task_queue_pool_t" where
  "new_pool n = \<lparr>m_tqs = replicate n new_queue, m_index = 0\<rparr>"

text \<open>\<open>run\<close>: the queue that the calling thread serves with \<open>batch_run\<close>.\<close>

definition pool_run :: "'t task_queue_pool_t \<Rightarrow> ('t task_queue_pool_t \<times> nat) exc" where
  "pool_run p =
     (if length (m_tqs p) \<le> m_index p then Inl (Runtime_error ''too more thread running!!'')
      else Inr (p\<lparr>m_index := m_index p + 1\<rparr>, m_index p))"

definition pool_close :: "'t task_queue_pool_t \<Rightarrow> 't task_queue_pool_t \<times> cond_op list" where
  "pool_close p = (let rs = map close (m_tqs p) in (p\<lparr>m_tqs := map fst rs\<rparr>, map snd rs))"

text \<open>
  \<open>alloc\<close> takes the id modulo the number of queues as an unsigned 64-bit number; an empty pool divides
  by zero. \<open>rand_alloc\<close> counts calls in a static variable that all pools share.
\<close>

definition alloc :: "64 word \<Rightarrow> 't task_queue_pool_t \<Rightarrow> nat exc" where
  "alloc i p = (if m_tqs p = [] then Inl Out_of_range else Inr (unat (i mod len_t (m_tqs p))))"

definition rand_alloc :: "64 word \<Rightarrow> 't task_queue_pool_t \<Rightarrow> 64 word \<times> nat exc" where
  "rand_alloc counter p = (counter + 1, alloc (counter + 1) p)"

fun pool_runs :: "nat \<Rightarrow> 't task_queue_pool_t \<Rightarrow> nat exc list" where
  "pool_runs 0 p = []"
| "pool_runs (Suc n) p = (case pool_run p of Inl e \<Rightarrow> Inl e # pool_runs n p | Inr (p', i) \<Rightarrow> Inr i # pool_runs n p')"

lemma pool_runs_eq:
  "pool_runs n p = map (\<lambda>k. if m_index p + k < length (m_tqs p) then Inr (m_index p + k)
     else Inl (Runtime_error ''too more thread running!!'')) [0..<n]"
proof (induction n arbitrary: p)
  case (Suc n)
  have "[0..<Suc n] = 0 # map Suc [0..<n]" by (simp add: upt_conv_Cons map_Suc_upt del: upt_Suc)
  then show ?case
    by (auto simp: pool_run_def Suc simp del: upt_Suc)
qed simp

text \<open>
  The pool gives every thread a queue of its own: the \<open>k\<close>-th thread that calls \<open>run\<close> on a pool of
  \<open>n\<close> queues serves queue \<open>k\<close>, a thread too many gets the exception, and \<open>alloc\<close> always names one of the
  \<open>n\<close> queues, the same one for the same id.
\<close>

theorem pool_threads_and_queues:
  assumes "0 < n" "n < 2 ^ 64"
  shows "pool_runs m (new_pool n) = map (\<lambda>k. if k < n then Inr k else Inl (Runtime_error ''too more thread running!!'')) [0..<m] \<and>
    (\<exists>k < n. alloc i (new_pool n) = Inr k)"
proof -
  have "unat (i mod len_t (m_tqs (new_pool n))) < n"
    using assms by (simp add: new_pool_def unat_mod unat_len_t)
  with assms(1) show ?thesis
    by (auto simp: pool_runs_eq alloc_def) (simp_all add: new_pool_def)
qed

theorem pool_threads_and_queues_witness:
  "pool_runs 3 (new_pool 2) = [Inr 0, Inr 1, Inl (Runtime_error ''too more thread running!!'')] \<and>
   (\<exists>k < 2. alloc (- 1) (new_pool 2) = Inr k)"
  using pool_threads_and_queues [of 2 3 "- 1"] by (simp add: upt_rec)

end
