(* ===== verification/Socket_Impl.thy ===== *)
theory Socket_Impl
  imports FF_Prelude
begin

section \<open>A connected socket\<close>

text \<open>
  \<open>socket_impl_t\<close> of \<^verbatim>\<open>net/socket_impl.h\<close> and \<^verbatim>\<open>net/socket_impl.cpp\<close>. All the \<open>_impl\<close> methods run as
  tasks of the socket's one queue, so each is a step on the state. What the system calls answer is an
  argument: the list of the answers of \<open>::send\<close> (or \<open>::read\<close>) in the order of the calls; a method that
  would make more calls than there are answers has no result (\<open>None\<close>: the call has not returned).
  \<open>kernel\<close> is the sequence of bytes the kernel has accepted for sending.
\<close>

datatype send_answer = Sent nat | Send_eintr | Send_wouldblock | Send_error

datatype sock_event =
    Produce_close
  | Unregister_fd
  | Close_fd int
  | Register_fd
  | Handle_open
  | Handle_read string
  | Handle_write_completed
  | Delete_task

record socket_impl_t =
  m_fd :: int
  m_send_buffer :: "string list"
  kernel :: string
  events :: "sock_event list"

definition logged :: "sock_event list \<Rightarrow> socket_impl_t \<Rightarrow> socket_impl_t" where
  "logged es s = s\<lparr>events := events s @ es\<rparr>"

definition is_open :: "socket_impl_t \<Rightarrow> bool" where
  "is_open s \<longleftrightarrow> m_fd s > 0"

definition sock_open :: "socket_impl_t \<Rightarrow> socket_impl_t" where
  "sock_open s = logged [Handle_open, Register_fd] s"

definition sock_close :: "socket_impl_t \<Rightarrow> socket_impl_t" where
  "sock_close s = logged [Produce_close] s"

definition close_impl :: "socket_impl_t \<Rightarrow> socket_impl_t" where
  "close_impl s = (if m_fd s > 0 then (logged [Unregister_fd, Close_fd (m_fd s)] s)\<lparr>m_fd := - 1\<rparr> else s)"

definition safe_delete :: "socket_impl_t \<Rightarrow> socket_impl_t" where
  "safe_delete s = logged [Delete_task] s"

subsection \<open>Sending\<close>

text \<open>
  The loop of \<open>do_send\<close>: the value returned (0 all sent, 1 the rest is left, -1 closed), the rest, the
  bytes the kernel took, and the answers not used. The kernel takes at most what it is given;
  \<open>::send\<close> of at least one byte on a stream socket does not answer 0, so \<open>Sent n\<close> stands for \<open>n > 0\<close>.
\<close>

fun do_send :: "send_answer list \<Rightarrow> string \<Rightarrow> (int \<times> string \<times> string \<times> send_answer list) option" where
  "do_send ans [] = Some (0, [], [], ans)"
| "do_send [] (c # cs) = None"
| "do_send (a # ans) (c # cs) =
     (case a of
        Sent n \<Rightarrow> map_option (\<lambda>(r, left_buff, w, rest). (r, left_buff, take n (c # cs) @ w, rest)) (do_send ans (drop n (c # cs)))
      | Send_eintr \<Rightarrow> do_send ans (c # cs)
      | Send_wouldblock \<Rightarrow> Some (1, c # cs, [], ans)
      | Send_error \<Rightarrow> Some (- 1, [], [], ans))"

definition accept_bytes :: "string \<Rightarrow> socket_impl_t \<Rightarrow> socket_impl_t" where
  "accept_bytes w s = s\<lparr>kernel := kernel s @ w\<rparr>"

text \<open>\<open>send_impl\<close>; \<open>check\<close> is the controller's \<open>check_pre_send\<close>, which may change the buffer. A failed \<open>do_send\<close>
  has called \<open>close\<close> already, and \<open>send_impl\<close> calls it again.\<close>

definition send_impl ::
  "(string \<Rightarrow> int \<times> string) \<Rightarrow> send_answer list \<Rightarrow> string \<Rightarrow> socket_impl_t \<Rightarrow> socket_impl_t option" where
  "send_impl check ans src_buff s =
     (let (rc, buff) = check src_buff
      in if \<not> is_open s \<or> rc \<noteq> 0 then Some s
         else if m_send_buffer s \<noteq> [] then Some (s\<lparr>m_send_buffer := m_send_buffer s @ [buff]\<rparr>)
         else (case do_send ans buff of None \<Rightarrow> None
           | Some (ret, left_buff, w, _) \<Rightarrow>
               (let s1 = accept_bytes w s
                in Some (if ret < 0 then sock_close (sock_close s1)
                         else if ret > 0 then s1\<lparr>m_send_buffer := m_send_buffer s1 @ [left_buff]\<rparr>
                         else logged [Handle_write_completed] s1))))"

text \<open>The loop of \<open>handle_epoll_write_impl\<close> over the cached messages.\<close>

fun write_loop :: "send_answer list \<Rightarrow> string list \<Rightarrow> socket_impl_t \<Rightarrow> socket_impl_t option" where
  "write_loop ans [] s = Some (logged [Handle_write_completed] (s\<lparr>m_send_buffer := []\<rparr>))"
| "write_loop ans (msg # msgs) s =
     (case do_send ans msg of None \<Rightarrow> None
      | Some (ret, left_buff, w, rest) \<Rightarrow>
          (let s1 = accept_bytes w s
           in if ret < 0 then Some (sock_close (sock_close (s1\<lparr>m_send_buffer := msg # msgs\<rparr>)))
              else if ret > 0 then Some (s1\<lparr>m_send_buffer := left_buff # msgs\<rparr>)
              else write_loop rest msgs s1))"

definition handle_epoll_write_impl :: "send_answer list \<Rightarrow> socket_impl_t \<Rightarrow> socket_impl_t option" where
  "handle_epoll_write_impl ans s =
     (if \<not> is_open s \<or> m_send_buffer s = [] then Some s else write_loop ans (m_send_buffer s) s)"

text \<open>
  \<open>check_pre_send\<close> of \<open>socket_controller_i\<close>, and of \<open>common_socket_controller_t\<close>, which looks at the
  descriptor of the socket.
\<close>

definition default_check :: "string \<Rightarrow> int \<times> string" where
  "default_check buff = (0, buff)"

definition common_check :: "int \<Rightarrow> string \<Rightarrow> int \<times> string" where
  "common_check fd buff = (if fd < 0 then - 1 else 0, buff)"

lemma common_check_open: "is_open s \<Longrightarrow> common_check (m_fd s) m = (0, m)"
  by (simp add: common_check_def is_open_def)

subsection \<open>Receiving\<close>

datatype read_answer = Bytes string | Read_eof | Read_eintr | Read_wouldblock | Read_error

abbreviation recv_max :: nat where
  "recv_max \<equiv> 8095"

text \<open>\<open>handle_epoll_read_impl\<close>: the value returned and the state. \<open>handle_read\<close> may not change the socket's
  own state; its calls are events.\<close>

fun read_loop :: "read_answer list \<Rightarrow> socket_impl_t \<Rightarrow> (int \<times> socket_impl_t) option" where
  "read_loop [] s = None"
| "read_loop (a # ans) s =
     (case a of
        Bytes b \<Rightarrow> (let s1 = logged [Handle_read b] s
                    in if length b < recv_max then Some (0, s1) else read_loop ans s1)
      | Read_eof \<Rightarrow> Some (- 1, sock_close s)
      | Read_eintr \<Rightarrow> read_loop ans s
      | Read_wouldblock \<Rightarrow> Some (0, s)
      | Read_error \<Rightarrow> Some (- 1, sock_close s))"

definition handle_epoll_read_impl :: "read_answer list \<Rightarrow> socket_impl_t \<Rightarrow> (int \<times> socket_impl_t) option" where
  "handle_epoll_read_impl ans s = (if is_open s then read_loop ans s else Some (0, s))"

subsection \<open>Sequences of sends and writable events\<close>

text \<open>
  What happens to the socket over time: a queued message is sent, the kernel reports it writable, or
  the queued close runs.
\<close>

datatype sock_op = Op_send "send_answer list" string | Op_writable "send_answer list" | Op_close

definition sock_step :: "(string \<Rightarrow> int \<times> string) \<Rightarrow> sock_op \<Rightarrow> socket_impl_t \<Rightarrow> socket_impl_t option" where
  "sock_step check op s = (case op of
     Op_send ans m \<Rightarrow> send_impl check ans m s
   | Op_writable ans \<Rightarrow> handle_epoll_write_impl ans s
   | Op_close \<Rightarrow> Some (close_impl s))"

fun sock_run :: "(string \<Rightarrow> int \<times> string) \<Rightarrow> sock_op list \<Rightarrow> socket_impl_t \<Rightarrow> socket_impl_t option" where
  "sock_run check [] s = Some s"
| "sock_run check (op # ops) s = (case sock_step check op s of None \<Rightarrow> None | Some s' \<Rightarrow> sock_run check ops s')"






lemma fields [simp]:
  "kernel (logged es s) = kernel s" "m_send_buffer (logged es s) = m_send_buffer s" "m_fd (logged es s) = m_fd s"
  "kernel (accept_bytes w s) = kernel s @ w" "m_send_buffer (accept_bytes w s) = m_send_buffer s"
  "m_fd (accept_bytes w s) = m_fd s" "events (accept_bytes w s) = events s"
  by (simp_all add: logged_def accept_bytes_def)




subsection \<open>Properties\<close>


definition sample_socket :: socket_impl_t where
  "sample_socket = \<lparr>m_fd = 5, m_send_buffer = [], kernel = [], events = []\<rparr>"




lemma do_send_more: "do_send (replicate (length m) (Sent (Suc 0)) @ ans) m = Some (0, [], m, ans)"
  by (induction m) simp_all

lemma write_loop_drains:
  "\<exists>s'. write_loop (concat (map (\<lambda>m. replicate (length m) (Sent 1)) msgs)) msgs s = Some s' \<and>
    m_send_buffer s' = [] \<and> kernel s' = kernel s @ concat msgs \<and> events s' = events s @ [Handle_write_completed]"
proof (induction msgs arbitrary: s)
  case Nil
  then show ?case by (simp add: logged_def)
next
  case (Cons m msgs)
  then show ?case using Cons.IH [of "accept_bytes m s"] by (simp add: do_send_more)
qed

text \<open>
  A writable event drains the cache: even if the kernel takes a single byte at a time, as long as
  it goes on taking them the handler returns with an empty cache, every cached byte has been accepted
  in order, and the controller is told once.
\<close>

theorem writable_drains:
  assumes "is_open s" "m_send_buffer s \<noteq> []"
  shows "\<exists>s'. handle_epoll_write_impl (concat (map (\<lambda>m. replicate (length m) (Sent 1)) (m_send_buffer s))) s = Some s' \<and>
    m_send_buffer s' = [] \<and> kernel s' = kernel s @ concat (m_send_buffer s) \<and>
    events s' = events s @ [Handle_write_completed]"
  using write_loop_drains [of "m_send_buffer s" s] assms by (simp add: handle_epoll_write_impl_def)

theorem writable_drains_witness:
  "\<exists>s'. handle_epoll_write_impl [Sent 1, Sent 1, Sent 1] (sample_socket\<lparr>m_send_buffer := [''ab'', ''c'']\<rparr>) = Some s' \<and>
    kernel s' = ''abc''"
  using writable_drains [of "sample_socket\<lparr>m_send_buffer := [''ab'', ''c'']\<rparr>"]
  by (auto simp: sample_socket_def is_open_def)

text \<open>
  After a send that failed half-way the socket goes on sending until the queued close runs: the
  next message's bytes then follow the torn one on the stream.
\<close>

theorem send_after_error:
  "\<exists>s'. sock_run default_check [Op_send [Sent 1, Send_error] ''ab'', Op_send [Sent 2] ''cd'', Op_close] sample_socket = Some s' \<and>
    kernel s' = ''acd'' \<and> m_fd s' = - 1"
  by (simp add: sample_socket_def sock_step_def send_impl_def close_impl_def sock_close_def
      is_open_def accept_bytes_def logged_def default_check_def)

text \<open>The pieces that one readable event passes on, and how it ends.\<close>

lemma read_loop_spec:
  "read_loop ans s = Some (r, s') \<Longrightarrow> \<exists>bs k. filter (\<lambda>a. a \<noteq> Read_eintr) (take k ans) = map Bytes bs \<and>
    s' = logged (map Handle_read bs @ (if r = - 1 then [Produce_close] else [])) s \<and> (r = 0 \<or> r = - 1)"
proof (induction ans arbitrary: s)
  case (Cons a ans)
  show ?case
  proof (cases a)
    case (Bytes b)
    show ?thesis
    proof (cases "length b < recv_max")
      case True
      with Cons.prems Bytes show ?thesis by (intro exI [of _ "[b]"] exI [of _ 1]) auto
    next
      case False
      with Cons.prems Bytes Cons.IH [of "logged [Handle_read b] s"] obtain bs k where
        "filter (\<lambda>a. a \<noteq> Read_eintr) (take k ans) = map Bytes bs" "r = 0 \<or> r = - 1"
        "s' = logged (map Handle_read bs @ (if r = - 1 then [Produce_close] else [])) (logged [Handle_read b] s)"
        by auto
      with Bytes show ?thesis by (intro exI [of _ "b # bs"] exI [of _ "Suc k"]) (simp add: logged_def)
    qed
  next
    case Read_eintr
    with Cons.prems Cons.IH [of s] obtain bs k where
      "filter (\<lambda>a. a \<noteq> Read_eintr) (take k ans) = map Bytes bs" "r = 0 \<or> r = - 1"
      "s' = logged (map Handle_read bs @ (if r = - 1 then [Produce_close] else [])) s" by auto
    with Read_eintr show ?thesis by (intro exI [of _ bs] exI [of _ "Suc k"]) simp
  qed (use Cons.prems in \<open>auto simp: sock_close_def logged_def intro!: exI [of _ "[]"] exI [of _ 0]\<close>)
qed simp

text \<open>
  Reading hands over every byte in order: a readable event passes the pieces \<open>::read\<close> returned to
  the controller, in their order and with nothing between them, and then returns 0, or, at the end of
  the stream or after an error, returns -1 and queues the close; the send side is untouched.
\<close>

theorem read_passes_on:
  assumes "handle_epoll_read_impl ans s = Some (r, s')" "is_open s"
  shows "\<exists>bs k. filter (\<lambda>a. a \<noteq> Read_eintr) (take k ans) = map Bytes bs \<and>
    events s' = events s @ map Handle_read bs @ (if r = - 1 then [Produce_close] else []) \<and> (r = 0 \<or> r = - 1) \<and>
    m_fd s' = m_fd s \<and> kernel s' = kernel s \<and> m_send_buffer s' = m_send_buffer s"
proof -
  from read_loop_spec [of ans s r s'] assms obtain bs k where
    "filter (\<lambda>a. a \<noteq> Read_eintr) (take k ans) = map Bytes bs" "r = 0 \<or> r = - 1"
    "s' = logged (map Handle_read bs @ (if r = - 1 then [Produce_close] else [])) s"
    by (auto simp: handle_epoll_read_impl_def)
  then show ?thesis by (intro exI [of _ bs] exI [of _ k]) (simp add: logged_def)
qed

theorem read_passes_on_witness:
  "\<exists>s'. handle_epoll_read_impl [Read_eintr, Bytes ''ab''] sample_socket = Some (0, s') \<and> kernel s' = []"
proof -
  have "handle_epoll_read_impl [Read_eintr, Bytes ''ab''] sample_socket = Some (0, logged [Handle_read ''ab''] sample_socket)"
    by (simp add: handle_epoll_read_impl_def is_open_def sample_socket_def)
  with read_passes_on [OF this] show ?thesis by (auto simp: is_open_def sample_socket_def)
qed

end
