(* ===== verification/Heartbeat.thy ===== *)
theory Heartbeat
  imports Message
begin

section \<open>Heartbeats and the gateway's controller\<close>

text \<open>
  \<open>base_heartbeat_t\<close> of \<^verbatim>\<open>net/base_heartbeat.h\<close> and \<open>gateway_socket_controller_t\<close>. The list
  \<open>m_time_sort_list\<close> is kept as nodes with an identity, because \<open>m_data_map\<close> stores iterators into it: an
  iterator is a node's number, and using one whose node is gone is undefined behaviour (\<open>Dangling\<close>).
  Every method holds the mutex; the clock is an argument. \<open>time_t\<close> is an unbounded integer here.
\<close>

record 'v node_info_t =
  node :: nat
  nd_value :: 'v
  nd_timeout :: int

record 'v heartbeat =
  m_timeout :: int
  m_cur_tick :: int
  m_data_map :: "('v, nat) omap"
  m_time_sort_list :: "'v node_info_t list"
  next_node :: nat

definition new_heartbeat :: "int \<Rightarrow> 'v heartbeat" where
  "new_heartbeat now = \<lparr>m_timeout = 2147483647 - now, m_cur_tick = now, m_data_map = [],
     m_time_sort_list = [], next_node = 0\<rparr>"

text \<open>\<open>set_option\<close>, with the value of \<open>-timeout\<close> as \<open>atoi\<close> reads it, if the option is there.\<close>

definition set_option :: "int option \<Rightarrow> 'v heartbeat \<Rightarrow> 'v heartbeat" where
  "set_option opt h = (case opt of None \<Rightarrow> h | Some t \<Rightarrow> h\<lparr>m_timeout := t\<rparr>)"

definition hb_add :: "int \<Rightarrow> 'v::linorder \<Rightarrow> 'v heartbeat \<Rightarrow> 'v heartbeat \<times> int" where
  "hb_add now v h =
     (let info = \<lparr>node = next_node h, nd_value = v, nd_timeout = now + m_timeout h\<rparr>;
          lst = info # m_time_sort_list h;
          (dm, inserted) = om_insert v (next_node h) (m_data_map h)
      in if \<not> inserted then (h\<lparr>next_node := next_node h + 1\<rparr>, - 1)
         else (h\<lparr>m_time_sort_list := lst, m_data_map := dm, next_node := next_node h + 1\<rparr>, 0))"

definition erase_node :: "nat \<Rightarrow> 'v node_info_t list \<Rightarrow> 'v node_info_t list" where
  "erase_node i l = filter (\<lambda>x. node x \<noteq> i) l"

definition hb_update :: "int \<Rightarrow> 'v::linorder \<Rightarrow> 'v heartbeat \<Rightarrow> ('v heartbeat \<times> int) exc" where
  "hb_update now v h = (case map_of (m_data_map h) v of None \<Rightarrow> Inr (h, - 1)
   | Some i \<Rightarrow> (case find (\<lambda>x. node x = i) (m_time_sort_list h) of None \<Rightarrow> Inl Dangling
     | Some x \<Rightarrow>
        (let tmp_info = x\<lparr>node := next_node h, nd_timeout := now + m_timeout h\<rparr>
         in Inr (h\<lparr>m_time_sort_list := tmp_info # erase_node i (m_time_sort_list h),
                   m_data_map := om_put v (next_node h) (m_data_map h), next_node := next_node h + 1\<rparr>, 0))))"

definition hb_del :: "'v::linorder \<Rightarrow> 'v heartbeat \<Rightarrow> ('v heartbeat \<times> int) exc" where
  "hb_del v h = (case map_of (m_data_map h) v of None \<Rightarrow> Inr (h, - 1)
   | Some i \<Rightarrow> (case find (\<lambda>x. node x = i) (m_time_sort_list h) of None \<Rightarrow> Inl Dangling
     | Some x \<Rightarrow> Inr (h\<lparr>m_time_sort_list := erase_node i (m_time_sort_list h),
                       m_data_map := om_erase v (m_data_map h)\<rparr>, 0)))"

text \<open>The loop of \<open>timer_check\<close> from the back of the list: what is left and the values called back.\<close>

fun expire :: "int \<Rightarrow> 'v node_info_t list \<Rightarrow> 'v node_info_t list \<times> 'v list" where
  "expire tick [] = ([], [])"
| "expire tick (x # rest) =
     (if tick \<ge> nd_timeout x then (let (l, cbs) = expire tick rest in (l, nd_value x # cbs)) else (x # rest, []))"

definition timer_check :: "int \<Rightarrow> 'v heartbeat \<Rightarrow> 'v heartbeat \<times> 'v list" where
  "timer_check now h =
     (let (l, cbs) = expire now (rev (m_time_sort_list h))
      in (h\<lparr>m_cur_tick := now, m_time_sort_list := rev l\<rparr>, cbs))"

subsection \<open>The gateway's controller\<close>

record gateway_socket_controller =
  gw_common :: common_socket_controller
  m_last_update_tm :: int

type_synonym gw_heartbeat = "nat heartbeat"

definition gw_open :: "int \<Rightarrow> nat \<Rightarrow> gateway_socket_controller \<Rightarrow> gw_heartbeat \<Rightarrow> gateway_socket_controller \<times> gw_heartbeat" where
  "gw_open now sk c h = (c\<lparr>m_last_update_tm := m_cur_tick h\<rparr>, fst (hb_add now sk h))"

text \<open>
  \<open>handle_read\<close>: the packets delivered, whether the socket is closed for an oversized packet, and the
  heartbeat, updated when the tick has changed since the last update.
\<close>

definition gw_read ::
  "int \<Rightarrow> u64 \<Rightarrow> nat \<Rightarrow> string \<Rightarrow> gateway_socket_controller \<Rightarrow> gw_heartbeat \<Rightarrow>
   (gateway_socket_controller \<times> message_t list \<times> bool \<times> gw_heartbeat) exc" where
  "gw_read now max_packet_size sk buff c h =
     (let (common, msgs) = handle_read (gw_common c) buff;
          c1 = c\<lparr>gw_common := common\<rparr>;
          close = (have_recv_head (m_have_recv_size common) \<and> msg_size (m_message common) > max_packet_size)
      in if m_last_update_tm c1 \<noteq> m_cur_tick h
         then (case hb_update now sk h of Inl e \<Rightarrow> Inl e
               | Inr (h', _) \<Rightarrow> Inr (c1\<lparr>m_last_update_tm := m_cur_tick h\<rparr>, msgs, close, h'))
         else Inr (c1, msgs, close, h))"

definition gw_error :: "nat \<Rightarrow> gw_heartbeat \<Rightarrow> gw_heartbeat exc" where
  "gw_error sk h = (case hb_del sk h of Inl e \<Rightarrow> Inl e | Inr (h', _) \<Rightarrow> Inr h')"

subsection \<open>The invariant\<close>

text \<open>
  What every sequence of calls keeps: the map of iterators has different ones, and every node of the list is the one
  its value's iterator points to. The converse fails after an expiry: the iterator of an expired value stays in the map.
\<close>

definition hb_wf :: "'v::linorder heartbeat \<Rightarrow> bool" where
  "hb_wf h \<longleftrightarrow> om_wf (m_data_map h) \<and> distinct (map node (m_time_sort_list h)) \<and>
     (\<forall>v i. map_of (m_data_map h) v = Some i \<longrightarrow> i < next_node h) \<and>
     (\<forall>v w i. map_of (m_data_map h) v = Some i \<longrightarrow> map_of (m_data_map h) w = Some i \<longrightarrow> v = w) \<and>
     (\<forall>x \<in> set (m_time_sort_list h). map_of (m_data_map h) (nd_value x) = Some (node x))"

text \<open>The list is in the order of the timeouts, the oldest at the back, and none lies beyond \<open>now\<close> and the period.\<close>

definition hb_sorted :: "int \<Rightarrow> 'v heartbeat \<Rightarrow> bool" where
  "hb_sorted now h \<longleftrightarrow> sorted_wrt (\<lambda>x y. nd_timeout x \<ge> nd_timeout y) (m_time_sort_list h) \<and>
     (\<forall>x \<in> set (m_time_sort_list h). nd_timeout x \<le> now + m_timeout h)"

text \<open>The abstract view: who is watched, and until when; and who has an iterator whose node is gone.\<close>

definition deadline :: "'v::linorder heartbeat \<Rightarrow> 'v \<Rightarrow> int option" where
  "deadline h v = (case map_of (m_data_map h) v of None \<Rightarrow> None
     | Some i \<Rightarrow> map_option nd_timeout (find (\<lambda>x. node x = i) (m_time_sort_list h)))"

definition stale :: "'v::linorder heartbeat \<Rightarrow> 'v \<Rightarrow> bool" where
  "stale h v \<longleftrightarrow> (\<exists>i. map_of (m_data_map h) v = Some i \<and> i \<notin> node ` set (m_time_sort_list h))"

lemma new_heartbeat_ok:
  "hb_wf (set_option opt (new_heartbeat t0))" "hb_sorted now (set_option opt (new_heartbeat t0))"
  by (simp_all add: hb_wf_def hb_sorted_def new_heartbeat_def set_option_def split: option.splits)

lemma find_node:
  assumes "distinct (map node l)" "x \<in> set l"
  shows "find (\<lambda>y. node y = node x) l = Some x"
  using assms by (induction l) (auto simp: image_iff)

lemma find_gone: "i \<notin> node ` set l \<Longrightarrow> find (\<lambda>x. node x = i) l = None"
  by (auto simp: find_None_iff)

lemma hb_wfD:
  assumes "hb_wf h"
  shows "om_wf (m_data_map h)" "distinct (map node (m_time_sort_list h))" "map_of (m_data_map h) v = Some i \<Longrightarrow> i < next_node h"
    "map_of (m_data_map h) v = Some i \<Longrightarrow> map_of (m_data_map h) w = Some i \<Longrightarrow> v = w" "inj_on node (set (m_time_sort_list h))"
  using assms unfolding hb_wf_def distinct_map by blast+

lemma hb_wf_value: "hb_wf h \<Longrightarrow> x \<in> set (m_time_sort_list h) \<Longrightarrow> map_of (m_data_map h) (nd_value x) = Some (node x)"
  by (auto simp: hb_wf_def)

lemma hb_wf_node:
  assumes "hb_wf h" "map_of (m_data_map h) v = Some i" "x \<in> set (m_time_sort_list h)"
  shows "node x = i \<longleftrightarrow> nd_value x = v"
  using hb_wf_value [OF assms(1,3)] assms(1,2) unfolding hb_wf_def by auto

text \<open>A value is unknown, stale, or watched.\<close>

lemma hb_cases [consumes 1, case_names unknown gone watched]:
  assumes "hb_wf h"
  obtains "map_of (m_data_map h) v = None" "deadline h v = None" "\<not> stale h v" "v \<notin> nd_value ` set (m_time_sort_list h)"
  | i where "map_of (m_data_map h) v = Some i" "find (\<lambda>y. node y = i) (m_time_sort_list h) = None" "deadline h v = None" "stale h v"
      "v \<notin> nd_value ` set (m_time_sort_list h)"
  | x where "map_of (m_data_map h) v = Some (node x)" "x \<in> set (m_time_sort_list h)" "nd_value x = v"
      "find (\<lambda>y. node y = node x) (m_time_sort_list h) = Some x" "deadline h v = Some (nd_timeout x)" "\<not> stale h v"
proof (cases "map_of (m_data_map h) v")
  case None
  moreover have "v \<notin> nd_value ` set (m_time_sort_list h)" using None hb_wf_value [OF assms] by auto
  ultimately show thesis using that(1) by (simp add: deadline_def stale_def)
next
  case (Some i)
  show thesis
  proof (cases "i \<in> node ` set (m_time_sort_list h)")
    case True
    then obtain x where x: "x \<in> set (m_time_sort_list h)" "i = node x" by blast
    then have "find (\<lambda>y. node y = node x) (m_time_sort_list h) = Some x"
      using assms by (intro find_node) (simp_all add: hb_wf_def)
    moreover have "nd_value x = v" using hb_wf_node [OF assms Some x(1)] x(2) by simp
    ultimately show thesis using that(3) [of x] Some x by (simp add: deadline_def stale_def)
  next
    case False
    moreover from this have "find (\<lambda>y. node y = i) (m_time_sort_list h) = None" by (rule find_gone)
    moreover have "v \<notin> nd_value ` set (m_time_sort_list h)" using False hb_wf_node [OF assms Some] by auto
    ultimately show thesis using that(2) [of i] Some by (auto simp: deadline_def stale_def)
  qed
qed

lemma deadline_in:
  assumes "hb_wf h"
  shows "deadline h v = Some t \<longleftrightarrow> (\<exists>x \<in> set (m_time_sort_list h). nd_value x = v \<and> nd_timeout x = t)"
  using assms
proof (cases rule: hb_cases [where v = v])
  case (watched x)
  have "y = x" if "y \<in> set (m_time_sort_list h)" "nd_value y = v" for y
  proof (rule inj_onD [OF hb_wfD(5) [OF assms] _ that(1) watched(2)])
    show "node y = node x" using hb_wf_value [OF assms that(1)] that(2) watched(1) by simp
  qed
  then show ?thesis using watched(2,3) unfolding watched(5) by (metis option.inject)
qed auto

lemma option_ext: "(\<And>t. a = Some t \<longleftrightarrow> b = Some t) \<Longrightarrow> a = b"
  by (cases a; cases b) auto

text \<open>Putting a node with a fresh number for \<open>v\<close> in front, in place of the one \<open>v\<close> had.\<close>

lemma hb_renew:
  assumes "hb_wf h" "hb_sorted now h" "\<not> stale h v"
    and l: "l = filter (\<lambda>x. nd_value x \<noteq> v) (m_time_sort_list h)"
    and h': "h' = h\<lparr>m_time_sort_list := \<lparr>node = next_node h, nd_value = v, nd_timeout = now + m_timeout h\<rparr> # l,
      m_data_map := om_put v (next_node h) (m_data_map h), next_node := next_node h + 1\<rparr>"
  shows "hb_wf h' \<and> hb_sorted now h' \<and> deadline h' = (deadline h)(v \<mapsto> now + m_timeout h) \<and> (\<forall>w. stale h' w = stale h w)"
proof -
  note less = hb_wfD(3) [OF assms(1)]
  have fresh: "node x \<noteq> next_node h" if "x \<in> set (m_time_sort_list h)" for x
    using less [OF hb_wf_value [OF assms(1) that]] by simp
  have "distinct (map node l)" unfolding l by (rule distinct_map_filter [OF hb_wfD(2) [OF assms(1)]])
  moreover have "next_node h \<notin> node ` set l" using fresh unfolding l by (metis (no_types, lifting) filter_is_subset imageE subsetD)
  ultimately have "distinct (map node (m_time_sort_list h'))" by (simp add: h')
  moreover have "a = b" if "map_of (m_data_map h') a = Some i" "map_of (m_data_map h') b = Some i" for a b i
    using that hb_wfD(4) [OF assms(1), of a i b] less [of a i] less [of b i] by (auto simp: h' split: if_splits)
  moreover have "i < next_node h'" if "map_of (m_data_map h') a = Some i" for a i
    using that less [of a i] by (auto simp: h' split: if_splits)
  moreover have "map_of (m_data_map h') (nd_value x) = Some (node x)" if "x \<in> set (m_time_sort_list h')" for x
    using that hb_wf_value [OF assms(1), of x] by (auto simp: h' l)
  moreover have "om_wf (m_data_map h')" using hb_wfD(1) [OF assms(1)] by (simp add: h' om_wf_put)
  ultimately have w: "hb_wf h'" unfolding hb_wf_def by blast
  moreover have "hb_sorted now h'"
    using assms(2) by (auto simp: h' l hb_sorted_def intro: sorted_wrt_filter)
  moreover have "m_time_sort_list h' = \<lparr>node = next_node h, nd_value = v, nd_timeout = now + m_timeout h\<rparr> # l" by (simp add: h')
  then have "deadline h' = (deadline h)(v \<mapsto> now + m_timeout h)"
    by (intro ext option_ext) (auto simp: deadline_in [OF w] deadline_in [OF assms(1)] l)
  moreover have "stale h' u = stale h u" for u
  proof (cases "u = v")
    case False
    have "i \<in> node ` set (m_time_sort_list h') \<longleftrightarrow> i \<in> node ` set (m_time_sort_list h)" if "map_of (m_data_map h) u = Some i" for i
      using hb_wf_node [OF assms(1) that] less [OF that] False by (auto simp: h' l)
    with False show ?thesis by (auto simp: stale_def) (auto simp: h')
  qed (use assms(3) in \<open>simp add: stale_def h'\<close>)
  ultimately show ?thesis by blast
qed

lemma erase_node_value:
  assumes "hb_wf h" "map_of (m_data_map h) v = Some i"
  shows "erase_node i (m_time_sort_list h) = filter (\<lambda>x. nd_value x \<noteq> v) (m_time_sort_list h)"
  unfolding erase_node_def using hb_wf_node [OF assms] by (intro filter_cong) auto

lemma hb_add_spec:
  assumes "hb_wf h" "hb_sorted now h"
  shows "case hb_add now v h of (h', r) \<Rightarrow> hb_wf h' \<and> hb_sorted now h' \<and> (\<forall>w. stale h' w = stale h w) \<and>
    (if deadline h v = None \<and> \<not> stale h v then r = 0 \<and> deadline h' = (deadline h)(v \<mapsto> now + m_timeout h)
     else r = - 1 \<and> deadline h' = deadline h)"
proof (cases "map_of (m_data_map h) v")
  case None
  then have n: "filter (\<lambda>x. nd_value x \<noteq> v) (m_time_sort_list h) = m_time_sort_list h" "deadline h v = None" "\<not> stale h v"
    using hb_wf_value [OF assms(1)] by (auto simp: filter_id_conv deadline_def stale_def)
  with hb_renew [OF assms n(3) refl refl] None show ?thesis by (simp add: hb_add_def om_insert_def Let_def)
next
  case (Some i)
  let ?h = "h\<lparr>next_node := next_node h + 1\<rparr>"
  have "hb_wf ?h" using assms(1) by (auto simp: hb_wf_def less_Suc_eq)
  moreover have "deadline ?h = deadline h" by (simp add: deadline_def fun_eq_iff split: option.splits)
  moreover have "\<forall>w. stale ?h w = stale h w" by (simp add: stale_def)
  moreover have "\<not> (deadline h v = None \<and> \<not> stale h v)"
    using Some by (cases rule: hb_cases [OF assms(1), of v]) auto
  ultimately show ?thesis using assms(2) Some by (simp add: hb_add_def om_insert_def Let_def hb_sorted_def)
qed

lemma hb_update_spec:
  assumes "hb_wf h" "hb_sorted now h"
  shows "case hb_update now v h of Inl e \<Rightarrow> e = Dangling \<and> stale h v
    | Inr (h', r) \<Rightarrow> \<not> stale h v \<and> hb_wf h' \<and> hb_sorted now h' \<and> (\<forall>w. stale h' w = stale h w) \<and>
      (if deadline h v = None then r = - 1 \<and> deadline h' = deadline h
       else r = 0 \<and> deadline h' = (deadline h)(v \<mapsto> now + m_timeout h))"
  using assms(1)
proof (cases rule: hb_cases [where v = v])
  case (watched x)
  have "x\<lparr>node := next_node h, nd_timeout := now + m_timeout h\<rparr> = \<lparr>node = next_node h, nd_value = v, nd_timeout = now + m_timeout h\<rparr>"
    using watched(3) by (cases x) simp
  then have "hb_update now v h = Inr (h\<lparr>m_time_sort_list := \<lparr>node = next_node h, nd_value = v, nd_timeout = now + m_timeout h\<rparr> #
      erase_node (node x) (m_time_sort_list h), m_data_map := om_put v (next_node h) (m_data_map h), next_node := next_node h + 1\<rparr>, 0)"
    using watched by (simp add: hb_update_def)
  with watched hb_renew [OF assms watched(6) erase_node_value [OF assms(1) watched(1)] refl] show ?thesis by simp
qed (use assms in \<open>simp_all add: hb_update_def\<close>)

lemma hb_del_spec:
  assumes "hb_wf h" "hb_sorted now h"
  shows "case hb_del v h of Inl e \<Rightarrow> e = Dangling \<and> stale h v
    | Inr (h', r) \<Rightarrow> \<not> stale h v \<and> hb_wf h' \<and> hb_sorted now h' \<and> (\<forall>w. stale h' w = stale h w) \<and>
      deadline h' = (deadline h)(v := None) \<and> (r = 0 \<longleftrightarrow> deadline h v \<noteq> None)"
  using assms(1)
proof (cases rule: hb_cases [where v = v])
  case (watched x)
  let ?h = "h\<lparr>m_time_sort_list := filter (\<lambda>x. nd_value x \<noteq> v) (m_time_sort_list h), m_data_map := om_erase v (m_data_map h)\<rparr>"
  have m: "map_of (m_data_map ?h) u = (if u = v then None else map_of (m_data_map h) u)" for u
    using assms(1) by (simp add: hb_wf_def map_of_om_erase)
  have "distinct (map node (m_time_sort_list ?h))" using distinct_map_filter [OF hb_wfD(2) [OF assms(1)]] by simp
  moreover have "a = b" if "map_of (m_data_map ?h) a = Some i" "map_of (m_data_map ?h) b = Some i" for a b i
    using that hb_wfD(4) [OF assms(1), of a i b] unfolding m by (auto split: if_splits)
  moreover have "i < next_node ?h" if "map_of (m_data_map ?h) a = Some i" for a i
    using that hb_wfD(3) [OF assms(1), of a i] unfolding m by (auto split: if_splits)
  moreover have "map_of (m_data_map ?h) (nd_value x) = Some (node x)" if "x \<in> set (m_time_sort_list ?h)" for x
    using that hb_wf_value [OF assms(1), of x] unfolding m by auto
  moreover have "om_wf (m_data_map ?h)" using hb_wfD(1) [OF assms(1)] by simp
  ultimately have w: "hb_wf ?h" unfolding hb_wf_def by blast
  have "deadline ?h = (deadline h)(v := None)"
    by (rule ext, rule option_ext) (auto simp: deadline_in [OF w] deadline_in [OF assms(1)])
  moreover have "hb_sorted now ?h" using assms(2) by (auto simp: hb_sorted_def intro: sorted_wrt_filter)
  moreover have "stale ?h u = stale h u" for u
  proof (cases "u = v")
    case False
    have "i \<in> node ` set (m_time_sort_list ?h) \<longleftrightarrow> i \<in> node ` set (m_time_sort_list h)" if "map_of (m_data_map h) u = Some i" for i
      using hb_wf_node [OF assms(1) that] False by auto
    with False show ?thesis unfolding stale_def m by auto
  qed (use watched(6) in \<open>simp add: stale_def m [simplified]\<close>)
  ultimately show ?thesis
    using watched w by (simp add: hb_del_def erase_node_value [OF assms(1) watched(1)])
qed (use assms in \<open>simp_all add: hb_del_def fun_upd_idem\<close>)

lemma expire_sorted:
  "sorted_wrt (\<lambda>x y. nd_timeout x \<le> nd_timeout y) xs \<Longrightarrow>
    expire tick xs = (filter (\<lambda>x. tick < nd_timeout x) xs, map nd_value (filter (\<lambda>x. nd_timeout x \<le> tick) xs))"
proof (induction xs)
  case (Cons x xs)
  show ?case
  proof (cases "tick \<ge> nd_timeout x")
    case False
    with Cons.prems have "\<forall>y \<in> set (x # xs). tick < nd_timeout y" by auto
    then have "filter (\<lambda>y. tick < nd_timeout y) (x # xs) = x # xs" "filter (\<lambda>y. nd_timeout y \<le> tick) (x # xs) = []"
      by (simp_all add: filter_id_conv filter_empty_conv not_le)
    with False show ?thesis by simp
  qed (use Cons in simp)
qed simp

lemma timer_check_sorted:
  assumes "hb_sorted t0 h"
  shows "timer_check now h = (h\<lparr>m_cur_tick := now, m_time_sort_list := filter (\<lambda>x. now < nd_timeout x) (m_time_sort_list h)\<rparr>,
    map nd_value (filter (\<lambda>x. nd_timeout x \<le> now) (rev (m_time_sort_list h))))"
proof -
  have "sorted_wrt (\<lambda>x y. nd_timeout x \<le> nd_timeout y) (rev (m_time_sort_list h))"
    using assms by (simp add: hb_sorted_def sorted_wrt_rev)
  then show ?thesis by (simp add: timer_check_def expire_sorted rev_filter)
qed

lemma timer_check_spec:
  assumes "hb_wf h" "hb_sorted t0 h"
  shows "case timer_check now h of (h', cbs) \<Rightarrow> hb_wf h' \<and> hb_sorted t0 h' \<and> distinct cbs \<and>
    set cbs = {v. \<exists>t. deadline h v = Some t \<and> t \<le> now} \<and>
    (\<forall>v. deadline h' v = (if v \<in> set cbs then None else deadline h v)) \<and> (\<forall>v. stale h' v \<longleftrightarrow> stale h v \<or> v \<in> set cbs)"
proof -
  obtain h' cbs where tc: "timer_check now h = (h', cbs)" by fastforce
  have h': "m_data_map h' = m_data_map h" "m_time_sort_list h' = filter (\<lambda>x. now < nd_timeout x) (m_time_sort_list h)"
    "m_timeout h' = m_timeout h" "next_node h' = next_node h"
    and cbs: "cbs = map nd_value (filter (\<lambda>x. nd_timeout x \<le> now) (rev (m_time_sort_list h)))"
    using timer_check_sorted [OF assms(2), of now] tc by auto
  have w: "hb_wf h'"
    using hb_wfD [OF assms(1)] hb_wf_value [OF assms(1)] distinct_map_filter [OF hb_wfD(2) [OF assms(1)]]
    unfolding hb_wf_def h' by (metis (no_types, lifting) filter_is_subset subsetD)
  have so: "hb_sorted t0 h'" using assms(2) by (auto simp: hb_sorted_def h' intro: sorted_wrt_filter)
  have vals: "node x = node y" if "x \<in> set (m_time_sort_list h)" "y \<in> set (m_time_sort_list h)" "nd_value x = nd_value y" for x y
    using hb_wf_value [OF assms(1) that(1)] hb_wf_value [OF assms(1) that(2)] that(3) by simp
  have inj: "inj_on nd_value (set (m_time_sort_list h))"
    using vals hb_wfD(5) [OF assms(1)] unfolding inj_on_def by blast
  have "distinct (m_time_sort_list h)" using assms(1) by (simp add: hb_wf_def distinct_map)
  then have di: "distinct cbs" using inj by (auto simp: cbs distinct_map intro: inj_on_subset)
  have se: "set cbs = {v. \<exists>t. deadline h v = Some t \<and> t \<le> now}" by (auto simp: cbs deadline_in [OF assms(1)])
  have de: "deadline h' v = (if v \<in> set cbs then None else deadline h v)" for v
  proof (rule option_ext)
    fix t
    have "(\<exists>x \<in> set (m_time_sort_list h). now < nd_timeout x \<and> nd_value x = v \<and> nd_timeout x = t) \<longleftrightarrow>
        v \<notin> set cbs \<and> (\<exists>x \<in> set (m_time_sort_list h). nd_value x = v \<and> nd_timeout x = t)"
      using inj by (fastforce simp: cbs inj_on_def)
    then show "deadline h' v = Some t \<longleftrightarrow> (if v \<in> set cbs then None else deadline h v) = Some t"
      unfolding deadline_in [OF w] by (auto simp: h' deadline_in [OF assms(1)])
  qed
  have "stale h' v \<longleftrightarrow> stale h v \<or> v \<in> set cbs" for v
    by (cases rule: hb_cases [OF w, of v]; cases rule: hb_cases [OF assms(1), of v])
      (use de [of v] se in \<open>auto simp: h'(1) split: if_splits\<close>)
  then show ?thesis using w so di se de by (simp add: tc)
qed

subsection \<open>Properties\<close>

text \<open>
  (C19) The list and the map of iterators together behave like one table from the watched values to their
  deadlines, together with the set of stale values: those that expired and were not forgotten. \<open>add\<close> enters a
  new value and refuses a watched or a stale one; \<open>update\<close> postpones a watched value and refuses an unknown one,
  \<open>del\<close> removes a watched value and refuses an unknown one, and both use an iterator whose node is gone exactly
  for a stale value; \<open>timer_check\<close> calls back exactly the values whose deadline has come, each once, and makes them
  stale. Every call keeps the list in the order of the deadlines, as long as the clock does not run backwards.
\<close>

theorem heartbeat_refines:
  assumes "hb_wf h" "hb_sorted now h"
  shows "(case hb_add now v h of (h', r) \<Rightarrow> hb_wf h' \<and> hb_sorted now h' \<and> (\<forall>w. stale h' w = stale h w) \<and>
      (if deadline h v = None \<and> \<not> stale h v then r = 0 \<and> deadline h' = (deadline h)(v \<mapsto> now + m_timeout h)
       else r = - 1 \<and> deadline h' = deadline h)) \<and>
    (case hb_update now v h of Inl e \<Rightarrow> e = Dangling \<and> stale h v
      | Inr (h', r) \<Rightarrow> \<not> stale h v \<and> hb_wf h' \<and> hb_sorted now h' \<and> (\<forall>w. stale h' w = stale h w) \<and>
        (if deadline h v = None then r = - 1 \<and> deadline h' = deadline h
         else r = 0 \<and> deadline h' = (deadline h)(v \<mapsto> now + m_timeout h))) \<and>
    (case hb_del v h of Inl e \<Rightarrow> e = Dangling \<and> stale h v
      | Inr (h', r) \<Rightarrow> \<not> stale h v \<and> hb_wf h' \<and> hb_sorted now h' \<and> (\<forall>w. stale h' w = stale h w) \<and>
        deadline h' = (deadline h)(v := None) \<and> (r = 0 \<longleftrightarrow> deadline h v \<noteq> None)) \<and>
    (case timer_check now h of (h', cbs) \<Rightarrow> hb_wf h' \<and> hb_sorted now h' \<and> distinct cbs \<and>
      set cbs = {v. \<exists>t. deadline h v = Some t \<and> t \<le> now} \<and>
      (\<forall>v. deadline h' v = (if v \<in> set cbs then None else deadline h v)) \<and> (\<forall>v. stale h' v \<longleftrightarrow> stale h v \<or> v \<in> set cbs))"
  by (intro conjI hb_add_spec hb_update_spec hb_del_spec timer_check_spec assms)

definition sample_hb :: "nat heartbeat" where
  "sample_hb = fst (hb_add 100 7 (set_option (Some 30) (new_heartbeat 100)))"

lemma sample_hb_eq: "sample_hb = \<lparr>m_timeout = 30, m_cur_tick = 100, m_data_map = [(7, 0)],
    m_time_sort_list = [\<lparr>node = 0, nd_value = 7, nd_timeout = 130\<rparr>], next_node = 1\<rparr>"
  by (simp add: sample_hb_def hb_add_def set_option_def new_heartbeat_def om_insert_def)

lemma sample_hb_ok: "hb_wf sample_hb" "hb_sorted 110 sample_hb"
  by (auto simp: sample_hb_eq hb_wf_def hb_sorted_def om_wf_def split: if_splits)

theorem heartbeat_refines_witness:
  "\<exists>h'. hb_update 110 7 sample_hb = Inr (h', 0) \<and> deadline h' 7 = Some 140"
proof -
  have "deadline sample_hb 7 \<noteq> None" "m_timeout sample_hb = 30" "\<not> stale sample_hb 7"
    by (simp_all add: deadline_def stale_def sample_hb_eq)
  with heartbeat_refines [OF sample_hb_ok, of 7] show ?thesis by (auto split: sum.splits prod.splits)
qed

text \<open>
  A socket that was closed for its silence: its end (\<open>del\<close>) and its next packet (\<open>update\<close>) use an iterator that is gone.
\<close>

lemma timer_check_expires:
  assumes "hb_wf h" "hb_sorted t0 h" "timer_check now h = (h', cbs)" "v \<in> set cbs"
  shows "hb_del v h' = Inl Dangling \<and> hb_update later v h' = Inl Dangling"
proof -
  have st: "stale h' v" "hb_wf h'" using timer_check_spec [OF assms(1,2), of now] assms(3,4) by auto
  show ?thesis using st(1) by (cases rule: hb_cases [OF st(2), of v]) (auto simp: hb_del_def hb_update_def)
qed

text \<open>
  The gateway's controller delivers the same packets as the common one, and a socket whose packet
  is announced larger than the limit is closed as soon as its head has arrived, unless the packet is
  already complete; its heartbeat is postponed only when the tick has changed.
\<close>

theorem gateway_read:
  assumes "hb_wf h" "hb_sorted now h" "\<not> stale h sk"
  shows "\<exists>c' close h'. gw_read now lim sk buff c h = Inr (c', snd (handle_read (gw_common c) buff), close, h') \<and>
    gw_common c' = fst (handle_read (gw_common c) buff) \<and> m_last_update_tm c' = m_cur_tick h \<and>
    (close \<longleftrightarrow> sizeof_head \<le> m_have_recv_size (gw_common c') \<and> lim < msg_size (m_message (gw_common c'))) \<and>
    (if m_last_update_tm c = m_cur_tick h then h' = h
     else deadline h' = (if deadline h sk = None then deadline h else (deadline h)(sk \<mapsto> now + m_timeout h)))"
proof (cases "m_last_update_tm c = m_cur_tick h")
  case True
  then show ?thesis by (auto simp: gw_read_def split_beta have_recv_head_def Let_def)
next
  case False
  from hb_update_spec [OF assms(1,2), of sk] assms(3) obtain h' r where "hb_update now sk h = Inr (h', r)"
    "deadline h' = (if deadline h sk = None then deadline h else (deadline h)(sk \<mapsto> now + m_timeout h))"
    by (auto split: sum.splits if_splits)
  with False show ?thesis by (auto simp: gw_read_def split_beta have_recv_head_def Let_def)
qed

theorem gateway_read_witness:
  "\<exists>c' close h'. gw_read 110 1000 7 ''ab'' \<lparr>gw_common = new_controller, m_last_update_tm = 100\<rparr> sample_hb =
    Inr (c', snd (handle_read new_controller ''ab''), close, h') \<and> h' = sample_hb"
  using gateway_read [OF sample_hb_ok, of 7 1000 "''ab''" "\<lparr>gw_common = new_controller, m_last_update_tm = 100\<rparr>"]
  by (auto simp: sample_hb_eq stale_def)

end
