(* ===== verification/Timer_Service.thy ===== *)
theory Timer_Service
  imports FF_Prelude "HOL-Library.Multiset"
begin

section \<open>The timer service\<close>

text \<open>
  \<open>timer_service_t\<close> of \<^verbatim>\<open>base/timer_service.h\<close>: timers are registered into a list from any thread; the
  service's thread moves them into a \<open>multimap\<close> ordered by the time they are due and runs those whose
  time has come. The clock readings are arguments, in milliseconds as 64-bit words; \<open>callback.run()\<close> is
  an output. The \<open>multimap\<close> is a list ordered by its key, the due time as a signed \<open>long\<close>, where an
  insertion goes behind the entries with an equal key.
\<close>

record 't registered_info_t =
  timeout :: u64
  dest_tm :: u64
  callback :: 't
  is_loop :: bool

record 't timer_service =
  m_runing :: bool
  m_tmp_register_list :: "'t registered_info_t list"
  m_registered_store :: "'t registered_info_t list"

definition new_timer_service :: "'t timer_service" where
  "new_timer_service = \<lparr>m_runing = True, m_tmp_register_list = [], m_registered_store = []\<rparr>"

definition is_timeout :: "u64 \<Rightarrow> 't registered_info_t \<Rightarrow> bool" where
  "is_timeout cur_ms x \<longleftrightarrow> dest_tm x \<le> cur_ms"

definition loop_timer :: "u64 \<Rightarrow> u64 \<Rightarrow> 't \<Rightarrow> 't timer_service \<Rightarrow> 't timer_service" where
  "loop_timer now ms func s = s\<lparr>m_tmp_register_list := m_tmp_register_list s @
     [\<lparr>timeout = ms, dest_tm = now + ms, callback = func, is_loop = True\<rparr>]\<rparr>"

definition once_timer :: "u64 \<Rightarrow> u64 \<Rightarrow> 't \<Rightarrow> 't timer_service \<Rightarrow> 't timer_service" where
  "once_timer now ms func s = s\<lparr>m_tmp_register_list := m_tmp_register_list s @
     [\<lparr>timeout = ms, dest_tm = now + ms, callback = func, is_loop = False\<rparr>]\<rparr>"

definition timer_callback :: "u64 \<Rightarrow> u64 \<Rightarrow> 't \<Rightarrow> 't timer_service \<Rightarrow> 't timer_service" where
  "timer_callback now ms func s = once_timer now ms func s"

definition key :: "'t registered_info_t \<Rightarrow> int" where
  "key x = sint (dest_tm x)"

fun store_insert :: "'t registered_info_t \<Rightarrow> 't registered_info_t list \<Rightarrow> 't registered_info_t list" where
  "store_insert x [] = [x]"
| "store_insert x (y # ys) = (if key x < key y then x # y # ys else y # store_insert x ys)"

definition add_new_timer :: "'t timer_service \<Rightarrow> 't timer_service" where
  "add_new_timer s = s\<lparr>m_registered_store := fold store_insert (m_tmp_register_list s) (m_registered_store s),
     m_tmp_register_list := []\<rparr>"

text \<open>
  The loop of \<open>process_timer_callback\<close>: the callbacks run, the loop timers registered again, and the entries
  from the first one that is not due on. \<open>again n\<close> is the clock that \<open>loop_timer\<close> reads for the timer in
  position \<open>n\<close>, after its callback has run.
\<close>

fun fire :: "u64 \<Rightarrow> (nat \<Rightarrow> u64) \<Rightarrow> 't registered_info_t list \<Rightarrow> 't timer_service \<Rightarrow> 't list \<times> 't registered_info_t list \<times> 't timer_service" where
  "fire now again [] s = ([], [], s)"
| "fire now again (x # xs) s =
     (if \<not> is_timeout now x then ([], x # xs, s)
      else let s1 = (if is_loop x then loop_timer (again 0) (timeout x) (callback x) s else s);
               (fired, rest, s2) = fire now (\<lambda>n. again (Suc n)) xs s1
           in (callback x # fired, rest, s2))"

definition process_timer_callback :: "u64 \<Rightarrow> (nat \<Rightarrow> u64) \<Rightarrow> 't timer_service \<Rightarrow> 't timer_service \<times> 't list" where
  "process_timer_callback now again s =
     (let (fired, rest, s1) = fire now again (m_registered_store s) s
      in (s1\<lparr>m_registered_store := rest\<rparr>, fired))"

text \<open>One turn of \<open>run\<close> after \<open>epoll_wait\<close> returned; a cancelled service ends.\<close>

definition timer_turn :: "u64 \<Rightarrow> (nat \<Rightarrow> u64) \<Rightarrow> 't timer_service \<Rightarrow> ('t timer_service \<times> 't list) option" where
  "timer_turn now again s = (if \<not> m_runing s then None else Some (process_timer_callback now again (add_new_timer s)))"

subsection \<open>The order of the store\<close>

definition store_sorted :: "'t timer_service \<Rightarrow> bool" where
  "store_sorted s \<longleftrightarrow> sorted_wrt (\<lambda>x y. key x \<le> key y) (m_registered_store s)"

text \<open>The times are ordinary ones: below the sign bit.\<close>

definition times_ok :: "'t registered_info_t list \<Rightarrow> bool" where
  "times_ok xs \<longleftrightarrow> (\<forall>x \<in> set xs. unat (dest_tm x) < 2 ^ 63)"

lemma key_unat: "unat (dest_tm x) < 2 ^ 63 \<Longrightarrow> key x = int (unat (dest_tm x))"
proof -
  assume "unat (dest_tm x) < 2 ^ 63"
  then have "int (unat (dest_tm x)) < int (2 ^ 63)" by (simp only: of_nat_less_iff)
  then have "int (unat (dest_tm x)) < 2 ^ 63" by simp
  then have "uint (dest_tm x) < 2 ^ 63" by (simp only: uint_nat)
  then have "signed_take_bit 63 (uint (dest_tm x)) = uint (dest_tm x)"
    by (intro signed_take_bit_int_eq_self order_trans [OF _ uint_ge_0]) simp_all
  then show ?thesis unfolding key_def sint_uint by (simp only: uint_nat len_num1 len_bit0 len_num0) simp
qed

lemma key_le_iff:
  assumes "unat (dest_tm x) < 2 ^ 63" "unat (dest_tm y) < 2 ^ 63"
  shows "key x \<le> key y \<longleftrightarrow> dest_tm x \<le> dest_tm y"
  unfolding key_unat [OF assms(1)] key_unat [OF assms(2)] word_le_nat_alt by (rule of_nat_le_iff)

lemma mset_store_insert [simp]: "mset (store_insert x xs) = add_mset x (mset xs)"
  by (induction xs) auto

lemma store_insert_sorted: "sorted_wrt (\<lambda>x y. key x \<le> key y) xs \<Longrightarrow> sorted_wrt (\<lambda>x y. key x \<le> key y) (store_insert x xs)"
proof (induction xs)
  case (Cons y ys)
  have "set (store_insert x ys) = insert x (set ys)" by (metis mset_store_insert set_mset_add_mset_insert set_mset_mset)
  with Cons show ?case by auto
qed simp

lemma fold_store_insert:
  "sorted_wrt (\<lambda>x y. key x \<le> key y) ys \<Longrightarrow> sorted_wrt (\<lambda>x y. key x \<le> key y) (fold store_insert xs ys) \<and>
    mset (fold store_insert xs ys) = mset xs + mset ys"
  by (induction xs arbitrary: ys) (simp_all add: store_insert_sorted)

text \<open>The loop timers among the timers that fired, registered again at the clock readings.\<close>

definition looped :: "(nat \<Rightarrow> u64) \<Rightarrow> 't registered_info_t list \<Rightarrow> 't registered_info_t list" where
  "looped again due = map (\<lambda>(n, x). \<lparr>timeout = timeout x, dest_tm = again n + timeout x, callback = callback x, is_loop = True\<rparr>)
     (filter (\<lambda>(n, x). is_loop x) (enumerate 0 due))"

lemma enumerate_shift: "enumerate (Suc n) xs = map (\<lambda>(i, x). (Suc i, x)) (enumerate n xs)"
  by (induction xs arbitrary: n) simp_all

lemma looped_Cons: "looped again (x # xs) =
    (if is_loop x then [\<lparr>timeout = timeout x, dest_tm = again 0 + timeout x, callback = callback x, is_loop = True\<rparr>] else []) @
    looped (\<lambda>n. again (Suc n)) xs"
  by (simp add: looped_def enumerate_shift filter_map comp_def split_def)

lemma looped_Nil [simp]: "looped again [] = []"
  by (simp add: looped_def)

lemma fire_spec:
  assumes "fire now again xs s = (fired, rest, s')"
  shows "fired = map callback (takeWhile (is_timeout now) xs) \<and> rest = dropWhile (is_timeout now) xs \<and>
    s' = s\<lparr>m_tmp_register_list := m_tmp_register_list s @ looped again (takeWhile (is_timeout now) xs)\<rparr>"
  using assms
proof (induction xs arbitrary: again s fired rest s')
  case (Cons x xs)
  show ?case
  proof (cases "is_timeout now x")
    case True
    obtain r l t where f: "fire now (\<lambda>n. again (Suc n)) xs (if is_loop x then loop_timer (again 0) (timeout x) (callback x) s else s) = (r, l, t)"
      by (metis prod_cases3)
    with Cons.prems True have "fired = callback x # r" "rest = l" "s' = t" by auto
    with Cons.IH [OF f] True show ?thesis by (auto simp: loop_timer_def looped_Cons)
  qed (use Cons.prems in auto)
qed simp

lemma sorted_takeWhile:
  assumes "sorted_wrt (\<lambda>x y. key x \<le> key y) xs" "times_ok xs"
  shows "takeWhile (is_timeout now) xs = filter (is_timeout now) xs \<and>
    dropWhile (is_timeout now) xs = filter (\<lambda>x. \<not> is_timeout now x) xs"
  using assms
proof (induction xs)
  case (Cons x xs)
  show ?case
  proof (cases "is_timeout now x")
    case False
    have "\<not> is_timeout now y" if "y \<in> set xs" for y
    proof -
      have "key x \<le> key y" using Cons.prems(1) that by auto
      then have "dest_tm x \<le> dest_tm y" using Cons.prems(2) that key_le_iff [of x y] by (simp add: times_ok_def)
      with False show ?thesis by (auto simp: is_timeout_def)
    qed
    then have "filter (is_timeout now) xs = []" "filter (\<lambda>x. \<not> is_timeout now x) xs = xs"
      by (simp_all add: filter_empty_conv filter_id_conv)
    with False show ?thesis by simp
  qed (use Cons in \<open>auto simp: times_ok_def\<close>)
qed simp

text \<open>
  (C20) One turn of the service runs exactly the timers that are due, each once, in the order of their
  times; the others stay, ordered; and exactly the loop timers among those that fired are registered
  again, a period after the clock reading taken for each.
\<close>

theorem timer_turn_fires:
  assumes "store_sorted s" "times_ok (m_registered_store s)" "times_ok (m_tmp_register_list s)"
    and "timer_turn now again s = Some (s', fired)"
  shows "\<exists>due. mset due = filter_mset (is_timeout now) (mset (m_registered_store s) + mset (m_tmp_register_list s)) \<and>
    sorted_wrt (\<lambda>x y. dest_tm x \<le> dest_tm y) due \<and> fired = map callback due \<and>
    mset (m_registered_store s') =
      filter_mset (\<lambda>x. \<not> is_timeout now x) (mset (m_registered_store s) + mset (m_tmp_register_list s)) \<and>
    store_sorted s' \<and>
    m_tmp_register_list s' = map (\<lambda>(n, x). \<lparr>timeout = timeout x, dest_tm = again n + timeout x, callback = callback x, is_loop = True\<rparr>)
      (filter (\<lambda>(n, x). is_loop x) (enumerate 0 due))"
proof -
  let ?st = "fold store_insert (m_tmp_register_list s) (m_registered_store s)"
  let ?due = "filter (is_timeout now) ?st"
  have st: "sorted_wrt (\<lambda>x y. key x \<le> key y) ?st" "mset ?st = mset (m_tmp_register_list s) + mset (m_registered_store s)"
    using fold_store_insert assms(1) unfolding store_sorted_def by blast+
  have "set ?st = set (m_tmp_register_list s) \<union> set (m_registered_store s)"
    using st(2) by (metis set_mset_mset set_mset_union)
  then have ok: "times_ok ?st" using assms(2,3) by (auto simp: times_ok_def)
  obtain r l t where f: "fire now again ?st (add_new_timer s) = (r, l, t)" by (metis prod_cases3)
  have "m_runing s" "s' = t\<lparr>m_registered_store := l\<rparr>" "fired = r"
    using assms(4) f by (auto simp: timer_turn_def process_timer_callback_def add_new_timer_def split: if_splits)
  with fire_spec [OF f] sorted_takeWhile [OF st(1) ok, of now] have s': "fired = map callback ?due"
    "m_registered_store s' = filter (\<lambda>x. \<not> is_timeout now x) ?st"
    "m_tmp_register_list s' = map (\<lambda>(n, x). \<lparr>timeout = timeout x, dest_tm = again n + timeout x, callback = callback x, is_loop = True\<rparr>)
      (filter (\<lambda>(n, x). is_loop x) (enumerate 0 ?due))"
    by (auto simp: add_new_timer_def looped_def)
  have "sorted_wrt (\<lambda>x y. dest_tm x \<le> dest_tm y) ?due"
  proof (rule sorted_wrt_mono_rel [OF _ sorted_wrt_filter [OF st(1)]])
    fix x y assume "x \<in> set ?due" "y \<in> set ?due" "key x \<le> key y"
    then show "dest_tm x \<le> dest_tm y" using ok key_le_iff [of x y] by (simp add: times_ok_def)
  qed
  with s' st show ?thesis
    by (intro exI [of _ ?due]) (simp add: store_sorted_def sorted_wrt_filter filter_union_mset [symmetric] add.commute del: filter_filter filter_union_mset)
qed

definition sample_timers :: "nat timer_service" where
  "sample_timers = once_timer 100 50 1 (loop_timer 100 20 2 new_timer_service)"

theorem timer_turn_fires_witness:
  "\<exists>s' fired. timer_turn 130 (\<lambda>n. 131 + of_nat n) sample_timers = Some (s', fired) \<and> fired = [2] \<and> map dest_tm (m_tmp_register_list s') = [151]"
proof -
  let ?x = "\<lparr>timeout = 20, dest_tm = 120, callback = 2, is_loop = True\<rparr> :: nat registered_info_t"
  have t: "timer_turn 130 (\<lambda>n. 131 + of_nat n) sample_timers \<noteq> None" "store_sorted sample_timers" "times_ok (m_registered_store sample_timers)"
    "times_ok (m_tmp_register_list sample_timers)"
    by (simp_all add: sample_timers_def timer_turn_def new_timer_service_def store_sorted_def times_ok_def
        once_timer_def loop_timer_def)
  then obtain s' fired where s': "timer_turn 130 (\<lambda>n. 131 + of_nat n) sample_timers = Some (s', fired)" by auto
  from timer_turn_fires [OF t(2-4) s'] obtain due where d:
    "mset due = {#?x#}" "fired = map callback due" "m_tmp_register_list s' = map (\<lambda>(n, x). \<lparr>timeout = timeout x,
      dest_tm = (131 + of_nat n) + timeout x, callback = callback x, is_loop = True\<rparr>) (filter (\<lambda>(n, x). is_loop x) (enumerate 0 due))"
    by (auto simp: sample_timers_def new_timer_service_def once_timer_def loop_timer_def is_timeout_def)
  then have "due = [?x]" by (simp add: mset_single_iff)
  with d s' show ?thesis by simp
qed

end
