(* ===== verification/Strtool.thy ===== *)
theory Strtool
  imports FF_Prelude
begin

section \<open>String and argument helpers\<close>

text \<open>
  \<open>strtool\<close> of \<^verbatim>\<open>base/strtool.h\<close> and \<open>arg_helper_t\<close> of \<^verbatim>\<open>base/arg_helper.h\<close>, over positions as the code
  has them (\<open>string::npos\<close> is \<open>None\<close>). \<open>split\<close> and \<open>replace\<close> loop for ever on an empty separator or
  pattern, so their loops are partial functions: \<open>None\<close> means that the loop does not return. The second
  half compares them with definitions that read the string once from left to right.
\<close>

subsection \<open>Searching\<close>

fun find_pos :: "('a \<Rightarrow> bool) \<Rightarrow> 'a list \<Rightarrow> nat option" where
  "find_pos P [] = None"
| "find_pos P (c # cs) = (if P c then Some 0 else map_option Suc (find_pos P cs))"

definition find_first_not_of :: "string \<Rightarrow> string \<Rightarrow> nat option" where
  "find_first_not_of sep str = find_pos (\<lambda>c. c \<notin> set sep) str"

definition find_last_not_of :: "string \<Rightarrow> string \<Rightarrow> nat option" where
  "find_last_not_of sep str = map_option (\<lambda>k. length str - 1 - k) (find_pos (\<lambda>c. c \<notin> set sep) (rev str))"

definition starts :: "'a list \<Rightarrow> 'a list \<Rightarrow> bool" where
  "starts p s \<longleftrightarrow> take (length p) s = p"

fun find_sub :: "string \<Rightarrow> string \<Rightarrow> nat option" where
  "find_sub p [] = (if p = [] then Some 0 else None)"
| "find_sub p (c # cs) = (if starts p (c # cs) then Some 0 else map_option Suc (find_sub p cs))"

text \<open>\<open>str.find(p, pos)\<close>.\<close>

definition find_from :: "string \<Rightarrow> string \<Rightarrow> nat \<Rightarrow> nat option" where
  "find_from str p pos = (if pos \<le> length str then map_option ((+) pos) (find_sub p (drop pos str)) else None)"

subsection \<open>\<open>trim\<close>, \<open>split\<close> and \<open>replace\<close>\<close>

definition trim :: "string \<Rightarrow> string" where
  "trim str = (case find_first_not_of '' '' str of None \<Rightarrow> str
   | Some pos \<Rightarrow> (case find_last_not_of '' '' str of
        Some pos2 \<Rightarrow> take (pos2 - pos + 1) (drop pos str)
      | None \<Rightarrow> drop pos str))"

definition push_back :: "string \<Rightarrow> string list \<Rightarrow> string list" where
  "push_back tmp ret = (if tmp \<noteq> [] then ret @ [tmp] else ret)"

partial_function (option) split_loop :: "string \<Rightarrow> string \<Rightarrow> nat option \<Rightarrow> string list \<Rightarrow> string list option" where
  "split_loop str sep pos_begin ret = (case pos_begin of None \<Rightarrow> Some ret
   | Some p \<Rightarrow> (case find_from str sep p of
        Some comma \<Rightarrow> split_loop str sep (Some (comma + length sep)) (push_back (take (comma - p) (drop p str)) ret)
      | None \<Rightarrow> split_loop str sep None (push_back (drop p str) ret)))"

definition split :: "string \<Rightarrow> string \<Rightarrow> string list \<Rightarrow> string list option" where
  "split str sep ret = (if str = [] then Some ret else split_loop str sep (find_first_not_of sep str) ret)"

partial_function (option) replace_loop :: "string \<Rightarrow> string \<Rightarrow> string \<Rightarrow> nat \<Rightarrow> nat option \<Rightarrow> string \<Rightarrow> string option" where
  "replace_loop str src dest pos_begin pos ret = (case pos of
     None \<Rightarrow> Some (if pos_begin < length str then ret @ drop pos_begin str else ret)
   | Some p \<Rightarrow> replace_loop str src dest (p + length src) (find_from str src (p + length src))
       (ret @ take (p - pos_begin) (drop pos_begin str) @ dest))"

definition replace :: "string \<Rightarrow> string \<Rightarrow> string \<Rightarrow> string option" where
  "replace str src dest = replace_loop str src dest 0 (find_from str src 0) []"

declare split_loop.simps [code] replace_loop.simps [code]

text \<open>
  \<open>utf8_words_num\<close> on the bytes in front of the terminating zero: each step looks at one byte and skips
  one to four. A step may jump behind the terminator, and the next read is then outside the string.
\<close>

definition utf8_skip :: "nat \<Rightarrow> nat" where
  "utf8_skip c = (if c \<le> 127 then 1 else if c < 192 then 2 else if c < 223 then 3 else 4)"

lemma utf8_skip_pos [termination_simp]: "0 < utf8_skip c"
  by (simp add: utf8_skip_def)

function utf8_loop :: "string \<Rightarrow> nat \<Rightarrow> nat \<Rightarrow> nat exc" where
  "utf8_loop s p ret =
     (if p > length s then Inl Out_of_range
      else if p = length s \<or> of_char (s ! p) = (0 :: nat) then Inr ret
      else utf8_loop s (p + utf8_skip (of_char (s ! p))) (ret + 1))"
  by pat_completeness auto

termination
  by (relation "measure (\<lambda>(s, p, ret). length s - p)") (auto simp: utf8_skip_pos diff_less_mono2)

definition utf8_words_num :: "string \<Rightarrow> nat exc" where
  "utf8_words_num s = utf8_loop s 0 0"

subsection \<open>\<open>arg_helper_t\<close>\<close>

type_synonym arg_helper_t = "string list"

definition arg_helper_argv :: "string list \<Rightarrow> arg_helper_t" where
  "arg_helper_argv argv = fold (\<lambda>a m_args. m_args @ [a]) argv []"

definition arg_helper_str :: "string \<Rightarrow> arg_helper_t option" where
  "arg_helper_str arg_str = split arg_str '' '' []"

text \<open>\<open>(size_t)idx\<close> of a negative index is beyond every vector.\<close>

definition get_option :: "int \<Rightarrow> arg_helper_t \<Rightarrow> string" where
  "get_option idx args = (if idx < 0 \<or> nat idx \<ge> length args then [] else args ! nat idx)"

fun is_enable_option :: "string \<Rightarrow> arg_helper_t \<Rightarrow> bool" where
  "is_enable_option opt [] = False"
| "is_enable_option opt (a # args) = (if opt = a then True else is_enable_option opt args)"

fun get_option_value :: "string \<Rightarrow> arg_helper_t \<Rightarrow> string" where
  "get_option_value opt [] = []"
| "get_option_value opt (a # args) =
     (if opt = a then (case args of [] \<Rightarrow> [] | v # _ \<Rightarrow> v) else get_option_value opt args)"

subsection \<open>Numbers in text\<close>

text \<open>
  \<open>atoi\<close>: white space, a sign, digits; what comes behind is ignored and a string without digits is 0.
  (A number beyond \<open>int\<close> is undefined in C; the model gives the number.) \<open>show_nat\<close> is what \<open>ostream\<close>
  prints for an unsigned number.
\<close>

definition is_digit :: "char \<Rightarrow> bool" where
  "is_digit c \<longleftrightarrow> (of_char c :: nat) \<in> {48..57}"

definition is_blank :: "char \<Rightarrow> bool" where
  "is_blank c \<longleftrightarrow> (of_char c :: nat) = 32 \<or> (of_char c :: nat) \<in> {9..13}"

definition digits_value :: "string \<Rightarrow> int" where
  "digits_value s = foldl (\<lambda>n c. 10 * n + (int (of_char c) - 48)) 0 (takeWhile is_digit s)"

definition atoi :: "string \<Rightarrow> int" where
  "atoi s = (case dropWhile is_blank s of
     [] \<Rightarrow> 0
   | c # cs \<Rightarrow> (if c = CHR ''-'' then - digits_value cs else if c = CHR ''+'' then digits_value cs else digits_value (c # cs)))"

fun show_nat :: "nat \<Rightarrow> string" where
  "show_nat n = (if n < 10 then [char_of (48 + n)] else show_nat (n div 10) @ [char_of (48 + n mod 10)])"

declare show_nat.simps [simp del]


subsection \<open>When \<open>split\<close> and \<open>replace\<close> return\<close>

lemma find_pos_Some: "find_pos P s = Some q \<Longrightarrow> q < length s \<and> P (s ! q) \<and> (\<forall>c \<in> set (take q s). \<not> P c)"
proof (induction s arbitrary: q)
  case (Cons c s)
  then show ?case by (cases q) (auto split: if_splits)
qed simp

lemma find_pos_None: "find_pos P s = None \<longleftrightarrow> (\<forall>c \<in> set s. \<not> P c)"
  by (induction s) auto

lemma find_sub_Some: "find_sub p s = Some q \<Longrightarrow> q + length p \<le> length s \<and> starts p (drop q s)"
proof (induction s arbitrary: q)
  case (Cons c s)
  then show ?case
    by (cases q) (auto simp: starts_def split: if_splits dest: arg_cong [of _ _ length])
qed (auto simp: starts_def split: if_splits)

lemma find_from_Some: "find_from str p pos = Some q \<Longrightarrow> pos \<le> q \<and> q + length p \<le> length str"
  using find_sub_Some [of p "drop pos str"] by (fastforce simp: find_from_def split: if_splits)

lemma find_from_empty: "pos \<le> length str \<Longrightarrow> find_from str [] pos = Some pos"
  by (cases "drop pos str") (auto simp: find_from_def starts_def)

lemma split_loop_returns: "sep \<noteq> [] \<Longrightarrow> \<exists>r. split_loop str sep pos ret = Some r"
proof (induction "case pos of None \<Rightarrow> 0 | Some p \<Rightarrow> Suc (length str - p)" arbitrary: pos ret rule: less_induct)
  case less
  show ?case
  proof (cases pos)
    case None
    then show ?thesis by (simp add: split_loop.simps)
  next
    case (Some p)
    show ?thesis
    proof (cases "find_from str sep p")
      case None
      then show ?thesis using Some less.hyps [of None] less.prems by (subst split_loop.simps) simp
    next
      case (Some q)
      have "p < q + length sep" "q + length sep \<le> length str"
        using find_from_Some [OF Some] less.prems by (cases sep; simp)+
      then have "length str - (q + length sep) < length str - p" by linarith
      then show ?thesis
        using \<open>pos = Some p\<close> Some less.hyps [of "Some (q + length sep)"] less.prems by (subst split_loop.simps) simp
    qed
  qed
qed

lemma split_loop_stuck:
  assumes "split_loop str sep pos ret = Some r"
  shows "sep = [] \<longrightarrow> (\<forall>p. pos = Some p \<longrightarrow> length str < p)"
proof (rule split_loop.raw_induct [OF _ assms, where P = "\<lambda>str sep pos ret r. sep = [] \<longrightarrow> (\<forall>p. pos = Some p \<longrightarrow> length str < p)"])
  fix loop and str sep :: string and pos ret and r :: "string list"
  assume IH: "\<And>str sep pos ret r. loop str sep pos ret = Some r \<Longrightarrow> sep = [] \<longrightarrow> (\<forall>p. pos = Some p \<longrightarrow> length str < p)"
    and body: "(case pos of None \<Rightarrow> Some ret
      | Some p \<Rightarrow> (case find_from str sep p of
          None \<Rightarrow> loop str sep None (push_back (drop p str) ret)
        | Some comma \<Rightarrow> loop str sep (Some (comma + length sep)) (push_back (take (comma - p) (drop p str)) ret))) = Some r"
  show "sep = [] \<longrightarrow> (\<forall>p. pos = Some p \<longrightarrow> length str < p)"
  proof (intro allI impI, rule ccontr)
    fix p assume p: "sep = []" "pos = Some p" "\<not> length str < p"
    then have "loop str sep (Some p) (push_back [] ret) = Some r" using body by (simp add: find_from_empty)
    with IH p show False by blast
  qed
qed

lemma replace_loop_returns:
  "src \<noteq> [] \<Longrightarrow> \<exists>r. replace_loop str src dest b (find_from str src b) ret = Some r"
proof (induction "length str - b" arbitrary: b ret rule: less_induct)
  case less
  show ?case
  proof (cases "find_from str src b")
    case (Some q)
    have "b < q + length src" "q + length src \<le> length str"
      using find_from_Some [OF Some] less.prems by (cases src; simp)+
    then have "length str - (q + length src) < length str - b" by linarith
    from less.hyps [OF this less.prems] show ?thesis using Some by (subst replace_loop.simps) simp
  qed (subst replace_loop.simps, simp)
qed

lemma replace_loop_stuck:
  assumes "replace_loop str src dest b pos ret = Some r"
  shows "src = [] \<longrightarrow> (\<forall>p. pos = Some p \<longrightarrow> length str < p)"
proof (rule replace_loop.raw_induct [OF _ assms, where P = "\<lambda>str src dest b pos ret r. src = [] \<longrightarrow> (\<forall>p. pos = Some p \<longrightarrow> length str < p)"])
  fix loop and str src dest :: string and b pos and ret r :: string
  assume IH: "\<And>str src dest b pos ret r. loop str src dest b pos ret = Some r \<Longrightarrow> src = [] \<longrightarrow> (\<forall>p. pos = Some p \<longrightarrow> length str < p)"
    and body: "(case pos of None \<Rightarrow> Some (if b < length str then ret @ drop b str else ret)
      | Some p \<Rightarrow> loop str src dest (p + length src) (find_from str src (p + length src))
          (ret @ take (p - b) (drop b str) @ dest)) = Some r"
  show "src = [] \<longrightarrow> (\<forall>p. pos = Some p \<longrightarrow> length str < p)"
  proof (intro allI impI, rule ccontr)
    fix p assume p: "src = []" "pos = Some p" "\<not> length str < p"
    then have "loop str src dest p (Some p) (ret @ take (p - b) (drop b str) @ dest) = Some r"
      using body by (simp add: find_from_empty)
    with IH p show False by blast
  qed
qed

text \<open>
  (C36) \<open>split\<close> returns for every separator that is not empty, and for the empty string; with an empty
  separator it never returns on any other string. \<open>replace\<close> returns exactly when the pattern is not
  empty.
\<close>

theorem split_replace_return:
  "((\<exists>r. split str sep ret = Some r) \<longleftrightarrow> str = [] \<or> sep \<noteq> []) \<and>
   ((\<exists>r. replace str src dest = Some r) \<longleftrightarrow> src \<noteq> [])"
proof
  have "find_first_not_of [] str = Some 0" if "str \<noteq> []"
    using that by (cases str) (auto simp: find_first_not_of_def)
  moreover have "split_loop str [] (Some 0) ret = None"
    using split_loop_stuck [of str "[]" "Some 0" ret] by (cases "split_loop str [] (Some 0) ret") (blast, fastforce)
  ultimately show "(\<exists>r. split str sep ret = Some r) \<longleftrightarrow> str = [] \<or> sep \<noteq> []"
    using split_loop_returns [of sep str] by (cases "sep = []") (auto simp: split_def)
  have "replace_loop str [] dest 0 (Some 0) [] = None"
    using replace_loop_stuck [of str "[]" dest 0 "Some 0" "[]"] by (cases "replace_loop str [] dest 0 (Some 0) []") (blast, fastforce)
  then show "(\<exists>r. replace str src dest = Some r) \<longleftrightarrow> src \<noteq> []"
    using replace_loop_returns [of src str dest 0 "[]"]
    by (cases "src = []") (auto simp: replace_def find_from_empty)
qed

theorem split_replace_return_witness:
  "(\<exists>r. split ''a,b'' '','' [] = Some r) \<and> split ''a'' [] [] = None \<and> replace ''a'' [] ''b'' = None"
  using split_replace_return [where str = "''a,b''" and sep = "'',''" and ret = "[]"]
    split_replace_return [where str = "''a''" and sep = "[]" and ret = "[]" and src = "[]" and dest = "''b''"]
  by simp

subsection \<open>What they compute\<close>

text \<open>The fields between the separators, empty ones included.\<close>

fun fields_of :: "char \<Rightarrow> string \<Rightarrow> string list" where
  "fields_of c [] = [[]]"
| "fields_of c (x # xs) = (if x = c then [] # fields_of c xs
     else case fields_of c xs of [] \<Rightarrow> [[x]] | y # ys \<Rightarrow> (x # y) # ys)"

lemma find_sub_char: "find_sub [c] s = find_pos (\<lambda>x. x = c) s"
  by (induction s) (auto simp: starts_def)

lemma fields_of_find:
  "(case find_pos (\<lambda>x. x = c) s of None \<Rightarrow> fields_of c s = [s]
    | Some q \<Rightarrow> fields_of c s = take q s # fields_of c (drop (Suc q) s))"
  by (induction s) (auto split: option.splits)

lemma split_loop_char:
  "p \<le> length str \<Longrightarrow>
    split_loop str [c] (Some p) ret = Some (ret @ filter (\<lambda>t. t \<noteq> []) (fields_of c (drop p str)))"
proof (induction "length str - p" arbitrary: p ret rule: less_induct)
  case less
  have f: "find_from str [c] p = map_option ((+) p) (find_pos (\<lambda>x. x = c) (drop p str))"
    using less.prems by (simp add: find_from_def find_sub_char)
  show ?case
  proof (cases "find_pos (\<lambda>x. x = c) (drop p str)")
    case None
    then show ?thesis
      using f fields_of_find [of c "drop p str"] by (simp add: split_loop.simps push_back_def)
  next
    case (Some q)
    have q: "p + q < length str" using find_pos_Some [OF Some] by auto
    have "split_loop str [c] (Some (p + q + 1)) (push_back (take q (drop p str)) ret) =
        Some (push_back (take q (drop p str)) ret @ filter (\<lambda>t. t \<noteq> []) (fields_of c (drop (p + q + 1) str)))"
      using q by (intro less.hyps) simp_all
    moreover have "fields_of c (drop p str) = take q (drop p str) # fields_of c (drop (p + q + 1) str)"
      using fields_of_find [of c "drop p str"] Some by (simp add: add.commute)
    ultimately show ?thesis using f Some by (subst split_loop.simps) (simp add: push_back_def)
  qed
qed

lemma fields_of_skip: "(\<forall>x \<in> set xs. x = c) \<Longrightarrow> filter (\<lambda>t. t \<noteq> []) (fields_of c (xs @ ys)) = filter (\<lambda>t. t \<noteq> []) (fields_of c ys)"
  by (induction xs) auto

lemma split_char: "split str [c] ret = Some (ret @ filter (\<lambda>t. t \<noteq> []) (fields_of c str))"
proof (cases "find_first_not_of [c] str")
  case None
  then have "\<forall>x \<in> set str. x = c" by (auto simp: find_first_not_of_def find_pos_None)
  then have "filter (\<lambda>t. t \<noteq> []) (fields_of c str) = []" using fields_of_skip [of str c "[]"] by simp
  with None show ?thesis by (simp add: split_def split_loop.simps)
next
  case (Some p)
  then have p: "p < length str" "\<forall>x \<in> set (take p str). x = c"
    using find_pos_Some by (auto simp: find_first_not_of_def)
  have "filter (\<lambda>t. t \<noteq> []) (fields_of c str) = filter (\<lambda>t. t \<noteq> []) (fields_of c (drop p str))"
    using fields_of_skip [OF p(2), of "drop p str"] by simp
  with Some p show ?thesis by (auto simp: split_def split_loop_char)
qed

fun join_with :: "char \<Rightarrow> string list \<Rightarrow> string" where
  "join_with c [] = []"
| "join_with c [w] = w"
| "join_with c (w # ws) = w @ c # join_with c ws"

lemma fields_of_word: "c \<notin> set w \<Longrightarrow> fields_of c (w @ s) = (w @ hd (fields_of c s)) # tl (fields_of c s)"
proof (induction w)
  case Nil
  have "fields_of c s \<noteq> []" by (induction s) (auto split: list.splits)
  then show ?case by simp
qed auto

lemma fields_of_join:
  "ws \<noteq> [] \<Longrightarrow> (\<forall>w \<in> set ws. c \<notin> set w) \<Longrightarrow> fields_of c (join_with c ws) = ws"
proof (induction c ws rule: join_with.induct)
  case (2 c w)
  then show ?case using fields_of_word [of c w "[]"] by simp
next
  case (3 c w v ws)
  then show ?case using fields_of_word [of c w "c # join_with c (v # ws)"] by simp
qed simp


text \<open>
  With a separator of one character \<open>split\<close> appends exactly the non-empty fields between the
  separators, in order; so an argument string made by joining words with blanks is taken apart into
  those words again.
\<close>

theorem split_fields:
  "split str [c] ret = Some (ret @ filter (\<lambda>t. t \<noteq> []) (fields_of c str)) \<and>
   ((\<forall>a \<in> set args. a \<noteq> [] \<and> CHR '' '' \<notin> set a) \<longrightarrow> arg_helper_str (join_with CHR '' '' args) = Some args)"
proof (intro conjI impI)
  show "split str [c] ret = Some (ret @ filter (\<lambda>t. t \<noteq> []) (fields_of c str))" by (rule split_char)
  assume a: "\<forall>a \<in> set args. a \<noteq> [] \<and> CHR '' '' \<notin> set a"
  show "arg_helper_str (join_with CHR '' '' args) = Some args"
  proof (cases "args = []")
    case False
    then have "fields_of CHR '' '' (join_with CHR '' '' args) = args" using a by (intro fields_of_join) auto
    moreover have "filter (\<lambda>t. t \<noteq> []) args = args" using a by (simp add: filter_id_conv)
    ultimately show ?thesis unfolding arg_helper_str_def split_char by simp
  qed (simp add: arg_helper_str_def split_char)
qed

theorem split_fields_witness:
  "split ''a,,b'' '','' [''x''] = Some [''x'', ''a'', ''b''] \<and>
   arg_helper_str ''broker -l tcp://*:1'' = Some [''broker'', ''-l'', ''tcp://*:1'']"
  using split_fields [of "''a,,b''" "CHR '',''" "[''x'']" "[''broker'', ''-l'', ''tcp://*:1'']"] by simp

text \<open>Replacing from left to right.\<close>

function subst_all :: "string \<Rightarrow> string \<Rightarrow> string \<Rightarrow> string" where
  "subst_all src dest s = (if s = [] then []
     else if src \<noteq> [] \<and> starts src s then dest @ subst_all src dest (drop (length src) s)
     else hd s # subst_all src dest (tl s))"
  by pat_completeness auto

termination
  by (relation "measure (\<lambda>(src, dest, s). length s)") auto

declare subst_all.simps [simp del]

lemma subst_all_find:
  assumes "src \<noteq> []"
  shows "(case find_sub src s of None \<Rightarrow> subst_all src dest s = s
    | Some q \<Rightarrow> subst_all src dest s = take q s @ dest @ subst_all src dest (drop (q + length src) s))"
proof (induction s)
  case Nil
  show ?case using assms by (simp add: subst_all.simps)
next
  case (Cons c s)
  show ?case
  proof (cases "starts src (c # s)")
    case True
    then show ?thesis using assms by (simp add: subst_all.simps [of _ _ "c # s"])
  next
    case False
    then show ?thesis using Cons assms by (auto simp: subst_all.simps [of _ _ "c # s"] split: option.splits)
  qed
qed

lemma replace_loop_subst:
  assumes "src \<noteq> []"
  shows "b \<le> length str \<Longrightarrow> replace_loop str src dest b (find_from str src b) ret = Some (ret @ subst_all src dest (drop b str))"
proof (induction "length str - b" arbitrary: b ret rule: less_induct)
  case less
  show ?case
  proof (cases "find_sub src (drop b str)")
    case None
    then show ?thesis using subst_all_find [OF assms, where s = "drop b str" and dest = dest] less.prems
      by (simp add: find_from_def replace_loop.simps)
  next
    case (Some q)
    have q: "b + q + length src \<le> length str" using find_sub_Some [OF Some] less.prems by auto
    moreover have "0 < length src" using assms by simp
    ultimately have "length str - (b + q + length src) < length str - b" by linarith
    from less.hyps [OF this q] have "replace_loop str src dest (b + q + length src) (find_from str src (b + q + length src))
        (ret @ take q (drop b str) @ dest) = Some ((ret @ take q (drop b str) @ dest) @ subst_all src dest (drop (b + q + length src) str))" .
    moreover have "subst_all src dest (drop b str) = take q (drop b str) @ dest @ subst_all src dest (drop (b + q + length src) str)"
      using subst_all_find [OF assms, where s = "drop b str" and dest = dest] Some by (simp add: add.commute add.left_commute)
    ultimately show ?thesis using Some less.prems by (subst replace_loop.simps) (simp add: find_from_def)
  qed
qed

lemma find_pos_dropWhile: "find_pos (\<lambda>c. \<not> P c) s = Some q \<Longrightarrow> dropWhile P s = drop q s \<and> q < length s"
  by (induction s arbitrary: q) (auto split: if_splits)

lemma trim_strip:
  "trim str = (if \<forall>c \<in> set str. c = CHR '' '' then str
     else rev (dropWhile (\<lambda>c. c = CHR '' '') (rev (dropWhile (\<lambda>c. c = CHR '' '') str))))"
proof (cases "find_pos (\<lambda>c. \<not> c = CHR '' '') str")
  case None
  then have "\<forall>c \<in> set str. c = CHR '' ''" unfolding find_pos_None by blast
  moreover have "trim str = str" using None by (simp add: trim_def find_first_not_of_def)
  ultimately show ?thesis by presburger
next
  case (Some p)
  have "find_pos (\<lambda>c. \<not> c = CHR '' '') str \<noteq> None" using Some by simp
  then have ex: "\<not> (\<forall>c \<in> set str. c = CHR '' '')" by (simp add: find_pos_None)
  then have "find_pos (\<lambda>c. \<not> c = CHR '' '') (rev str) \<noteq> None" by (simp add: find_pos_None)
  then obtain k where k: "find_pos (\<lambda>c. \<not> c = CHR '' '') (rev str) = Some k" by blast
  let ?P = "\<lambda>c. c = CHR '' ''"
  have p: "dropWhile ?P str = drop p str" "p < length str" using find_pos_dropWhile [OF Some] by auto
  have nb: "str ! p \<in> set (rev (drop p str))" "\<not> ?P (str ! p)"
    using find_pos_Some [OF Some] unfolding set_rev Cons_nth_drop_Suc [OF p(2), symmetric] by simp_all
  have "dropWhile ?P (rev (drop p str) @ rev (take p str)) = dropWhile ?P (rev (drop p str)) @ rev (take p str)"
    by (rule dropWhile_append1 [OF nb(1)]) (rule nb(2))
  moreover have "rev (drop p str) @ rev (take p str) = rev str" by (metis append_take_drop_id rev_append)
  ultimately have d: "drop k (rev str) = dropWhile ?P (rev (drop p str)) @ rev (take p str)"
    using find_pos_dropWhile [OF k] by simp
  define m where "m = dropWhile ?P (rev (drop p str))"
  have len: "length m + p = length str - k" using arg_cong [OF d, of length] p(2) by (simp add: m_def)
  have "take (length str - k) str = take p str @ rev m"
    using arg_cong [OF d, of rev] by (simp add: m_def rev_drop)
  then have "rev m = drop p (take (length str - k) str)" using p(2) by simp
  also have "\<dots> = take (length str - 1 - k - p + 1) (drop p str)"
  proof -
    have "m \<noteq> []" using nb by (auto simp: m_def simp del: set_rev)
    then have "length str - k - p = length str - 1 - k - p + 1" using len by (cases m) auto
    then show ?thesis by (simp add: drop_take)
  qed
  finally show ?thesis
    using ex Some k p(1) by (simp add: trim_def find_first_not_of_def find_last_not_of_def m_def) blast
qed

text \<open>
  \<open>replace\<close> replaces the occurrences of the pattern from left to right without looking into what
  it has put in, and \<open>trim\<close> removes the blanks at both ends, except that a string of blanks only is
  returned as it is.
\<close>

theorem replace_trim_spec:
  "(src \<noteq> [] \<longrightarrow> replace str src dest = Some (subst_all src dest str)) \<and>
   trim str = (if \<forall>c \<in> set str. c = CHR '' '' then str
     else rev (dropWhile (\<lambda>c. c = CHR '' '') (rev (dropWhile (\<lambda>c. c = CHR '' '') str))))"
proof
  show "src \<noteq> [] \<longrightarrow> replace str src dest = Some (subst_all src dest str)"
    using replace_loop_subst [of src 0 str dest "[]"] by (simp add: replace_def)
  show "trim str = (if \<forall>c \<in> set str. c = CHR '' '' then str
     else rev (dropWhile (\<lambda>c. c = CHR '' '') (rev (dropWhile (\<lambda>c. c = CHR '' '') str))))"
    by (rule trim_strip)
qed


theorem replace_trim_spec_witness:
  "replace ''a.b.c'' ''.'' ''..'' = Some ''a..b..c'' \<and> trim ''  x y '' = ''x y'' \<and> trim ''  '' = ''  ''"
  using replace_trim_spec [of "''.''" "''a.b.c''" "''..''"] replace_trim_spec [of "''.''" "''  x y ''"] replace_trim_spec [of "''.''" "''  ''"]
  by (simp add: subst_all.simps starts_def)

subsection \<open>Counting the characters of a text\<close>

lemma utf8_loop_ascii:
  "p \<le> length s \<Longrightarrow> \<forall>c \<in> set s. 0 < (of_char c :: nat) \<and> (of_char c :: nat) \<le> 127 \<Longrightarrow> utf8_loop s p ret = Inr (ret + (length s - p))"
proof (induction "length s - p" arbitrary: p ret)
  case 0
  then show ?case by (simp add: utf8_loop.simps)
next
  case (Suc n)
  then have "p < length s" by simp
  then have "of_char (s ! p) \<noteq> (0 :: nat)" "utf8_skip (of_char (s ! p)) = 1"
    using Suc.prems(2) by (auto simp: utf8_skip_def)
  moreover have "utf8_loop s (p + 1) (ret + 1) = Inr (ret + 1 + (length s - (p + 1)))"
    using Suc.hyps(2) \<open>p < length s\<close> Suc.prems(2) by (intro Suc.hyps(1)) auto
  ultimately show ?case using \<open>p < length s\<close> by (subst utf8_loop.simps) auto
qed

text \<open>
  \<open>utf8_words_num\<close> counts the characters of an ASCII text; but a text that ends in a two-byte
  character makes it read behind the terminating zero, because it takes the first byte (192 to 222)
  for the start of three.
\<close>

theorem utf8_words_num_ascii:
  "((\<forall>c \<in> set s. 0 < (of_char c :: nat) \<and> (of_char c :: nat) \<le> 127) \<longrightarrow> utf8_words_num s = Inr (length s)) \<and>
   ((\<forall>c \<in> set s. 0 < (of_char c :: nat) \<and> (of_char c :: nat) \<le> 127) \<longrightarrow> 192 \<le> (of_char a :: nat) \<and> (of_char a :: nat) < 223 \<longrightarrow>
     utf8_words_num (s @ [a, b]) = Inl Out_of_range)"
proof (intro conjI impI)
  assume a: "\<forall>c \<in> set s. 0 < (of_char c :: nat) \<and> (of_char c :: nat) \<le> 127"
  then show "utf8_words_num s = Inr (length s)"
    using utf8_loop_ascii [of 0 s 0] by (simp add: utf8_words_num_def)
  assume l: "192 \<le> (of_char a :: nat) \<and> (of_char a :: nat) < 223"
  have "p \<le> length s \<Longrightarrow> utf8_loop (s @ [a, b]) p ret = Inl Out_of_range" for p ret
  proof (induction "length s - p" arbitrary: p ret)
    case 0
    then have "p = length s" by simp
    then show ?case using l by (subst utf8_loop.simps) (simp add: utf8_skip_def utf8_loop.simps)
  next
    case (Suc n)
    then have p: "p < length s" by simp
    then have "of_char (s ! p) \<noteq> (0 :: nat)" "utf8_skip (of_char (s ! p)) = 1"
      using a by (auto simp: utf8_skip_def)
    moreover have "utf8_loop (s @ [a, b]) (p + 1) (ret + 1) = Inl Out_of_range"
      using Suc.hyps(2) p by (intro Suc.hyps(1)) auto
    ultimately show ?case using p by (subst utf8_loop.simps) (simp add: nth_append)
  qed
  then show "utf8_words_num (s @ [a, b]) = Inl Out_of_range" by (simp add: utf8_words_num_def)
qed

theorem utf8_words_num_ascii_witness:
  "utf8_words_num ''abc'' = Inr 3 \<and> utf8_words_num (''abc'' @ [CHR 0xC3, CHR 0xA9]) = Inl Out_of_range"
  using utf8_words_num_ascii [of "''abc''" "CHR 0xC3" "CHR 0xA9"] by simp

subsection \<open>Numbers printed and read back\<close>

lemma is_digit_char: "d < 10 \<Longrightarrow> is_digit (char_of (48 + d)) \<and> (of_char (char_of (48 + d) :: char) :: nat) = 48 + d"
  by (simp add: is_digit_def)

lemma show_nat_digits: "list_all is_digit (show_nat n)"
  by (induction n rule: show_nat.induct) (subst show_nat.simps, simp add: is_digit_char)

lemma show_nat_value: "foldl (\<lambda>m c. 10 * m + (int (of_char c) - 48)) 0 (show_nat n) = int n"
proof (induction n rule: show_nat.induct)
  case (1 n)
  show ?case
  proof (cases "n < 10")
    case True
    then show ?thesis by (subst show_nat.simps) (simp add: is_digit_char)
  next
    case False
    have "int (n div 10) * 10 + int (n mod 10) = int n" by (metis mult.commute of_nat_add of_nat_mult mult_div_mod_eq of_nat_numeral)
    with False 1 show ?thesis by (subst show_nat.simps) (simp add: is_digit_char)
  qed
qed

lemma show_nat_Cons: obtains c cs where "show_nat n = c # cs" "is_digit c"
  using show_nat_digits [of n] by (cases "show_nat n") (auto simp: show_nat.simps [of n] split: if_splits)

lemma atoi_show_nat:
  assumes "rest = [] \<or> \<not> is_digit (hd rest)"
  shows "atoi (show_nat n @ rest) = int n"
proof -
  obtain c cs where c: "show_nat n = c # cs" "is_digit c" by (rule show_nat_Cons)
  then have "\<not> is_blank c" "c \<noteq> CHR ''-''" "c \<noteq> CHR ''+''" by (auto simp: is_digit_def is_blank_def)
  then have "atoi (show_nat n @ rest) = digits_value (show_nat n @ rest)" using c by (simp add: atoi_def)
  also have "takeWhile is_digit (show_nat n @ rest) = show_nat n"
    using show_nat_digits [of n] assms by (cases rest) (auto simp: list_all_iff takeWhile_append2 takeWhile_eq_all_conv)
  then have "digits_value (show_nat n @ rest) = int n" by (simp add: digits_value_def show_nat_value)
  finally show ?thesis .
qed

end
