(* ===== verification/Text_Controller.thy ===== *)
theory Text_Controller
  imports Message Strtool
begin

section \<open>The text protocol\<close>

text \<open>
  \<open>text_socket_controller_impl_t\<close> (\<^verbatim>\<open>net/text_socket_controller_impl.h\<close>, \<open>.cpp\<close>): requests of the form
  \<open>size\<close>, blank, CR LF, body, or the first line of an HTTP request. The buffer is what \<open>::read\<close> gave, followed
  by the zero that the socket writes behind it, so \<open>strstr\<close> stops there; pointers into it are offsets.
  What the controller does to the outside is a list of events.
\<close>

datatype protocol_e = TXT_PROTOCOL | HTTP_PROTOCOL | UNKNOWN_PROTOCOL

datatype text_event = Text_msg message_t | Text_send string | Text_close | Text_broken

record text_controller =
  tc_protocol :: protocol_e
  tc_head_end_flag :: bool
  tc_body_size :: size_t
  tc_head :: string
  tc_message :: message_t

definition new_text_controller :: text_controller where
  "new_text_controller = \<lparr>tc_protocol = UNKNOWN_PROTOCOL, tc_head_end_flag = False, tc_body_size = 0,
     tc_head = [], tc_message = new_message\<rparr>"

definition crlf :: string where
  "crlf = [CHR 0x0D, CHR 0x0A]"

text \<open>\<open>::strstr(buff + off, "\r\n")\<close>, as an offset from the start of the buffer.\<close>

definition strstr_crlf :: "string \<Rightarrow> nat \<Rightarrow> nat option" where
  "strstr_crlf buff off = map_option ((+) off) (find_sub crlf (takeWhile (\<lambda>c. c \<noteq> CHR 0x00) (drop off buff)))"

definition analyze_protocol :: "string \<Rightarrow> text_controller \<Rightarrow> text_controller" where
  "analyze_protocol buff t =
     (if tc_protocol t \<noteq> UNKNOWN_PROTOCOL then t
      else if tc_head t \<noteq> [] then t\<lparr>tc_protocol := (if hd (tc_head t) = CHR ''G'' then HTTP_PROTOCOL else TXT_PROTOCOL)\<rparr>
      else t\<lparr>tc_protocol := (if buff \<noteq> [] \<and> hd buff = CHR ''G'' then HTTP_PROTOCOL else TXT_PROTOCOL)\<rparr>)"

text \<open>\<open>parse_msg_head\<close>: one to three fields, of which the first is the size; the \<open>int\<close> of \<open>atoi\<close> becomes a \<open>size_t\<close>.
  With a separator that is not empty \<open>split\<close> returns, so \<open>the\<close> is defined.\<close>

definition parse_msg_head :: "text_controller \<Rightarrow> text_controller \<times> int" where
  "parse_msg_head t =
     (let vt = the (split (tc_head t) '' '' [])
      in if length vt \<in> {1, 2, 3} then (t\<lparr>tc_body_size := word_of_int (atoi (vt ! 0))\<rparr>, 0) else (t, - 1))"

text \<open>\<open>append_msg_body\<close> with \<open>left\<close> bytes at \<open>rest\<close>: the state, the events and the bytes consumed.\<close>

definition append_msg_body :: "string \<Rightarrow> text_controller \<Rightarrow> text_controller \<times> text_event list \<times> nat" where
  "append_msg_body rest t =
     (let tmp = (if unat (tc_body_size t) > length rest then length rest else unat (tc_body_size t));
          t1 = t\<lparr>tc_body_size := tc_body_size t - word_of_nat tmp, tc_message := fst (append_msg (take tmp rest) (tc_message t))\<rparr>
      in if tc_body_size t1 = 0
         then (t1\<lparr>tc_head_end_flag := False, tc_head := [], tc_message := clear (tc_message t1)\<rparr>, [Text_msg (tc_message t1)], tmp)
         else (t1, [], tmp))"

text \<open>
  The head part of a turn of \<open>parse_text_protocol\<close>. \<open>m_head.append(buff_begin, pos - buff)\<close> counts from the start of the
  buffer, not from \<open>buff_begin\<close>: behind the first request it copies more than the line, and fails here
  when that reaches behind the zero at the end of the received bytes.
\<close>

datatype head_step = Head_more text_controller | Head_error text_controller | Head_done text_controller nat

definition text_head :: "string \<Rightarrow> nat \<Rightarrow> text_controller \<Rightarrow> head_step exc" where
  "text_head buff off t = (case strstr_crlf buff off of
     None \<Rightarrow> Inr (Head_more (t\<lparr>tc_head := tc_head t @ drop off buff\<rparr>))
   | Some pos \<Rightarrow>
      (if off + pos > length buff + 1 then Inl Out_of_range
       else let t1 = t\<lparr>tc_head := tc_head t @ take pos (drop off (buff @ [CHR 0x00]))\<rparr>;
                (t2, r) = parse_msg_head t1
            in if r \<noteq> 0 then Inr (Head_error t2)
               else Inr (Head_done (t2\<lparr>tc_head_end_flag := True\<rparr>) (pos + 2))))"

lemma find_sub_bound: "find_sub p s = Some q \<Longrightarrow> q + length p \<le> length s"
  using find_sub_Some by blast

lemma strstr_crlf_bound: "strstr_crlf buff off = Some pos \<Longrightarrow> off \<le> pos \<and> pos + 2 \<le> length buff"
  using find_sub_bound [of crlf "takeWhile (\<lambda>c. c \<noteq> CHR 0x00) (drop off buff)"]
    length_takeWhile_le [of "\<lambda>c. c \<noteq> CHR 0x00" "drop off buff"]
  by (fastforce simp: strstr_crlf_def crlf_def)

lemma text_head_done: "text_head buff off t = Inr (Head_done t1 off1) \<Longrightarrow> off < off1 \<and> off1 \<le> length buff"
  by (auto simp: text_head_def Let_def split: option.splits if_splits prod.splits dest!: strstr_crlf_bound)

lemma append_msg_body_len: "append_msg_body rest t = (t1, es, tmp) \<Longrightarrow> tmp \<le> length rest \<and> (tmp = 0 \<longrightarrow> rest = [] \<or> \<not> tc_head_end_flag t1)"
  by (auto simp: append_msg_body_def Let_def unat_eq_0 split: if_splits)

text \<open>
  One turn of the loop of \<open>parse_text_protocol\<close>: it returns, or goes on at an offset behind which bytes are
  left (\<open>left\<close> is \<open>length buff - off\<close>).
\<close>

datatype turn = Stop text_controller "text_event list" int | Go_on text_controller "text_event list" nat

definition text_body :: "string \<Rightarrow> nat \<Rightarrow> text_controller \<Rightarrow> turn" where
  "text_body buff off t =
     (let (t1, es, consume) = append_msg_body (drop off buff) t
      in if off + consume < length buff then Go_on t1 es (off + consume) else Stop t1 es 0)"

definition text_turn :: "string \<Rightarrow> nat \<Rightarrow> text_controller \<Rightarrow> turn exc" where
  "text_turn buff off t =
     (if tc_head_end_flag t then Inr (text_body buff off t)
      else case text_head buff off t of
        Inl e \<Rightarrow> Inl e
      | Inr (Head_more t1) \<Rightarrow> Inr (Stop t1 [] 0)
      | Inr (Head_error t1) \<Rightarrow> Inr (Stop t1 [Text_send (''ERROR'' @ crlf)] (- 1))
      | Inr (Head_done t1 off1) \<Rightarrow> Inr (text_body buff off1 t1))"

definition text_left :: "string \<Rightarrow> nat \<Rightarrow> text_controller \<Rightarrow> nat" where
  "text_left buff off t = 2 * (length buff - off) + (if tc_head_end_flag t then 1 else 0)"

lemma text_body_go: "text_body buff off t = Go_on t1 es off1 \<Longrightarrow>
    off \<le> off1 \<and> off1 < length buff \<and> (off1 = off \<longrightarrow> \<not> tc_head_end_flag t1)"
  using append_msg_body_len [of "drop off buff" t]
  by (auto simp: text_body_def split: if_splits prod.splits)

text \<open>Every turn takes bytes from the buffer, or finishes a request whose body is empty.\<close>

lemma text_turn_go:
  assumes "text_turn buff off t = Inr (Go_on t1 es off1)"
  shows "text_left buff off1 t1 < text_left buff off t"
proof (cases "tc_head_end_flag t")
  case True
  with assms have "text_body buff off t = Go_on t1 es off1" by (simp add: text_turn_def)
  from text_body_go [OF this] True show ?thesis by (auto simp: text_left_def)
next
  case False
  with assms obtain t0 off0 where "text_head buff off t = Inr (Head_done t0 off0)" "text_body buff off0 t0 = Go_on t1 es off1"
    by (auto simp: text_turn_def split: sum.splits head_step.splits)
  with text_head_done text_body_go have "off < off1" "off1 < length buff" by (metis order.strict_trans1 order.strict_trans2)+
  with False show ?thesis by (auto simp: text_left_def)
qed

function text_loop :: "string \<Rightarrow> nat \<Rightarrow> text_controller \<Rightarrow> (text_controller \<times> text_event list \<times> int) exc" where
  "text_loop buff off t = (case text_turn buff off t of
     Inl e \<Rightarrow> Inl e
   | Inr (Stop t1 es r) \<Rightarrow> Inr (t1, es, r)
   | Inr (Go_on t1 es off1) \<Rightarrow> (case text_loop buff off1 t1 of
        Inl e \<Rightarrow> Inl e
      | Inr (t2, es2, r) \<Rightarrow> Inr (t2, es @ es2, r)))"
  by pat_completeness auto

termination
  by (relation "measure (\<lambda>(buff, off, t). text_left buff off t)") (auto dest: text_turn_go)

declare text_loop.simps [simp del]

definition parse_text_protocol :: "string \<Rightarrow> text_controller \<Rightarrow> (text_controller \<times> text_event list \<times> int) exc" where
  "parse_text_protocol buff t = text_loop buff 0 t"

definition parse_http_protocol :: "string \<Rightarrow> text_controller \<Rightarrow> text_controller \<times> text_event list \<times> int" where
  "parse_http_protocol buff t =
     (if tc_head_end_flag t then (t, [], 0)
      else case strstr_crlf buff 0 of
        None \<Rightarrow> (t\<lparr>tc_head := tc_head t @ buff\<rparr>, [], 0)
      | Some pos \<Rightarrow>
         (let t1 = t\<lparr>tc_head := tc_head t @ take pos buff\<rparr>;
              vt = the (split (tc_head t1) '' '' []);
              t2 = (if length vt > 1 then t1\<lparr>tc_message := append_to_body (vt ! 1) (tc_message t1)\<rparr> else t1);
              t3 = t2\<lparr>tc_head_end_flag := True\<rparr>
          in (t3, [Text_msg (tc_message t3)], 0)))"

definition text_handle_read :: "string \<Rightarrow> text_controller \<Rightarrow> (text_controller \<times> text_event list \<times> int) exc" where
  "text_handle_read buff t =
     (let t1 = analyze_protocol buff t
      in if tc_protocol t1 = TXT_PROTOCOL then parse_text_protocol buff t1 else Inr (parse_http_protocol buff t1))"

text \<open>\<open>handle_error\<close> only tells the message handler that the socket is broken.\<close>

definition text_handle_error :: "text_controller \<Rightarrow> text_controller \<times> text_event list \<times> int" where
  "text_handle_error t = (t, [Text_broken], 0)"

definition text_write_completed :: "text_controller \<Rightarrow> text_event list" where
  "text_write_completed t = (if tc_protocol t = HTTP_PROTOCOL then [Text_close] else [])"

text \<open>What \<open>check_pre_send\<close> makes of an answer.\<close>

definition text_check_pre_send :: "text_controller \<Rightarrow> string \<Rightarrow> int \<times> string" where
  "text_check_pre_send t buff = (0,
     if tc_protocol t = HTTP_PROTOCOL
     then ''HTTP/1.0 200 OK'' @ crlf @ ''Connection: Close'' @ crlf @ ''Content-type: text/html'' @ crlf @
          ''Content-length: '' @ show_nat (length buff) @ crlf @ crlf @ buff
     else show_nat (length buff) @ '' '' @ crlf @ buff)"


subsection \<open>What the handler gets\<close>

lemma append_msg_new [simp]: "fst (append_msg b new_message) = new_message"
  by (simp add: append_msg_def new_message_def new_head_def msg_size_def len_t_def)

lemma append_body_new:
  assumes "tc_message t = new_message" "append_msg_body rest t = (t1, es, n)"
  shows "tc_message t1 = new_message \<and> (\<forall>m. Text_msg m \<in> set es \<longrightarrow> m = new_message)"
  using assms by (auto simp: append_msg_body_def Let_def split: if_splits)

lemma text_turn_new:
  assumes "tc_message t = new_message" "text_turn buff off t = Inr tn"
  shows "case tn of Stop t1 es r \<Rightarrow> tc_message t1 = new_message \<and> (\<forall>m. Text_msg m \<in> set es \<longrightarrow> m = new_message)
    | Go_on t1 es off1 \<Rightarrow> tc_message t1 = new_message \<and> (\<forall>m. Text_msg m \<in> set es \<longrightarrow> m = new_message)"
proof -
  have body: "case text_body buff o1 t1 of Stop t2 es r \<Rightarrow> tc_message t2 = new_message \<and> (\<forall>m. Text_msg m \<in> set es \<longrightarrow> m = new_message)
    | Go_on t2 es off2 \<Rightarrow> tc_message t2 = new_message \<and> (\<forall>m. Text_msg m \<in> set es \<longrightarrow> m = new_message)"
    if "tc_message t1 = new_message" for t1 o1
    using append_body_new [OF that] by (auto simp: text_body_def split: prod.splits if_splits)
  have "tc_message (fst (parse_msg_head t')) = tc_message t'" for t' by (simp add: parse_msg_head_def Let_def)
  then have "text_head buff off t = Inr hs \<Longrightarrow> case hs of Head_more t1 \<Rightarrow> tc_message t1 = new_message
      | Head_error t1 \<Rightarrow> tc_message t1 = new_message | Head_done t1 _ \<Rightarrow> tc_message t1 = new_message" for hs
    using assms(1) by (auto simp: text_head_def Let_def split_beta split: option.splits if_splits)
  then show ?thesis using assms body
    by (auto simp: text_turn_def split: if_splits sum.splits head_step.splits)
qed

lemma text_loop_new:
  "tc_message t = new_message \<Longrightarrow> text_loop buff off t = Inr (t', es, r) \<Longrightarrow>
    tc_message t' = new_message \<and> (\<forall>m. Text_msg m \<in> set es \<longrightarrow> m = new_message)"
proof (induction buff off t arbitrary: t' es r rule: text_loop.induct)
  case (1 buff off t)
  obtain tn where tn: "text_turn buff off t = Inr tn"
    using 1(3) by (subst (asm) text_loop.simps) (auto split: sum.splits)
  show ?case
  proof (cases tn)
    case (Stop t1 es1 r1)
    with 1(3) tn have "t' = t1" "es = es1" by (simp_all add: text_loop.simps [of buff off t])
    with Stop text_turn_new [OF 1(2) tn] show ?thesis by simp
  next
    case (Go_on t1 es1 off1)
    with 1(3) tn obtain es2 where es2: "text_loop buff off1 t1 = Inr (t', es2, r)" "es = es1 @ es2"
      by (simp add: text_loop.simps [of buff off t] split: sum.splits prod.splits)
    have t1: "tc_message t1 = new_message" "\<forall>m. Text_msg m \<in> set es1 \<longrightarrow> m = new_message"
      using text_turn_new [OF 1(2) tn] Go_on by simp_all
    have "tc_message t' = new_message \<and> (\<forall>m. Text_msg m \<in> set es2 \<longrightarrow> m = new_message)"
      by (rule 1(1) [OF tn Go_on t1(1) es2(1)])
    with t1(2) show ?thesis unfolding es2(2) set_append by blast
  qed
qed

text \<open>
  The text protocol loses every body. The message that collects it has the size 0 in its head,
  so \<open>append_msg\<close> takes none of the bytes it is given: whatever a text client sends, in whatever
  pieces, every message that reaches the handler has an empty body.
\<close>

theorem text_bodies_empty:
  assumes "tc_message t = new_message" "tc_protocol (analyze_protocol buff t) = TXT_PROTOCOL"
    and "text_handle_read buff t = Inr (t', es, r)"
  shows "tc_message t' = new_message \<and> (\<forall>m. Text_msg m \<in> set es \<longrightarrow> get_body m = [])"
proof -
  have "tc_message (analyze_protocol buff t) = new_message" using assms(1) by (simp add: analyze_protocol_def)
  moreover have "text_loop buff 0 (analyze_protocol buff t) = Inr (t', es, r)"
    using assms(2,3) by (simp add: text_handle_read_def parse_text_protocol_def)
  ultimately have "tc_message t' = new_message \<and> (\<forall>m. Text_msg m \<in> set es \<longrightarrow> m = new_message)"
    by (rule text_loop_new)
  moreover have "get_body new_message = []" by (simp add: get_body_def new_message_def)
  ultimately show ?thesis by auto
qed

subsection \<open>An answer read by another controller\<close>

lemma parse_msg_head_one:
  assumes "tc_head t = show_nat n @ '' ''" "n < 2 ^ 31"
  shows "parse_msg_head t = (t\<lparr>tc_body_size := word_of_nat n\<rparr>, 0)"
proof -
  have d: "CHR '' '' \<notin> set (show_nat n)" using show_nat_digits [of n] by (auto simp: list_all_iff is_digit_def)
  obtain c cs where "show_nat n = c # cs" by (rule show_nat_Cons)
  then have "split (tc_head t) '' '' [] = Some [show_nat n]"
    using fields_of_word [OF d, of "'' ''"] by (simp add: split_char assms(1))
  then show ?thesis using atoi_show_nat [of "[]" n] by (simp add: parse_msg_head_def)
qed

lemma find_sub_first:
  assumes "CHR 0x0D \<notin> set w"
  shows "find_sub crlf (w @ crlf @ s) = Some (length w)"
  using assms by (induction w) (auto simp: crlf_def starts_def)

text \<open>
  An answer sent to a text client is framed correctly: another controller that reads it from a
  new state takes exactly one message, consumes exactly the body that was announced and is ready for
  the next request, for every body below \<open>2 ^ 31\<close> bytes.
\<close>

theorem text_reply_framed:
  assumes "tc_protocol t \<noteq> HTTP_PROTOCOL" "length body < 2 ^ 31"
  shows "text_handle_read (snd (text_check_pre_send t body)) new_text_controller =
    Inr (new_text_controller\<lparr>tc_protocol := TXT_PROTOCOL\<rparr>, [Text_msg new_message], 0)"
proof -
  let ?n = "length body"
  let ?h = "show_nat ?n @ '' ''"
  let ?buff = "?h @ crlf @ body"
  let ?t0 = "new_text_controller\<lparr>tc_protocol := TXT_PROTOCOL\<rparr>"
  let ?t1 = "?t0\<lparr>tc_head := ?h, tc_body_size := word_of_nat ?n, tc_head_end_flag := True\<rparr>"
  have buff: "snd (text_check_pre_send t body) = ?buff" using assms(1) by (simp add: text_check_pre_send_def)
  have dig: "\<forall>c \<in> set (show_nat ?n). is_digit c" using show_nat_digits [of ?n] by (simp add: list_all_iff)
  then have nocr: "CHR 0x0D \<notin> set ?h" and no0: "\<forall>c \<in> set (?h @ crlf). c \<noteq> CHR 0x00"
    by (auto simp: is_digit_def crlf_def)
  obtain c cs where c: "show_nat ?n = c # cs" "is_digit c" by (rule show_nat_Cons)
  then have proto: "analyze_protocol ?buff new_text_controller = ?t0"
    by (auto simp: analyze_protocol_def new_text_controller_def is_digit_def)
  have "takeWhile (\<lambda>c. c \<noteq> CHR 0x00) ?buff = ?h @ crlf @ takeWhile (\<lambda>c. c \<noteq> CHR 0x00) body"
    using takeWhile_append2 [of "?h @ crlf" "\<lambda>c. c \<noteq> CHR 0x00" body] no0 by auto
  then have pos: "strstr_crlf ?buff 0 = Some (length ?h)"
    using find_sub_first [OF nocr] by (simp add: strstr_crlf_def)
  have head: "text_head ?buff 0 ?t0 = Inr (Head_done ?t1 (length ?h + 2))"
    using pos parse_msg_head_one [of "?t0\<lparr>tc_head := ?h\<rparr>" ?n] assms(2)
    by (simp add: text_head_def new_text_controller_def)
  have n: "unat (word_of_nat ?n :: size_t) = ?n" using assms(2) by (simp add: unat_of_nat take_bit_nat_eq_self)
  have "text_body ?buff (length ?h + 2) ?t1 = Stop ?t0 [Text_msg new_message] 0"
    using n by (simp add: text_body_def append_msg_body_def Let_def crlf_def new_text_controller_def)
  then have "text_turn ?buff 0 ?t0 = Inr (Stop ?t0 [Text_msg new_message] 0)"
    using head by (simp add: text_turn_def new_text_controller_def)
  then have "text_loop ?buff 0 ?t0 = Inr (?t0, [Text_msg new_message], 0)" by (subst text_loop.simps) simp
  then show ?thesis unfolding buff text_handle_read_def proto Let_def parse_text_protocol_def by simp
qed

theorem text_reply_framed_witness:
  "text_handle_read (''5 '' @ crlf @ ''hello'') new_text_controller =
    Inr (new_text_controller\<lparr>tc_protocol := TXT_PROTOCOL\<rparr>, [Text_msg new_message], 0)"
  using text_reply_framed [of new_text_controller "''hello''"]
  by (simp add: text_check_pre_send_def new_text_controller_def show_nat.simps char_of_def bit_0)

theorem text_bodies_empty_witness:
  "\<exists>t'. text_handle_read (''5 '' @ crlf @ ''hello'') new_text_controller = Inr (t', [Text_msg new_message], 0) \<and> get_body new_message = []"
proof -
  have r: "text_handle_read (''5 '' @ crlf @ ''hello'') new_text_controller =
    Inr (new_text_controller\<lparr>tc_protocol := TXT_PROTOCOL\<rparr>, [Text_msg new_message], 0)"
    by (simp add: text_handle_read_def analyze_protocol_def parse_text_protocol_def text_loop.simps text_turn_def
        text_head_def text_body_def append_msg_body_def strstr_crlf_def crlf_def starts_def parse_msg_head_def split_char
        new_text_controller_def Let_def atoi_def digits_value_def is_digit_def is_blank_def)
  have "tc_protocol (analyze_protocol (''5 '' @ crlf @ ''hello'') new_text_controller) = TXT_PROTOCOL"
    by (simp add: analyze_protocol_def new_text_controller_def)
  from text_bodies_empty [OF _ this r] r show ?thesis by (simp add: new_text_controller_def)
qed


text \<open>
  Requests that arrive in one buffer are not independent: behind the first one the line is copied
  with a length counted from the start of the buffer. Two short requests make the controller read
  behind the received bytes, and a second request whose body has blanks is refused with an error.
\<close>

theorem pipelined_requests_misread:
  "text_handle_read (''1 '' @ crlf @ ''a'' @ ''1 '' @ crlf @ ''b'') new_text_controller = Inl Out_of_range \<and>
   (\<exists>t. text_handle_read (''5 '' @ crlf @ ''hello'' @ ''9 '' @ crlf @ ''x y z w v'') new_text_controller =
      Inr (t, [Text_msg new_message, Text_send (''ERROR'' @ crlf)], - 1))"
  by (simp add: text_handle_read_def analyze_protocol_def parse_text_protocol_def text_loop.simps text_turn_def
      text_head_def text_body_def append_msg_body_def strstr_crlf_def crlf_def starts_def parse_msg_head_def split_char
      new_text_controller_def Let_def atoi_def digits_value_def is_digit_def is_blank_def)

end
