(* ===== verification/Smart_Ptr.thy ===== *)
theory Smart_Ptr
  imports FF_Prelude
begin

section \<open>Reference-counted pointers\<close>

text \<open>
  \<open>shared_ptr_t\<close> and \<open>weak_ptr_t\<close> of \<^verbatim>\<open>base/smart_ptr.h\<close> over an explicit heap: objects are alive or deleted,
  and a \<open>ref_data_t\<close> is a pair of counters at an address, or gone. Using what is gone is \<open>Dangling\<close>, deleting
  it again too. A handle is the pair of its pointers; the counters are \<open>ref_count_t\<close>s, whose operations
  are atomic, and one operation of a handle is one step here. \<open>owner\<close> is not in the code: it records which
  object a block of counters was made for.
\<close>

record ref_data_t =
  m_ref_count :: int
  m_weak_ref_count :: int

record sp_heap =
  alive :: "nat \<Rightarrow> bool"
  ref_datas :: "nat \<Rightarrow> ref_data_t option"
  next_data :: nat
  owner :: "nat \<Rightarrow> nat option"

record handle =
  m_dest_ptr :: "nat option"
  m_ref_data :: "nat option"

definition null_handle :: handle where
  "null_handle = \<lparr>m_dest_ptr = None, m_ref_data = None\<rparr>"

subsection \<open>The heap\<close>

definition with_data :: "nat option \<Rightarrow> (ref_data_t \<Rightarrow> ref_data_t) \<Rightarrow> sp_heap \<Rightarrow> sp_heap exc" where
  "with_data p f h = (case p of None \<Rightarrow> Inl Null_deref
   | Some d \<Rightarrow> (case ref_datas h d of None \<Rightarrow> Inl Dangling
     | Some r \<Rightarrow> Inr (h\<lparr>ref_datas := (ref_datas h)(d \<mapsto> f r)\<rparr>)))"

definition get_data :: "nat option \<Rightarrow> sp_heap \<Rightarrow> ref_data_t exc" where
  "get_data p h = (case p of None \<Rightarrow> Inl Null_deref
   | Some d \<Rightarrow> (case ref_datas h d of None \<Rightarrow> Inl Dangling | Some r \<Rightarrow> Inr r))"

definition inc_ref :: "ref_data_t \<Rightarrow> ref_data_t" where
  "inc_ref r = r\<lparr>m_ref_count := m_ref_count r + 1\<rparr>"

definition inc_weak :: "ref_data_t \<Rightarrow> ref_data_t" where
  "inc_weak r = r\<lparr>m_weak_ref_count := m_weak_ref_count r + 1\<rparr>"

definition dec_ref :: "ref_data_t \<Rightarrow> ref_data_t" where
  "dec_ref r = r\<lparr>m_ref_count := m_ref_count r - 1\<rparr>"

definition dec_weak :: "ref_data_t \<Rightarrow> ref_data_t" where
  "dec_weak r = r\<lparr>m_weak_ref_count := m_weak_ref_count r - 1\<rparr>"

definition delete_obj :: "nat \<Rightarrow> sp_heap \<Rightarrow> sp_heap exc" where
  "delete_obj p h = (if alive h p then Inr (h\<lparr>alive := (alive h)(p := False)\<rparr>) else Inl Dangling)"

definition delete_data :: "nat option \<Rightarrow> sp_heap \<Rightarrow> sp_heap exc" where
  "delete_data p h = (case p of None \<Rightarrow> Inr h
   | Some d \<Rightarrow> (if ref_datas h d = None then Inl Dangling else Inr (h\<lparr>ref_datas := (ref_datas h)(d := None)\<rparr>)))"

definition and_then :: "'a exc \<Rightarrow> ('a \<Rightarrow> 'b exc) \<Rightarrow> 'b exc" where
  "and_then r k = (case r of Inl e \<Rightarrow> Inl e | Inr x \<Rightarrow> k x)"

lemma and_then_simps [simp]: "and_then (Inl e) k = Inl e" "and_then (Inr x) k = k x"
  by (simp_all add: and_then_def)

subsection \<open>\<open>shared_ptr_t\<close>\<close>

text \<open>The constructor from a raw pointer, which makes the counters of an object.\<close>

definition sh_new :: "nat option \<Rightarrow> sp_heap \<Rightarrow> (handle \<times> sp_heap) exc" where
  "sh_new p h = (case p of None \<Rightarrow> Inr (null_handle, h)
   | Some obj \<Rightarrow> Inr (\<lparr>m_dest_ptr = Some obj, m_ref_data = Some (next_data h)\<rparr>,
       h\<lparr>ref_datas := (ref_datas h)(next_data h \<mapsto> \<lparr>m_ref_count = 1, m_weak_ref_count = 1\<rparr>),
         next_data := next_data h + 1, owner := (owner h)(next_data h \<mapsto> obj)\<rparr>))"

definition sh_copy :: "handle \<Rightarrow> sp_heap \<Rightarrow> (handle \<times> sp_heap) exc" where
  "sh_copy p h = (if m_dest_ptr p = None then Inr (p, h)
     else and_then (with_data (m_ref_data p) (\<lambda>r. inc_weak (inc_ref r)) h) (\<lambda>h1. Inr (p, h1)))"

text \<open>The constructor that \<open>weak_ptr_t::lock\<close> uses: the count of references was raised by the caller.\<close>

definition sh_adopt :: "nat option \<Rightarrow> nat option \<Rightarrow> sp_heap \<Rightarrow> (handle \<times> sp_heap) exc" where
  "sh_adopt p d h = (if p = None then Inr (\<lparr>m_dest_ptr = p, m_ref_data = d\<rparr>, h)
     else and_then (with_data d inc_weak h) (\<lambda>h1. Inr (\<lparr>m_dest_ptr = p, m_ref_data = d\<rparr>, h1)))"

definition sh_reset :: "handle \<Rightarrow> sp_heap \<Rightarrow> (handle \<times> sp_heap) exc" where
  "sh_reset s h = (case m_dest_ptr s of None \<Rightarrow> Inr (s, h)
   | Some obj \<Rightarrow>
      and_then (with_data (m_ref_data s) dec_ref h) (\<lambda>h1.
      and_then (get_data (m_ref_data s) h1) (\<lambda>r1.
      and_then (if m_ref_count r1 = 0 then and_then (delete_obj obj h1) (\<lambda>h2. Inr (s\<lparr>m_dest_ptr := None\<rparr>, h2)) else Inr (s, h1)) (\<lambda>(s2, h2).
      and_then (with_data (m_ref_data s2) dec_weak h2) (\<lambda>h3.
      and_then (get_data (m_ref_data s2) h3) (\<lambda>r3.
      if m_weak_ref_count r3 = 0 then and_then (delete_data (m_ref_data s2) h3) (\<lambda>h4. Inr (s2\<lparr>m_ref_data := None\<rparr>, h4))
      else Inr (s2, h3)))))))"

definition sh_destroy :: "handle \<Rightarrow> sp_heap \<Rightarrow> sp_heap exc" where
  "sh_destroy s h = and_then (sh_reset s h) (\<lambda>(_, h1). Inr h1)"

text \<open>\<open>operator=\<close> for two different handles (for one and the same it does nothing).\<close>

definition sh_assign :: "handle \<Rightarrow> handle \<Rightarrow> sp_heap \<Rightarrow> (handle \<times> sp_heap) exc" where
  "sh_assign s src h = and_then (sh_reset s h) (\<lambda>(_, h1). sh_copy src h1)"

definition sh_deref :: "handle \<Rightarrow> sp_heap \<Rightarrow> nat exc" where
  "sh_deref s h = (case m_dest_ptr s of None \<Rightarrow> Inl (Runtime_error ''shared_ptr_t NULL DATA'')
     | Some obj \<Rightarrow> (if alive h obj then Inr obj else Inl Dangling))"

definition ref_count :: "handle \<Rightarrow> sp_heap \<Rightarrow> int exc" where
  "ref_count s h = (if m_ref_data s = None then Inr 0 else and_then (get_data (m_ref_data s) h) (\<lambda>r. Inr (m_ref_count r)))"

subsection \<open>\<open>weak_ptr_t\<close>\<close>

text \<open>The constructors from a shared or a weak handle.\<close>

definition wk_make :: "handle \<Rightarrow> sp_heap \<Rightarrow> (handle \<times> sp_heap) exc" where
  "wk_make p h = (if m_ref_data p = None then Inr (p, h)
     else and_then (with_data (m_ref_data p) inc_weak h) (\<lambda>h1. Inr (p, h1)))"

definition wk_reset :: "handle \<Rightarrow> sp_heap \<Rightarrow> (handle \<times> sp_heap) exc" where
  "wk_reset w h = (if m_ref_data w = None then Inr (w\<lparr>m_dest_ptr := None\<rparr>, h)
     else and_then (with_data (m_ref_data w) dec_weak h) (\<lambda>h1.
          and_then (get_data (m_ref_data w) h1) (\<lambda>r1.
          if m_weak_ref_count r1 = 0
          then and_then (delete_data (m_ref_data w) h1) (\<lambda>h2. Inr (null_handle, h2))
          else Inr (w\<lparr>m_dest_ptr := None\<rparr>, h1))))"

definition wk_destroy :: "handle \<Rightarrow> sp_heap \<Rightarrow> sp_heap exc" where
  "wk_destroy w h = and_then (wk_reset w h) (\<lambda>(_, h1). Inr h1)"

definition wk_assign :: "handle \<Rightarrow> handle \<Rightarrow> sp_heap \<Rightarrow> (handle \<times> sp_heap) exc" where
  "wk_assign w src h = and_then (wk_reset w h) (\<lambda>(_, h1). wk_make src h1)"

text \<open>\<open>lock\<close>: the weak handle (which forgets an object that is gone), the shared handle made, the heap.\<close>

definition wk_lock :: "handle \<Rightarrow> sp_heap \<Rightarrow> (handle \<times> handle \<times> sp_heap) exc" where
  "wk_lock w h = (if m_dest_ptr w = None \<or> m_ref_data w = None then Inr (w, null_handle, h)
     else and_then (with_data (m_ref_data w) inc_ref h) (\<lambda>h1.
          and_then (get_data (m_ref_data w) h1) (\<lambda>r1.
          if m_ref_count r1 = 1
          then and_then (with_data (m_ref_data w) dec_ref h1) (\<lambda>h2. Inr (w\<lparr>m_dest_ptr := None\<rparr>, null_handle, h2))
          else and_then (sh_adopt (m_dest_ptr w) (m_ref_data w) h1) (\<lambda>(s, h2). Inr (w, s, h2)))))"

subsection \<open>Programs over handles\<close>

text \<open>
  The handles a program has: lists of shared and of weak ones. A program makes, copies, assigns, locks
  and destroys handles; it calls \<open>reset\<close> through the destructor and the assignments only.
\<close>

record sp_state =
  heap :: sp_heap
  shs :: "handle list"
  wks :: "handle list"

datatype sp_op =
    Sh_new "nat option" | Sh_copy nat | Sh_assign nat nat | Sh_destroy nat
  | Wk_make nat | Wk_copy nat | Wk_assign_sh nat nat | Wk_assign_wk nat nat | Wk_lock nat | Wk_destroy nat

definition drop_at :: "nat \<Rightarrow> 'a list \<Rightarrow> 'a list" where
  "drop_at i xs = take i xs @ drop (Suc i) xs"

fun sp_step :: "sp_op \<Rightarrow> sp_state \<Rightarrow> sp_state exc" where
  "sp_step (Sh_new p) s = and_then (sh_new p (heap s)) (\<lambda>(x, h). Inr (s\<lparr>heap := h, shs := shs s @ [x]\<rparr>))"
| "sp_step (Sh_copy i) s = and_then (sh_copy (shs s ! i) (heap s)) (\<lambda>(x, h). Inr (s\<lparr>heap := h, shs := shs s @ [x]\<rparr>))"
| "sp_step (Sh_assign i j) s = (if i = j then Inr s
     else and_then (sh_assign (shs s ! i) (shs s ! j) (heap s)) (\<lambda>(x, h). Inr (s\<lparr>heap := h, shs := (shs s)[i := x]\<rparr>)))"
| "sp_step (Sh_destroy i) s = and_then (sh_destroy (shs s ! i) (heap s)) (\<lambda>h. Inr (s\<lparr>heap := h, shs := drop_at i (shs s)\<rparr>))"
| "sp_step (Wk_make i) s = and_then (wk_make (shs s ! i) (heap s)) (\<lambda>(x, h). Inr (s\<lparr>heap := h, wks := wks s @ [x]\<rparr>))"
| "sp_step (Wk_copy i) s = and_then (wk_make (wks s ! i) (heap s)) (\<lambda>(x, h). Inr (s\<lparr>heap := h, wks := wks s @ [x]\<rparr>))"
| "sp_step (Wk_assign_sh i j) s =
     and_then (wk_assign (wks s ! i) (shs s ! j) (heap s)) (\<lambda>(x, h). Inr (s\<lparr>heap := h, wks := (wks s)[i := x]\<rparr>))"
| "sp_step (Wk_assign_wk i j) s = (if i = j then Inr s
     else and_then (wk_assign (wks s ! i) (wks s ! j) (heap s)) (\<lambda>(x, h). Inr (s\<lparr>heap := h, wks := (wks s)[i := x]\<rparr>)))"
| "sp_step (Wk_lock i) s =
     and_then (wk_lock (wks s ! i) (heap s)) (\<lambda>(w, x, h). Inr (s\<lparr>heap := h, wks := (wks s)[i := w], shs := shs s @ [x]\<rparr>))"
| "sp_step (Wk_destroy i) s = and_then (wk_destroy (wks s ! i) (heap s)) (\<lambda>h. Inr (s\<lparr>heap := h, wks := drop_at i (wks s)\<rparr>))"

text \<open>The handles an operation names exist; a raw pointer is given to one shared handle only, alive.\<close>

fun op_ok :: "sp_op \<Rightarrow> sp_state \<Rightarrow> bool" where
  "op_ok (Sh_new p) s = (\<forall>obj. p = Some obj \<longrightarrow> alive (heap s) obj \<and> (\<forall>d < next_data (heap s). owner (heap s) d \<noteq> Some obj))"
| "op_ok (Sh_copy i) s = (i < length (shs s))"
| "op_ok (Sh_assign i j) s = (i < length (shs s) \<and> j < length (shs s))"
| "op_ok (Sh_destroy i) s = (i < length (shs s))"
| "op_ok (Wk_make i) s = (i < length (shs s))"
| "op_ok (Wk_copy i) s = (i < length (wks s))"
| "op_ok (Wk_assign_sh i j) s = (i < length (wks s) \<and> j < length (shs s))"
| "op_ok (Wk_assign_wk i j) s = (i < length (wks s) \<and> j < length (wks s))"
| "op_ok (Wk_lock i) s = (i < length (wks s))"
| "op_ok (Wk_destroy i) s = (i < length (wks s))"


subsection \<open>Counting handles\<close>

definition refs :: "handle list \<Rightarrow> nat \<Rightarrow> int" where
  "refs xs d = int (length (filter (\<lambda>x. m_ref_data x = Some d) xs))"

definition bump :: "nat option \<Rightarrow> int \<Rightarrow> (nat \<Rightarrow> int) \<Rightarrow> nat \<Rightarrow> int" where
  "bump p k f = (case p of None \<Rightarrow> f | Some d \<Rightarrow> f(d := f d + k))"

lemma bump_simps [simp]: "bump None k f = f" "bump (Some d) k f = f(d := f d + k)"
  by (simp_all add: bump_def)

lemma refs_append [simp]: "refs (xs @ [x]) = bump (m_ref_data x) 1 (refs xs)"
  by (auto simp: refs_def bump_def fun_eq_iff split: option.splits)

lemma refs_split: "i < length xs \<Longrightarrow> refs xs = bump (m_ref_data (xs ! i)) 1 (refs (drop_at i xs))"
  by (subst id_take_nth_drop [of i xs]) (auto simp: refs_def bump_def drop_at_def fun_eq_iff split: option.splits)

lemma refs_drop_at: "i < length xs \<Longrightarrow> refs (drop_at i xs) = bump (m_ref_data (xs ! i)) (- 1) (refs xs)"
  by (subst (2) refs_split) (auto simp: bump_def split: option.splits)

lemma refs_update:
  "i < length xs \<Longrightarrow> refs (xs[i := y]) = bump (m_ref_data y) 1 (bump (m_ref_data (xs ! i)) (- 1) (refs xs))"
  using refs_split [of i "xs[i := y]"] refs_drop_at [of i xs] by (simp add: drop_at_def)

lemma refs_nonneg: "0 \<le> refs xs d"
  by (simp add: refs_def)

lemma refs_pos: "x \<in> set xs \<Longrightarrow> m_ref_data x = Some d \<Longrightarrow> 0 < refs xs d"
  by (auto simp: refs_def filter_empty_conv)

lemma set_drop_at: "set (drop_at i xs) \<subseteq> set xs"
  by (auto simp: drop_at_def dest: in_set_takeD in_set_dropD)

subsection \<open>The counters are right\<close>

text \<open>\<open>ns\<close> and \<open>nw\<close> say how many shared and weak handles refer to each block of counters.\<close>

definition heap_ok :: "sp_heap \<Rightarrow> (nat \<Rightarrow> int) \<Rightarrow> (nat \<Rightarrow> int) \<Rightarrow> bool" where
  "heap_ok h ns nw \<longleftrightarrow>
     (\<forall>d. ref_datas h d = (if ns d = 0 \<and> nw d = 0 then None else Some \<lparr>m_ref_count = ns d, m_weak_ref_count = ns d + nw d\<rparr>)) \<and>
     (\<forall>d. 0 \<le> ns d \<and> 0 \<le> nw d) \<and>
     (\<forall>d obj. owner h d = Some obj \<longrightarrow> d < next_data h \<and> (alive h obj \<longleftrightarrow> 0 < ns d)) \<and>
     (\<forall>d. owner h d = None \<longrightarrow> ns d = 0 \<and> nw d = 0) \<and>
     (\<forall>d d' obj. owner h d = Some obj \<longrightarrow> owner h d' = Some obj \<longrightarrow> d = d')"

definition shared_ok :: "sp_heap \<Rightarrow> handle \<Rightarrow> bool" where
  "shared_ok h s \<longleftrightarrow> (case m_ref_data s of None \<Rightarrow> m_dest_ptr s = None | Some d \<Rightarrow> m_dest_ptr s \<noteq> None \<and> m_dest_ptr s = owner h d)"

definition weak_ok :: "sp_heap \<Rightarrow> handle \<Rightarrow> bool" where
  "weak_ok h w \<longleftrightarrow> (case m_ref_data w of None \<Rightarrow> m_dest_ptr w = None | Some d \<Rightarrow> m_dest_ptr w = None \<or> m_dest_ptr w = owner h d)"

lemma heap_okD:
  assumes "heap_ok h ns nw"
  shows "ref_datas h d = (if ns d = 0 \<and> nw d = 0 then None else Some \<lparr>m_ref_count = ns d, m_weak_ref_count = ns d + nw d\<rparr>)"
    "0 \<le> ns d" "0 \<le> nw d" "owner h d = Some obj \<Longrightarrow> d < next_data h \<and> (alive h obj \<longleftrightarrow> 0 < ns d)"
    "owner h d = None \<Longrightarrow> ns d = 0 \<and> nw d = 0" "owner h d = Some obj \<Longrightarrow> owner h d' = Some obj \<Longrightarrow> d = d'"
  using assms unfolding heap_ok_def by blast+

text \<open>Changing the counters of one block, with the object it belongs to.\<close>

lemma heap_ok_change:
  assumes "heap_ok h ns nw" "owner h d = Some obj" "0 \<le> n" "0 \<le> w"
    and "h' = h\<lparr>ref_datas := (ref_datas h)(d := if n = 0 \<and> w = 0 then None else Some \<lparr>m_ref_count = n, m_weak_ref_count = n + w\<rparr>),
      alive := (alive h)(obj := 0 < n)\<rparr>"
  shows "heap_ok h' (ns(d := n)) (nw(d := w))"
  using assms unfolding heap_ok_def by (auto dest: heap_okD(4,6) [OF assms(1)])

lemma alive_same: "heap_ok h ns nw \<Longrightarrow> owner h d = Some obj \<Longrightarrow> (0 < n) = (0 < ns d) \<Longrightarrow> (alive h)(obj := 0 < n) = alive h"
  by (auto simp: fun_eq_iff dest: heap_okD(4))

lemma shared_ok_data:
  assumes "shared_ok h s" "m_ref_data s = Some d"
  obtains obj where "m_dest_ptr s = Some obj" "owner h d = Some obj"
  using assms by (cases "m_dest_ptr s") (auto simp: shared_ok_def)

lemma sh_copy_ok:
  assumes "heap_ok h ns nw" "shared_ok h p" "\<And>d. m_ref_data p = Some d \<Longrightarrow> 0 < ns d"
  shows "\<exists>h'. sh_copy p h = Inr (p, h') \<and> owner h' = owner h \<and> heap_ok h' (bump (m_ref_data p) 1 ns) nw"
proof (cases "m_ref_data p")
  case None
  with assms show ?thesis by (auto simp: sh_copy_def shared_ok_def)
next
  case (Some d)
  from shared_ok_data [OF assms(2) Some] obtain obj where o: "m_dest_ptr p = Some obj" "owner h d = Some obj" .
  have n: "0 < ns d" "0 \<le> nw d" using assms(3) Some heap_okD(3) [OF assms(1)] by auto
  let ?h = "h\<lparr>ref_datas := (ref_datas h)(d \<mapsto> \<lparr>m_ref_count = ns d + 1, m_weak_ref_count = ns d + 1 + nw d\<rparr>)\<rparr>"
  have "sh_copy p h = Inr (p, ?h)"
    using Some o n heap_okD(1) [OF assms(1), of d] by (simp add: sh_copy_def with_data_def inc_ref_def inc_weak_def algebra_simps)
  moreover have "heap_ok ?h (ns(d := ns d + 1)) (nw(d := nw d))"
    using n alive_same [OF assms(1) o(2), of "ns d + 1"] by (intro heap_ok_change [OF assms(1) o(2)]) (auto simp: add.commute)
  ultimately show ?thesis using Some by auto
qed

lemma sh_reset_ok:
  assumes "heap_ok h ns nw" "shared_ok h s" "\<And>d. m_ref_data s = Some d \<Longrightarrow> 0 < ns d"
  shows "\<exists>s' h'. sh_reset s h = Inr (s', h') \<and> owner h' = owner h \<and> heap_ok h' (bump (m_ref_data s) (- 1) ns) nw"
proof (cases "m_ref_data s")
  case None
  with assms show ?thesis by (auto simp: sh_reset_def shared_ok_def)
next
  case (Some d)
  from shared_ok_data [OF assms(2) Some] obtain obj where o: "m_dest_ptr s = Some obj" "owner h d = Some obj" .
  have n: "0 < ns d" "0 \<le> nw d" "alive h obj"
    using assms(3) Some heap_okD(3,4) [OF assms(1)] o(2) by auto
  let ?h = "h\<lparr>ref_datas := (ref_datas h)(d := if ns d - 1 = 0 \<and> nw d = 0 then None
    else Some \<lparr>m_ref_count = ns d - 1, m_weak_ref_count = ns d - 1 + nw d\<rparr>), alive := (alive h)(obj := 0 < ns d - 1)\<rparr>"
  have "\<exists>s'. sh_reset s h = Inr (s', ?h)"
  proof (cases "ns d = 1")
    case True
    then show ?thesis using Some o n heap_okD(1) [OF assms(1), of d]
      by (auto simp: sh_reset_def with_data_def get_data_def dec_ref_def dec_weak_def delete_obj_def delete_data_def algebra_simps)
  next
    case False
    then have "(alive h)(obj := 0 < ns d - 1) = alive h" using n by (auto simp: fun_eq_iff)
    with False show ?thesis using Some o n heap_okD(1) [OF assms(1), of d]
      by (auto simp: sh_reset_def with_data_def get_data_def dec_ref_def dec_weak_def delete_obj_def delete_data_def algebra_simps)
  qed
  moreover have "heap_ok ?h (ns(d := ns d - 1)) (nw(d := nw d))"
    using n by (intro heap_ok_change [OF assms(1) o(2)]) auto
  ultimately show ?thesis using Some by auto
qed

lemma wk_make_ok:
  assumes "heap_ok h ns nw" "\<And>d. m_ref_data p = Some d \<Longrightarrow> 0 < ns d \<or> 0 < nw d"
  shows "\<exists>h'. wk_make p h = Inr (p, h') \<and> owner h' = owner h \<and> heap_ok h' ns (bump (m_ref_data p) 1 nw)"
proof (cases "m_ref_data p")
  case (Some d)
  have n: "0 < ns d \<or> 0 < nw d" "0 \<le> ns d" "0 \<le> nw d" using assms(2) Some heap_okD(2,3) [OF assms(1)] by auto
  then obtain obj where o: "owner h d = Some obj" using heap_okD(5) [OF assms(1), of d] by (cases "owner h d") auto
  let ?h = "h\<lparr>ref_datas := (ref_datas h)(d \<mapsto> \<lparr>m_ref_count = ns d, m_weak_ref_count = ns d + (nw d + 1)\<rparr>)\<rparr>"
  have "wk_make p h = Inr (p, ?h)"
    using Some n heap_okD(1) [OF assms(1), of d] by (auto simp: wk_make_def with_data_def inc_weak_def algebra_simps)
  moreover have "heap_ok ?h (ns(d := ns d)) (nw(d := nw d + 1))"
    using n alive_same [OF assms(1) o, of "ns d"] by (intro heap_ok_change [OF assms(1) o]) auto
  ultimately show ?thesis using Some by auto
qed (use assms(1) in \<open>simp add: wk_make_def\<close>)

lemma wk_reset_ok:
  assumes "heap_ok h ns nw" "\<And>d. m_ref_data w = Some d \<Longrightarrow> 0 < nw d"
  shows "\<exists>w' h'. wk_reset w h = Inr (w', h') \<and> owner h' = owner h \<and> heap_ok h' ns (bump (m_ref_data w) (- 1) nw)"
proof (cases "m_ref_data w")
  case (Some d)
  have n: "0 \<le> ns d" "0 < nw d" using assms(2) Some heap_okD(2) [OF assms(1)] by auto
  then obtain obj where o: "owner h d = Some obj" using heap_okD(5) [OF assms(1), of d] by (cases "owner h d") auto
  let ?h = "h\<lparr>ref_datas := (ref_datas h)(d := if ns d = 0 \<and> nw d - 1 = 0 then None
    else Some \<lparr>m_ref_count = ns d, m_weak_ref_count = ns d + (nw d - 1)\<rparr>)\<rparr>"
  have "\<exists>w'. wk_reset w h = Inr (w', ?h)"
    using Some n heap_okD(1) [OF assms(1), of d]
    by (auto simp: wk_reset_def with_data_def get_data_def dec_weak_def delete_data_def algebra_simps)
  moreover have "heap_ok ?h (ns(d := ns d)) (nw(d := nw d - 1))"
    using n alive_same [OF assms(1) o, of "ns d"] by (intro heap_ok_change [OF assms(1) o]) auto
  ultimately show ?thesis using Some by auto
qed (use assms(1) in \<open>simp add: wk_reset_def\<close>)

lemma wk_lock_ok:
  assumes "heap_ok h ns nw" "weak_ok h w" "\<And>d. m_ref_data w = Some d \<Longrightarrow> 0 < nw d"
  shows "\<exists>w' s h'. wk_lock w h = Inr (w', s, h') \<and> owner h' = owner h \<and> heap_ok h' (bump (m_ref_data s) 1 ns) nw \<and>
    shared_ok h s \<and> weak_ok h w' \<and> m_ref_data w' = m_ref_data w \<and>
    m_dest_ptr s = (case m_dest_ptr w of None \<Rightarrow> None | Some obj \<Rightarrow> if alive h obj then Some obj else None)"
proof (cases "m_dest_ptr w = None \<or> m_ref_data w = None")
  case True
  with assms show ?thesis by (auto simp: wk_lock_def null_handle_def shared_ok_def weak_ok_def split: option.splits)
next
  case False
  then obtain d obj where d: "m_ref_data w = Some d" "m_dest_ptr w = Some obj" "owner h d = Some obj"
    using assms(2) by (auto simp: weak_ok_def split: option.splits)
  have n: "0 \<le> ns d" "0 < nw d" "alive h obj \<longleftrightarrow> 0 < ns d"
    using assms(3) d heap_okD(2,4) [OF assms(1)] by auto
  show ?thesis
  proof (cases "ns d = 0")
    case True
    have same: "h\<lparr>ref_datas := (ref_datas h)(d \<mapsto> \<lparr>m_ref_count = 0, m_weak_ref_count = nw d\<rparr>)\<rparr> = h"
      using True n heap_okD(1) [OF assms(1), of d] by (simp add: fun_upd_idem)
    have "wk_lock w h = Inr (w\<lparr>m_dest_ptr := None\<rparr>, null_handle, h)"
      using True d n heap_okD(1) [OF assms(1), of d] same by (simp add: wk_lock_def with_data_def get_data_def inc_ref_def dec_ref_def)
    then show ?thesis using True d n assms(1) by (simp add: null_handle_def shared_ok_def weak_ok_def)
  next
    case False
    let ?h = "h\<lparr>ref_datas := (ref_datas h)(d \<mapsto> \<lparr>m_ref_count = ns d + 1, m_weak_ref_count = ns d + 1 + nw d\<rparr>)\<rparr>"
    have "wk_lock w h = Inr (w, \<lparr>m_dest_ptr = Some obj, m_ref_data = Some d\<rparr>, ?h)"
      using False d n heap_okD(1) [OF assms(1), of d]
      by (simp add: wk_lock_def with_data_def get_data_def inc_ref_def inc_weak_def sh_adopt_def add.commute add.left_commute)
    moreover have "heap_ok ?h (ns(d := ns d + 1)) (nw(d := nw d))"
      using False n alive_same [OF assms(1) d(3), of "ns d + 1"] by (intro heap_ok_change [OF assms(1) d(3)]) auto
    ultimately show ?thesis using False d n assms(2) by (auto simp: shared_ok_def)
  qed
qed


subsection \<open>Every program keeps the counters right\<close>

definition sp_inv :: "sp_state \<Rightarrow> bool" where
  "sp_inv s \<longleftrightarrow> heap_ok (heap s) (refs (shs s)) (refs (wks s)) \<and>
     (\<forall>x \<in> set (shs s). shared_ok (heap s) x) \<and> (\<forall>w \<in> set (wks s). weak_ok (heap s) w)"

lemma handle_ok_cong:
  "(\<And>d. m_ref_data x = Some d \<Longrightarrow> owner h' d = owner h d) \<Longrightarrow> shared_ok h' x = shared_ok h x \<and> weak_ok h' x = weak_ok h x"
  by (cases "m_ref_data x") (simp_all add: shared_ok_def weak_ok_def)

lemma handle_ok_owner: "owner h' = owner h \<Longrightarrow> shared_ok h' = shared_ok h \<and> weak_ok h' = weak_ok h"
  using handle_ok_cong [of _ h' h] by (auto simp: fun_eq_iff)

lemma sp_inv_intro:
  assumes "heap_ok h (refs xs) (refs ws)" "owner h = owner (heap s)"
    and "\<forall>x \<in> set xs. shared_ok (heap s) x" "\<forall>w \<in> set ws. weak_ok (heap s) w"
  shows "sp_inv (s\<lparr>heap := h, shs := xs, wks := ws\<rparr>)"
  using assms handle_ok_owner [OF assms(2)] by (simp add: sp_inv_def)

lemma sp_inv_nth:
  assumes "sp_inv s"
  shows "i < length (shs s) \<Longrightarrow> shared_ok (heap s) (shs s ! i)" "i < length (wks s) \<Longrightarrow> weak_ok (heap s) (wks s ! i)"
    "i < length (shs s) \<Longrightarrow> m_ref_data (shs s ! i) = Some d \<Longrightarrow> 0 < refs (shs s) d"
    "i < length (wks s) \<Longrightarrow> m_ref_data (wks s ! i) = Some d \<Longrightarrow> 0 < refs (wks s) d"
  using assms refs_pos [of "shs s ! i" "shs s" d] refs_pos [of "wks s ! i" "wks s" d] by (auto simp: sp_inv_def)

lemma weak_of_shared: "shared_ok h x \<Longrightarrow> weak_ok h x"
  by (auto simp: shared_ok_def weak_ok_def split: option.splits)

lemma step_new:
  assumes "sp_inv s" "op_ok (Sh_new p) s"
  shows "\<exists>s'. sp_step (Sh_new p) s = Inr s' \<and> sp_inv s'"
proof (cases p)
  case None
  have "sp_inv (s\<lparr>heap := heap s, shs := shs s @ [null_handle], wks := wks s\<rparr>)"
    using assms(1) by (intro sp_inv_intro) (auto simp: sp_inv_def null_handle_def shared_ok_def)
  then show ?thesis using None by (simp add: sh_new_def)
next
  case (Some obj)
  let ?n = "next_data (heap s)" and ?h = "heap s"
  let ?x = "\<lparr>m_dest_ptr = Some obj, m_ref_data = Some ?n\<rparr>"
  let ?h' = "?h\<lparr>ref_datas := (ref_datas ?h)(?n \<mapsto> \<lparr>m_ref_count = 1, m_weak_ref_count = 1\<rparr>), next_data := ?n + 1,
    owner := (owner ?h)(?n \<mapsto> obj)\<rparr>"
  have ok: "heap_ok ?h (refs (shs s)) (refs (wks s))" using assms(1) by (simp add: sp_inv_def)
  have none: "owner ?h ?n = None" using heap_okD(4) [OF ok, of ?n] by (cases "owner ?h ?n") auto
  then have z: "refs (shs s) ?n = 0" "refs (wks s) ?n = 0" using heap_okD(5) [OF ok] by auto
  have fresh: "owner ?h d \<noteq> Some obj" for d
    using assms(2) Some heap_okD(4) [OF ok, of d obj] by auto
  have "heap_ok ?h' (bump (Some ?n) 1 (refs (shs s))) (refs (wks s))"
    using ok z fresh assms(2) Some unfolding heap_ok_def by (auto simp: less_Suc_eq dest: heap_okD(4) [OF ok])
  moreover have "m_ref_data x \<noteq> Some ?n" if "x \<in> set (shs s) \<union> set (wks s)" for x
    using that z refs_pos by fastforce
  then have "shared_ok ?h' x = shared_ok ?h x \<and> weak_ok ?h' x = weak_ok ?h x" if "x \<in> set (shs s) \<union> set (wks s)" for x
    using that by (intro handle_ok_cong) auto
  moreover have "shared_ok ?h' ?x" by (simp add: shared_ok_def)
  ultimately have "sp_inv (s\<lparr>heap := ?h', shs := shs s @ [?x]\<rparr>)"
    using assms(1) by (simp add: sp_inv_def)
  then show ?thesis using Some by (simp add: sh_new_def)
qed

lemma drop_at_mem: "i \<noteq> j \<Longrightarrow> j < length xs \<Longrightarrow> xs ! j \<in> set (drop_at i xs)"
proof (cases "j < i")
  case True
  moreover assume "j < length xs"
  ultimately have "take i xs ! j = xs ! j" "j < length (take i xs)" by simp_all
  then show ?thesis by (metis UnI1 drop_at_def nth_mem set_append)
next
  case False
  moreover assume "i \<noteq> j" "j < length xs"
  ultimately have "drop (Suc i) xs ! (j - Suc i) = xs ! j" "j - Suc i < length (drop (Suc i) xs)" by simp_all
  then show ?thesis by (metis UnI2 drop_at_def nth_mem set_append)
qed

lemma sp_invD:
  assumes "sp_inv s"
  shows "heap_ok (heap s) (refs (shs s)) (refs (wks s))" "\<forall>x \<in> set (shs s). shared_ok (heap s) x" "\<forall>w \<in> set (wks s). weak_ok (heap s) w"
  using assms by (auto simp: sp_inv_def)

lemma step_copy:
  assumes "sp_inv s" "i < length (shs s)"
  shows "\<exists>s'. sp_step (Sh_copy i) s = Inr s' \<and> sp_inv s'"
proof -
  let ?x = "shs s ! i"
  from sh_copy_ok [OF sp_invD(1) [OF assms(1)] sp_inv_nth(1,3) [OF assms]] obtain h where
    h: "sh_copy ?x (heap s) = Inr (?x, h)" "owner h = owner (heap s)" "heap_ok h (refs (shs s @ [?x])) (refs (wks s))" by auto
  have "sp_inv (s\<lparr>heap := h, shs := shs s @ [?x], wks := wks s\<rparr>)"
    using sp_invD(2,3) [OF assms(1)] assms(2) by (intro sp_inv_intro h) auto
  with h(1) show ?thesis by simp
qed

lemma step_destroy:
  assumes "sp_inv s" "i < length (shs s)"
  shows "\<exists>s'. sp_step (Sh_destroy i) s = Inr s' \<and> sp_inv s'"
proof -
  from sh_reset_ok [OF sp_invD(1) [OF assms(1)] sp_inv_nth(1,3) [OF assms]] obtain x h where
    h: "sh_reset (shs s ! i) (heap s) = Inr (x, h)" "owner h = owner (heap s)" "heap_ok h (refs (drop_at i (shs s))) (refs (wks s))"
    by (auto simp: refs_drop_at assms(2))
  have "sp_inv (s\<lparr>heap := h, shs := drop_at i (shs s), wks := wks s\<rparr>)"
    using sp_invD(2,3) [OF assms(1)] set_drop_at [of i "shs s"] by (intro sp_inv_intro h) auto
  with h(1) show ?thesis by (simp add: sh_destroy_def)
qed

lemma step_assign:
  assumes "sp_inv s" "i < length (shs s)" "j < length (shs s)"
  shows "\<exists>s'. sp_step (Sh_assign i j) s = Inr s' \<and> sp_inv s'"
proof (cases "i = j")
  case False
  let ?y = "shs s ! j"
  from sh_reset_ok [OF sp_invD(1) [OF assms(1)] sp_inv_nth(1,3) [OF assms(1,2)]] obtain x h1 where
    h1: "sh_reset (shs s ! i) (heap s) = Inr (x, h1)" "owner h1 = owner (heap s)" "heap_ok h1 (refs (drop_at i (shs s))) (refs (wks s))"
    by (auto simp: refs_drop_at assms(2))
  have "shared_ok h1 ?y" using sp_inv_nth(1) [OF assms(1,3)] handle_ok_owner [OF h1(2)] by simp
  with sh_copy_ok [OF h1(3)] refs_pos [OF drop_at_mem [OF False assms(3)]] obtain h2 where
    h2: "sh_copy ?y h1 = Inr (?y, h2)" "owner h2 = owner h1" "heap_ok h2 (bump (m_ref_data ?y) 1 (refs (drop_at i (shs s)))) (refs (wks s))"
    by blast
  then have h2': "heap_ok h2 (refs ((shs s)[i := ?y])) (refs (wks s))" using assms(2) by (simp add: refs_update refs_drop_at)
  have "sp_inv (s\<lparr>heap := h2, shs := (shs s)[i := ?y], wks := wks s\<rparr>)"
    using sp_invD(2,3) [OF assms(1)] assms(3) h1(2) h2(2) set_update_subset_insert [of "shs s" i ?y]
    by (intro sp_inv_intro h2') auto
  with h1(1) h2(1) False show ?thesis by (simp add: sh_assign_def)
qed (use assms(1) in simp)

text \<open>A handle that a weak one may be made from.\<close>

definition source_ok :: "sp_state \<Rightarrow> handle \<Rightarrow> bool" where
  "source_ok s p \<longleftrightarrow> weak_ok (heap s) p \<and> (\<forall>d. m_ref_data p = Some d \<longrightarrow> 0 < refs (shs s) d \<or> 0 < refs (wks s) d)"

lemma source_nth:
  assumes "sp_inv s"
  shows "i < length (shs s) \<Longrightarrow> source_ok s (shs s ! i)" "i < length (wks s) \<Longrightarrow> source_ok s (wks s ! i)"
  using sp_inv_nth [OF assms, of i] weak_of_shared by (auto simp: source_ok_def)

lemma step_weak_make:
  assumes "sp_inv s" "source_ok s p"
  shows "\<exists>h. wk_make p (heap s) = Inr (p, h) \<and> sp_inv (s\<lparr>heap := h, wks := wks s @ [p]\<rparr>)"
proof -
  from wk_make_ok [OF sp_invD(1) [OF assms(1)], of p] assms(2) obtain h where
    h: "wk_make p (heap s) = Inr (p, h)" "owner h = owner (heap s)" "heap_ok h (refs (shs s)) (refs (wks s @ [p]))"
    by (auto simp: source_ok_def)
  have "sp_inv (s\<lparr>heap := h, shs := shs s, wks := wks s @ [p]\<rparr>)"
    using sp_invD(2,3) [OF assms(1)] assms(2) by (intro sp_inv_intro h) (auto simp: source_ok_def)
  with h(1) show ?thesis by simp
qed

lemma step_weak_reset:
  assumes "sp_inv s" "i < length (wks s)"
  shows "\<exists>w h. wk_reset (wks s ! i) (heap s) = Inr (w, h) \<and> owner h = owner (heap s) \<and>
    heap_ok h (refs (shs s)) (refs (drop_at i (wks s))) \<and> sp_inv (s\<lparr>heap := h, wks := drop_at i (wks s)\<rparr>)"
proof -
  from wk_reset_ok [OF sp_invD(1) [OF assms(1)], of "wks s ! i", OF sp_inv_nth(4) [OF assms]] obtain w h where
    h: "wk_reset (wks s ! i) (heap s) = Inr (w, h)" "owner h = owner (heap s)" "heap_ok h (refs (shs s)) (refs (drop_at i (wks s)))"
    by (auto simp: refs_drop_at assms(2))
  have "sp_inv (s\<lparr>heap := h, shs := shs s, wks := drop_at i (wks s)\<rparr>)"
    using sp_invD(2,3) [OF assms(1)] set_drop_at [of i "wks s"] by (intro sp_inv_intro h) auto
  with h show ?thesis by simp
qed

lemma step_weak_assign:
  assumes "sp_inv s" "i < length (wks s)" "p \<in> set (shs s) \<union> set (drop_at i (wks s))"
  shows "\<exists>h. wk_assign (wks s ! i) p (heap s) = Inr (p, h) \<and> sp_inv (s\<lparr>heap := h, wks := (wks s)[i := p]\<rparr>)"
proof -
  from step_weak_reset [OF assms(1,2)] obtain w h1 where
    h1: "wk_reset (wks s ! i) (heap s) = Inr (w, h1)" "owner h1 = owner (heap s)" "heap_ok h1 (refs (shs s)) (refs (drop_at i (wks s)))"
    by blast
  have p: "weak_ok (heap s) p" using assms(3) sp_invD(2,3) [OF assms(1)] set_drop_at [of i "wks s"] weak_of_shared by auto
  from assms(3) refs_pos have "m_ref_data p = Some d \<Longrightarrow> 0 < refs (shs s) d \<or> 0 < refs (drop_at i (wks s)) d" for d by blast
  with wk_make_ok [OF h1(3)] obtain h2 where
    h2: "wk_make p h1 = Inr (p, h2)" "owner h2 = owner h1" "heap_ok h2 (refs (shs s)) (bump (m_ref_data p) 1 (refs (drop_at i (wks s))))"
    by blast
  then have h2': "heap_ok h2 (refs (shs s)) (refs ((wks s)[i := p]))" using assms(2) by (simp add: refs_update refs_drop_at)
  have "sp_inv (s\<lparr>heap := h2, shs := shs s, wks := (wks s)[i := p]\<rparr>)"
    using sp_invD(2,3) [OF assms(1)] p h1(2) h2(2) set_update_subset_insert [of "wks s" i p]
    by (intro sp_inv_intro h2') auto
  with h1(1) h2(1) show ?thesis by (simp add: wk_assign_def)
qed

lemma step_lock:
  assumes "sp_inv s" "i < length (wks s)"
  shows "\<exists>s'. sp_step (Wk_lock i) s = Inr s' \<and> sp_inv s'"
proof -
  from wk_lock_ok [OF sp_invD(1) [OF assms(1)] sp_inv_nth(2,4) [OF assms]] obtain w x h where
    h: "wk_lock (wks s ! i) (heap s) = Inr (w, x, h)" "owner h = owner (heap s)" "heap_ok h (refs (shs s @ [x])) (refs (wks s))"
      "shared_ok (heap s) x" "weak_ok (heap s) w" "m_ref_data w = m_ref_data (wks s ! i)" by auto
  have "refs ((wks s)[i := w]) = refs (wks s)"
    using assms(2) h(6) by (auto simp: refs_update bump_def split: option.splits)
  with h(3) have h3: "heap_ok h (refs (shs s @ [x])) (refs ((wks s)[i := w]))" by simp
  have "sp_inv (s\<lparr>heap := h, shs := shs s @ [x], wks := (wks s)[i := w]\<rparr>)"
    using sp_invD(2,3) [OF assms(1)] h(4,5) set_update_subset_insert [of "wks s" i w] by (intro sp_inv_intro h3 h(2)) auto
  moreover have "s\<lparr>heap := h, shs := shs s @ [x], wks := (wks s)[i := w]\<rparr> = s\<lparr>heap := h, wks := (wks s)[i := w], shs := shs s @ [x]\<rparr>" by simp
  ultimately show ?thesis using h(1) by simp
qed

lemma sp_step_ok:
  assumes "sp_inv s" "op_ok op s"
  shows "\<exists>s'. sp_step op s = Inr s' \<and> sp_inv s'"
proof (cases op)
  case (Sh_new p)
  with step_new [OF assms(1)] assms(2) show ?thesis by simp
next
  case (Sh_copy i)
  with step_copy [OF assms(1)] assms(2) show ?thesis by simp
next
  case (Sh_assign i j)
  with step_assign [OF assms(1)] assms(2) show ?thesis by simp
next
  case (Sh_destroy i)
  with step_destroy [OF assms(1)] assms(2) show ?thesis by simp
next
  case (Wk_make i)
  with step_weak_make [OF assms(1) source_nth(1) [OF assms(1)]] assms(2) show ?thesis by fastforce
next
  case (Wk_copy i)
  with step_weak_make [OF assms(1) source_nth(2) [OF assms(1)]] assms(2) show ?thesis by fastforce
next
  case (Wk_assign_sh i j)
  with step_weak_assign [OF assms(1), of i "shs s ! j"] assms(2) show ?thesis by fastforce
next
  case (Wk_assign_wk i j)
  with step_weak_assign [OF assms(1), of i "wks s ! j"] drop_at_mem [of i j "wks s"] assms show ?thesis by (cases "i = j") fastforce+
next
  case (Wk_lock i)
  with step_lock [OF assms(1)] assms(2) show ?thesis by simp
next
  case (Wk_destroy i)
  with step_weak_reset [OF assms(1), of i] assms(2) show ?thesis by (auto simp: wk_destroy_def)
qed


fun sp_run :: "sp_op list \<Rightarrow> sp_state \<Rightarrow> sp_state exc" where
  "sp_run [] s = Inr s"
| "sp_run (op # ops) s = and_then (sp_step op s) (sp_run ops)"

text \<open>Every operation is one the program may do in the state it finds.\<close>

fun ops_ok :: "sp_op list \<Rightarrow> sp_state \<Rightarrow> bool" where
  "ops_ok [] s = True"
| "ops_ok (op # ops) s = (op_ok op s \<and> (case sp_step op s of Inl e \<Rightarrow> True | Inr s' \<Rightarrow> ops_ok ops s'))"

definition sp_start :: "(nat \<Rightarrow> bool) \<Rightarrow> sp_state" where
  "sp_start al = \<lparr>heap = \<lparr>alive = al, ref_datas = (\<lambda>_. None), next_data = 0, owner = (\<lambda>_. None)\<rparr>, shs = [], wks = []\<rparr>"

lemma sp_start_inv: "sp_inv (sp_start al)"
  by (simp add: sp_inv_def sp_start_def heap_ok_def refs_def)

lemma sp_run_ok: "sp_inv s \<Longrightarrow> ops_ok ops s \<Longrightarrow> \<exists>s'. sp_run ops s = Inr s' \<and> sp_inv s'"
proof (induction ops arbitrary: s)
  case (Cons op ops)
  from sp_step_ok [OF Cons.prems(1)] Cons.prems(2) obtain s1 where "sp_step op s = Inr s1" "sp_inv s1" by auto
  with Cons show ?case by simp
qed simp

lemma alive_iff_shared:
  assumes "sp_inv s" "owner (heap s) d = Some obj"
  shows "alive (heap s) obj \<longleftrightarrow> (\<exists>x \<in> set (shs s). m_dest_ptr x = Some obj)"
proof -
  have "alive (heap s) obj \<longleftrightarrow> 0 < refs (shs s) d" using heap_okD(4) [OF sp_invD(1) [OF assms(1)] assms(2)] by simp
  also have "\<dots> \<longleftrightarrow> (\<exists>x \<in> set (shs s). m_ref_data x = Some d)" by (auto simp: refs_def filter_empty_conv)
  also have "\<dots> \<longleftrightarrow> (\<exists>x \<in> set (shs s). m_dest_ptr x = Some obj)"
  proof (intro bex_cong refl)
    fix x assume x: "x \<in> set (shs s)"
    then have "shared_ok (heap s) x" using sp_invD(2) [OF assms(1)] by blast
    then show "m_ref_data x = Some d \<longleftrightarrow> m_dest_ptr x = Some obj"
    proof (cases "m_ref_data x")
      case (Some d')
      then have "m_dest_ptr x = owner (heap s) d'" using \<open>shared_ok (heap s) x\<close> by (simp add: shared_ok_def)
      then show ?thesis using Some assms(2) heap_okD(6) [OF sp_invD(1) [OF assms(1)] assms(2), of d'] by fastforce
    qed (simp add: shared_ok_def)
  qed
  finally show ?thesis .
qed

text \<open>
  (C5) Programs that leave resetting to the destructors and the assignments are safe: no sequence of
  constructions, copies, assignments, locks and destructions uses or deletes anything twice, at every
  moment an object that was handed to a shared pointer is alive exactly if some shared pointer points
  to it, and the counters of every block are the numbers of handles, the block being freed exactly
  when no handle refers to it.
\<close>

theorem shared_ptr_safe:
  assumes "ops_ok ops (sp_start al)"
  shows "\<exists>s. sp_run ops (sp_start al) = Inr s \<and>
    (\<forall>d obj. owner (heap s) d = Some obj \<longrightarrow> (alive (heap s) obj \<longleftrightarrow> (\<exists>x \<in> set (shs s). m_dest_ptr x = Some obj))) \<and>
    (\<forall>x \<in> set (shs s). m_dest_ptr x \<noteq> None \<longrightarrow> sh_deref x (heap s) = Inr (the (m_dest_ptr x)) \<and>
       ref_count x (heap s) = Inr (int (length (filter (\<lambda>y. m_ref_data y = m_ref_data x) (shs s))))) \<and>
    (\<forall>d. ref_datas (heap s) d = None \<longleftrightarrow> (\<forall>x \<in> set (shs s) \<union> set (wks s). m_ref_data x \<noteq> Some d))"
proof -
  obtain s where s: "sp_run ops (sp_start al) = Inr s" "sp_inv s" using sp_run_ok [OF sp_start_inv assms] by blast
  have al: "alive (heap s) obj \<longleftrightarrow> (\<exists>x \<in> set (shs s). m_dest_ptr x = Some obj)" if "owner (heap s) d = Some obj" for d obj
    by (rule alive_iff_shared [OF s(2) that])
  have r: "sh_deref x (heap s) = Inr (the (m_dest_ptr x)) \<and> ref_count x (heap s) = Inr (int (length (filter (\<lambda>y. m_ref_data y = m_ref_data x) (shs s))))"
    if x: "x \<in> set (shs s)" "m_dest_ptr x \<noteq> None" for x
  proof -
    have ok: "shared_ok (heap s) x" using sp_invD(2) [OF s(2)] x(1) by blast
    then obtain d where d: "m_ref_data x = Some d" using x(2) by (cases "m_ref_data x") (auto simp: shared_ok_def)
    from shared_ok_data [OF ok d] obtain obj where o: "m_dest_ptr x = Some obj" "owner (heap s) d = Some obj" .
    have "alive (heap s) obj" using al [OF o(2)] o(1) x(1) by blast
    moreover have "ref_datas (heap s) d = Some \<lparr>m_ref_count = refs (shs s) d, m_weak_ref_count = refs (shs s) d + refs (wks s) d\<rparr>"
      using heap_okD(1) [OF sp_invD(1) [OF s(2)], of d] refs_pos [OF x(1) d] by simp
    ultimately show ?thesis using o d by (simp add: sh_deref_def ref_count_def get_data_def refs_def)
  qed
  have "ref_datas (heap s) d = None \<longleftrightarrow> (\<forall>x \<in> set (shs s) \<union> set (wks s). m_ref_data x \<noteq> Some d)" for d
    using heap_okD(1) [OF sp_invD(1) [OF s(2)], of d] by (auto simp: refs_def filter_empty_conv)
  with s(1) al r show ?thesis by blast
qed

definition sample_sp_ops :: "sp_op list" where
  "sample_sp_ops = [Sh_new (Some 5), Wk_make 0, Sh_copy 0, Sh_destroy 0, Wk_lock 0, Sh_destroy 0]"

theorem shared_ptr_safe_witness:
  "\<exists>s. sp_run sample_sp_ops (sp_start (\<lambda>_. True)) = Inr s \<and> alive (heap s) 5 \<and> length (shs s) = 1 \<and> length (wks s) = 1"
proof -
  have ok: "ops_ok sample_sp_ops (sp_start (\<lambda>_. True))"
    by (simp add: sample_sp_ops_def sp_start_def sh_new_def wk_make_def with_data_def inc_weak_def inc_ref_def sh_copy_def
        sh_destroy_def sh_reset_def get_data_def dec_ref_def dec_weak_def drop_at_def wk_lock_def sh_adopt_def)
  have r: "\<exists>s. sp_run sample_sp_ops (sp_start (\<lambda>_. True)) = Inr s \<and> owner (heap s) 0 = Some 5 \<and> length (wks s) = 1 \<and>
      length (shs s) = 1 \<and> m_dest_ptr (hd (shs s)) = Some 5"
    by (simp add: sample_sp_ops_def sp_start_def sh_new_def wk_make_def with_data_def inc_weak_def inc_ref_def sh_copy_def
        sh_destroy_def sh_reset_def get_data_def dec_ref_def dec_weak_def drop_at_def wk_lock_def sh_adopt_def)
  then obtain s where s: "sp_run sample_sp_ops (sp_start (\<lambda>_. True)) = Inr s" "owner (heap s) 0 = Some 5" "length (wks s) = 1"
      "length (shs s) = 1" "m_dest_ptr (hd (shs s)) = Some 5" by blast
  then have "hd (shs s) \<in> set (shs s)" by (cases "shs s") auto
  with shared_ptr_safe [OF ok] s show ?thesis by (metis Inr_inject)
qed

text \<open>
  A weak pointer gives the object exactly while it is alive: locking returns a pointer to the
  object if a shared pointer still holds it and a null pointer otherwise, and never revives or
  deletes anything.
\<close>

theorem weak_lock_alive:
  assumes "sp_inv s" "i < length (wks s)"
  shows "\<exists>w x h. wk_lock (wks s ! i) (heap s) = Inr (w, x, h) \<and> alive h = alive (heap s) \<and>
    m_dest_ptr x = (case m_dest_ptr (wks s ! i) of None \<Rightarrow> None
      | Some obj \<Rightarrow> if \<exists>y \<in> set (shs s). m_dest_ptr y = Some obj then Some obj else None)"
proof -
  let ?w = "wks s ! i"
  from wk_lock_ok [OF sp_invD(1) [OF assms(1)] sp_inv_nth(2,4) [OF assms]] obtain w x h where
    h: "wk_lock ?w (heap s) = Inr (w, x, h)"
      "m_dest_ptr x = (case m_dest_ptr ?w of None \<Rightarrow> None | Some obj \<Rightarrow> if alive (heap s) obj then Some obj else None)" by blast
  have "alive h = alive (heap s)"
    using h(1) by (auto simp: wk_lock_def and_then_def with_data_def get_data_def sh_adopt_def split: if_splits option.splits sum.splits)
  moreover have "alive (heap s) obj \<longleftrightarrow> (\<exists>y \<in> set (shs s). m_dest_ptr y = Some obj)" if ptr: "m_dest_ptr ?w = Some obj" for obj
  proof -
    have "weak_ok (heap s) ?w" by (rule sp_inv_nth(2) [OF assms])
    then obtain d where "owner (heap s) d = Some obj" using ptr by (cases "m_ref_data ?w") (auto simp: weak_ok_def)
    then show ?thesis by (rule alive_iff_shared [OF assms(1)])
  qed
  ultimately show ?thesis using h by (intro exI [of _ w] exI [of _ x] exI [of _ h]) (simp split: option.splits)
qed

definition sample_sp_state :: sp_state where
  "sample_sp_state = \<lparr>heap = \<lparr>alive = (\<lambda>_. True), ref_datas = [0 \<mapsto> \<lparr>m_ref_count = 1, m_weak_ref_count = 2\<rparr>], next_data = 1,
     owner = [0 \<mapsto> 5]\<rparr>, shs = [\<lparr>m_dest_ptr = Some 5, m_ref_data = Some 0\<rparr>], wks = [\<lparr>m_dest_ptr = Some 5, m_ref_data = Some 0\<rparr>]\<rparr>"

theorem weak_lock_alive_witness:
  "\<exists>w x h. wk_lock (wks sample_sp_state ! 0) (heap sample_sp_state) = Inr (w, x, h) \<and> m_dest_ptr x = Some 5"
proof -
  have "sp_inv sample_sp_state"
    by (auto simp: sp_inv_def sample_sp_state_def heap_ok_def refs_def shared_ok_def weak_ok_def)
  from weak_lock_alive [OF this, of 0] show ?thesis by (auto simp: sample_sp_state_def)
qed

text \<open>
  Calling \<open>reset\<close> by hand is not safe: while another handle holds the object, \<open>reset\<close> lowers the
  counters but keeps both pointers, and the destructor of the same handle lowers them again. Of two
  handles of an object, one is reset and destroyed; then the object is deleted although the other
  handle still points to it, and using or destroying that one is undefined.
\<close>

theorem reset_then_destroy_dangles:
  assumes "alive h obj" "ref_datas h d = Some \<lparr>m_ref_count = 2, m_weak_ref_count = 2\<rparr>" "x = \<lparr>m_dest_ptr = Some obj, m_ref_data = Some d\<rparr>"
  shows "\<exists>x1 h1 h2. sh_reset x h = Inr (x1, h1) \<and> sh_destroy x1 h1 = Inr h2 \<and>
    sh_deref x h2 = Inl Dangling \<and> sh_destroy x h2 = Inl Dangling"
  using assms by (simp add: sh_reset_def sh_destroy_def with_data_def get_data_def dec_ref_def dec_weak_def delete_obj_def
      delete_data_def sh_deref_def)

theorem reset_then_destroy_dangles_witness:
  "\<exists>x1 h1 h2. sh_reset \<lparr>m_dest_ptr = Some 5, m_ref_data = Some 0\<rparr> ((heap sample_sp_state)\<lparr>ref_datas := [0 \<mapsto> \<lparr>m_ref_count = 2, m_weak_ref_count = 2\<rparr>]\<rparr>) = Inr (x1, h1) \<and>
    sh_destroy x1 h1 = Inr h2 \<and> sh_deref \<lparr>m_dest_ptr = Some 5, m_ref_data = Some 0\<rparr> h2 = Inl Dangling"
proof -
  let ?h = "(heap sample_sp_state)\<lparr>ref_datas := [0 \<mapsto> \<lparr>m_ref_count = 2, m_weak_ref_count = 2\<rparr>]\<rparr>"
  have "alive ?h 5" "ref_datas ?h 0 = Some \<lparr>m_ref_count = 2, m_weak_ref_count = 2\<rparr>" by (simp_all add: sample_sp_state_def)
  from reset_then_destroy_dangles [OF this refl] show ?thesis by blast
qed

end
