(* ===== verification/Epoll.thy ===== *)
theory Epoll
  imports Socket_Impl
begin

section \<open>The event loop, the task threads and the life of a socket\<close>

text \<open>
  \<open>epoll_impl_t\<close> (\<^verbatim>\<open>net/epoll_impl.cpp\<close>) and \<open>acceptor_impl_t\<close> (\<^verbatim>\<open>net/acceptor_impl.cpp\<close>) together with the parts
  of \<open>socket_impl_t\<close> that run on the loop's thread. The loop thread only turns events into tasks; the task
  threads run them, in order for each socket, because a socket has one queue and a queue one thread.
  A socket object goes through these threads: \<open>close_impl\<close> enters it into the set of error
  descriptors and interrupts the loop, the loop turns the interrupt into a task that reports the socket
  as broken, the handler then asks for its deletion, which is another task.

  The state is what the threads share; every step is one action of one thread. What the system calls
  answer is part of the step. Socket objects have identities that are never used again, so that the
  use of an object that is gone is seen as \<open>Dangling\<close>.
\<close>

type_synonym sid = nat

datatype task =
    T_close sid | T_read sid | T_write sid | T_send sid string | T_error sid | T_delete sid

fun task_sock :: "task \<Rightarrow> sid" where
  "task_sock (T_close s) = s"
| "task_sock (T_read s) = s"
| "task_sock (T_write s) = s"
| "task_sock (T_send s m) = s"
| "task_sock (T_error s) = s"
| "task_sock (T_delete s) = s"

text \<open>An event of \<open>epoll_wait\<close>: the interrupt, the listening socket, or a socket with the three flags that the loop tests.\<close>

datatype accept_answer = Accepted int | Accept_wouldblock | Accept_retry | Accept_error

datatype ep_event = Interrupt | Acceptable "accept_answer list" | Ready sid bool bool bool

record world =
  m_running :: bool
  m_error_fd_set :: "sid list"
  interrupted :: bool
  loop_done :: bool
  interest :: "sid \<Rightarrow> bool"
  batch :: "ep_event list"
  sockets :: "sid \<Rightarrow> socket_impl_t option"
  next_sid :: sid
  tq_of :: "sid \<Rightarrow> nat"
  pool_size :: nat
  queues :: "nat \<Rightarrow> task list"
  broken_log :: "sid list"

text \<open>\<open>interrupted\<close>: the interrupt descriptor was armed again since the loop last saw it. \<open>batch\<close>: the events of the last
  \<open>epoll_wait\<close> that the loop has not looked at. \<open>broken_log\<close>: the sockets whose \<open>handle_error\<close> was called.\<close>

subsection \<open>Producing tasks\<close>

definition enqueue :: "task \<Rightarrow> world \<Rightarrow> world" where
  "enqueue t w = w\<lparr>queues := (queues w)(tq_of w (task_sock t) := queues w (tq_of w (task_sock t)) @ [t])\<rparr>"

text \<open>A method of a socket object that produces a task reads the queue from the object.\<close>

definition produce :: "task \<Rightarrow> world \<Rightarrow> world exc" where
  "produce t w = (if sockets w (task_sock t) = None then Inl Dangling else Inr (enqueue t w))"

definition ep_handle_epoll_read :: "sid \<Rightarrow> world \<Rightarrow> world exc" where
  "ep_handle_epoll_read s = produce (T_read s)"

definition ep_handle_epoll_write :: "sid \<Rightarrow> world \<Rightarrow> world exc" where
  "ep_handle_epoll_write s = produce (T_write s)"

definition ep_handle_epoll_del :: "sid \<Rightarrow> world \<Rightarrow> world exc" where
  "ep_handle_epoll_del s = produce (T_error s)"

definition ep_close :: "sid \<Rightarrow> world \<Rightarrow> world exc" where
  "ep_close s = produce (T_close s)"

definition async_send :: "sid \<Rightarrow> string \<Rightarrow> world \<Rightarrow> world exc" where
  "async_send s m = produce (T_send s m)"

fun exc_fold :: "('a \<Rightarrow> 's \<Rightarrow> 's exc) \<Rightarrow> 'a list \<Rightarrow> 's \<Rightarrow> 's exc" where
  "exc_fold f [] s = Inr s"
| "exc_fold f (x # xs) s = (case f x s of Inl e \<Rightarrow> Inl e | Inr s' \<Rightarrow> exc_fold f xs s')"

subsection \<open>\<open>epoll_impl_t\<close>\<close>

definition interupt_loop :: "world \<Rightarrow> world" where
  "interupt_loop w = w\<lparr>interrupted := True\<rparr>"

definition close_loop :: "world \<Rightarrow> world" where
  "close_loop w = interupt_loop (w\<lparr>m_running := False\<rparr>)"

definition register_fd :: "sid \<Rightarrow> world \<Rightarrow> world" where
  "register_fd s w = w\<lparr>interest := (interest w)(s := True)\<rparr>"

text \<open>\<open>unregister_fd\<close> is called with the descriptor still open.\<close>

definition unregister_fd :: "sid \<Rightarrow> world \<Rightarrow> world" where
  "unregister_fd s w = interupt_loop (w\<lparr>interest := (interest w)(s := False), m_error_fd_set := m_error_fd_set w @ [s]\<rparr>)"

definition fd_del_callback :: "world \<Rightarrow> world exc" where
  "fd_del_callback w = (case exc_fold ep_handle_epoll_del (m_error_fd_set w) w of
     Inl e \<Rightarrow> Inl e | Inr w1 \<Rightarrow> Inr (w1\<lparr>m_error_fd_set := []\<rparr>))"

subsection \<open>\<open>acceptor_impl_t\<close>\<close>

text \<open>\<open>create_socket\<close> and \<open>open\<close>: the new object gets the queue that its descriptor chooses in the pool, and
  \<open>open\<close> registers it. The queue index is the one \<open>task_queue_pool_t::alloc\<close> computes.\<close>

definition create_socket :: "int \<Rightarrow> world \<Rightarrow> sid \<times> world" where
  "create_socket fd w =
     (let s = next_sid w
      in (s, w\<lparr>sockets := (sockets w)(s \<mapsto> \<lparr>m_fd = fd, m_send_buffer = [], kernel = [], events = []\<rparr>),
               next_sid := s + 1,
               tq_of := (tq_of w)(s := unat ((word_of_int fd :: size_t) mod word_of_nat (pool_size w)))\<rparr>))"

definition ep_open :: "sid \<Rightarrow> world \<Rightarrow> world" where
  "ep_open s w = register_fd s (w\<lparr>sockets := (sockets w)(s := map_option sock_open (sockets w s))\<rparr>)"

fun accept_loop :: "accept_answer list \<Rightarrow> world \<Rightarrow> (world \<times> int) option" where
  "accept_loop [] w = None"
| "accept_loop (a # ans) w = (case a of
     Accepted fd \<Rightarrow> (let (s, w1) = create_socket fd w in accept_loop ans (ep_open s w1))
   | Accept_wouldblock \<Rightarrow> Some (w, 0)
   | Accept_retry \<Rightarrow> Some (w, 0)
   | Accept_error \<Rightarrow> Some (w, - 1))"

subsection \<open>The loop thread\<close>

text \<open>What one event makes the loop do, in the order of the tests.\<close>

definition if_flag :: "bool \<Rightarrow> ('s \<Rightarrow> 's exc) \<Rightarrow> 's exc \<Rightarrow> 's exc" where
  "if_flag b f r = (case r of Inl e \<Rightarrow> Inl e | Inr s \<Rightarrow> (if b then f s else Inr s))"

definition loop_event :: "ep_event \<Rightarrow> world \<Rightarrow> world exc option" where
  "loop_event ev w = (case ev of
     Interrupt \<Rightarrow> Some (if \<not> m_running w then Inr (w\<lparr>loop_done := True\<rparr>) else fd_del_callback w)
   | Acceptable ans \<Rightarrow> map_option (\<lambda>(w1, _). Inr w1) (accept_loop ans w)
   | Ready s rd wr er \<Rightarrow> Some (if_flag er (ep_close s) (if_flag wr (ep_handle_epoll_write s) (if_flag rd (ep_handle_epoll_read s) (Inr w)))))"

subsection \<open>The task threads\<close>

text \<open>
  What a method of the socket did, read from its events: \<open>this->close()\<close> produces a task, \<open>close_impl\<close>
  unregisters, and the controller may ask for a close when it is given bytes or told that everything
  was sent (\<open>closes\<close>).
\<close>

fun perform :: "(sock_event \<Rightarrow> bool) \<Rightarrow> sid \<Rightarrow> sock_event \<Rightarrow> world \<Rightarrow> world" where
  "perform closes s Produce_close w = enqueue (T_close s) w"
| "perform closes s Unregister_fd w = unregister_fd s w"
| "perform closes s Delete_task w = enqueue (T_delete s) w"
| "perform closes s (Handle_read b) w = (if closes (Handle_read b) then enqueue (T_close s) w else w)"
| "perform closes s Handle_write_completed w = (if closes Handle_write_completed then enqueue (T_close s) w else w)"
| "perform closes s (Close_fd fd) w = w"
| "perform closes s Register_fd w = w"
| "perform closes s Handle_open w = w"

definition put_socket :: "(sock_event \<Rightarrow> bool) \<Rightarrow> sid \<Rightarrow> socket_impl_t \<Rightarrow> socket_impl_t \<Rightarrow> world \<Rightarrow> world" where
  "put_socket closes s x x' w =
     fold (perform closes s) (drop (length (events x)) (events x')) (w\<lparr>sockets := (sockets w)(s \<mapsto> x')\<rparr>)"

record task_env =
  sends :: "send_answer list"
  reads :: "read_answer list"
  closes_on :: "sock_event \<Rightarrow> bool"
  pre_send :: "int \<Rightarrow> string \<Rightarrow> int \<times> string"

text \<open>\<open>handle_error\<close> of the controller calls \<open>handle_broken\<close> of the handler, which has to delete the socket:
  it calls \<open>safe_delete\<close>.\<close>

definition run_task :: "task_env \<Rightarrow> task \<Rightarrow> world \<Rightarrow> world exc option" where
  "run_task env t w = (case sockets w (task_sock t) of
     None \<Rightarrow> Some (Inl Dangling)
   | Some x \<Rightarrow> (case t of
        T_close s \<Rightarrow> Some (Inr (put_socket (closes_on env) s x (close_impl x) w))
      | T_read s \<Rightarrow> map_option (\<lambda>(_, x'). Inr (put_socket (closes_on env) s x x' w)) (handle_epoll_read_impl (reads env) x)
      | T_write s \<Rightarrow> map_option (\<lambda>x'. Inr (put_socket (closes_on env) s x x' w)) (handle_epoll_write_impl (sends env) x)
      | T_send s m \<Rightarrow> map_option (\<lambda>x'. Inr (put_socket (closes_on env) s x x' w)) (send_impl (pre_send env (m_fd x)) (sends env) m x)
      | T_error s \<Rightarrow> Some (Inr (put_socket (closes_on env) s x (safe_delete x) (w\<lparr>broken_log := broken_log w @ [s]\<rparr>)))
      | T_delete s \<Rightarrow> Some (Inr (w\<lparr>sockets := (sockets w)(s := None)\<rparr>))))"

subsection \<open>Steps\<close>

text \<open>
  \<open>epoll_wait\<close> gives events of registered sockets and the interrupt if it is armed, the interrupt at
  most once; no events stand for a timeout and for \<open>EINTR\<close>, any other error ends the loop. A user of the framework calls \<open>close\<close> and \<open>async_send\<close> on sockets that were not reported broken.
\<close>

fun ready_sid :: "ep_event \<Rightarrow> sid option" where
  "ready_sid (Ready s rd wr er) = Some s"
| "ready_sid _ = None"

definition wait_gives :: "ep_event list \<Rightarrow> world \<Rightarrow> bool" where
  "wait_gives evs w \<longleftrightarrow> (\<forall>s. Some s \<in> ready_sid ` set evs \<longrightarrow> interest w s) \<and>
     (Interrupt \<in> set evs \<longrightarrow> interrupted w) \<and> count_list evs Interrupt \<le> 1"

definition epoll_wait :: "ep_event list \<Rightarrow> world \<Rightarrow> world" where
  "epoll_wait evs w = w\<lparr>batch := evs, interrupted := (interrupted w \<and> Interrupt \<notin> set evs)\<rparr>"

inductive ep_step :: "(ep_event list \<Rightarrow> bool) \<Rightarrow> world \<Rightarrow> world exc \<Rightarrow> bool" for ok where
  Wait: "\<not> loop_done w \<Longrightarrow> batch w = [] \<Longrightarrow> wait_gives evs w \<Longrightarrow> ok evs \<Longrightarrow> ep_step ok w (Inr (epoll_wait evs w))"
| Wait_error: "\<not> loop_done w \<Longrightarrow> batch w = [] \<Longrightarrow> ep_step ok w (Inr (w\<lparr>loop_done := True\<rparr>))"
| Event: "\<not> loop_done w \<Longrightarrow> batch w = ev # evs \<Longrightarrow> loop_event ev (w\<lparr>batch := evs\<rparr>) = Some r \<Longrightarrow> ep_step ok w r"
| Task: "queues w q = t # ts \<Longrightarrow> run_task env t (w\<lparr>queues := (queues w)(q := ts)\<rparr>) = Some r \<Longrightarrow> ep_step ok w r"
| User_close: "s < next_sid w \<Longrightarrow> s \<notin> set (broken_log w) \<Longrightarrow> ep_step ok w (ep_close s w)"
| User_send: "s < next_sid w \<Longrightarrow> s \<notin> set (broken_log w) \<Longrightarrow> ep_step ok w (async_send s m w)"
| Close_loop: "ep_step ok w (Inr (close_loop w))"

inductive ep_reach :: "(ep_event list \<Rightarrow> bool) \<Rightarrow> world \<Rightarrow> world \<Rightarrow> bool" for ok w0 where
  Start: "ep_reach ok w0 w0"
| Step: "ep_reach ok w0 w \<Longrightarrow> ep_step ok w (Inr w') \<Longrightarrow> ep_reach ok w0 w'"

definition new_world :: "nat \<Rightarrow> world" where
  "new_world n = \<lparr>m_running = True, m_error_fd_set = [], interrupted = False, loop_done = False,
     interest = (\<lambda>_. False), batch = [], sockets = (\<lambda>_. None), next_sid = 0, tq_of = (\<lambda>_. 0), pool_size = n,
     queues = (\<lambda>_. []), broken_log = []\<rparr>"

inductive_cases ep_stepE: "ep_step ok w r"

subsection \<open>What the methods of a socket may do\<close>

text \<open>Reading and sending keep the descriptor, ask at most for closes, and do nothing once it is closed.\<close>

definition soft_event :: "sock_event \<Rightarrow> bool" where
  "soft_event e \<longleftrightarrow> (case e of Produce_close \<Rightarrow> True | Handle_read b \<Rightarrow> True | Handle_write_completed \<Rightarrow> True | _ \<Rightarrow> False)"

definition soft :: "socket_impl_t \<Rightarrow> socket_impl_t \<Rightarrow> bool" where
  "soft x x' \<longleftrightarrow> m_fd x' = m_fd x \<and> (\<not> is_open x \<longrightarrow> x' = x) \<and> (\<exists>es. events x' = events x @ es \<and> (\<forall>e \<in> set es. soft_event e))"

lemma soft_refl [simp]: "soft x x"
  by (simp add: soft_def)

lemma softI: "m_fd x' = m_fd x \<Longrightarrow> is_open x \<Longrightarrow> events x' = events x @ es \<Longrightarrow> \<forall>e \<in> set es. soft_event e \<Longrightarrow> soft x x'"
  by (auto simp: soft_def)

lemma write_loop_soft: "is_open x \<Longrightarrow> write_loop ans msgs x = Some x' \<Longrightarrow> soft x x'"
proof (induction ans msgs x arbitrary: x' rule: write_loop.induct)
  case (1 ans s)
  then show ?case by (intro softI [where es = "[Handle_write_completed]"]) (auto simp: logged_def soft_event_def)
next
  case (2 ans msg msgs s)
  obtain ret lb wr rest where ds: "do_send ans msg = Some (ret, lb, wr, rest)"
    using 2(3) by (auto split: option.splits)
  consider "ret < 0" | "ret > 0" | "ret = 0" by linarith
  then show ?case
  proof cases
    case 1
    then show ?thesis using 2(2,3) ds
      by (intro softI [where es = "[Produce_close, Produce_close]"])
        (auto simp: logged_def soft_event_def sock_close_def accept_bytes_def)
  next
    case p: 2
    then show ?thesis using 2(2,3) ds by (intro softI [where es = "[]"]) (auto simp: accept_bytes_def)
  next
    case 3
    then have "soft (accept_bytes wr s) x'"
      using 2(1) [OF ds refl refl refl refl, of x'] 2(2,3) ds by (auto simp: is_open_def accept_bytes_def)
    then show ?thesis using 2(2) by (auto simp: soft_def accept_bytes_def is_open_def)
  qed
qed

lemma handle_epoll_write_impl_soft: "handle_epoll_write_impl ans x = Some x' \<Longrightarrow> soft x x'"
  by (auto simp: handle_epoll_write_impl_def split: if_splits intro: write_loop_soft)

lemma send_impl_soft: "send_impl check ans m x = Some x' \<Longrightarrow> soft x x'"
  unfolding send_impl_def
  by (auto simp: Let_def soft_def logged_def sock_close_def accept_bytes_def soft_event_def split: prod.splits if_splits option.splits)

lemma read_loop_soft: "is_open x \<Longrightarrow> read_loop ans x = Some (r, x') \<Longrightarrow> soft x x'"
proof (induction ans x arbitrary: r x' rule: read_loop.induct)
  case (2 a ans s)
  show ?case
  proof (cases a)
    case (Bytes b)
    have s1: "is_open (logged [Handle_read b] s)" using 2(3) by (simp add: is_open_def logged_def)
    have "soft (logged [Handle_read b] s) x'" if "\<not> length b < recv_max"
      using 2(1) [OF Bytes refl that s1] 2(4) that Bytes by (auto simp: Let_def)
    then show ?thesis using 2(3,4) Bytes
      by (auto simp: Let_def soft_def logged_def is_open_def soft_event_def split: if_splits)
  next
    case Read_eintr
    then show ?thesis using 2 by simp
  qed (use 2 in \<open>auto simp: soft_def logged_def soft_event_def sock_close_def\<close>)
qed simp

lemma handle_epoll_read_impl_soft: "handle_epoll_read_impl ans x = Some (r, x') \<Longrightarrow> soft x x'"
  by (auto simp: handle_epoll_read_impl_def split: if_splits intro: read_loop_soft)

subsection \<open>What a step does to one socket\<close>

definition sk_tasks :: "world \<Rightarrow> sid \<Rightarrow> task list" where
  "sk_tasks w s = filter (\<lambda>t. task_sock t = s) (queues w (tq_of w s))"

definition in_batch :: "world \<Rightarrow> sid \<Rightarrow> bool" where
  "in_batch w s \<longleftrightarrow> Some s \<in> ready_sid ` set (batch w)"

record view =
  v_born :: bool
  v_open :: "bool option"
  v_interest :: bool
  v_errors :: nat
  v_broken :: nat
  v_tasks :: "task list"
  v_batch :: bool

definition view :: "world \<Rightarrow> sid \<Rightarrow> view" where
  "view w s = \<lparr>v_born = (s < next_sid w), v_open = map_option is_open (sockets w s), v_interest = interest w s,
     v_errors = count_list (m_error_fd_set w) s, v_broken = count_list (broken_log w) s,
     v_tasks = sk_tasks w s, v_batch = in_batch w s\<rparr>"

lemma view_enqueue:
  "view (enqueue t w) s = (if s = task_sock t then (view w s)\<lparr>v_tasks := sk_tasks w s @ [t]\<rparr> else view w s)"
  by (auto simp: view_def enqueue_def sk_tasks_def in_batch_def)

lemma view_unregister: "view (unregister_fd s w) s' =
    (if s' = s then (view w s)\<lparr>v_interest := False, v_errors := Suc (v_errors (view w s))\<rparr> else view w s')"
  by (auto simp: view_def unregister_fd_def interupt_loop_def sk_tasks_def in_batch_def)

text \<open>The parts of the state that do not belong to one socket.\<close>

definition glob :: "world \<Rightarrow> bool" where
  "glob w \<longleftrightarrow> (\<forall>q. \<forall>t \<in> set (queues w q). tq_of w (task_sock t) = q \<and> task_sock t < next_sid w) \<and>
     (m_error_fd_set w \<noteq> [] \<longrightarrow> interrupted w \<or> Interrupt \<in> set (batch w) \<or> loop_done w) \<and>
     Interrupt \<notin> set (butlast (batch w))"

lemma glob_enqueue: "glob w \<Longrightarrow> task_sock t < next_sid w \<Longrightarrow> glob (enqueue t w)"
  by (auto simp: glob_def enqueue_def)

lemma glob_unregister: "glob w \<Longrightarrow> glob (unregister_fd s w)"
  by (auto simp: glob_def unregister_fd_def interupt_loop_def)

text \<open>The soft events of a socket add closes to its tasks.\<close>

lemma enqueue_next_sid [simp]: "next_sid (enqueue t w) = next_sid w"
  by (simp add: enqueue_def)

lemma perform_soft:
  assumes "\<forall>e \<in> set es. soft_event e" "glob w" "s < next_sid w"
  shows "glob (fold (perform closes s) es w) \<and> (\<exists>k. \<forall>s'. view (fold (perform closes s) es w) s' =
      (if s' = s then (view w s)\<lparr>v_tasks := sk_tasks w s @ replicate k (T_close s)\<rparr> else view w s'))"
  using assms
proof (induction es arbitrary: w)
  case Nil
  then show ?case by (auto intro!: exI [of _ 0] simp: view_def)
next
  case (Cons e es)
  let ?w = "perform closes s e w"
  have "?w = w \<or> ?w = enqueue (T_close s) w" using Cons.prems(1) by (auto simp: soft_event_def split: sock_event.splits)
  then show ?case
  proof
    assume "?w = w"
    then show ?thesis using Cons by simp
  next
    assume w: "?w = enqueue (T_close s) w"
    have "glob ?w" "s < next_sid ?w" using w Cons.prems glob_enqueue [of w "T_close s"] by simp_all
    then obtain k where k: "glob (fold (perform closes s) es ?w)"
      "\<And>s'. view (fold (perform closes s) es ?w) s' = (if s' = s then (view ?w s)\<lparr>v_tasks := sk_tasks ?w s @ replicate k (T_close s)\<rparr> else view ?w s')"
      using Cons.IH [of ?w] Cons.prems(1) by auto
    have "sk_tasks ?w s = sk_tasks w s @ [T_close s]" using view_enqueue [of "T_close s" w s] w by (simp add: view_def)
    with k show ?thesis by (auto simp: w view_enqueue intro!: exI [of _ "Suc k"])
  qed
qed

subsection \<open>The phases of a socket\<close>

datatype phase = Unborn | Opened | Closing | Reported | Broken | Gone

fun plain :: "task \<Rightarrow> bool" where
  "plain (T_error s) = False"
| "plain (T_delete s) = False"
| "plain t = True"

text \<open>
  A socket in the set of error descriptors has not been reported yet; the report is the one
  \<open>handle_error\<close> among its tasks; once it has run, the deletion is the last of its tasks.
\<close>

fun in_phase :: "phase \<Rightarrow> sid \<Rightarrow> view \<Rightarrow> bool" where
  "in_phase Unborn s v = (\<not> v_born v \<and> v_open v = None \<and> \<not> v_interest v \<and> v_errors v = 0 \<and> v_broken v = 0 \<and> v_tasks v = [] \<and> \<not> v_batch v)"
| "in_phase Opened s v = (v_born v \<and> v_open v \<noteq> None \<and> v_errors v = 0 \<and> v_broken v = 0 \<and> list_all plain (v_tasks v))"
| "in_phase Closing s v = (v_born v \<and> v_open v = Some False \<and> \<not> v_interest v \<and> v_errors v = 1 \<and> v_broken v = 0 \<and> list_all plain (v_tasks v))"
| "in_phase Reported s v = (v_born v \<and> v_open v = Some False \<and> \<not> v_interest v \<and> v_errors v = 0 \<and> v_broken v = 0 \<and>
     (\<exists>a b. v_tasks v = a @ T_error s # b \<and> list_all plain a \<and> list_all plain b) \<and> \<not> v_batch v)"
| "in_phase Broken s v = (v_born v \<and> v_open v = Some False \<and> \<not> v_interest v \<and> v_errors v = 0 \<and> v_broken v = 1 \<and>
     (\<exists>a. v_tasks v = a @ [T_delete s] \<and> list_all plain a) \<and> \<not> v_batch v)"
| "in_phase Gone s v = (v_born v \<and> v_open v = None \<and> \<not> v_interest v \<and> v_errors v = 0 \<and> v_broken v = 1 \<and> v_tasks v = [] \<and> \<not> v_batch v)"

definition in_some_phase :: "sid \<Rightarrow> view \<Rightarrow> bool" where
  "in_some_phase s v \<longleftrightarrow> (\<exists>p. in_phase p s v)"

definition ep_inv :: "world \<Rightarrow> bool" where
  "ep_inv w \<longleftrightarrow> glob w \<and> (\<forall>s. in_some_phase s (view w s))"

lemma in_some_phaseE [elim]:
  assumes "in_some_phase s v"
  obtains "in_phase Unborn s v" | "in_phase Opened s v" | "in_phase Closing s v" | "in_phase Reported s v"
    | "in_phase Broken s v" | "in_phase Gone s v"
  using assms unfolding in_some_phase_def by (metis phase.exhaust)

lemma in_some_phaseI: "in_phase p s v \<Longrightarrow> in_some_phase s v"
  by (auto simp: in_some_phase_def)

lemma ep_invI: "glob w' \<Longrightarrow> (\<And>s. in_some_phase s (view w' s)) \<Longrightarrow> ep_inv w'"
  by (simp add: ep_inv_def)

text \<open>A step that concerns one socket only.\<close>

lemma ep_inv_one:
  assumes "ep_inv w" "glob w'" "\<And>s'. s' \<noteq> s \<Longrightarrow> view w' s' = view w s'" "in_some_phase s (view w' s)"
  shows "ep_inv w'"
  using assms unfolding ep_inv_def by metis

text \<open>An object that was not reported broken is there.\<close>

lemma alive_if_unbroken:
  assumes "ep_inv w" "s < next_sid w" "s \<notin> set (broken_log w)"
  shows "sockets w s \<noteq> None"
proof -
  have "in_some_phase s (view w s)" using assms(1) by (simp add: ep_inv_def)
  moreover have "v_born (view w s)" "v_broken (view w s) = 0" using assms(2,3) by (simp_all add: view_def count_list_0_iff)
  ultimately show ?thesis by (elim in_some_phaseE) (auto simp: view_def)
qed

lemma alive_if_listed:
  assumes "ep_inv w" "s \<in> set (m_error_fd_set w) \<or> in_batch w s"
  shows "sockets w s \<noteq> None" "s < next_sid w"
proof -
  have "in_some_phase s (view w s)" using assms(1) by (simp add: ep_inv_def)
  moreover have "v_errors (view w s) \<noteq> 0 \<or> v_batch (view w s)" using assms(2) by (auto simp: view_def count_list_0_iff)
  ultimately show "sockets w s \<noteq> None" "s < next_sid w" by (elim in_some_phaseE; auto simp: view_def)+
qed

subsection \<open>The steps of the loop\<close>

lemma phase_add_plain:
  assumes "in_some_phase s v" "v_broken v = 0" "v_open v \<noteq> None" "plain t"
  shows "in_some_phase s (v\<lparr>v_tasks := v_tasks v @ [t]\<rparr>)"
  using assms(1)
proof (cases rule: in_some_phaseE)
  case 4
  then obtain a b where "v_tasks v = a @ T_error s # b" "list_all plain a" "list_all plain b" by auto
  then have "\<exists>a b. v_tasks v @ [t] = a @ T_error s # b \<and> list_all plain a \<and> list_all plain b"
    using assms(4) by - (rule exI [of _ a], rule exI [of _ "b @ [t]"], simp)
  then show ?thesis using 4 by (intro in_some_phaseI [of Reported]) simp
next
  case 2
  then show ?thesis using assms(4) by (intro in_some_phaseI [of Opened]) simp
next
  case 3
  then show ?thesis using assms(4) by (intro in_some_phaseI [of Closing]) simp
qed (use assms in auto)

lemma view_fields [simp]:
  "v_born (view w s) \<longleftrightarrow> s < next_sid w" "v_open (view w s) = map_option is_open (sockets w s)"
  "v_interest (view w s) \<longleftrightarrow> interest w s" "v_errors (view w s) = count_list (m_error_fd_set w) s"
  "v_broken (view w s) = count_list (broken_log w) s" "v_tasks (view w s) = sk_tasks w s" "v_batch (view w s) \<longleftrightarrow> in_batch w s"
  by (simp_all add: view_def)

text \<open>A task that is not the report or the deletion can always be added while the report has not run.\<close>

lemma born_if_alive: "ep_inv w \<Longrightarrow> sockets w s \<noteq> None \<Longrightarrow> s < next_sid w"
  unfolding ep_inv_def by (elim conjE allE [of _ s] in_some_phaseE) auto

lemma plain_produced:
  assumes "ep_inv w" "task_sock t \<notin> set (broken_log w)" "sockets w (task_sock t) \<noteq> None" "plain t"
  shows "\<exists>w'. produce t w = Inr w' \<and> w' = enqueue t w \<and> ep_inv w'"
proof -
  let ?s = "task_sock t"
  have "in_some_phase ?s (view w ?s)" using assms(1) by (simp add: ep_inv_def)
  then have "in_some_phase ?s (view (enqueue t w) ?s)"
    using phase_add_plain [of ?s "view w ?s" t] assms(2-4) by (simp add: view_enqueue count_list_0_iff)
  then have "ep_inv (enqueue t w)"
    using assms(1) glob_enqueue [of w t] born_if_alive [OF assms(1,3)]
    by (intro ep_inv_one [OF assms(1), of _ ?s]) (auto simp: ep_inv_def view_enqueue)
  with assms(3) show ?thesis by (simp add: produce_def)
qed

definition interrupt_last :: "ep_event list \<Rightarrow> bool" where
  "interrupt_last evs \<longleftrightarrow> Interrupt \<notin> set (butlast evs)"

lemma view_batch: "view (w\<lparr>batch := evs\<rparr>) s = (view w s)\<lparr>v_batch := (Some s \<in> ready_sid ` set evs)\<rparr>"
  by (simp add: view_def sk_tasks_def in_batch_def)

lemma in_phase_unbatch:
  assumes "in_some_phase s v" "b \<Longrightarrow> v_batch v"
  shows "in_some_phase s (v\<lparr>v_batch := b\<rparr>)"
proof -
  have "in_phase p s (v\<lparr>v_batch := b\<rparr>)" if "in_phase p s v" for p
    using that assms(2) by (cases p) auto
  with assms(1) show ?thesis unfolding in_some_phase_def by blast
qed

lemma ep_inv_pop:
  assumes "ep_inv w" "batch w = ev # evs" "ev = Interrupt \<longrightarrow> m_error_fd_set w = [] \<or> loop_done w"
  shows "ep_inv (w\<lparr>batch := evs\<rparr>)"
proof (rule ep_invI)
  have "glob w" using assms(1) by (simp add: ep_inv_def)
  then show "glob (w\<lparr>batch := evs\<rparr>)" using assms(2,3)
    by (auto simp: glob_def split: if_splits)
  fix s
  have "in_some_phase s (view w s)" using assms(1) by (simp add: ep_inv_def)
  then show "in_some_phase s (view (w\<lparr>batch := evs\<rparr>) s)"
    unfolding view_batch by (rule in_phase_unbatch) (simp add: assms(2) in_batch_def)
qed

lemma if_flag_produce:
  assumes "ep_inv w" "s \<notin> set (broken_log w)" "sockets w s \<noteq> None" "task_sock t = s" "plain t"
  shows "\<exists>w'. if_flag b (produce t) (Inr w) = Inr w' \<and> ep_inv w' \<and> s \<notin> set (broken_log w') \<and> sockets w' s \<noteq> None"
  using plain_produced [of w t] assms by (auto simp: if_flag_def enqueue_def)

lemma ready_step:
  assumes "ep_inv w" "batch w = Ready s rd wr er # evs"
  shows "\<exists>w'. loop_event (Ready s rd wr er) (w\<lparr>batch := evs\<rparr>) = Some (Inr w') \<and> ep_inv w'"
proof -
  let ?w = "w\<lparr>batch := evs\<rparr>"
  have w: "ep_inv ?w" by (rule ep_inv_pop [OF assms]) simp
  have "in_batch w s" using assms(2) by (simp add: in_batch_def)
  moreover have "in_some_phase s (view w s)" using assms(1) by (simp add: ep_inv_def)
  ultimately have s: "s \<notin> set (broken_log ?w)" "sockets ?w s \<noteq> None"
    by (elim in_some_phaseE; auto simp: count_list_0_iff)+
  obtain w1 where w1: "if_flag rd (produce (T_read s)) (Inr ?w) = Inr w1" "ep_inv w1" "s \<notin> set (broken_log w1)" "sockets w1 s \<noteq> None"
    using if_flag_produce [OF w s, of "T_read s" rd] by auto
  obtain w2 where w2: "if_flag wr (produce (T_write s)) (Inr w1) = Inr w2" "ep_inv w2" "s \<notin> set (broken_log w2)" "sockets w2 s \<noteq> None"
    using if_flag_produce [OF w1(2-4), of "T_write s" wr] by auto
  obtain w3 where "if_flag er (produce (T_close s)) (Inr w2) = Inr w3" "ep_inv w3"
    using if_flag_produce [OF w2(2-4), of "T_close s" er] by auto
  with w1(1) w2(1) show ?thesis
    by (simp add: loop_event_def ep_close_def ep_handle_epoll_write_def ep_handle_epoll_read_def)
qed

text \<open>The interrupt: every socket of the error set gets its report.\<close>

lemma report_fold:
  assumes "\<forall>s \<in> set es. sockets w s \<noteq> None" "\<forall>s \<in> set es. s < next_sid w"
    "\<forall>q. \<forall>t \<in> set (queues w q). tq_of w (task_sock t) = q \<and> task_sock t < next_sid w"
  shows "\<exists>w'. exc_fold ep_handle_epoll_del es w = Inr w' \<and>
    (\<forall>s. view w' s = (view w s)\<lparr>v_tasks := sk_tasks w s @ replicate (count_list es s) (T_error s)\<rparr>) \<and>
    (\<forall>q. \<forall>t \<in> set (queues w' q). tq_of w' (task_sock t) = q \<and> task_sock t < next_sid w') \<and>
    m_error_fd_set w' = m_error_fd_set w \<and> batch w' = batch w \<and> loop_done w' = loop_done w"
  using assms
proof (induction es arbitrary: w)
  case Nil
  then show ?case by (auto simp: view_def)
next
  case (Cons e es)
  let ?w = "enqueue (T_error e) w"
  have "\<forall>s \<in> set es. sockets ?w s \<noteq> None" "\<forall>s \<in> set es. s < next_sid ?w"
    "\<forall>q. \<forall>t \<in> set (queues ?w q). tq_of ?w (task_sock t) = q \<and> task_sock t < next_sid ?w"
    using Cons.prems by (auto simp: enqueue_def)
  from Cons.IH [OF this] obtain w' where w': "exc_fold ep_handle_epoll_del es ?w = Inr w'"
    "\<forall>s. view w' s = (view ?w s)\<lparr>v_tasks := sk_tasks ?w s @ replicate (count_list es s) (T_error s)\<rparr>"
    "\<forall>q. \<forall>t \<in> set (queues w' q). tq_of w' (task_sock t) = q \<and> task_sock t < next_sid w'"
    "m_error_fd_set w' = m_error_fd_set ?w" "batch w' = batch ?w" "loop_done w' = loop_done ?w" by blast
  have "sk_tasks ?w s = sk_tasks w s @ (if s = e then [T_error e] else [])" for s
    using view_enqueue [of "T_error e" w s] by (auto simp: view_def)
  then have "\<forall>s. view w' s = (view w s)\<lparr>v_tasks := sk_tasks w s @ replicate (count_list (e # es) s) (T_error s)\<rparr>"
    using w'(2) by (auto simp: view_enqueue)
  moreover have "exc_fold ep_handle_epoll_del (e # es) w = Inr w'"
    using w'(1) Cons.prems(1) by (auto simp: ep_handle_epoll_del_def produce_def)
  ultimately show ?case using w'(3-6) by (auto simp: enqueue_def)
qed

lemma interrupt_step:
  assumes "ep_inv w" "batch w = Interrupt # evs" "loop_event Interrupt (w\<lparr>batch := evs\<rparr>) = Some r"
  shows "\<exists>w'. r = Inr w' \<and> ep_inv w'"
proof (cases "m_running w")
  case False
  have "ep_inv ((w\<lparr>loop_done := True\<rparr>)\<lparr>batch := evs\<rparr>)"
  proof (rule ep_inv_pop)
    have "view (w\<lparr>loop_done := True\<rparr>) s = view w s" for s by (simp add: view_def sk_tasks_def in_batch_def)
    then show "ep_inv (w\<lparr>loop_done := True\<rparr>)" using assms(1) by (auto simp: ep_inv_def glob_def)
  qed (use assms(2) in auto)
  moreover have "w\<lparr>batch := evs, loop_done := True\<rparr> = (w\<lparr>loop_done := True\<rparr>)\<lparr>batch := evs\<rparr>" by simp
  ultimately have "ep_inv (w\<lparr>batch := evs, loop_done := True\<rparr>)" by (simp only:)
  then show ?thesis using False assms(3) by (auto simp: loop_event_def)
next
  case True
  let ?w = "w\<lparr>batch := evs\<rparr>"
  have evs: "evs = []" using assms(1,2) by (cases evs) (auto simp: ep_inv_def glob_def)
  have "\<forall>s \<in> set (m_error_fd_set ?w). sockets ?w s \<noteq> None" "\<forall>s \<in> set (m_error_fd_set ?w). s < next_sid ?w"
    using alive_if_listed [OF assms(1)] by auto
  moreover have "\<forall>q. \<forall>t \<in> set (queues ?w q). tq_of ?w (task_sock t) = q \<and> task_sock t < next_sid ?w"
    using assms(1) by (simp add: ep_inv_def glob_def)
  ultimately obtain w1 where w1: "exc_fold ep_handle_epoll_del (m_error_fd_set ?w) ?w = Inr w1"
    "\<forall>s. view w1 s = (view ?w s)\<lparr>v_tasks := sk_tasks ?w s @ replicate (count_list (m_error_fd_set ?w) s) (T_error s)\<rparr>"
    "\<forall>q. \<forall>t \<in> set (queues w1 q). tq_of w1 (task_sock t) = q \<and> task_sock t < next_sid w1"
    "m_error_fd_set w1 = m_error_fd_set ?w" "batch w1 = batch ?w" "loop_done w1 = loop_done ?w"
    using report_fold [of "m_error_fd_set ?w" ?w] by blast
  let ?w2 = "w1\<lparr>m_error_fd_set := []\<rparr>"
  have v2: "view ?w2 s = (view w s)\<lparr>v_tasks := sk_tasks w s @ replicate (count_list (m_error_fd_set w) s) (T_error s),
      v_errors := 0, v_batch := False\<rparr>" for s
  proof -
    have "view ?w2 s = (view w1 s)\<lparr>v_errors := 0\<rparr>" by (simp add: view_def sk_tasks_def in_batch_def)
    then show ?thesis using w1(2) evs by (simp add: view_batch sk_tasks_def)
  qed
  have "in_some_phase s (view ?w2 s)" for s
  proof -
    have "in_some_phase s (view w s)" using assms(1) by (simp add: ep_inv_def)
    then obtain p where p: "in_phase p s (view w s)" by (auto simp: in_some_phase_def)
    show ?thesis
    proof (cases "p = Closing")
      case True
      then have "\<exists>a b. sk_tasks w s @ [T_error s] = a @ T_error s # b \<and> list_all plain a \<and> list_all plain b"
        using p by - (rule exI [of _ "sk_tasks w s"], rule exI [of _ "[]"], simp)
      with True p have "in_phase Reported s (view ?w2 s)" by (simp add: v2)
      then show ?thesis by (rule in_some_phaseI)
    next
      case False
      with p have "in_phase p s (view ?w2 s)" by (cases p) (auto simp: v2)
      then show ?thesis by (rule in_some_phaseI)
    qed
  qed
  moreover have "glob ?w2" using w1 evs by (simp add: glob_def)
  ultimately have "ep_inv ?w2" by (rule ep_invI [rotated])
  then show ?thesis using True assms(3) w1(1) by (auto simp: loop_event_def fd_del_callback_def)
qed

lemma glob_task: "glob w \<Longrightarrow> t \<in> set (queues w q) \<Longrightarrow> tq_of w (task_sock t) = q \<and> task_sock t < next_sid w"
  unfolding glob_def by blast

lemma globI:
  assumes "\<And>q t. t \<in> set (queues w' q) \<Longrightarrow> tq_of w' (task_sock t) = q \<and> task_sock t < next_sid w'"
    and "glob w" "m_error_fd_set w' = m_error_fd_set w" "interrupted w' = interrupted w" "batch w' = batch w" "loop_done w' = loop_done w"
  shows "glob w'"
  using assms unfolding glob_def by simp

text \<open>Accepting connections makes new sockets.\<close>

lemma accept_one:
  assumes "ep_inv w"
  shows "ep_inv (ep_open (fst (create_socket fd w)) (snd (create_socket fd w)))"
proof -
  let ?w = "ep_open (fst (create_socket fd w)) (snd (create_socket fd w))" and ?s = "next_sid w"
  have g: "glob w" using assms by (simp add: ep_inv_def)
  have "in_phase Unborn ?s (view w ?s)"
  proof -
    have "in_some_phase ?s (view w ?s)" using assms by (simp add: ep_inv_def)
    then show ?thesis by (cases rule: in_some_phaseE) auto
  qed
  moreover have "task_sock t \<noteq> ?s" if "t \<in> set (queues w q)" for t q using glob_task [OF g that] by simp
  then have "sk_tasks ?w ?s = []"
    by (auto simp: sk_tasks_def create_socket_def ep_open_def register_fd_def Let_def filter_empty_conv)
  ultimately have "in_phase Opened ?s (view ?w ?s)"
    by (simp, simp add: create_socket_def ep_open_def register_fd_def Let_def in_batch_def)
  then have "in_some_phase ?s (view ?w ?s)" by (rule in_some_phaseI)
  moreover have "view ?w s = view w s" if "s \<noteq> ?s" for s
    using that by (auto simp: view_def sk_tasks_def in_batch_def create_socket_def ep_open_def register_fd_def Let_def)
  moreover have "glob ?w"
  proof (rule globI [OF _ g])
    fix q t
    assume "t \<in> set (queues ?w q)"
    then have "t \<in> set (queues w q)" by (simp add: create_socket_def ep_open_def register_fd_def Let_def)
    from glob_task [OF g this] show "tq_of ?w (task_sock t) = q \<and> task_sock t < next_sid ?w"
      by (auto simp: create_socket_def ep_open_def register_fd_def Let_def)
  qed (simp_all add: create_socket_def ep_open_def register_fd_def Let_def)
  ultimately show ?thesis by (intro ep_inv_one [OF assms, of _ ?s])
qed

lemma accept_step: "ep_inv w \<Longrightarrow> accept_loop ans w = Some (w', r) \<Longrightarrow> ep_inv w'"
proof (induction ans w arbitrary: w' rule: accept_loop.induct)
  case (2 a ans w)
  show ?case
  proof (cases a)
    case (Accepted fd)
    have "ep_inv (ep_open (fst (create_socket fd w)) (snd (create_socket fd w)))" by (rule accept_one [OF 2(2)])
    then show ?thesis using 2(1) [OF Accepted refl prod.collapse, of w'] 2(3) Accepted by (simp add: split_beta)
  qed (use 2 in auto)
qed simp

subsection \<open>The steps of the task threads\<close>

lemma phase_soft:
  assumes "in_some_phase s v" "v_tasks v = t # ts" "plain t" "v_open v = Some b" "\<not> b \<longrightarrow> k = 0"
  shows "in_some_phase s (v\<lparr>v_tasks := ts @ replicate k (T_close s)\<rparr>)"
  using assms(1)
proof (cases rule: in_some_phaseE)
  case 2
  then show ?thesis using assms by (intro in_some_phaseI [of Opened]) (auto simp: list_all_iff)
next
  case 3
  then show ?thesis using assms by (intro in_some_phaseI [of Closing]) auto
next
  case 4
  then obtain a c where ac: "v_tasks v = a @ T_error s # c" "list_all plain a" "list_all plain c" by auto
  then obtain a' where "a = t # a'" using assms(2,3) by (cases a) auto
  then have "\<exists>a c. ts = a @ T_error s # c \<and> list_all plain a \<and> list_all plain c" using ac assms(2) by auto
  then show ?thesis using 4 assms(4,5) by (intro in_some_phaseI [of Reported]) auto
next
  case 5
  then obtain a where a: "v_tasks v = a @ [T_delete s]" "list_all plain a" by auto
  then obtain a' where "a = t # a'" using assms(2,3) by (cases a) auto
  then have "\<exists>a. ts = a @ [T_delete s] \<and> list_all plain a" using a assms(2) by auto
  then show ?thesis using 5 assms(4,5) by (intro in_some_phaseI [of Broken]) auto
qed (use assms in auto)

lemma pop_task:
  assumes "glob w" "queues w q = t # ts" "w0 = w\<lparr>queues := (queues w)(q := ts)\<rparr>" "s = task_sock t"
  shows "glob w0" "sk_tasks w s = t # sk_tasks w0 s"
    "view w0 s' = (if s' = s then (view w s)\<lparr>v_tasks := sk_tasks w0 s\<rparr> else view w s')"
    "s < next_sid w0"
proof -
  have "t \<in> set (queues w q)" using assms(2) by simp
  then have q: "q = tq_of w s" "s < next_sid w" using glob_task [OF assms(1)] assms(4) by auto
  show "glob w0"
  proof (rule globI [OF _ assms(1)])
    fix p u
    assume "u \<in> set (queues w0 p)"
    then have "u \<in> set (queues w p)" using assms(2,3) by (auto split: if_splits)
    from glob_task [OF assms(1) this] show "tq_of w0 (task_sock u) = p \<and> task_sock u < next_sid w0" using assms(3) by simp
  qed (use assms(3) in simp_all)
  show "sk_tasks w s = t # sk_tasks w0 s" using assms(2-4) q by (simp add: sk_tasks_def)
  show "s < next_sid w0" using q assms(3) by simp
  show "view w0 s' = (if s' = s then (view w s)\<lparr>v_tasks := sk_tasks w0 s\<rparr> else view w s')"
    using assms(2-4) q by (auto simp: view_def sk_tasks_def in_batch_def)
qed

lemma view_same: "(view w s)\<lparr>v_tasks := sk_tasks w s\<rparr> = view w s"
  by (simp add: view_def)

lemma put_socket_soft:
  assumes "soft x x'" "sockets w s = Some x" "glob w" "s < next_sid w"
  shows "glob (put_socket closes s x x' w) \<and> (\<exists>k. (\<not> is_open x \<longrightarrow> k = 0) \<and> (\<forall>s'. view (put_socket closes s x x' w) s' =
      (if s' = s then (view w s)\<lparr>v_tasks := sk_tasks w s @ replicate k (T_close s)\<rparr> else view w s')))"
proof -
  let ?w = "w\<lparr>sockets := (sockets w)(s \<mapsto> x')\<rparr>"
  obtain es where es: "events x' = events x @ es" "\<forall>e \<in> set es. soft_event e" "m_fd x' = m_fd x" "\<not> is_open x \<longrightarrow> es = []"
    using assms(1) by (auto simp: soft_def)
  have v: "view ?w s' = view w s'" for s' using assms(2) es(3) by (auto simp: view_def sk_tasks_def in_batch_def is_open_def)
  have "glob ?w" "s < next_sid ?w" using assms(3,4) by (simp_all add: glob_def)
  from perform_soft [OF es(2) this, of closes] obtain k where k: "glob (fold (perform closes s) es ?w)"
    "\<forall>s'. view (fold (perform closes s) es ?w) s' = (if s' = s then (view w s)\<lparr>v_tasks := sk_tasks w s @ replicate k (T_close s)\<rparr> else view w s')"
    unfolding v by (auto simp: sk_tasks_def)
  show ?thesis
  proof (cases "is_open x")
    case True
    with k es(1) show ?thesis by (auto simp: put_socket_def)
  next
    case False
    then have "put_socket closes s x x' w = ?w" using es(1,4) by (simp add: put_socket_def)
    then show ?thesis using \<open>glob ?w\<close> by (auto simp: v view_same intro!: exI [of _ 0])
  qed
qed

lemma soft_step:
  assumes "ep_inv w" "queues w q = t # ts" "w0 = w\<lparr>queues := (queues w)(q := ts)\<rparr>" "s = task_sock t" "plain t"
    and "sockets w s = Some x" "soft x x'"
  shows "ep_inv (put_socket closes s x x' w0)"
proof -
  have g: "glob w" using assms(1) by (simp add: ep_inv_def)
  note pop = pop_task [OF g assms(2-4)]
  have "sockets w0 s = Some x" using assms(3,6) by simp
  from put_socket_soft [OF assms(7) this pop(1,4), of closes] obtain k where k: "glob (put_socket closes s x x' w0)" "\<not> is_open x \<longrightarrow> k = 0"
    "\<And>s'. view (put_socket closes s x x' w0) s' = (if s' = s then (view w0 s)\<lparr>v_tasks := sk_tasks w0 s @ replicate k (T_close s)\<rparr> else view w0 s')"
    by auto
  have "in_some_phase s (view w s)" using assms(1) by (simp add: ep_inv_def)
  from phase_soft [OF this _ assms(5), of "sk_tasks w0 s" "is_open x" k] k(2) pop(2) assms(6)
  have "in_some_phase s (view (put_socket closes s x x' w0) s)" by (simp add: k(3) pop(3))
  then show ?thesis by (rule ep_inv_one [OF assms(1) k(1), rotated]) (simp add: k(3) pop(3))
qed

lemma close_step:
  assumes "ep_inv w" "queues w q = T_close s # ts" "w0 = w\<lparr>queues := (queues w)(q := ts)\<rparr>" "sockets w s = Some x" "is_open x"
  shows "ep_inv (put_socket closes s x (close_impl x) w0)"
proof -
  have g: "glob w" using assms(1) by (simp add: ep_inv_def)
  note pop = pop_task [OF g assms(2,3), of s, simplified]
  let ?w1 = "w0\<lparr>sockets := (sockets w0)(s \<mapsto> close_impl x)\<rparr>"
  have eq: "put_socket closes s x (close_impl x) w0 = unregister_fd s ?w1"
    using assms(5) by (simp add: put_socket_def close_impl_def is_open_def logged_def)
  have v1: "view ?w1 s' = (if s' = s then (view w0 s)\<lparr>v_open := Some False\<rparr> else view w0 s')" for s'
    using assms(5) by (auto simp: view_def sk_tasks_def in_batch_def close_impl_def is_open_def)
  have ph: "in_some_phase s (view w s)" using assms(1) by (simp add: ep_inv_def)
  have tasks: "list_all plain (sk_tasks w0 s)" "s < next_sid w" "count_list (m_error_fd_set w) s = 0" "count_list (broken_log w) s = 0"
    using ph assms(4,5) pop(2) by (elim in_some_phaseE; auto)+
  have "in_phase Closing s (view (unregister_fd s ?w1) s)"
    unfolding view_unregister v1 pop(3) using tasks by simp
  then have "in_some_phase s (view (unregister_fd s ?w1) s)" by (rule in_some_phaseI)
  moreover have "glob (unregister_fd s ?w1)" using glob_unregister [of ?w1 s] pop(1) by (simp add: glob_def)
  ultimately show ?thesis unfolding eq
    by (rule ep_inv_one [OF assms(1), rotated 2]) (simp add: view_unregister v1 pop(3))
qed

lemma error_step:
  assumes "ep_inv w" "queues w q = T_error s # ts" "w0 = w\<lparr>queues := (queues w)(q := ts)\<rparr>" "sockets w s = Some x"
  shows "ep_inv (put_socket closes s x (safe_delete x) (w0\<lparr>broken_log := broken_log w0 @ [s]\<rparr>))"
proof -
  have g: "glob w" using assms(1) by (simp add: ep_inv_def)
  note pop = pop_task [OF g assms(2,3), of s, simplified]
  let ?w1 = "w0\<lparr>broken_log := broken_log w0 @ [s], sockets := (sockets w0)(s \<mapsto> safe_delete x)\<rparr>"
  have eq: "put_socket closes s x (safe_delete x) (w0\<lparr>broken_log := broken_log w0 @ [s]\<rparr>) = enqueue (T_delete s) ?w1"
    by (simp add: put_socket_def safe_delete_def logged_def)
  have v1: "view ?w1 s' = (if s' = s then (view w0 s)\<lparr>v_open := Some (is_open x), v_broken := Suc (v_broken (view w0 s))\<rparr> else view w0 s')" for s'
    by (auto simp: view_def sk_tasks_def in_batch_def safe_delete_def is_open_def logged_def)
  have ph: "in_some_phase s (view w s)" using assms(1) by (simp add: ep_inv_def)
  then have "in_phase Reported s (view w s)" by (cases rule: in_some_phaseE) (use pop(2) in \<open>auto simp: Cons_eq_append_conv\<close>)
  then obtain a b where ab: "sk_tasks w s = a @ T_error s # b" "list_all plain a" "list_all plain b" by auto
  then have "a = []" using pop(2) by (cases a) auto
  then have "list_all plain (sk_tasks w0 s)" using ab pop(2) by simp
  then have "in_phase Broken s (view (enqueue (T_delete s) ?w1) s)"
    using \<open>in_phase Reported s (view w s)\<close> assms(4)
    unfolding view_enqueue v1 pop(3) by (simp, simp add: sk_tasks_def)
  then have "in_some_phase s (view (enqueue (T_delete s) ?w1) s)" by (rule in_some_phaseI)
  moreover have "glob (enqueue (T_delete s) ?w1)" using pop(1,4) by (intro glob_enqueue) (simp_all add: glob_def)
  ultimately show ?thesis unfolding eq
    by (rule ep_inv_one [OF assms(1), rotated 2]) (simp add: view_enqueue v1 pop(3))
qed

lemma delete_step:
  assumes "ep_inv w" "queues w q = T_delete s # ts" "w0 = w\<lparr>queues := (queues w)(q := ts)\<rparr>" "sockets w s = Some x"
  shows "ep_inv (w0\<lparr>sockets := (sockets w0)(s := None)\<rparr>)"
proof -
  have g: "glob w" using assms(1) by (simp add: ep_inv_def)
  note pop = pop_task [OF g assms(2,3), of s, simplified]
  let ?w1 = "w0\<lparr>sockets := (sockets w0)(s := None)\<rparr>"
  have v1: "view ?w1 s' = (if s' = s then (view w0 s)\<lparr>v_open := None\<rparr> else view w0 s')" for s'
    by (auto simp: view_def sk_tasks_def in_batch_def)
  have ph: "in_some_phase s (view w s)" using assms(1) by (simp add: ep_inv_def)
  then have br: "in_phase Broken s (view w s)" by (cases rule: in_some_phaseE) (use pop(2) in \<open>auto simp: Cons_eq_append_conv\<close>)
  then obtain a where "sk_tasks w s = a @ [T_delete s]" "list_all plain a" by auto
  then have "sk_tasks w0 s = []" using pop(2) by (cases a) auto
  with br have "in_phase Gone s (view ?w1 s)" unfolding v1 pop(3) by simp
  then have "in_some_phase s (view ?w1 s)" by (rule in_some_phaseI)
  moreover have "glob ?w1" using pop(1) by (simp add: glob_def)
  ultimately show ?thesis by (rule ep_inv_one [OF assms(1), rotated 2]) (simp add: v1 pop(3))
qed

lemma run_task_step:
  assumes "ep_inv w" "queues w q = t # ts" "run_task env t (w\<lparr>queues := (queues w)(q := ts)\<rparr>) = Some r"
  shows "\<exists>w'. r = Inr w' \<and> ep_inv w'"
proof -
  let ?w0 = "w\<lparr>queues := (queues w)(q := ts)\<rparr>"
  have "glob w" "in_some_phase (task_sock t) (view w (task_sock t))" using assms(1) by (simp_all add: ep_inv_def)
  then have "sockets w (task_sock t) \<noteq> None"
    using pop_task(2) [OF _ assms(2) refl refl] by (elim in_some_phaseE) auto
  then obtain x where x: "sockets w (task_sock t) = Some x" by blast
  note soft = soft_step [OF assms(1,2) refl refl _ x]
  show ?thesis
  proof (cases t)
    case (T_close s)
    show ?thesis
    proof (cases "is_open x")
      case True
      then show ?thesis using close_step [OF assms(1) _ refl, of q s ts x] assms(2,3) x T_close by (auto simp: run_task_def)
    next
      case False
      then have "close_impl x = x" by (simp add: close_impl_def is_open_def)
      then show ?thesis using soft [of x] assms(3) x T_close by (auto simp: run_task_def)
    qed
  next
    case (T_read s)
    then show ?thesis using soft assms(3) x by (auto simp: run_task_def dest!: handle_epoll_read_impl_soft)
  next
    case (T_write s)
    then show ?thesis using soft assms(3) x by (auto simp: run_task_def dest!: handle_epoll_write_impl_soft)
  next
    case (T_send s m)
    then show ?thesis using soft assms(3) x by (auto simp: run_task_def dest!: send_impl_soft)
  next
    case (T_error s)
    then show ?thesis using error_step [OF assms(1) _ refl, of q s ts x] assms(2,3) x by (auto simp: run_task_def)
  next
    case (T_delete s)
    then show ?thesis using delete_step [OF assms(1) _ refl, of q s ts x] assms(2,3) x by (auto simp: run_task_def)
  qed
qed

lemma wait_step:
  assumes "ep_inv w" "batch w = []" "wait_gives evs w" "interrupt_last evs"
  shows "ep_inv (epoll_wait evs w)"
proof (rule ep_invI)
  show "glob (epoll_wait evs w)" using assms by (auto simp: ep_inv_def glob_def epoll_wait_def interrupt_last_def)
  fix s
  have v: "view (epoll_wait evs w) s = (view w s)\<lparr>v_batch := (Some s \<in> ready_sid ` set evs)\<rparr>"
    by (simp add: view_def epoll_wait_def sk_tasks_def in_batch_def)
  have "in_some_phase s (view w s)" using assms(1) by (simp add: ep_inv_def)
  then obtain p where p: "in_phase p s (view w s)" by (auto simp: in_some_phase_def)
  have "in_phase p s (view (epoll_wait evs w) s)" unfolding v
    using p assms(3) by (cases p) (auto simp: wait_gives_def)
  then show "in_some_phase s (view (epoll_wait evs w) s)" by (rule in_some_phaseI)
qed

lemma flags_inv:
  assumes "ep_inv w" "w' = w\<lparr>loop_done := True\<rparr> \<or> w' = close_loop w"
  shows "ep_inv w'"
proof (rule ep_invI)
  show "glob w'" using assms by (auto simp: ep_inv_def glob_def close_loop_def interupt_loop_def)
  fix s
  have "view w' s = view w s" using assms(2) by (auto simp: view_def sk_tasks_def in_batch_def close_loop_def interupt_loop_def)
  then show "in_some_phase s (view w' s)" using assms(1) by (simp add: ep_inv_def)
qed

lemma ep_step_inv:
  assumes "ep_inv w" "ep_step interrupt_last w r"
  shows "\<exists>w'. r = Inr w' \<and> ep_inv w'"
  using assms(2)
proof (cases rule: ep_step.cases)
  case (Wait evs)
  then show ?thesis using wait_step [OF assms(1)] by blast
next
  case Wait_error
  then show ?thesis using flags_inv [OF assms(1)] by blast
next
  case (Event ev evs)
  show ?thesis
  proof (cases ev)
    case Interrupt
    then show ?thesis using interrupt_step [OF assms(1)] Event by blast
  next
    case (Acceptable ans)
    then have "ep_inv (w\<lparr>batch := evs\<rparr>)" using ep_inv_pop [OF assms(1) Event(2)] by simp
    then show ?thesis using Event(3) Acceptable accept_step by (fastforce simp: loop_event_def)
  next
    case (Ready s rd wr er)
    then show ?thesis using ready_step [OF assms(1)] Event by fastforce
  qed
next
  case (Task q t ts env)
  then show ?thesis using run_task_step [OF assms(1)] by blast
next
  case (User_close s)
  then show ?thesis using plain_produced [OF assms(1), of "T_close s"] alive_if_unbroken [OF assms(1)] by (auto simp: ep_close_def)
next
  case (User_send s m)
  then show ?thesis using plain_produced [OF assms(1), of "T_send s m"] alive_if_unbroken [OF assms(1)] by (auto simp: async_send_def)
next
  case Close_loop
  then show ?thesis using flags_inv [OF assms(1)] by blast
qed

lemma ep_inv_start: "ep_inv (new_world n)"
  by (rule ep_invI) (auto simp: new_world_def glob_def view_def sk_tasks_def in_batch_def intro!: in_some_phaseI [of Unborn])

lemma ep_reach_inv: "ep_reach interrupt_last (new_world n) w \<Longrightarrow> ep_inv w"
  by (induction rule: ep_reach.induct) (auto simp: ep_inv_start dest: ep_step_inv)

lemma ep_inv_broken:
  assumes "ep_inv w" "s \<in> set (broken_log w)"
  shows "count_list (broken_log w) s = 1" "s \<notin> set (m_error_fd_set w)" "\<not> interest w s" "sockets w s = Some x \<Longrightarrow> \<not> is_open x"
proof -
  have "in_some_phase s (view w s)" using assms(1) by (simp add: ep_inv_def)
  moreover have "count_list (broken_log w) s \<noteq> 0" using assms(2) by (simp add: count_list_0_iff)
  ultimately show "count_list (broken_log w) s = 1" "s \<notin> set (m_error_fd_set w)" "\<not> interest w s" "sockets w s = Some x \<Longrightarrow> \<not> is_open x"
    by (elim in_some_phaseE; auto simp: count_list_0_iff)+
qed

lemma distinct_count: "(\<And>x. x \<in> set xs \<Longrightarrow> count_list xs x = 1) \<Longrightarrow> distinct xs"
proof (induction xs)
  case (Cons a xs)
  have a: "a \<notin> set xs" using Cons.prems [of a] by (simp add: count_list_0_iff)
  have "count_list xs x = 1" if "x \<in> set xs" for x using Cons.prems [of x] that a by (auto split: if_splits)
  with Cons.IH a show ?case by simp
qed simp

text \<open>
  (C6) The life of a socket, under every interleaving of the loop, the task threads and the users, as
  long as \<open>epoll_wait\<close> gives the interrupt behind the other events of a batch. No step uses a socket object
  that is gone; every socket is reported broken at most once, and only when its descriptor is closed
  and unregistered; and no wake-up is lost: while closed sockets wait to be reported, the interrupt is
  armed or the loop is about to see it.
\<close>

theorem socket_lifecycle:
  assumes "ep_reach interrupt_last (new_world n) w"
  shows "(\<forall>r. ep_step interrupt_last w r \<longrightarrow> (\<exists>w'. r = Inr w')) \<and> distinct (broken_log w) \<and>
    (\<forall>s \<in> set (broken_log w). s \<notin> set (m_error_fd_set w) \<and> \<not> interest w s \<and> (\<forall>x. sockets w s = Some x \<longrightarrow> \<not> is_open x)) \<and>
    (m_error_fd_set w \<noteq> [] \<longrightarrow> interrupted w \<or> Interrupt \<in> set (batch w) \<or> loop_done w)"
proof -
  have inv: "ep_inv w" by (rule ep_reach_inv [OF assms])
  then have "m_error_fd_set w \<noteq> [] \<longrightarrow> interrupted w \<or> Interrupt \<in> set (batch w) \<or> loop_done w"
    by (simp add: ep_inv_def glob_def)
  moreover have "distinct (broken_log w)" by (rule distinct_count) (rule ep_inv_broken(1) [OF inv])
  ultimately show ?thesis using ep_step_inv [OF inv] ep_inv_broken(2-4) [OF inv] by blast
qed

subsection \<open>Runs\<close>

text \<open>A run given by its steps.\<close>

datatype ep_op = Do_wait "ep_event list" | Do_event | Do_task nat task_env | Do_close sid

definition ep_do :: "ep_op \<Rightarrow> world \<Rightarrow> world exc option" where
  "ep_do oper w = (case oper of
     Do_wait evs \<Rightarrow> (if \<not> loop_done w \<and> batch w = [] \<and> (\<forall>ev \<in> set evs. \<forall>s. ready_sid ev = Some s \<longrightarrow> interest w s) \<and>
       (Interrupt \<in> set evs \<longrightarrow> interrupted w) \<and> count_list evs Interrupt \<le> 1 then Some (Inr (epoll_wait evs w)) else None)
   | Do_event \<Rightarrow> (if loop_done w then None else case batch w of [] \<Rightarrow> None | ev # evs \<Rightarrow> loop_event ev (w\<lparr>batch := evs\<rparr>))
   | Do_task q env \<Rightarrow> (case queues w q of [] \<Rightarrow> None | t # ts \<Rightarrow> run_task env t (w\<lparr>queues := (queues w)(q := ts)\<rparr>))
   | Do_close s \<Rightarrow> (if s < next_sid w \<and> s \<notin> set (broken_log w) then Some (ep_close s w) else None))"

fun ep_run :: "ep_op list \<Rightarrow> world \<Rightarrow> world exc option" where
  "ep_run [] w = Some (Inr w)"
| "ep_run (oper # opers) w = (case ep_do oper w of None \<Rightarrow> None | Some (Inl e) \<Rightarrow> Some (Inl e) | Some (Inr w1) \<Rightarrow> ep_run opers w1)"

definition waits_ok :: "(ep_event list \<Rightarrow> bool) \<Rightarrow> ep_op list \<Rightarrow> bool" where
  "waits_ok ok opers \<longleftrightarrow> (\<forall>oper \<in> set opers. case oper of Do_wait evs \<Rightarrow> ok evs | _ \<Rightarrow> True)"

lemma ep_do_step:
  assumes "ep_do oper w = Some r" "case oper of Do_wait evs \<Rightarrow> ok evs | _ \<Rightarrow> True"
  shows "ep_step ok w r"
proof (cases oper)
  case (Do_wait evs)
  with assms have "wait_gives evs w" "\<not> loop_done w" "batch w = []" "ok evs" "r = Inr (epoll_wait evs w)"
    by (auto simp: ep_do_def wait_gives_def count_list_0_iff split: if_splits)
  then show ?thesis by (auto intro: ep_step.Wait)
qed (use assms in \<open>auto simp: ep_do_def split: if_splits list.splits intro: ep_step.intros\<close>)

lemma ep_run_reach:
  "ep_run opers w = Some r \<Longrightarrow> waits_ok ok opers \<Longrightarrow> ep_reach ok w0 w \<Longrightarrow>
    (case r of Inr w' \<Rightarrow> ep_reach ok w0 w' | Inl e \<Rightarrow> \<exists>w'. ep_reach ok w0 w' \<and> ep_step ok w' (Inl e))"
proof (induction opers w rule: ep_run.induct)
  case (2 oper opers w)
  then obtain r1 where r1: "ep_do oper w = Some r1" by (auto split: option.splits)
  have st: "ep_step ok w r1" using ep_do_step [OF r1] 2(3) by (simp add: waits_ok_def)
  show ?case
  proof (cases r1)
    case (Inl e)
    with 2(2,4) r1 st show ?thesis by auto
  next
    case (Inr w1)
    with 2(4) st have "ep_reach ok w0 w1" by (auto intro: ep_reach.Step)
    then show ?thesis using 2(1) [OF r1 Inr] 2(2,3) r1 Inr by (auto simp: waits_ok_def)
  qed
qed auto

definition idle_env :: task_env where
  "idle_env = \<lparr>sends = [], reads = [Read_wouldblock], closes_on = (\<lambda>_. False), pre_send = common_check\<rparr>"

text \<open>Two connections are accepted; both are closed by the user.\<close>

definition two_closed :: "ep_op list" where
  "two_closed = [Do_wait [Acceptable [Accepted 5, Accepted 6, Accept_wouldblock]], Do_event, Do_close 0, Do_task 0 idle_env]"

lemmas ep_eval = two_closed_def idle_env_def ep_do_def epoll_wait_def loop_event_def create_socket_def ep_open_def register_fd_def
  sock_open_def close_impl_def is_open_def put_socket_def enqueue_def produce_def unregister_fd_def interupt_loop_def
  fd_del_callback_def ep_handle_epoll_del_def ep_handle_epoll_read_def ep_handle_epoll_write_def ep_close_def run_task_def logged_def safe_delete_def new_world_def if_flag_def Let_def

theorem socket_lifecycle_witness:
  "\<exists>w. ep_run (two_closed @ [Do_wait [Ready 1 True False True, Interrupt], Do_event, Do_event] @
      replicate 4 (Do_task 0 idle_env)) (new_world 1) = Some (Inr w) \<and>
    broken_log w = [0] \<and> distinct (broken_log w) \<and> (\<forall>r. ep_step interrupt_last w r \<longrightarrow> (\<exists>w'. r = Inr w'))"
proof -
  let ?ops = "two_closed @ [Do_wait [Ready 1 True False True, Interrupt], Do_event, Do_event] @ replicate 4 (Do_task 0 idle_env)"
  obtain w where w: "ep_run ?ops (new_world 1) = Some (Inr w)" "broken_log w = [0]"
    by (simp add: ep_eval numeral_eq_Suc handle_epoll_read_impl_def)
  have "ep_reach interrupt_last (new_world 1) w"
    using ep_run_reach [OF w(1) _ ep_reach.Start, of interrupt_last] by (simp add: waits_ok_def two_closed_def interrupt_last_def)
  from socket_lifecycle [OF this] w show ?thesis by blast
qed

text \<open>
  Without that order of the events the loop can use a socket that is gone. The interrupt for one
  socket and an event of another arrive in one batch; before the loop looks at the batch the other
  socket is closed too, the interrupt reports both, the task thread deletes both, and then the loop
  comes to the event of the deleted one.
\<close>

theorem interrupt_race:
  "\<exists>w. ep_reach (\<lambda>_. True) (new_world 1) w \<and> ep_step (\<lambda>_. True) w (Inl Dangling)"
proof -
  let ?ops = "two_closed @ [Do_wait [Interrupt, Ready 1 True False False], Do_close 1, Do_task 0 idle_env, Do_event] @
    replicate 4 (Do_task 0 idle_env) @ [Do_event]"
  have "ep_run ?ops (new_world 1) = Some (Inl Dangling)"
    by (simp add: ep_eval numeral_eq_Suc)
  from ep_run_reach [OF this _ ep_reach.Start, of "\<lambda>_. True"] show ?thesis
    by (simp add: waits_ok_def split: ep_op.splits)
qed

end
