(* ===== verification/Multimap.thy ===== *)
theory Multimap
  imports FF_Prelude
begin

section \<open>\<open>std::multimap\<close>\<close>

text \<open>
  A multimap is a list of pairs in the order of the keys; \<open>insert\<close> puts a pair behind all pairs of its
  key, and \<open>equal_range\<close> gives the values of a key. The locale states what the components rely on, for
  any such container.
\<close>

type_synonym ('k, 'v) mmap = "('k \<times> 'v) list"

fun mm_insert :: "'k::linorder \<Rightarrow> 'v \<Rightarrow> ('k, 'v) mmap \<Rightarrow> ('k, 'v) mmap" where
  "mm_insert k v [] = [(k, v)]"
| "mm_insert k v ((a, b) # m) = (if k < a then (k, v) # (a, b) # m else (a, b) # mm_insert k v m)"

definition mm_range :: "'k \<Rightarrow> ('k, 'v) mmap \<Rightarrow> 'v list" where
  "mm_range k m = map snd (filter (\<lambda>(a, b). a = k) m)"

definition mm_wf :: "('k::linorder, 'v) mmap \<Rightarrow> bool" where
  "mm_wf m \<longleftrightarrow> sorted (map fst m)"

lemma set_mm_insert: "set (mm_insert k v t) = insert (k, v) (set t)"
  by (induction k v t rule: mm_insert.induct) auto

lemma distinct_mm_insert: "distinct (map f (mm_insert k v t)) \<longleftrightarrow> f (k, v) \<notin> f ` set t \<and> distinct (map f t)"
  by (induction k v t rule: mm_insert.induct) (auto simp: set_mm_insert)

lemma mm_wf_insert: "mm_wf m \<Longrightarrow> mm_wf (mm_insert k v m)"
  unfolding mm_wf_def by (induction k v m rule: mm_insert.induct) (auto simp: set_mm_insert)

lemma mm_range_insert: "mm_wf m \<Longrightarrow> mm_range j (mm_insert k v m) = (if j = k then mm_range j m @ [v] else mm_range j m)"
proof (induction k v m rule: mm_insert.induct)
  case (2 k v a b m)
  show ?case
  proof (cases "k < a")
    case True
    then have "filter (\<lambda>(x, y). x = k) ((a, b) # m) = []" using 2(2) by (auto simp: mm_wf_def filter_empty_conv)
    with True show ?thesis by (auto simp: mm_range_def split: if_splits)
  next
    case False
    then have "mm_range j (mm_insert k v m) = (if j = k then mm_range j m @ [v] else mm_range j m)" using 2 by (simp add: mm_wf_def)
    with False show ?thesis by (auto simp: mm_range_def)
  qed
qed (auto simp: mm_range_def)

locale multimap =
  fixes insert_pair :: "'k \<Rightarrow> 'v \<Rightarrow> 'm \<Rightarrow> 'm" and equal_range :: "'k \<Rightarrow> 'm \<Rightarrow> 'v list" and wf :: "'m \<Rightarrow> bool"
  assumes wf_insert: "wf m \<Longrightarrow> wf (insert_pair k v m)"
    and range_insert: "wf m \<Longrightarrow> equal_range j (insert_pair k v m) = (if j = k then equal_range j m @ [v] else equal_range j m)"
begin

text \<open>Entering a list of pairs: the values of a key keep the order in which they were entered.\<close>

lemma wf_insert_all: "wf m \<Longrightarrow> wf (fold (\<lambda>(k, v). insert_pair k v) kvs m)"
  by (induction kvs arbitrary: m) (auto simp: wf_insert)

lemma range_insert_all:
  "wf m \<Longrightarrow> equal_range j (fold (\<lambda>(k, v). insert_pair k v) kvs m) = equal_range j m @ map snd (filter (\<lambda>(k, v). k = j) kvs)"
  by (induction kvs arbitrary: m) (auto simp: wf_insert range_insert)

end

interpretation mm: multimap mm_insert mm_range mm_wf
  by unfold_locales (simp_all add: mm_wf_insert mm_range_insert)

end
