(* ===== verification/Bus.thy ===== *)
theory Bus
  imports Multimap Codec
begin

section \<open>Types, commands and the event bus\<close>

text \<open>
  \<^verbatim>\<open>base/fftype.h\<close> (the ids of types and the attribute tables), \<^verbatim>\<open>cqrs/command_i.h\<close> (commands that can be
  sent as bytes) and \<^verbatim>\<open>cqrs/bus_i.h\<close> (subscribers and the bus). A type stands for the name that
  \<open>type_helper_t\<close> reads out of \<open>__PRETTY_FUNCTION__\<close>. What a callback does is the list of its effects and the exception it
  ends with, if any. The ids are \<open>int\<close>s counted up once per type of the program text.

  Copying a subscriber is left out: the code writes \<open>it->second-fork()\<close>, a subtraction of what the
  system call \<open>fork\<close> returns.
\<close>

subsection \<open>Type ids\<close>

record type_id_generator_t =
  m_id :: int
  m_name2id :: "(string, int) omap"

definition new_generator :: type_id_generator_t where
  "new_generator = \<lparr>m_id = 0, m_name2id = []\<rparr>"

definition alloc_id :: "string \<Rightarrow> type_id_generator_t \<Rightarrow> int \<times> type_id_generator_t" where
  "alloc_id name g = (let i = m_id g + 1 in (i, g\<lparr>m_id := i, m_name2id := om_put name i (m_name2id g)\<rparr>))"

definition get_id_by_name :: "string \<Rightarrow> type_id_generator_t \<Rightarrow> int" where
  "get_id_by_name name g = (case map_of (m_name2id g) name of Some i \<Rightarrow> i | None \<Rightarrow> 0)"

text \<open>\<open>TYPEID(T)\<close>: the singleton of \<open>type_helper_t<T>\<close> is made at the first use and takes its id then.\<close>

record type_world =
  generator :: type_id_generator_t
  helpers :: "(string, int) omap"

definition new_types :: type_world where
  "new_types = \<lparr>generator = new_generator, helpers = []\<rparr>"

definition typeid :: "string \<Rightarrow> type_world \<Rightarrow> int \<times> type_world" where
  "typeid name w = (case map_of (helpers w) name of
     Some i \<Rightarrow> (i, w)
   | None \<Rightarrow> (let (i, g) = alloc_id name (generator w) in (i, w\<lparr>generator := g, helpers := om_put name i (helpers w)\<rparr>)))"

subsection \<open>\<open>ffattr_t\<close>\<close>

record ffattr_t =
  m_num2num :: "(u64, u64) omap"
  m_num2string :: "(u64, string) omap"
  m_string2num :: "(string, u64) omap"
  m_string2string :: "(string, string) omap"

definition get_num :: "u64 \<Rightarrow> ffattr_t \<Rightarrow> u64" where
  "get_num k a = (case map_of (m_num2num a) k of Some v \<Rightarrow> v | None \<Rightarrow> 0)"

definition get_string :: "u64 \<Rightarrow> ffattr_t \<Rightarrow> string" where
  "get_string k a = (case map_of (m_num2string a) k of Some v \<Rightarrow> v | None \<Rightarrow> [])"

definition get_num_s :: "string \<Rightarrow> ffattr_t \<Rightarrow> u64" where
  "get_num_s k a = (case map_of (m_string2num a) k of Some v \<Rightarrow> v | None \<Rightarrow> 0)"

definition get_string_s :: "string \<Rightarrow> ffattr_t \<Rightarrow> string" where
  "get_string_s k a = (case map_of (m_string2string a) k of Some v \<Rightarrow> v | None \<Rightarrow> [])"

definition set_num :: "u64 \<Rightarrow> u64 \<Rightarrow> ffattr_t \<Rightarrow> ffattr_t" where
  "set_num k v a = a\<lparr>m_num2num := om_put k v (m_num2num a)\<rparr>"

definition set_string :: "u64 \<Rightarrow> string \<Rightarrow> ffattr_t \<Rightarrow> ffattr_t" where
  "set_string k v a = a\<lparr>m_num2string := om_put k v (m_num2string a)\<rparr>"

definition set_num_s :: "string \<Rightarrow> u64 \<Rightarrow> ffattr_t \<Rightarrow> ffattr_t" where
  "set_num_s k v a = a\<lparr>m_string2num := om_put k v (m_string2num a)\<rparr>"

definition set_string_s :: "string \<Rightarrow> string \<Rightarrow> ffattr_t \<Rightarrow> ffattr_t" where
  "set_string_s k v a = a\<lparr>m_string2string := om_put k v (m_string2string a)\<rparr>"

definition is_exist_num :: "u64 \<Rightarrow> ffattr_t \<Rightarrow> bool" where
  "is_exist_num k a \<longleftrightarrow> map_of (m_num2num a) k \<noteq> None"

definition is_exist_string :: "u64 \<Rightarrow> ffattr_t \<Rightarrow> bool" where
  "is_exist_string k a \<longleftrightarrow> map_of (m_num2string a) k \<noteq> None"

definition is_exist_num_s :: "string \<Rightarrow> ffattr_t \<Rightarrow> bool" where
  "is_exist_num_s k a \<longleftrightarrow> map_of (m_string2num a) k \<noteq> None"

definition is_exist_string_s :: "string \<Rightarrow> ffattr_t \<Rightarrow> bool" where
  "is_exist_string_s k a \<longleftrightarrow> map_of (m_string2string a) k \<noteq> None"

text \<open>A value is read back under its key, and the four tables do not disturb each other.\<close>

lemma ffattr_get_set:
  "om_wf (m_num2num a) \<Longrightarrow> get_num k' (set_num k v a) = (if k' = k then v else get_num k' a)"
  "om_wf (m_num2string a) \<Longrightarrow> get_string k' (set_string k t a) = (if k' = k then t else get_string k' a)"
  "om_wf (m_string2num a) \<Longrightarrow> get_num_s s' (set_num_s s v a) = (if s' = s then v else get_num_s s' a)"
  "om_wf (m_string2string a) \<Longrightarrow> get_string_s s' (set_string_s s t a) = (if s' = s then t else get_string_s s' a)"
  "get_num k' (set_string k t a) = get_num k' a" "get_string k' (set_num k v a) = get_string k' a"
  "get_num_s s' (set_string_s s t a) = get_num_s s' a" "get_string_s s' (set_num_s s v a) = get_string_s s' a"
  by (simp_all add: get_num_def set_num_def get_string_def set_string_def get_num_s_def set_num_s_def get_string_s_def set_string_s_def om.find_put)

lemma ffattr_exist_set:
  "om_wf (m_num2num a) \<Longrightarrow> is_exist_num k' (set_num k v a) \<longleftrightarrow> k' = k \<or> is_exist_num k' a"
  "om_wf (m_num2string a) \<Longrightarrow> is_exist_string k' (set_string k t a) \<longleftrightarrow> k' = k \<or> is_exist_string k' a"
  "om_wf (m_string2num a) \<Longrightarrow> is_exist_num_s s' (set_num_s s v a) \<longleftrightarrow> s' = s \<or> is_exist_num_s s' a"
  "om_wf (m_string2string a) \<Longrightarrow> is_exist_string_s s' (set_string_s s t a) \<longleftrightarrow> s' = s \<or> is_exist_string_s s' a"
  by (simp_all add: is_exist_num_def set_num_def is_exist_string_def set_string_def is_exist_num_s_def set_num_s_def is_exist_string_s_def set_string_s_def om.find_put)

subsection \<open>Commands\<close>

text \<open>\<open>command_t\<close> and \<open>user_command_t\<close> over the \<open>enc\<close> and \<open>dec\<close> of the derived class; the encoder is a member and
  keeps its buffer, so the result of \<open>encode\<close> comes with the buffer for the next one.\<close>

definition command_encode :: "('c \<Rightarrow> string) \<Rightarrow> 'c \<Rightarrow> string \<Rightarrow> string \<times> string" where
  "command_encode enc x buff = (buff @ enc x, buff @ enc x)"

definition command_decode :: "'c decoder \<Rightarrow> string \<Rightarrow> 'c exc" where
  "command_decode dec src = (case dec src of Inl e \<Rightarrow> Inl e | Inr (x, rest) \<Rightarrow> Inr x)"

definition user_command_encode :: "('c \<Rightarrow> string) \<Rightarrow> u64 \<times> 'c \<Rightarrow> string \<Rightarrow> string \<times> string" where
  "user_command_encode enc c buff = (let b = buff @ enc_u64 (fst c) @ enc (snd c) in (b, b))"

definition user_command_decode :: "'c decoder \<Rightarrow> string \<Rightarrow> (u64 \<times> 'c) exc" where
  "user_command_decode dec src = (case dec_u64 src of Inl e \<Rightarrow> Inl e
   | Inr (uid, r) \<Rightarrow> (case dec r of Inl e \<Rightarrow> Inl e | Inr (x, rest) \<Rightarrow> Inr (uid, x)))"

subsection \<open>Subscribers\<close>

type_synonym 'u outcome = "'u list \<times> exn option"

record ('c, 'u) subscriber_cb =
  on_obj :: "'c \<Rightarrow> 'u outcome"
  on_data :: "string \<Rightarrow> 'u outcome"

text \<open>\<open>subscriber_cb_impl_t\<close>: the callback on bytes decodes an object first; what \<open>decode\<close> throws leaves the callback.\<close>

definition new_cb :: "(string \<Rightarrow> 'c exc) \<Rightarrow> ('c \<Rightarrow> 'u outcome) \<Rightarrow> ('c, 'u) subscriber_cb" where
  "new_cb decode func = \<lparr>on_obj = func,
     on_data = (\<lambda>data. case decode data of Inl e \<Rightarrow> ([], Some e) | Inr x \<Rightarrow> func x)\<rparr>"

type_synonym ('c, 'u) subscriber_t = "(int, ('c, 'u) subscriber_cb) omap"

text \<open>\<open>reg\<close>: \<open>map::insert\<close> leaves an entry that is there as it is.\<close>

definition sub_reg :: "string \<Rightarrow> ('c, 'u) subscriber_cb \<Rightarrow> ('c, 'u) subscriber_t \<times> type_world \<Rightarrow> ('c, 'u) subscriber_t \<times> type_world" where
  "sub_reg type_name cb st =
     (let (i, w) = typeid type_name (snd st)
      in (if map_of (fst st) i = None then om_put i cb (fst st) else fst st, w))"

definition sub_release :: "('c, 'u) subscriber_t \<Rightarrow> ('c, 'u) subscriber_t" where
  "sub_release s = []"

subsection \<open>The bus\<close>

type_synonym ('c, 'u) bus_t = "(int, ('c, 'u) subscriber_cb) mmap"

definition subscribe :: "('c, 'u) subscriber_t \<Rightarrow> ('c, 'u) bus_t \<Rightarrow> ('c, 'u) bus_t" where
  "subscribe sub bus = fold (\<lambda>(k, cb). mm_insert k cb) sub bus"

text \<open>The loop of \<open>call\<close> over the callbacks of the type; undefined behaviour is not caught.\<close>

fun call_loop :: "int \<Rightarrow> 'u outcome list \<Rightarrow> ('u list \<times> int) exc" where
  "call_loop num [] = Inr ([], num)"
| "call_loop num (r # rs) = (case snd r of
     None \<Rightarrow> Inr (fst r, 0)
   | Some (Runtime_error e) \<Rightarrow> (case call_loop (num + 1) rs of Inl x \<Rightarrow> Inl x | Inr (us, n) \<Rightarrow> Inr (fst r @ us, n))
   | Some e \<Rightarrow> Inl e)"

definition call_obj :: "int \<Rightarrow> 'c \<Rightarrow> ('c, 'u) bus_t \<Rightarrow> ('u list \<times> int) exc" where
  "call_obj type_id x bus = call_loop 0 (map (\<lambda>cb. on_obj cb x) (mm_range type_id bus))"

definition call_data :: "int \<Rightarrow> string \<Rightarrow> ('c, 'u) bus_t \<Rightarrow> ('u list \<times> int) exc" where
  "call_data type_id data bus = call_loop 0 (map (\<lambda>cb. on_data cb data) (mm_range type_id bus))"

definition publish_obj :: "string \<Rightarrow> 'c \<Rightarrow> ('c, 'u) bus_t \<Rightarrow> type_world \<Rightarrow> ('u list \<times> int) exc \<times> type_world" where
  "publish_obj type_name x bus w = (let (i, w1) = typeid type_name w in (call_obj i x bus, w1))"

definition publish_name :: "string \<Rightarrow> string \<Rightarrow> ('c, 'u) bus_t \<Rightarrow> type_world \<Rightarrow> ('u list \<times> int) exc" where
  "publish_name type_name data bus w = call_data (get_id_by_name type_name (generator w)) data bus"

subsection \<open>Ids\<close>

text \<open>Every helper has its name's id, and the ids are numbered from one.\<close>

definition types_ok :: "type_world \<Rightarrow> bool" where
  "types_ok w \<longleftrightarrow> om_wf (helpers w) \<and> helpers w = m_name2id (generator w) \<and> 0 \<le> m_id (generator w) \<and>
     (\<forall>n i. map_of (helpers w) n = Some i \<longrightarrow> 0 < i \<and> i \<le> m_id (generator w)) \<and>
     (\<forall>n n' i. map_of (helpers w) n = Some i \<longrightarrow> map_of (helpers w) n' = Some i \<longrightarrow> n = n')"

lemma types_ok_new: "types_ok new_types"
  by (simp add: types_ok_def new_types_def new_generator_def om_wf_def)

lemma typeid_ok:
  assumes "types_ok w" "typeid n w = (i, w')"
  shows "types_ok w'" "0 < i" "map_of (helpers w') n = Some i" "map_of (helpers w) k = Some j \<Longrightarrow> map_of (helpers w') k = Some j"
proof -
  have "types_ok w' \<and> 0 < i \<and> map_of (helpers w') n = Some i \<and> (map_of (helpers w) k = Some j \<longrightarrow> map_of (helpers w') k = Some j)"
  proof (cases "map_of (helpers w) n")
    case None
    then have w': "i = m_id (generator w) + 1" "w' = w\<lparr>generator := (generator w)\<lparr>m_id := i, m_name2id := om_put n i (m_name2id (generator w))\<rparr>,
        helpers := om_put n i (helpers w)\<rparr>"
      using assms(2) by (auto simp: typeid_def alloc_id_def Let_def)
    have wf: "om_wf (helpers w)" "m_name2id (generator w) = helpers w" "0 \<le> m_id (generator w)"
      and old: "\<And>n i. map_of (helpers w) n = Some i \<Longrightarrow> 0 < i \<and> i \<le> m_id (generator w)"
      "\<And>n n' i. map_of (helpers w) n = Some i \<Longrightarrow> map_of (helpers w) n' = Some i \<Longrightarrow> n = n'"
      using assms(1) unfolding types_ok_def by (blast, metis, blast+)
    have look: "map_of (om_put n i (helpers w)) x = (if x = n then Some i else map_of (helpers w) x)" for x
      by (rule om.find_put [OF wf(1)])
    have "i \<noteq> j" if "map_of (helpers w) k = Some j" for k j using old(1) [OF that] w'(1) by simp
    then have "types_ok w'" using wf(3) om.wf_put [OF wf(1), of n i] old unfolding types_ok_def w'(2)
      by (auto simp: look wf(2) w'(1) dest: old(1) split: if_splits)
    moreover have "0 < i" using wf(3) by (simp add: w'(1))
    ultimately show ?thesis using None by (auto simp: w'(2) look)
  qed (use assms in \<open>auto simp: typeid_def types_ok_def\<close>)
  then show "types_ok w'" "0 < i" "map_of (helpers w') n = Some i" "map_of (helpers w) k = Some j \<Longrightarrow> map_of (helpers w') k = Some j"
    by blast+
qed

text \<open>
  Type ids identify types: two uses give the same id exactly if they are of the same type, whatever
  types were used before, ids are positive, and the id of a name is the one its type has, 0 for a
  name whose type was never used.
\<close>

theorem typeid_identifies:
  assumes "types_ok w" "typeid n1 w = (i1, w1)" "typeid n2 w1 = (i2, w2)"
  shows "(i1 = i2 \<longleftrightarrow> n1 = n2) \<and> 0 < i1 \<and> get_id_by_name n1 (generator w2) = i1 \<and>
    (map_of (helpers w2) n3 = None \<longrightarrow> get_id_by_name n3 (generator w2) = 0)"
proof -
  have ok: "types_ok w1" "0 < i1" "map_of (helpers w1) n1 = Some i1" by (rule typeid_ok [OF assms(1,2)])+
  have ok2: "types_ok w2" "map_of (helpers w2) n2 = Some i2" "map_of (helpers w2) n1 = Some i1"
    using typeid_ok [OF ok(1) assms(3)] ok(3) by blast+
  then have "i1 = i2 \<longleftrightarrow> n1 = n2" unfolding types_ok_def by (metis option.inject)
  moreover have "get_id_by_name n1 (generator w2) = i1" "map_of (helpers w2) n3 = None \<longrightarrow> get_id_by_name n3 (generator w2) = 0"
    using ok2 by (auto simp: get_id_by_name_def types_ok_def)
  ultimately show ?thesis using ok(2) by simp
qed

theorem typeid_identifies_witness:
  "\<exists>i1 w1 i2 w2. typeid ''a'' new_types = (i1, w1) \<and> typeid ''b'' w1 = (i2, w2) \<and> i1 \<noteq> i2 \<and> get_id_by_name ''a'' (generator w2) = i1"
proof -
  obtain i1 w1 where 1: "typeid ''a'' new_types = (i1, w1)" by fastforce
  obtain i2 w2 where 2: "typeid ''b'' w1 = (i2, w2)" by fastforce
  show ?thesis using typeid_identifies [OF types_ok_new 1 2] 1 2 by blast
qed

subsection \<open>Who is called\<close>

lemma om_range:
  assumes "om_wf sub"
  shows "map snd (filter (\<lambda>(k, v). k = i) sub) = (case map_of sub i of None \<Rightarrow> [] | Some cb \<Rightarrow> [cb])"
proof -
  have "distinct (map fst sub)" using assms by (simp add: om_wf_def strict_sorted_iff)
  then show ?thesis
  proof (induction sub)
    case (Cons p sub)
    obtain k v where p: "p = (k, v)" by (cases p)
    show ?case
    proof (cases "k = i")
      case True
      with Cons.prems p have "filter (\<lambda>(k, v). k = i) sub = []" by (force simp: filter_empty_conv)
      with True p show ?thesis by simp
    next
      case False
      with Cons p show ?thesis by simp
    qed
  qed simp
qed

definition callbacks_of :: "int \<Rightarrow> ('c, 'u) subscriber_t list \<Rightarrow> ('c, 'u) subscriber_cb list" where
  "callbacks_of i subs = concat (map (\<lambda>sub. case map_of sub i of None \<Rightarrow> [] | Some cb \<Rightarrow> [cb]) subs)"

lemma subscribe_range:
  assumes "mm_wf bus" "\<forall>sub \<in> set subs. om_wf sub"
  shows "mm_range i (fold subscribe subs bus) = mm_range i bus @ callbacks_of i subs"
  using assms
proof (induction subs arbitrary: bus)
  case (Cons sub subs)
  have "mm_wf (subscribe sub bus)" unfolding subscribe_def by (rule mm.wf_insert_all [OF Cons.prems(1)])
  moreover have "mm_range i (subscribe sub bus) = mm_range i bus @ (case map_of sub i of None \<Rightarrow> [] | Some cb \<Rightarrow> [cb])"
    unfolding subscribe_def mm.range_insert_all [OF Cons.prems(1)] using om_range [of sub i] Cons.prems(2) by simp
  ultimately show ?case using Cons by (simp add: callbacks_of_def)
qed (simp add: callbacks_of_def)

definition threw :: "'u outcome \<Rightarrow> bool" where
  "threw r \<longleftrightarrow> snd r \<noteq> None"

lemma call_loop_result:
  assumes "\<forall>r \<in> set rs. \<forall>e. snd r = Some e \<longrightarrow> (\<exists>s. e = Runtime_error s)"
  shows "call_loop num rs = Inr (case dropWhile threw rs of
      [] \<Rightarrow> (concat (map fst rs), num + int (length rs))
    | r # _ \<Rightarrow> (concat (map fst (takeWhile threw rs)) @ fst r, 0))"
  using assms
proof (induction rs arbitrary: num)
  case (Cons r rs)
  show ?case
  proof (cases "snd r")
    case (Some e)
    then obtain s where "e = Runtime_error s" using Cons.prems by auto
    with Some Cons.IH [of "num + 1"] Cons.prems show ?thesis
      by (cases "dropWhile threw rs") (simp_all add: threw_def [of r] del: dropWhile_eq_Nil_conv)
  qed (simp add: threw_def)
qed simp

text \<open>
  What \<open>publish\<close> does. The callbacks registered for the type are called in the order in which their
  subscribers were subscribed, until the first one that does not throw; the later ones never see the
  event. The result is 0 when some callback ended normally, and otherwise the number of callbacks, so
  that 0 is also the answer when nobody subscribed.
\<close>

theorem publish_until_success:
  assumes "typeid n w = (i, w1)" "\<forall>sub \<in> set subs. om_wf sub" "cbs = callbacks_of i subs"
    and "\<forall>cb \<in> set cbs. \<forall>e. snd (on_obj cb x) = Some e \<longrightarrow> (\<exists>s. e = Runtime_error s)"
  shows "publish_obj n x (fold subscribe subs []) w =
    (Inr (case dropWhile (\<lambda>cb. threw (on_obj cb x)) cbs of
        [] \<Rightarrow> (concat (map (\<lambda>cb. fst (on_obj cb x)) cbs), int (length cbs))
      | cb # _ \<Rightarrow> (concat (map (\<lambda>cb. fst (on_obj cb x)) (takeWhile (\<lambda>cb. threw (on_obj cb x)) cbs)) @ fst (on_obj cb x), 0)), w1)"
proof -
  have "mm_range i (fold subscribe subs []) = cbs"
    using subscribe_range [of "[]" subs i] assms(2,3) by (simp add: mm_wf_def mm_range_def)
  then show ?thesis
    using assms(1,4) call_loop_result [of "map (\<lambda>cb. on_obj cb x) cbs" 0]
    by (cases "dropWhile (\<lambda>cb. threw (on_obj cb x)) cbs")
      (simp_all add: publish_obj_def call_obj_def dropWhile_map takeWhile_map comp_def del: dropWhile_eq_Nil_conv)
qed

definition failing_cb :: "(string, string) subscriber_cb" where
  "failing_cb = new_cb (command_decode dec_string) (\<lambda>x. ([''tried'' @ x], Some (Runtime_error ''no'')))"

definition working_cb :: "string \<Rightarrow> (string, string) subscriber_cb" where
  "working_cb who = new_cb (command_decode dec_string) (\<lambda>x. ([who @ x], None))"

theorem publish_until_success_witness:
  "fst (publish_obj ''login'' ''!'' (fold subscribe [[(1, failing_cb)], [(1, working_cb ''a'')], [(1, working_cb ''b'')]] []) new_types) =
    Inr ([''tried!'', ''a!''], 0)"
  using publish_until_success [of "''login''" new_types 1 _ "[[(1, failing_cb)], [(1, working_cb ''a'')], [(1, working_cb ''b'')]]" _ "''!''"]
  by (simp add: typeid_def new_types_def new_generator_def alloc_id_def om_wf_def callbacks_of_def failing_cb_def working_cb_def new_cb_def threw_def)

text \<open>
  (C23) A command published as bytes does what the command itself does. For a type that is in use and
  whose subscribers decode with the command's own class, publishing the encoded command under the name
  of its type calls the same callbacks on an equal command, with the same effects and result.
\<close>

theorem publish_name_same:
  assumes "types_ok w" "map_of (helpers w) n = Some i" "wire enc dec ok" "ok (snd c)"
    and "\<forall>cb \<in> set (mm_range i bus). \<exists>f. cb = new_cb (user_command_decode dec) f"
  shows "publish_name n (fst (user_command_encode enc c [])) bus w = fst (publish_obj n c bus w)"
proof -
  have dec: "dec (enc (snd c)) = Inr (snd c, [])" using wire.dec_enc [OF assms(3,4), of "[]"] by simp
  then have "user_command_decode dec (fst (user_command_encode enc c [])) = Inr c"
    by (simp add: user_command_decode_def user_command_encode_def Let_def u64w.dec_enc)
  then have "map (\<lambda>cb. on_data cb (fst (user_command_encode enc c []))) (mm_range i bus) = map (\<lambda>cb. on_obj cb c) (mm_range i bus)"
    using assms(5) by (auto simp: new_cb_def)
  then have "call_data i (fst (user_command_encode enc c [])) bus = call_obj i c bus"
    unfolding call_data_def call_obj_def by (rule arg_cong)
  moreover have "get_id_by_name n (generator w) = i" using assms(1,2) by (simp add: types_ok_def get_id_by_name_def)
  ultimately show ?thesis using assms(2) by (simp add: publish_name_def publish_obj_def typeid_def)
qed

theorem publish_name_same_witness:
  "\<exists>i w. typeid ''say'' new_types = (i, w) \<and>
    publish_name ''say'' (fst (user_command_encode enc_string (7, ''hi'') [])) [(i, new_cb (user_command_decode dec_string) (\<lambda>c. ([c], None)))] w = Inr ([(7, ''hi'')], 0)"
proof -
  let ?f = "\<lambda>c. ([c], None)"
  obtain i w where w: "typeid ''say'' new_types = (i, w)" by fastforce
  note ok = typeid_ok [OF types_ok_new w]
  have "wire enc_string dec_string (\<lambda>str. length str < 2 ^ 32)" by (rule strw.wire_axioms)
  from publish_name_same [OF ok(1,3) this, of "(7, ''hi'')" "[(i, new_cb (user_command_decode dec_string) ?f)]"] ok(3)
  have "publish_name ''say'' (fst (user_command_encode enc_string (7, ''hi'') [])) [(i, new_cb (user_command_decode dec_string) ?f)] w = Inr ([(7, ''hi'')], 0)"
    by (simp add: mm_range_def publish_obj_def typeid_def call_obj_def new_cb_def)
  with w show ?thesis by blast
qed


subsection \<open>\<open>aggregate_root_i\<close>\<close>

text \<open>
  \<^verbatim>\<open>cqrs/aggregate_root_i.h\<close>: the events an object has raised, by address; \<open>live\<close> are the event objects that exist. An event passed by value is
  copied to \<open>fresh\<close>. The destructor deletes no event.
\<close>

record aggregate_root_i =
  ar_id :: int
  ar_events :: "nat list"

definition new_aggregate_root :: aggregate_root_i where
  "new_aggregate_root = \<lparr>ar_id = 0, ar_events = []\<rparr>"

definition set_id :: "int \<Rightarrow> aggregate_root_i \<Rightarrow> aggregate_root_i" where
  "set_id i ar = ar\<lparr>ar_id := i\<rparr>"

definition add_event :: "nat \<Rightarrow> aggregate_root_i \<Rightarrow> aggregate_root_i" where
  "add_event e ar = ar\<lparr>ar_events := ar_events ar @ [e]\<rparr>"

definition add_event_copy :: "nat \<Rightarrow> nat set \<Rightarrow> aggregate_root_i \<Rightarrow> nat set \<times> aggregate_root_i" where
  "add_event_copy fresh live ar = (insert fresh live, add_event fresh ar)"

fun delete_events :: "nat list \<Rightarrow> nat set \<Rightarrow> nat set exc" where
  "delete_events [] live = Inr live"
| "delete_events (e # es) live = (if e = 0 then delete_events es live else if e \<notin> live then Inl Dangling else delete_events es (live - {e}))"

definition clear_event :: "nat set \<Rightarrow> aggregate_root_i \<Rightarrow> (nat set \<times> aggregate_root_i) exc" where
  "clear_event live ar = (case delete_events (ar_events ar) live of Inl e \<Rightarrow> Inl e | Inr live' \<Rightarrow> Inr (live', ar\<lparr>ar_events := []\<rparr>))"

text \<open>Clearing is defined exactly if every event exists and none was added twice; then exactly the events are gone.\<close>

lemma delete_events_result:
  "delete_events es live = (if distinct (filter (\<lambda>e. e \<noteq> 0) es) \<and> set es - {0} \<subseteq> live then Inr (live - (set es - {0})) else Inl Dangling)"
proof (induction es arbitrary: live)
  case (Cons e es)
  have "live - {e} - (set es - {0}) = live - (insert e (set es) - {0})" if "e \<noteq> 0" using that by auto
  then show ?case using Cons by (auto split: if_splits)
qed simp

lemma clear_event_result:
  "clear_event live ar = (if distinct (filter (\<lambda>e. e \<noteq> 0) (ar_events ar)) \<and> set (ar_events ar) - {0} \<subseteq> live
     then Inr (live - (set (ar_events ar) - {0}), ar\<lparr>ar_events := []\<rparr>) else Inl Dangling)"
  by (simp add: clear_event_def delete_events_result)

end
