(* ===== verification/Astar.thy ===== *)
theory Astar
  imports Multimap
begin

section \<open>Path search on a grid\<close>

text \<open>
  \<open>astar_t\<close> of \<^verbatim>\<open>ext/algorithm/astar2\<close>. A \<open>map_node_t*\<close> is an index into the array of nodes; a position is a
  \<open>uint32_t\<close>. The open table is a \<open>multimap\<close>: a list in key order in which an equal key is inserted
  behind the others. Using a node outside the array is \<open>Out_of_range\<close>; the iterator that \<open>update\<close> goes on
  with after \<open>erase\<close> is \<open>Dangling\<close>.
\<close>

record search_node_t =
  sn_pos_index :: u32
  sn_gval :: u32
  sn_hval :: u32

definition new_search_node :: search_node_t where
  "new_search_node = \<lparr>sn_pos_index = 0, sn_gval = 0, sn_hval = 0\<rparr>"

definition sn_fval :: "search_node_t \<Rightarrow> u32" where
  "sn_fval n = sn_gval n + sn_hval n"

subsection \<open>The open table\<close>

type_synonym open_table_t = "(u32, search_node_t) mmap"

definition open_insert :: "search_node_t \<Rightarrow> open_table_t \<Rightarrow> open_table_t" where
  "open_insert n t = mm_insert (sn_fval n) n t"

definition open_update :: "u32 \<Rightarrow> search_node_t \<Rightarrow> open_table_t \<Rightarrow> open_table_t exc" where
  "open_update old n t =
     (if \<exists>(k, x) \<in> set t. k = old \<and> sn_pos_index x = sn_pos_index n then Inl Dangling else Inr (open_insert n t))"

subsection \<open>The map\<close>

datatype node_state_e = NONE | OPEN | CLOSED

record map_node_t =
  mn_pos_index :: u32
  parrent_pos_index :: u32
  mn_gval :: u32
  mn_hval :: u32
  flag :: node_state_e
  pass_flag :: bool

text \<open>The constructor leaves \<open>hval\<close> as it finds it.\<close>

definition new_map_node :: "u32 \<Rightarrow> u32 \<Rightarrow> map_node_t" where
  "new_map_node junk pos = \<lparr>mn_pos_index = pos, parrent_pos_index = 0, mn_gval = 0, mn_hval = junk, flag = NONE, pass_flag = True\<rparr>"

definition mn_fval :: "map_node_t \<Rightarrow> u32" where
  "mn_fval n = mn_gval n + mn_hval n"

definition mn_clear :: "map_node_t \<Rightarrow> map_node_t" where
  "mn_clear n = n\<lparr>parrent_pos_index := 0, mn_gval := 0, mn_hval := 0, flag := NONE\<rparr>"

record map_mgr_t =
  m_map_nodes :: "map_node_t list"
  m_width :: u32
  m_height :: u32

definition new_map :: "u32 \<Rightarrow> u32 \<Rightarrow> u32 \<Rightarrow> map_mgr_t" where
  "new_map junk width height = \<lparr>m_map_nodes =
     concat (map (\<lambda>i. map (\<lambda>j. new_map_node junk (word_of_nat i * width + word_of_nat j)) [0..<unat width]) [0..<unat height]),
     m_width = width, m_height = height\<rparr>"

definition get_node :: "nat \<Rightarrow> map_mgr_t \<Rightarrow> map_node_t exc" where
  "get_node i m = (if i < length (m_map_nodes m) then Inr (m_map_nodes m ! i) else Inl Out_of_range)"

definition upd_node :: "nat \<Rightarrow> (map_node_t \<Rightarrow> map_node_t) \<Rightarrow> map_mgr_t \<Rightarrow> map_mgr_t" where
  "upd_node i f m = m\<lparr>m_map_nodes := (m_map_nodes m)[i := f (m_map_nodes m ! i)]\<rparr>"

text \<open>The four candidates, as pointer differences from the array; those inside it that can be passed.\<close>

definition get_neighbors :: "u32 \<Rightarrow> map_mgr_t \<Rightarrow> nat list" where
  "get_neighbors pos m =
     (let p = int (unat pos); w = int (unat (m_width m)); n = int (unat (m_height m * m_width m))
      in map nat (filter (\<lambda>i. 0 \<le> i \<and> i < n \<and> pass_flag (m_map_nodes m ! nat i)) [p - 1, p + 1, p - w, p + w]))"

text \<open>\<open>::abs(int)\<close> of an unsigned difference.\<close>

definition abs_diff :: "u32 \<Rightarrow> u32 \<Rightarrow> u32" where
  "abs_diff a b = word_of_int \<bar>sint (a - b)\<bar>"

definition distance :: "u32 \<Rightarrow> u32 \<Rightarrow> map_mgr_t \<Rightarrow> u32" where
  "distance a b m = abs_diff (a mod m_width m) (b mod m_width m) + abs_diff (a div m_width m) (b div m_width m)"

definition heuristic :: "u32 \<Rightarrow> u32 \<Rightarrow> map_mgr_t \<Rightarrow> u32" where
  "heuristic a b m = distance a b m"

definition set_pos_pass_state :: "u32 \<Rightarrow> bool \<Rightarrow> map_mgr_t \<Rightarrow> map_mgr_t exc" where
  "set_pos_pass_state pos f m =
     (if unat pos < length (m_map_nodes m) then Inr (upd_node (unat pos) (\<lambda>n. n\<lparr>pass_flag := f\<rparr>) m) else Inl Out_of_range)"

subsection \<open>The search\<close>

record search =
  the_map :: map_mgr_t
  the_open :: open_table_t
  visited :: "nat list"

text \<open>What the loop over the neighbours does with one of them.\<close>

definition visit_neighbor :: "u32 \<Rightarrow> u32 \<Rightarrow> nat \<Rightarrow> search \<Rightarrow> search exc" where
  "visit_neighbor cur to_index i s =
     (let m = the_map s; nb = m_map_nodes m ! i;
          nn = \<lparr>sn_pos_index = mn_pos_index nb, sn_gval = distance cur (mn_pos_index nb) m, sn_hval = heuristic (mn_pos_index nb) to_index m\<rparr>
      in if i \<ge> length (m_map_nodes m) then Inl Out_of_range
         else if flag nb = OPEN
         then (if sn_gval nn < mn_gval nb
               then (case open_update (mn_fval nb) nn (the_open s) of Inl e \<Rightarrow> Inl e
                 | Inr t \<Rightarrow> Inr (s\<lparr>the_open := t,
                     the_map := upd_node i (\<lambda>n. n\<lparr>mn_gval := sn_gval nn, mn_hval := sn_hval nn, parrent_pos_index := cur\<rparr>) m\<rparr>))
               else Inr s)
         else if flag nb \<noteq> CLOSED
         then Inr (s\<lparr>the_open := open_insert nn (the_open s),
                the_map := upd_node i (\<lambda>n. n\<lparr>flag := OPEN, parrent_pos_index := cur\<rparr>) m, visited := visited s @ [i]\<rparr>)
         else Inr s)"

fun visit_all :: "u32 \<Rightarrow> u32 \<Rightarrow> nat list \<Rightarrow> search \<Rightarrow> search exc" where
  "visit_all cur to_index [] s = Inr s"
| "visit_all cur to_index (i # is) s = (case visit_neighbor cur to_index i s of Inl e \<Rightarrow> Inl e | Inr s1 \<Rightarrow> visit_all cur to_index is s1)"

definition expand :: "u32 \<Rightarrow> u32 \<Rightarrow> search \<Rightarrow> search exc" where
  "expand cur to_index s =
     (if unat cur < length (m_map_nodes (the_map s))
      then let m1 = upd_node (unat cur) (\<lambda>n. n\<lparr>flag := CLOSED\<rparr>) (the_map s)
           in visit_all cur to_index (get_neighbors cur m1) (s\<lparr>the_map := m1\<rparr>)
      else Inl Out_of_range)"


text \<open>
  The loop ends for every map: a turn takes one entry out of the open table, and whatever it puts in
  costs a node its first state or lowers the cost of a node.
\<close>

lemma upd_node_split:
  assumes "i < length (m_map_nodes m)"
  shows "m_map_nodes (upd_node i f m) = take i (m_map_nodes m) @ f (m_map_nodes m ! i) # drop (Suc i) (m_map_nodes m)"
    and "m_map_nodes m = take i (m_map_nodes m) @ m_map_nodes m ! i # drop (Suc i) (m_map_nodes m)"
  using assms by (simp_all add: upd_node_def upd_conv_take_nth_drop id_take_nth_drop)

definition none_count :: "map_node_t list \<Rightarrow> nat" where
  "none_count ns = length (filter (\<lambda>n. flag n = NONE) ns)"

definition gval_sum :: "map_node_t list \<Rightarrow> nat" where
  "gval_sum ns = sum_list (map (\<lambda>n. unat (mn_gval n)) ns)"

lemma counts_append [simp]:
  "none_count (a @ n # b) = none_count a + (if flag n = NONE then 1 else 0) + none_count b"
  "gval_sum (a @ n # b) = gval_sum a + unat (mn_gval n) + gval_sum b"
  by (simp_all add: none_count_def gval_sum_def)

lemma counts_upd:
  assumes "i < length (m_map_nodes m)" "n = m_map_nodes m ! i"
  shows "none_count (m_map_nodes (upd_node i f m)) + (if flag n = NONE then 1 else 0) = none_count (m_map_nodes m) + (if flag (f n) = NONE then 1 else 0)"
    and "gval_sum (m_map_nodes (upd_node i f m)) + unat (mn_gval n) = gval_sum (m_map_nodes m) + unat (mn_gval (f n))"
proof -
  let ?a = "take i (m_map_nodes m)" and ?b = "drop (Suc i) (m_map_nodes m)"
  have "none_count (m_map_nodes m) = none_count ?a + (if flag n = NONE then 1 else 0) + none_count ?b"
    "gval_sum (m_map_nodes m) = gval_sum ?a + unat (mn_gval n) + gval_sum ?b"
    using counts_append [of ?a n ?b] upd_node_split(2) [OF assms(1)] assms(2) by simp_all
  then show "none_count (m_map_nodes (upd_node i f m)) + (if flag n = NONE then 1 else 0) = none_count (m_map_nodes m) + (if flag (f n) = NONE then 1 else 0)"
    "gval_sum (m_map_nodes (upd_node i f m)) + unat (mn_gval n) = gval_sum (m_map_nodes m) + unat (mn_gval (f n))"
    using assms(2) by (simp_all only: upd_node_split(1) [OF assms(1)] counts_append)
qed

definition cheaper :: "search \<Rightarrow> search \<Rightarrow> bool" where
  "cheaper s' s \<longleftrightarrow> none_count (m_map_nodes (the_map s')) < none_count (m_map_nodes (the_map s)) \<or>
     none_count (m_map_nodes (the_map s')) = none_count (m_map_nodes (the_map s)) \<and>
     gval_sum (m_map_nodes (the_map s')) < gval_sum (m_map_nodes (the_map s))"

lemma cheaper_trans: "cheaper a b \<Longrightarrow> cheaper b c \<Longrightarrow> cheaper a c"
  by (auto simp: cheaper_def)

lemma visit_neighbor_cases:
  assumes "visit_neighbor cur to_index i s = Inr s'" "nb = m_map_nodes (the_map s) ! i"
  obtains (Same) "s' = s" "flag nb \<noteq> NONE"
  | (Lower) g h t where "flag nb = OPEN" "g < mn_gval nb"
      "s' = s\<lparr>the_open := t, the_map := upd_node i (\<lambda>n. n\<lparr>mn_gval := g, mn_hval := h, parrent_pos_index := cur\<rparr>) (the_map s)\<rparr>"
  | (New) nn where "flag nb = NONE" "sn_pos_index nn = mn_pos_index nb"
      "s' = s\<lparr>the_open := open_insert nn (the_open s),
         the_map := upd_node i (\<lambda>n. n\<lparr>flag := OPEN, parrent_pos_index := cur\<rparr>) (the_map s), visited := visited s @ [i]\<rparr>"
proof (cases "flag nb")
  case NONE
  then show ?thesis using assms(1) unfolding visit_neighbor_def Let_def assms(2) [symmetric]
    by (simp split: if_splits) (rule New [OF NONE _ sym], simp_all)
next
  case OPEN
  show ?thesis
  proof (cases "distance cur (mn_pos_index nb) (the_map s) < mn_gval nb")
    case True
    with OPEN show ?thesis using assms(1) unfolding visit_neighbor_def Let_def assms(2) [symmetric]
      by (simp split: if_splits sum.splits) (rule Lower [OF OPEN True sym])
  qed (use OPEN assms in \<open>simp add: visit_neighbor_def Let_def Same split: if_splits\<close>)
next
  case CLOSED
  then show ?thesis using assms by (simp add: visit_neighbor_def Let_def Same split: if_splits)
qed

lemma visit_neighbor_range: "visit_neighbor cur to_index i s = Inr s' \<Longrightarrow> i < length (m_map_nodes (the_map s))"
  by (auto simp: visit_neighbor_def Let_def split: if_splits)

lemma visit_neighbor_cheaper:
  assumes "visit_neighbor cur to_index i s = Inr s'"
  shows "s' = s \<or> cheaper s' s"
  using assms refl
proof (cases rule: visit_neighbor_cases)
  case (Lower g h t)
  then show ?thesis
    using counts_upd [OF visit_neighbor_range [OF assms] refl, of "\<lambda>n. n\<lparr>mn_gval := g, mn_hval := h, parrent_pos_index := cur\<rparr>"]
    by (auto simp: cheaper_def word_less_nat_alt)
next
  case (New nn)
  then show ?thesis
    using counts_upd(1) [OF visit_neighbor_range [OF assms] refl, of "\<lambda>n. n\<lparr>flag := OPEN, parrent_pos_index := cur\<rparr>"]
    by (auto simp: cheaper_def)
qed simp

lemma visit_all_cheaper: "visit_all cur to_index is s = Inr s' \<Longrightarrow> s' = s \<or> cheaper s' s"
proof (induction "is" arbitrary: s)
  case (Cons i "is")
  then show ?case by (auto split: sum.splits dest!: visit_neighbor_cheaper) (use cheaper_trans in blast)
qed simp

lemma expand_cheaper:
  assumes "expand cur to_index s = Inr s'"
  shows "cheaper s' s \<or> the_open s' = the_open s \<and> none_count (m_map_nodes (the_map s')) = none_count (m_map_nodes (the_map s)) \<and>
    gval_sum (m_map_nodes (the_map s')) = gval_sum (m_map_nodes (the_map s))"
proof -
  let ?f = "\<lambda>n. n\<lparr>flag := CLOSED\<rparr>"
  let ?m = "upd_node (unat cur) ?f (the_map s)" and ?s = "s\<lparr>the_map := upd_node (unat cur) (\<lambda>n. n\<lparr>flag := CLOSED\<rparr>) (the_map s)\<rparr>"
  have cur: "unat cur < length (m_map_nodes (the_map s))" and "visit_all cur to_index (get_neighbors cur ?m) ?s = Inr s'"
    using assms by (auto simp: expand_def Let_def split: if_splits)
  then have "s' = ?s \<or> cheaper s' ?s" by (intro visit_all_cheaper)
  moreover have "cheaper ?s s \<or> none_count (m_map_nodes ?m) = none_count (m_map_nodes (the_map s)) \<and> gval_sum (m_map_nodes ?m) = gval_sum (m_map_nodes (the_map s))"
    using counts_upd [OF cur refl, of ?f] by (auto simp: cheaper_def split: if_splits)
  ultimately show ?thesis by (auto simp: cheaper_def)
qed

function search_loop :: "u32 \<Rightarrow> search_node_t \<Rightarrow> search \<Rightarrow> (search_node_t \<times> search) exc" where
  "search_loop to_index current s = (case the_open s of
     [] \<Rightarrow> Inr (current, s)
   | (k, n) # t \<Rightarrow>
      (if sn_pos_index n = to_index then Inr (n, s\<lparr>the_open := t\<rparr>)
       else case expand (sn_pos_index n) to_index (s\<lparr>the_open := t\<rparr>) of
          Inl e \<Rightarrow> Inl e
        | Inr s' \<Rightarrow> search_loop to_index n s'))"
  by pat_completeness auto

termination
  by (relation "inv_image (less_than <*lex*> less_than <*lex*> less_than)
      (\<lambda>(to_index, current, s). (none_count (m_map_nodes (the_map s)), gval_sum (m_map_nodes (the_map s)), length (the_open s)))")
    (auto simp: cheaper_def dest!: expand_cheaper)

declare search_loop.simps [simp del]

text \<open>From the goal back along the parents; a chain that does not lead to the start is followed for ever.\<close>

partial_function (option) path_loop :: "map_mgr_t \<Rightarrow> u32 \<Rightarrow> u32 \<Rightarrow> u32 list \<Rightarrow> u32 list exc option" where
  "path_loop m from_index nxt path =
     (if nxt = from_index then Some (Inr (path @ [from_index]))
      else case get_node (unat nxt) m of Inl e \<Rightarrow> Some (Inl e)
        | Inr n \<Rightarrow> path_loop m from_index (parrent_pos_index n) (path @ [nxt]))"

declare path_loop.simps [code]

definition clear_visited :: "nat list \<Rightarrow> map_mgr_t \<Rightarrow> map_mgr_t" where
  "clear_visited vs m = fold (\<lambda>i. upd_node i mn_clear) vs m"

text \<open>\<open>search_path\<close>: the map and the path behind what \<open>path_\<close> held; \<open>None\<close> when the way back never ends.\<close>

definition search_path :: "u32 \<Rightarrow> u32 \<Rightarrow> u32 list \<Rightarrow> map_mgr_t \<Rightarrow> (map_mgr_t \<times> u32 list) exc option" where
  "search_path from_index to_index path m =
     (let current = new_search_node\<lparr>sn_pos_index := from_index\<rparr>;
          s = \<lparr>the_map = m, the_open = open_insert current [], visited = [unat from_index]\<rparr>
      in case search_loop to_index current s of
        Inl e \<Rightarrow> Some (Inl e)
      | Inr (current, s) \<Rightarrow>
         (let m1 = the_map s
          in if sn_pos_index current = to_index
             then (case get_node (unat to_index) m1 of Inl e \<Rightarrow> Some (Inl e)
               | Inr n \<Rightarrow> (case path_loop m1 from_index (parrent_pos_index n) (path @ [to_index]) of
                    None \<Rightarrow> None
                  | Some (Inl e) \<Rightarrow> Some (Inl e)
                  | Some (Inr path1) \<Rightarrow> Some (Inr (clear_visited (visited s) m1, path1))))
             else Some (Inr (clear_visited (visited s) m1, path))))"

subsection \<open>Maps that agree\<close>

definition wf_map :: "map_mgr_t \<Rightarrow> bool" where
  "wf_map m \<longleftrightarrow> unat (m_height m * m_width m) = length (m_map_nodes m) \<and>
     (\<forall>i < length (m_map_nodes m). mn_pos_index (m_map_nodes m ! i) = word_of_nat i)"

text \<open>Between searches every node is unused.\<close>

definition clean :: "map_mgr_t \<Rightarrow> bool" where
  "clean m \<longleftrightarrow> (\<forall>n \<in> set (m_map_nodes m). flag n = NONE \<and> parrent_pos_index n = 0 \<and> mn_gval n = 0)"

definition same_map :: "map_mgr_t \<Rightarrow> map_mgr_t \<Rightarrow> bool" where
  "same_map m m' \<longleftrightarrow> m_width m' = m_width m \<and> m_height m' = m_height m \<and> length (m_map_nodes m') = length (m_map_nodes m) \<and>
     (\<forall>i < length (m_map_nodes m). pass_flag (m_map_nodes m' ! i) = pass_flag (m_map_nodes m ! i) \<and>
        mn_pos_index (m_map_nodes m' ! i) = mn_pos_index (m_map_nodes m ! i))"

lemma same_map_refl [simp]: "same_map m m"
  by (simp add: same_map_def)

text \<open>The fields of an array after one of its nodes was changed.\<close>

lemma upd_node_nth:
  "i < length (m_map_nodes m) \<Longrightarrow> m_map_nodes (upd_node j f m) ! i = (if i = j then f (m_map_nodes m ! i) else m_map_nodes m ! i)"
  "length (m_map_nodes (upd_node j f m)) = length (m_map_nodes m)"
  by (auto simp: upd_node_def nth_list_update)

lemma same_map_upd:
  assumes "same_map m m'" "\<And>n. pass_flag (f n) = pass_flag n \<and> mn_pos_index (f n) = mn_pos_index n"
  shows "same_map m (upd_node i f m')"
  using assms by (auto simp: same_map_def upd_node_nth) (simp_all add: upd_node_def)

lemma same_neighbors:
  assumes "same_map m m'" "wf_map m"
  shows "get_neighbors pos m' = get_neighbors pos m"
proof -
  have "0 \<le> i \<and> i < int (unat (m_height m * m_width m)) \<and> pass_flag (m_map_nodes m' ! nat i) \<longleftrightarrow>
      0 \<le> i \<and> i < int (unat (m_height m * m_width m)) \<and> pass_flag (m_map_nodes m ! nat i)" for i
    using assms by (auto simp: same_map_def wf_map_def)
  moreover have "m_width m' = m_width m" "m_height m' = m_height m" using assms(1) by (simp_all add: same_map_def)
  ultimately show ?thesis unfolding get_neighbors_def Let_def by (simp only:)
qed

lemma neighbors_range:
  assumes "wf_map m" "i \<in> set (get_neighbors pos m)"
  shows "i < length (m_map_nodes m) \<and> pass_flag (m_map_nodes m ! i)"
proof -
  obtain z where "i = nat z" "0 \<le> z" "z < int (unat (m_height m * m_width m))" "pass_flag (m_map_nodes m ! nat z)"
    using assms(2) unfolding get_neighbors_def Let_def set_map set_filter by blast
  then show ?thesis using assms(1) unfolding wf_map_def by (simp add: nat_less_iff del: of_nat_unat)
qed

lemma pos_of_index: "wf_map m \<Longrightarrow> same_map m m' \<Longrightarrow> i < length (m_map_nodes m) \<Longrightarrow> unat (mn_pos_index (m_map_nodes m' ! i)) = i"
  using unsigned_less [of "m_height m * m_width m", where ?'a = nat]
  by (auto simp: wf_map_def same_map_def unsigned_of_nat take_bit_nat_eq_self)

subsection \<open>The invariant of the search\<close>

definition open_pos :: "search \<Rightarrow> nat list" where
  "open_pos s = map (\<lambda>(k, n). unat (sn_pos_index n)) (the_open s)"

abbreviation fl :: "search \<Rightarrow> nat \<Rightarrow> node_state_e" where
  "fl s i \<equiv> flag (m_map_nodes (the_map s) ! i)"

abbreviation par :: "search \<Rightarrow> nat \<Rightarrow> u32" where
  "par s i \<equiv> parrent_pos_index (m_map_nodes (the_map s) ! i)"

text \<open>
  \<open>visited\<close> lists the nodes in the order they were found, the start first, and the parent of a node
  comes before it. The open table holds the open nodes, each once (and the start until it has been
  taken out). The neighbours of every closed node have been found, except of those in \<open>X\<close>.
\<close>

definition tree_ok :: "map_mgr_t \<Rightarrow> nat \<Rightarrow> search \<Rightarrow> bool" where
  "tree_ok m st s \<longleftrightarrow> same_map m (the_map s) \<and> (\<forall>n \<in> set (m_map_nodes (the_map s)). mn_gval n = 0) \<and>
     visited s \<noteq> [] \<and> hd (visited s) = st \<and> distinct (visited s) \<and> set (visited s) \<subseteq> {..<length (m_map_nodes m)} \<and>
     (\<forall>k. 0 < k \<and> k < length (visited s) \<longrightarrow> unat (par s (visited s ! k)) \<in> set (take k (visited s)) \<and>
        visited s ! k \<in> set (get_neighbors (par s (visited s ! k)) m)) \<and>
     (\<forall>i < length (m_map_nodes m). i \<notin> set (visited s) \<longrightarrow> m_map_nodes (the_map s) ! i = m_map_nodes m ! i)"

definition flags_ok :: "map_mgr_t \<Rightarrow> nat \<Rightarrow> u32 \<Rightarrow> nat set \<Rightarrow> search \<Rightarrow> bool" where
  "flags_ok m st to_index X s \<longleftrightarrow>
     (\<forall>i \<in> set (visited s). i \<noteq> st \<longrightarrow> fl s i \<noteq> NONE) \<and> fl s st \<noteq> OPEN \<and> (fl s st = NONE \<longrightarrow> visited s = [st]) \<and>
     distinct (open_pos s) \<and> set (open_pos s) = {i. i < length (m_map_nodes m) \<and> fl s i = OPEN} \<union> (if fl s st = NONE then {st} else {}) \<and>
     (\<forall>i < length (m_map_nodes m). fl s i = CLOSED \<longrightarrow> i \<noteq> unat to_index \<and>
        (i \<notin> X \<longrightarrow> set (get_neighbors (word_of_nat i) m) \<subseteq> set (visited s)))"

lemma insert_minus: "insert c A = B \<union> S \<Longrightarrow> c \<notin> A \<Longrightarrow> S \<subseteq> {c} \<Longrightarrow> A = B - {c}"
  by blast

lemma tree_start: "tree_ok m st s \<Longrightarrow> st \<in> set (visited s) \<and> st < length (m_map_nodes m)"
  unfolding tree_ok_def by (metis hd_in_set lessThan_iff subsetD)

lemma visit_neighbor_inv:
  assumes m: "wf_map m" "clean m" and t: "tree_ok m st s" and f: "flags_ok m st to_index {unat cur} s"
    and c: "fl s (unat cur) = CLOSED" "fl s st \<noteq> NONE" "unat cur < length (m_map_nodes m)" "i \<in> set (get_neighbors cur m)"
  shows "\<exists>s'. visit_neighbor cur to_index i s = Inr s' \<and> tree_ok m st s' \<and> flags_ok m st to_index {unat cur} s' \<and>
    fl s' (unat cur) = CLOSED \<and> fl s' st \<noteq> NONE \<and> i \<in> set (visited s') \<and> set (visited s) \<subseteq> set (visited s')"
proof -
  let ?ns = "m_map_nodes (the_map s)"
  have i: "i < length (m_map_nodes m)" using neighbors_range [OF m(1) c(4)] by blast
  have len: "length ?ns = length (m_map_nodes m)" using t by (simp add: tree_ok_def same_map_def)
  have vs: "\<And>j. j \<in> set (visited s) \<Longrightarrow> j < length (m_map_nodes m)" using t by (auto simp: tree_ok_def)
  have g: "mn_gval (?ns ! i) = 0" using t i len by (simp add: tree_ok_def)
  have vis: "j \<in> set (visited s)" if "fl s j \<noteq> NONE" "j < length (m_map_nodes m)" for j
    using t that m(2) by (auto simp: tree_ok_def clean_def)
  show ?thesis
  proof (cases "fl s i = NONE")
    case False
    then have "visit_neighbor cur to_index i s = Inr s" using i len g by (cases "fl s i") (auto simp: visit_neighbor_def Let_def)
    then show ?thesis using t f c vis [OF False i] by blast
  next
    case True
    then have new: "i \<notin> set (visited s)" "i \<noteq> st" "i \<noteq> unat cur" using f c by (auto simp: flags_ok_def)
    let ?nn = "\<lparr>sn_pos_index = mn_pos_index (?ns ! i), sn_gval = distance cur (mn_pos_index (?ns ! i)) (the_map s),
      sn_hval = heuristic (mn_pos_index (?ns ! i)) to_index (the_map s)\<rparr>"
    let ?s = "s\<lparr>the_open := open_insert ?nn (the_open s),
      the_map := upd_node i (\<lambda>n. n\<lparr>flag := OPEN, parrent_pos_index := cur\<rparr>) (the_map s), visited := visited s @ [i]\<rparr>"
    have eq: "visit_neighbor cur to_index i s = Inr ?s" using True i len by (simp add: visit_neighbor_def Let_def)
    note nth = upd_node_nth(1) [of _ "the_map s" i, unfolded len]
    have pos: "unat (sn_pos_index ?nn) = i" using pos_of_index [OF m(1) _ i] t by (simp add: tree_ok_def)
    have "tree_ok m st ?s"
      unfolding tree_ok_def
    proof (intro conjI allI impI)
      show "same_map m (the_map ?s)" using t by (auto simp: tree_ok_def intro!: same_map_upd)
      show "\<forall>n \<in> set (m_map_nodes (the_map ?s)). mn_gval n = 0"
        using t g by (auto simp: tree_ok_def upd_node_def dest!: set_update_subset_insert [THEN subsetD])
      show "distinct (visited ?s)" "visited ?s \<noteq> []" "hd (visited ?s) = st" "set (visited ?s) \<subseteq> {..<length (m_map_nodes m)}"
        using t new i by (auto simp: tree_ok_def)
      fix k assume k: "0 < k \<and> k < length (visited ?s)"
      show "unat (par ?s (visited ?s ! k)) \<in> set (take k (visited ?s))" "visited ?s ! k \<in> set (get_neighbors (par ?s (visited ?s ! k)) m)"
      proof (atomize (full), cases "k = length (visited s)")
        case True
        then show "unat (par ?s (visited ?s ! k)) \<in> set (take k (visited ?s)) \<and> visited ?s ! k \<in> set (get_neighbors (par ?s (visited ?s ! k)) m)"
          using vis [of "unat cur"] c i by (simp add: nth)
      next
        case False
        with k have "k < length (visited s)" by simp
        moreover from this have "visited s ! k \<noteq> i" "visited s ! k < length (m_map_nodes m)"
          using new vs [OF nth_mem] by auto
        ultimately show "unat (par ?s (visited ?s ! k)) \<in> set (take k (visited ?s)) \<and> visited ?s ! k \<in> set (get_neighbors (par ?s (visited ?s ! k)) m)"
          using t k by (simp add: tree_ok_def nth nth_append)
      qed
    next
      fix j assume "j < length (m_map_nodes m)" "j \<notin> set (visited ?s)"
      then show "m_map_nodes (the_map ?s) ! j = m_map_nodes m ! j" using t by (auto simp: tree_ok_def nth)
    qed
    moreover have "flags_ok m st to_index {unat cur} ?s"
    proof -
      have fl: "fl ?s j = (if j = i then OPEN else fl s j)" if "j < length (m_map_nodes m)" for j using that by (simp add: nth)
      have st: "st < length (m_map_nodes m)" using tree_start [OF t] by blast
      have op: "set (open_pos ?s) = insert i (set (open_pos s))" "distinct (open_pos ?s) \<longleftrightarrow> i \<notin> set (open_pos s) \<and> distinct (open_pos s)"
        using pos by (auto simp: open_pos_def open_insert_def set_mm_insert distinct_mm_insert image_iff)
      have ni: "i \<notin> set (open_pos s)" using f True new(2) by (auto simp: flags_ok_def)
      show ?thesis using f c(2) new op ni st i vs unfolding flags_ok_def
        by (intro conjI) (auto simp: fl [simplified])
    qed
    moreover have "fl ?s (unat cur) = CLOSED" "fl ?s st \<noteq> NONE" using c new tree_start [OF t] by (auto simp: nth)
    ultimately show ?thesis using eq by auto
  qed
qed

lemma visit_all_inv:
  assumes "wf_map m" "clean m" "tree_ok m st s" "flags_ok m st to_index {unat cur} s" "fl s (unat cur) = CLOSED" "fl s st \<noteq> NONE"
    and "unat cur < length (m_map_nodes m)" "set is \<subseteq> set (get_neighbors cur m)"
  shows "\<exists>s'. visit_all cur to_index is s = Inr s' \<and> tree_ok m st s' \<and> flags_ok m st to_index {unat cur} s' \<and>
    fl s' (unat cur) = CLOSED \<and> fl s' st \<noteq> NONE \<and> set is \<subseteq> set (visited s') \<and> set (visited s) \<subseteq> set (visited s')"
  using assms
proof (induction "is" arbitrary: s)
  case (Cons i "is")
  then obtain s1 where s1: "visit_neighbor cur to_index i s = Inr s1" "tree_ok m st s1" "flags_ok m st to_index {unat cur} s1"
    "fl s1 (unat cur) = CLOSED" "fl s1 st \<noteq> NONE" "i \<in> set (visited s1)" "set (visited s) \<subseteq> set (visited s1)"
    using visit_neighbor_inv [of m st s to_index cur i] by auto
  then obtain s' where "visit_all cur to_index is s1 = Inr s'" "tree_ok m st s'" "flags_ok m st to_index {unat cur} s'"
    "fl s' (unat cur) = CLOSED" "fl s' st \<noteq> NONE" "set is \<subseteq> set (visited s')" "set (visited s1) \<subseteq> set (visited s')"
    using Cons.IH [of s1] Cons.prems by auto
  with s1 show ?case by auto
qed simp

lemma flags_all_closed:
  assumes "flags_ok m st to_index {c} s" "set (get_neighbors (word_of_nat c) m) \<subseteq> set (visited s)"
  shows "flags_ok m st to_index {} s"
proof -
  have "\<forall>i < length (m_map_nodes m). fl s i = CLOSED \<longrightarrow> i \<noteq> unat to_index \<and> (i \<notin> {} \<longrightarrow> set (get_neighbors (word_of_nat i) m) \<subseteq> set (visited s))"
    using assms unfolding flags_ok_def by (metis singletonD)
  with assms(1) show ?thesis unfolding flags_ok_def by (elim conjE, intro conjI)
qed

text \<open>A turn of the loop: the first entry of the open table is closed and its neighbours are found.\<close>

lemma expand_inv:
  assumes m: "wf_map m" "clean m" and t: "tree_ok m st s" and f: "flags_ok m st to_index {} s"
    and o: "the_open s = (k, n) # ot" "sn_pos_index n \<noteq> to_index"
  shows "\<exists>s'. expand (sn_pos_index n) to_index (s\<lparr>the_open := ot\<rparr>) = Inr s' \<and> tree_ok m st s' \<and> flags_ok m st to_index {} s' \<and> fl s' st \<noteq> NONE"
proof -
  let ?c = "unat (sn_pos_index n)" and ?N = "length (m_map_nodes m)"
  let ?s = "s\<lparr>the_open := ot, the_map := upd_node (unat (sn_pos_index n)) (\<lambda>n. n\<lparr>flag := CLOSED\<rparr>) (the_map s)\<rparr>"
  have len: "length (m_map_nodes (the_map s)) = ?N" using t by (simp add: tree_ok_def same_map_def)
  have op: "open_pos s = ?c # open_pos (s\<lparr>the_open := ot\<rparr>)" using o by (simp add: open_pos_def)
  have st: "st \<in> set (visited s)" "st < ?N" using tree_start [OF t] by blast+
  have c: "?c < ?N" "fl s ?c = OPEN \<or> fl s st = NONE \<and> ?c = st"
    using f op st unfolding flags_ok_def by (auto split: if_splits)
  have cv: "?c \<in> set (visited s)" using c t m(2) st by (auto simp: tree_ok_def clean_def)
  have vs: "\<And>j. j \<in> set (visited s) \<Longrightarrow> j < ?N" using t by (auto simp: tree_ok_def)
  note nth = upd_node_nth(1) [of _ "the_map s" ?c, unfolded len]
  have t1: "tree_ok m st ?s" unfolding tree_ok_def
  proof (intro conjI allI impI)
    show "same_map m (the_map ?s)" using t by (auto simp: tree_ok_def intro!: same_map_upd)
    have "mn_gval (m_map_nodes (the_map s) ! ?c) = 0" using t c(1) len by (simp add: tree_ok_def)
    then show "\<forall>n \<in> set (m_map_nodes (the_map ?s)). mn_gval n = 0"
      using t by (auto simp: tree_ok_def upd_node_def dest!: set_update_subset_insert [THEN subsetD])
    fix j assume k: "0 < j \<and> j < length (visited ?s)"
    have "par ?s (visited s ! j) = par s (visited s ! j)"
      using k vs [OF nth_mem, of j] by (simp add: nth)
    then show "unat (par ?s (visited ?s ! j)) \<in> set (take j (visited ?s))" "visited ?s ! j \<in> set (get_neighbors (par ?s (visited ?s ! j)) m)"
      using t k by (simp_all add: tree_ok_def)
  next
    fix j assume "j < ?N" "j \<notin> set (visited ?s)"
    then show "m_map_nodes (the_map ?s) ! j = m_map_nodes m ! j" using t cv by (auto simp: tree_ok_def nth)
  qed (use t in \<open>auto simp: tree_ok_def\<close>)
  have fl1: "fl ?s j = (if j = ?c then CLOSED else fl s j)" if "j < ?N" for j using that by (simp add: nth)
  have st1: "fl ?s st \<noteq> NONE"
  proof (cases "?c = st")
    case False
    with f cv have "fl s st \<noteq> NONE" by (auto simp: flags_ok_def)
    with False show ?thesis using nth [OF st(2)] by simp
  qed (use nth [OF st(2)] in simp)
  have "?c \<noteq> unat to_index" using o(2) by (simp add: word_unat_eq_iff)
  have f1: "flags_ok m st to_index {?c} ?s"
  proof -
    have op1: "open_pos ?s = open_pos (s\<lparr>the_open := ot\<rparr>)" by (simp add: open_pos_def)
    have dis: "?c \<notin> set (open_pos ?s)" "distinct (open_pos ?s)" using f op op1 by (auto simp: flags_ok_def)
    have set: "insert ?c (set (open_pos ?s)) = {i. i < ?N \<and> fl s i = OPEN} \<union> (if fl s st = NONE then {st} else {})"
      using f op op1 by (auto simp: flags_ok_def)
    have "?c = st" if "fl s st = NONE" using f cv that by (auto simp: flags_ok_def)
    then have "set (open_pos ?s) = {i. i < ?N \<and> fl s i = OPEN} - {?c}" 
      by (intro insert_minus [OF set dis(1)]) simp
    moreover have "{i. i < ?N \<and> fl ?s i = OPEN} = {i. i < ?N \<and> fl s i = OPEN} - {?c}"
      by (auto simp: nth split: if_splits)
    ultimately have "set (open_pos ?s) = {i. i < ?N \<and> fl ?s i = OPEN}" by simp
    with f dis st1 vs \<open>?c \<noteq> unat to_index\<close> st show ?thesis unfolding flags_ok_def
      by (intro conjI) (auto simp: fl1 [simplified])
  qed
  have nb: "get_neighbors (sn_pos_index n) (the_map ?s) = get_neighbors (sn_pos_index n) m"
    by (rule same_neighbors [OF _ m(1)]) (use t1 in \<open>unfold tree_ok_def, elim conjE\<close>)
  obtain s' where s': "visit_all (sn_pos_index n) to_index (get_neighbors (sn_pos_index n) m) ?s = Inr s'" "tree_ok m st s'"
    "flags_ok m st to_index {?c} s'" "fl s' ?c = CLOSED" "fl s' st \<noteq> NONE" "set (get_neighbors (sn_pos_index n) m) \<subseteq> set (visited s')"
    using visit_all_inv [OF m t1 f1 _ st1 c(1) subset_refl] fl1 [OF c(1)] by auto
  have "flags_ok m st to_index {} s'"
    using flags_all_closed [OF s'(3)] s'(6) by simp
  then show ?thesis using s' c(1) len nb by (auto simp: expand_def)
qed

subsection \<open>What the loop finds\<close>

definition step :: "map_mgr_t \<Rightarrow> u32 \<Rightarrow> u32 \<Rightarrow> bool" where
  "step m a b \<longleftrightarrow> unat b \<in> set (get_neighbors a m)"

lemma tree_range: "tree_ok m st s \<Longrightarrow> i \<in> set (visited s) \<Longrightarrow> i < length (m_map_nodes m)"
  unfolding tree_ok_def by (elim conjE) blast

lemma tree_found: "tree_ok m st s \<Longrightarrow> clean m \<Longrightarrow> i < length (m_map_nodes m) \<Longrightarrow> fl s i \<noteq> NONE \<Longrightarrow> i \<in> set (visited s)"
  unfolding tree_ok_def clean_def by (elim conjE) (metis nth_mem)

lemma flags_open:
  "flags_ok m st to_index X s \<Longrightarrow> i \<in> set (open_pos s) \<longleftrightarrow> (i < length (m_map_nodes m) \<and> fl s i = OPEN) \<or> (fl s st = NONE \<and> i = st)"
  unfolding flags_ok_def by (elim conjE) simp

lemma flags_used: "flags_ok m st to_index X s \<Longrightarrow> i \<in> set (visited s) \<Longrightarrow> fl s st \<noteq> NONE \<Longrightarrow> fl s i \<noteq> NONE"
  unfolding flags_ok_def by (elim conjE) metis

lemma flags_closed: "flags_ok m st to_index {} s \<Longrightarrow> i < length (m_map_nodes m) \<Longrightarrow> fl s i = CLOSED \<Longrightarrow>
    i \<noteq> unat to_index \<and> set (get_neighbors (word_of_nat i) m) \<subseteq> set (visited s)"
  unfolding flags_ok_def by (elim conjE) (metis empty_iff)

text \<open>The loop ends with the goal among the nodes found, or with nothing open.\<close>

lemma search_loop_result:
  assumes "wf_map m" "clean m" "tree_ok m st s" "flags_ok m st to_index {} s" "sn_pos_index cur \<noteq> to_index"
  shows "\<exists>c s'. search_loop to_index cur s = Inr (c, s') \<and> tree_ok m st s' \<and>
    (if sn_pos_index c = to_index then unat to_index \<in> set (visited s')
     else flags_ok m st to_index {} s' \<and> the_open s' = [])"
  using assms
proof (induction to_index cur s rule: search_loop.induct)
  case (1 to_index cur s)
  show ?case
  proof (cases "the_open s")
    case Nil
    then show ?thesis using 1 by (auto simp: search_loop.simps [of to_index cur s])
  next
    case (Cons kn ot)
    obtain k n where kn: "kn = (k, n)" by (cases kn)
    show ?thesis
    proof (cases "sn_pos_index n = to_index")
      case True
      have "unat to_index \<in> set (open_pos s)" using Cons kn True by (auto simp: open_pos_def)
      then have "unat to_index \<in> set (visited s)"
        using flags_open [OF 1(5)] tree_start [OF 1(4)] tree_found [OF 1(4,3)] by auto
      moreover have "tree_ok m st (s\<lparr>the_open := ot\<rparr>)" using 1(4) by (simp add: tree_ok_def)
      ultimately show ?thesis using Cons kn True by (simp add: search_loop.simps [of to_index cur s])
    next
      case False
      obtain s1 where s1: "expand (sn_pos_index n) to_index (s\<lparr>the_open := ot\<rparr>) = Inr s1" "tree_ok m st s1" "flags_ok m st to_index {} s1"
        using expand_inv [OF 1(2-5) _ False] Cons kn by blast
      have "\<exists>c s'. search_loop to_index n s1 = Inr (c, s') \<and> tree_ok m st s' \<and>
          (if sn_pos_index c = to_index then unat to_index \<in> set (visited s') else flags_ok m st to_index {} s' \<and> the_open s' = [])"
        by (rule 1(1) [OF Cons kn [symmetric] False s1(1) 1(2,3) s1(2,3) False])
      then show ?thesis using Cons kn False s1(1) by (simp add: search_loop.simps [of to_index cur s])
    qed
  qed
qed

text \<open>When nothing is open, everything that can be reached is closed.\<close>

lemma closed_reach:
  assumes m: "wf_map m" "clean m" and t: "tree_ok m (unat from_index) s" and f: "flags_ok m (unat from_index) to_index {} s" "the_open s = []"
    and r: "(step m)\<^sup>*\<^sup>* from_index b"
  shows "unat b < length (m_map_nodes m) \<and> fl s (unat b) = CLOSED"
proof -
  have "fl s (unat from_index) \<noteq> NONE" using flags_open [OF f(1), of "unat from_index"] f(2) by (auto simp: open_pos_def)
  then have none: "fl s i = CLOSED" if "i \<in> set (visited s)" for i
    using flags_used [OF f(1) that] flags_open [OF f(1), of i] f(2) tree_range [OF t that] by (cases "fl s i") (auto simp: open_pos_def)
  from r show ?thesis
proof (induction rule: rtranclp_induct)
  case base
  show ?case using none [of "unat from_index"] tree_start [OF t] by blast
next
  case (step b c)
  have c: "unat c \<in> set (get_neighbors b m)" using step(2) by (simp add: step_def)
  then have "unat c \<in> set (visited s)"
    using flags_closed [OF f(1), of "unat b"] step(3) by auto
  then show ?case using none tree_range [OF t] by blast
qed
qed

subsection \<open>The way back\<close>

fun route :: "map_mgr_t \<Rightarrow> u32 list \<Rightarrow> bool" where
  "route m [] = False"
| "route m [a] = True"
| "route m (b # a # p) = (step m a b \<and> route m (a # p))"

lemma route_reach: "route m p \<Longrightarrow> (step m)\<^sup>*\<^sup>* (last p) (hd p)"
  by (induction m p rule: route.induct) (auto intro: rtranclp.rtrancl_into_rtrancl)

lemma path_loop_chain:
  assumes "wf_map m" "tree_ok m (unat from_index) s" "k < length (visited s)" "unat nxt = visited s ! k"
  shows "\<exists>p. path_loop (the_map s) from_index nxt path = Some (Inr (path @ p)) \<and> route m p \<and> hd p = nxt \<and> last p = from_index"
  using assms(3,4)
proof (induction k arbitrary: nxt path rule: less_induct)
  case (less k)
  have hd: "visited s ! 0 = unat from_index" using assms(2) by (auto simp: tree_ok_def hd_conv_nth)
  show ?case
  proof (cases "nxt = from_index")
    case True
    then have "path_loop (the_map s) from_index nxt path = Some (Inr (path @ [from_index]))" by (subst path_loop.simps) simp
    with True show ?thesis by (intro exI [of _ "[from_index]"]) simp
  next
    case False
    then have k: "0 < k" using less.prems hd by (cases "k = 0") (auto simp: word_unat_eq_iff)
    let ?p = "par s (visited s ! k)"
    have vk: "visited s ! k < length (m_map_nodes (the_map s))"
      using tree_range [OF assms(2) nth_mem [OF less.prems(1)]] assms(2) by (simp add: tree_ok_def same_map_def)
    have "unat ?p \<in> set (take k (visited s))" and nb: "visited s ! k \<in> set (get_neighbors ?p m)"
      using assms(2) k less.prems(1) by (simp_all add: tree_ok_def)
    then obtain j where j: "j < k" "unat ?p = visited s ! j" using less.prems(1) by (auto simp: in_set_conv_nth)
    then obtain p where p: "path_loop (the_map s) from_index ?p (path @ [nxt]) = Some (Inr ((path @ [nxt]) @ p))" "route m p" "hd p = ?p" "last p = from_index"
      using less.IH [of j ?p "path @ [nxt]"] less.prems(1) by auto
    have "path_loop (the_map s) from_index nxt path = Some (Inr (path @ nxt # p))"
      using False vk p(1) less.prems(2) by (subst path_loop.simps) (simp add: get_node_def)
    moreover obtain a p' where "p = a # p'" using p(2) by (cases p) auto
    then have "route m (nxt # p)" using p nb less.prems(2) by (simp add: step_def)
    ultimately show ?thesis using p(2,4) by (intro exI [of _ "nxt # p"]) (auto split: list.splits)
  qed
qed

subsection \<open>After the search\<close>

lemma clear_visited_nth:
  "i < length (m_map_nodes m) \<Longrightarrow> m_map_nodes (clear_visited vs m) ! i = (if i \<in> set vs then mn_clear (m_map_nodes m ! i) else m_map_nodes m ! i)"
  and clear_visited_same: "length (m_map_nodes (clear_visited vs m)) = length (m_map_nodes m)"
    "m_width (clear_visited vs m) = m_width m" "m_height (clear_visited vs m) = m_height m"
proof -
  have "length (m_map_nodes (clear_visited vs m)) = length (m_map_nodes m) \<and> m_width (clear_visited vs m) = m_width m \<and>
      m_height (clear_visited vs m) = m_height m \<and>
      (i < length (m_map_nodes m) \<longrightarrow> m_map_nodes (clear_visited vs m) ! i = (if i \<in> set vs then mn_clear (m_map_nodes m ! i) else m_map_nodes m ! i))"
    unfolding clear_visited_def
  proof (induction vs arbitrary: m)
    case (Cons v vs)
    have "mn_clear (mn_clear n) = mn_clear n" for n by (simp add: mn_clear_def)
    moreover have "m_width (upd_node v mn_clear m) = m_width m" "m_height (upd_node v mn_clear m) = m_height m" by (simp_all add: upd_node_def)
    ultimately show ?case using Cons.IH [of "upd_node v mn_clear m"] by (auto simp: upd_node_nth)
  qed simp
  then show "i < length (m_map_nodes m) \<Longrightarrow> m_map_nodes (clear_visited vs m) ! i = (if i \<in> set vs then mn_clear (m_map_nodes m ! i) else m_map_nodes m ! i)"
    "length (m_map_nodes (clear_visited vs m)) = length (m_map_nodes m)"
    "m_width (clear_visited vs m) = m_width m" "m_height (clear_visited vs m) = m_height m" by blast+
qed

lemma clear_visited_clean:
  assumes "clean m" "tree_ok m st s"
  shows "clean (clear_visited (visited s) (the_map s)) \<and> same_map m (clear_visited (visited s) (the_map s))"
proof
  let ?m = "clear_visited (visited s) (the_map s)"
  have len: "length (m_map_nodes (the_map s)) = length (m_map_nodes m)" using assms(2) by (simp add: tree_ok_def same_map_def)
  show "clean ?m"
    unfolding clean_def
  proof
    fix n assume "n \<in> set (m_map_nodes ?m)"
    then obtain i where i: "i < length (m_map_nodes m)" "n = m_map_nodes ?m ! i" by (auto simp: in_set_conv_nth clear_visited_same len)
    then show "flag n = NONE \<and> parrent_pos_index n = 0 \<and> mn_gval n = 0"
      using assms clear_visited_nth [of i "the_map s" "visited s"] len by (auto simp: tree_ok_def clean_def mn_clear_def)
  qed
  show "same_map m ?m"
    using assms(2) clear_visited_nth [of _ "the_map s" "visited s"] len
    by (auto simp: tree_ok_def same_map_def clear_visited_same mn_clear_def)
qed

subsection \<open>The search\<close>

text \<open>
  (C7) The search is right: on a map between searches, from a position of the map to any other one,
  \<open>search_path\<close> returns; if the goal can be reached over passable neighbours it appends a way that
  leads step by step from the goal back to the start, otherwise it appends nothing; and it leaves
  the map clean, with its obstacles as they were, so that the next search starts afresh.
\<close>

theorem search_path_correct:
  assumes "wf_map m" "clean m" "unat from_index < length (m_map_nodes m)" "from_index \<noteq> to_index"
  shows "\<exists>m' p. search_path from_index to_index path m = Some (Inr (m', path @ p)) \<and> clean m' \<and> same_map m m' \<and>
    (if (step m)\<^sup>*\<^sup>* from_index to_index then route m p \<and> hd p = to_index \<and> last p = from_index else p = [])"
proof -
  let ?cur = "new_search_node\<lparr>sn_pos_index := from_index\<rparr>" and ?st = "unat from_index"
  let ?s = "\<lparr>the_map = m, the_open = open_insert (new_search_node\<lparr>sn_pos_index := from_index\<rparr>) [], visited = [unat from_index]\<rparr>"
  have t: "tree_ok m ?st ?s" using assms(2,3) by (auto simp: tree_ok_def clean_def)
  have fl: "flag (m_map_nodes m ! i) = NONE" if "i < length (m_map_nodes m)" for i using assms(2) that by (simp add: clean_def)
  have f: "flags_ok m ?st to_index {} ?s" using assms(3) fl by (auto simp: flags_ok_def open_pos_def open_insert_def)
  obtain c s' where l: "search_loop to_index ?cur ?s = Inr (c, s')" "tree_ok m ?st s'"
    "if sn_pos_index c = to_index then unat to_index \<in> set (visited s') else flags_ok m ?st to_index {} s' \<and> the_open s' = []"
    using search_loop_result [OF assms(1,2) t f, of ?cur] assms(4) by auto
  note clean = clear_visited_clean [OF assms(2) l(2)]
  show ?thesis
  proof (cases "sn_pos_index c = to_index")
    case True
    then obtain k where k: "k < length (visited s')" "unat to_index = visited s' ! k" using l(3) by (auto simp: in_set_conv_nth)
    obtain p where p: "path_loop (the_map s') from_index to_index path = Some (Inr (path @ p))" "route m p" "hd p = to_index" "last p = from_index"
      using path_loop_chain [OF assms(1) l(2) k] by auto
    have "search_path from_index to_index path m = Some (Inr (clear_visited (visited s') (the_map s'), path @ p))"
      using l(1) True p(1) assms(4) unfolding path_loop.simps [of "the_map s'" from_index to_index path]
      by (auto simp: search_path_def Let_def split: sum.splits)
    moreover have "(step m)\<^sup>*\<^sup>* from_index to_index" using route_reach [OF p(2)] p(3,4) by simp
    ultimately show ?thesis using clean p(2-4) by (intro exI conjI) (assumption | simp)+
  next
    case False
    then have "search_path from_index to_index path m = Some (Inr (clear_visited (visited s') (the_map s'), path))"
      using l(1) by (simp add: search_path_def Let_def)
    moreover have "\<not> (step m)\<^sup>*\<^sup>* from_index to_index"
    proof
      assume "(step m)\<^sup>*\<^sup>* from_index to_index"
      from closed_reach [OF assms(1,2) l(2) _ _ this] False l(3)
      have "unat to_index < length (m_map_nodes m)" "fl s' (unat to_index) = CLOSED" by auto
      with flags_closed [of m ?st to_index s' "unat to_index"] False l(3) show False by auto
    qed
    ultimately show ?thesis using clean by (intro exI [of _ "clear_visited (visited s') (the_map s')"] exI [of _ "[]"]) simp
  qed
qed

text \<open>The maps the constructor makes are such maps.\<close>

lemma concat_grid: "concat (map (\<lambda>i. map (\<lambda>j. f (i * w + j)) [0..<w]) [0..<h]) = map f [0..<h * w]"
proof (induction h)
  case (Suc h)
  have "map (\<lambda>j. f (h * w + j)) [0..<w] = map f [h * w..<h * w + w]"
    by (simp add: map_add_upt [symmetric] comp_def add.commute del: upt_Suc map_add_upt)
  moreover have "[0..<Suc h * w] = [0..<h * w] @ [h * w..<h * w + w]" using upt_add_eq_append [of 0 "h * w" w] by (simp add: add.commute)
  ultimately show ?case using Suc by simp
qed simp

lemma new_map_nodes: "m_map_nodes (new_map junk width height) = map (\<lambda>k. new_map_node junk (word_of_nat k)) [0..<unat height * unat width]"
proof -
  have "word_of_nat i * width + word_of_nat j = (word_of_nat (i * unat width + j) :: u32)" for i j by simp
  then show ?thesis
    using concat_grid [of "\<lambda>k. new_map_node junk (word_of_nat k)" "unat width" "unat height"] by (simp add: new_map_def)
qed

lemma new_map_ok:
  assumes "unat height * unat width < 2 ^ 32"
  shows "wf_map (new_map junk width height)" "clean (new_map junk width height)"
proof -
  have "unat (height * width) = unat height * unat width" using assms by (simp add: unat_word_ariths)
  then show "wf_map (new_map junk width height)" by (simp add: wf_map_def new_map_nodes) (simp add: new_map_def new_map_node_def)
  show "clean (new_map junk width height)" by (auto simp: clean_def new_map_nodes new_map_node_def)
qed

lemma set_pos_pass_state_ok:
  assumes "wf_map m" "clean m" "set_pos_pass_state pos f m = Inr m'"
  shows "wf_map m' \<and> clean m'"
proof -
  have m': "m' = upd_node (unat pos) (\<lambda>n. n\<lparr>pass_flag := f\<rparr>) m" "unat pos < length (m_map_nodes m)"
    using assms(3) by (auto simp: set_pos_pass_state_def split: if_splits)
  have "wf_map m'" using assms(1) unfolding m' wf_map_def by (auto simp: upd_node_nth) (auto simp: upd_node_def)
  moreover have "clean m'" using assms(2) m'(2) unfolding m' clean_def
    by (auto simp: upd_node_def dest!: set_update_subset_insert [THEN subsetD])
  ultimately show ?thesis by blast
qed

text \<open>A row of three: the middle one blocked or not.\<close>

theorem search_path_correct_witness:
  "(\<exists>m' p. search_path 0 2 [] (new_map 7 3 1) = Some (Inr (m', p)) \<and> route (new_map 7 3 1) p \<and> hd p = 2 \<and> last p = 0) \<and>
   (\<exists>m m'. set_pos_pass_state 1 False (new_map 7 3 1) = Inr m \<and> search_path 0 2 [] m = Some (Inr (m', [])))"
proof
  have m: "wf_map (new_map 7 3 1)" "clean (new_map 7 3 1)" by (rule new_map_ok; simp)+
  have n: "get_neighbors 0 (new_map 7 3 1) = [1]" "get_neighbors 1 (new_map 7 3 1) = [0, 2]"
    by (simp_all add: get_neighbors_def new_map_nodes new_map_node_def) (simp_all add: new_map_def)
  have "step (new_map 7 3 1) 0 1" "step (new_map 7 3 1) 1 2" by (simp_all add: step_def n)
  then have "(step (new_map 7 3 1))\<^sup>*\<^sup>* 0 2" by (meson rtranclp.rtrancl_into_rtrancl rtranclp.rtrancl_refl)
  then show "\<exists>m' p. search_path 0 2 [] (new_map 7 3 1) = Some (Inr (m', p)) \<and> route (new_map 7 3 1) p \<and> hd p = 2 \<and> last p = 0"
    using search_path_correct [OF m, of 0 2 "[]"] by (auto simp: new_map_nodes)
  obtain m1 where m1: "set_pos_pass_state 1 False (new_map 7 3 1) = Inr m1" "m1 = upd_node 1 (\<lambda>n. n\<lparr>pass_flag := False\<rparr>) (new_map 7 3 1)"
    by (simp add: set_pos_pass_state_def new_map_nodes)
  have "get_neighbors 0 m1 = []"
    by (simp add: m1(2) get_neighbors_def upd_node_def new_map_nodes new_map_node_def) (simp add: new_map_def)
  then have "\<not> (step m1)\<^sup>*\<^sup>* 0 2" by (auto simp: step_def elim: converse_rtranclpE)
  then show "\<exists>m m'. set_pos_pass_state 1 False (new_map 7 3 1) = Inr m \<and> search_path 0 2 [] m = Some (Inr (m', []))"
    using search_path_correct [of m1 0 2 "[]"] set_pos_pass_state_ok [OF m m1(1)] m1 by (auto simp: upd_node_def new_map_nodes)
qed

lemma path_loop_stuck:
  assumes "path_loop m a nxt path = Some r"
  shows "\<not> (nxt = 0 \<and> a \<noteq> 0 \<and> (\<exists>n. get_node 0 m = Inr n \<and> parrent_pos_index n = 0))"
proof (rule path_loop.raw_induct [OF _ assms, where P = "\<lambda>m a nxt path r. \<not> (nxt = 0 \<and> a \<noteq> 0 \<and> (\<exists>n. get_node 0 m = Inr n \<and> parrent_pos_index n = 0))"])
  fix loop :: "map_mgr_t \<Rightarrow> u32 \<Rightarrow> u32 \<Rightarrow> u32 list \<Rightarrow> u32 list exc option" and m a nxt path r
  assume IH: "\<And>m a nxt path r. loop m a nxt path = Some r \<Longrightarrow> \<not> (nxt = 0 \<and> a \<noteq> 0 \<and> (\<exists>n. get_node 0 m = Inr n \<and> parrent_pos_index n = 0))"
    and body: "(if nxt = a then Some (Inr (path @ [a]))
      else case get_node (unat nxt) m of Inl e \<Rightarrow> Some (Inl e) | Inr n \<Rightarrow> loop m a (parrent_pos_index n) (path @ [nxt])) = Some r"
  show "\<not> (nxt = 0 \<and> a \<noteq> 0 \<and> (\<exists>n. get_node 0 m = Inr n \<and> parrent_pos_index n = 0))"
  proof
    assume "nxt = 0 \<and> a \<noteq> 0 \<and> (\<exists>n. get_node 0 m = Inr n \<and> parrent_pos_index n = 0)"
    then have "loop m a 0 (path @ [0]) = Some r" "a \<noteq> 0" "\<exists>n. get_node 0 m = Inr n \<and> parrent_pos_index n = 0" using body by auto
    with IH show False by blast
  qed
qed

text \<open>
  A search that starts at its goal never returns, except at position 0, where the way is the
  position twice: no parent was set, so the way back starts at position 0 and stays there, and the
  path grows until the memory is used up.
\<close>

theorem search_from_goal:
  assumes "wf_map m" "clean m" "unat a < length (m_map_nodes m)"
  shows "if a = 0 then \<exists>m'. search_path a a path m = Some (Inr (m', path @ [0, 0])) else search_path a a path m = None"
proof -
  have n: "get_node i m = Inr (m_map_nodes m ! i)" "parrent_pos_index (m_map_nodes m ! i) = 0" if "i < length (m_map_nodes m)" for i
    using assms(2) that by (simp_all add: get_node_def clean_def)
  have l: "search_loop a (new_search_node\<lparr>sn_pos_index := a\<rparr>)
      \<lparr>the_map = m, the_open = open_insert (new_search_node\<lparr>sn_pos_index := a\<rparr>) [], visited = [unat a]\<rparr> =
    Inr (new_search_node\<lparr>sn_pos_index := a\<rparr>, \<lparr>the_map = m, the_open = [], visited = [unat a]\<rparr>)"
    by (subst search_loop.simps) (simp add: open_insert_def)
  have eq: "search_path a a path m = (case path_loop m a 0 (path @ [a]) of None \<Rightarrow> None | Some (Inl e) \<Rightarrow> Some (Inl e)
      | Some (Inr path1) \<Rightarrow> Some (Inr (clear_visited [unat a] m, path1)))"
    unfolding search_path_def Let_def l using n [OF assms(3)] by (simp split: option.splits sum.splits)
  show ?thesis
  proof (cases "a = 0")
    case True
    then have "path_loop m a 0 (path @ [a]) = Some (Inr (path @ [0, 0]))" by (subst path_loop.simps) simp
    then show ?thesis unfolding eq using True by simp
  next
    case False
    have "0 < length (m_map_nodes m)" using assms(3) by linarith
    then have "path_loop m a 0 (path @ [a]) = None"
      using path_loop_stuck [of m a 0 "path @ [a]"] n [of 0] False by (cases "path_loop m a 0 (path @ [a])") auto
    with False eq show ?thesis by simp
  qed
qed

theorem search_from_goal_witness:
  "search_path 2 2 [] (new_map 0 3 1) = None \<and> (\<exists>m'. search_path 0 0 [] (new_map 0 3 1) = Some (Inr (m', [0, 0])))"
proof -
  have m: "wf_map (new_map 0 3 1)" "clean (new_map 0 3 1)" by (rule new_map_ok; simp)+
  show ?thesis using search_from_goal [OF m, of 2 "[]"] search_from_goal [OF m, of 0 "[]"] by (simp add: new_map_nodes)
qed

end
