(* ===== verification/Log.thy ===== *)
theory Log
  imports Strtool
begin

unbundle bit_operations_syntax

section \<open>Logging\<close>

text \<open>
  \<^verbatim>\<open>base/log.h\<close> and \<^verbatim>\<open>base/log.cpp\<close>: the formatter \<open>str_format_t\<close>, the logger \<open>log_t\<close> with its levels, classes and
  daily directories, and \<open>log_service_t\<close>, whose calls filter on the caller's thread and leave the writing to a task.
  Levels are bits of a 32-bit \<open>int\<close>. The clock, the thread id and the answers of \<open>access\<close> and \<open>mkdir\<close> are arguments.
\<close>

subsection \<open>\<open>str_format_t\<close>\<close>

record fmt_type_t =
  ft_type :: char
  ft_min_len :: u32
  ft_fill_char :: char

record str_format_t =
  sf_fmt :: string
  cur_format_index :: nat
  sf_result :: string

definition new_str_format :: "string \<Rightarrow> str_format_t" where
  "new_str_format fmt = \<lparr>sf_fmt = fmt, cur_format_index = 0, sf_result = []\<rparr>"

text \<open>The format is a C string: behind its last character comes the zero, at which every scan stops.\<close>

definition fmt_at :: "string \<Rightarrow> nat \<Rightarrow> char" where
  "fmt_at fmt i = (if i < length fmt then fmt ! i else CHR 0x00)"

text \<open>The inner loop: the type of the wildcard at \<open>idx\<close> within the next five characters, and the index behind it.\<close>

function scan_wildcard :: "string \<Rightarrow> nat \<Rightarrow> nat \<Rightarrow> (char \<times> nat) option" where
  "scan_wildcard fmt idx i =
     (if i > 5 then None
      else let cur = fmt_at fmt (idx + i)
           in if cur = CHR 0x00 \<or> cur = CHR ''%'' then None
              else if cur \<in> set ''cduxfs'' then Some (cur, idx + i + 1)
              else if cur = CHR ''l'' \<and> fmt_at fmt (idx + i + 1) \<in> set ''du'' then Some (fmt_at fmt (idx + i + 1), idx + i + 2)
              else scan_wildcard fmt idx (i + 1))"
  by pat_completeness auto

termination by (relation "measure (\<lambda>(fmt, idx, i). 6 - i)") auto

declare scan_wildcard.simps [simp del]

text \<open>\<open>move_to_next_wildcard\<close>: the index, the result and the wildcard found.\<close>

function move_to_next_wildcard :: "string \<Rightarrow> nat \<Rightarrow> string \<Rightarrow> nat \<times> string \<times> fmt_type_t option" where
  "move_to_next_wildcard fmt idx res =
     (if idx \<ge> length fmt then (idx, res, None)
      else if fmt ! idx \<noteq> CHR ''%'' then move_to_next_wildcard fmt (idx + 1) (res @ [fmt ! idx])
      else if fmt_at fmt (idx + 1) = CHR ''%'' then move_to_next_wildcard fmt (idx + 2) (res @ ''%'')
      else case scan_wildcard fmt idx 1 of
        Some (c, idx1) \<Rightarrow> (idx1, res, Some \<lparr>ft_type = c, ft_min_len = word_of_int (atoi (drop (idx + 1) fmt)),
          ft_fill_char = (if fmt_at fmt (idx + 1) = CHR ''0'' then CHR ''0'' else CHR '' '')\<rparr>)
      | None \<Rightarrow> move_to_next_wildcard fmt (idx + 1) (res @ [fmt ! idx]))"
  by pat_completeness auto

termination by (relation "measure (\<lambda>(fmt, idx, res). length fmt - idx)") auto

declare move_to_next_wildcard.simps [simp del]

text \<open>\<open>int width = min_len > len ? min_len - len : 0\<close>, and the fill characters; a negative width gives none.\<close>

definition fill :: "fmt_type_t \<Rightarrow> string \<Rightarrow> string" where
  "fill ft s = (let len = word_of_nat (length s); width = (if ft_min_len ft > len then sint (ft_min_len ft - len) else 0)
     in replicate (nat width) (ft_fill_char ft))"

text \<open>Arguments: strings and integers. An integer is printed by the string stream, or by \<open>%x\<close> as an \<open>unsigned int\<close>.\<close>

datatype farg = FStr string | FInt int

definition show_int :: "int \<Rightarrow> string" where
  "show_int n = (if n < 0 then CHR ''-'' # show_nat (nat (- n)) else show_nat (nat n))"

definition hex_digit :: "nat \<Rightarrow> char" where
  "hex_digit n = (if n < 10 then char_of (48 + n) else char_of (87 + n))"

fun show_hex :: "nat \<Rightarrow> string" where
  "show_hex n = (if n < 16 then [hex_digit n] else show_hex (n div 16) @ [hex_digit (n mod 16)])"

declare show_hex.simps [simp del]

definition num_buff :: "fmt_type_t option \<Rightarrow> int \<Rightarrow> string" where
  "num_buff w n = (case w of Some ft \<Rightarrow> (if ft_type ft = CHR ''x'' then ''0x'' @ show_hex (unat (word_of_int n :: u32)) else show_int n)
     | None \<Rightarrow> show_int n)"

definition sf_append :: "farg \<Rightarrow> str_format_t \<Rightarrow> str_format_t" where
  "sf_append arg sf =
     (let (idx, res, w) = move_to_next_wildcard (sf_fmt sf) (cur_format_index sf) (sf_result sf);
          text = (case arg of FStr s \<Rightarrow> s | FInt n \<Rightarrow> num_buff w n)
      in sf\<lparr>cur_format_index := idx, sf_result := res @ (case w of None \<Rightarrow> [] | Some ft \<Rightarrow> fill ft text) @ text\<rparr>)"

definition gen_result :: "str_format_t \<Rightarrow> string" where
  "gen_result sf = (if cur_format_index sf < length (sf_fmt sf) then sf_result sf @ drop (cur_format_index sf) (sf_fmt sf) else sf_result sf)"

definition format :: "string \<Rightarrow> farg list \<Rightarrow> string" where
  "format fmt args = gen_result (fold sf_append args (new_str_format fmt))"

subsection \<open>What the formatter prints\<close>

text \<open>Text without a percent sign is copied.\<close>

lemma move_literal:
  assumes "CHR ''%'' \<notin> set lit" "fmt = pre @ lit @ rest"
  shows "move_to_next_wildcard fmt (length pre) res = move_to_next_wildcard fmt (length pre + length lit) (res @ lit)"
  using assms
proof (induction lit arbitrary: pre res)
  case (Cons c lit)
  have c: "c \<noteq> CHR ''%''" using Cons.prems by auto
  have "move_to_next_wildcard fmt (length pre) res = move_to_next_wildcard fmt (length (pre @ [c])) (res @ [c])"
    using Cons.prems c by (subst move_to_next_wildcard.simps) simp
  also have "\<dots> = move_to_next_wildcard fmt (length (pre @ [c]) + length lit) ((res @ [c]) @ lit)"
    by (rule Cons.IH) (use Cons.prems in simp_all)
  finally show ?case by simp
qed simp

text \<open>A wildcard of one letter.\<close>

definition plain_type :: "char \<Rightarrow> fmt_type_t" where
  "plain_type c = \<lparr>ft_type = c, ft_min_len = 0, ft_fill_char = CHR '' ''\<rparr>"

lemma move_wildcard:
  assumes "c \<in> {CHR ''s'', CHR ''d''}" "fmt = pre @ CHR ''%'' # c # rest"
  shows "move_to_next_wildcard fmt (length pre) res = (length pre + 2, res, Some (plain_type c))"
proof -
  have "fmt_at fmt (length pre + 1) = c" using assms(2) by (simp add: fmt_at_def nth_append)
  moreover from this have "scan_wildcard fmt (length pre) 1 = Some (c, length pre + 2)"
    using assms(1) by (subst scan_wildcard.simps) auto
  moreover have "atoi (drop (length pre + 1) fmt) = 0"
    using assms by (auto simp: atoi_def is_blank_def digits_value_def is_digit_def)
  ultimately show ?thesis
    using assms by (subst move_to_next_wildcard.simps) (auto simp: plain_type_def)
qed

lemma fill_plain [simp]: "fill (plain_type c) text = []"
  by (simp add: fill_def plain_type_def Let_def)

definition wildcard :: "farg \<Rightarrow> string" where
  "wildcard a = (case a of FStr s \<Rightarrow> ''%s'' | FInt n \<Rightarrow> ''%d'')"

definition show_arg :: "farg \<Rightarrow> string" where
  "show_arg a = (case a of FStr s \<Rightarrow> s | FInt n \<Rightarrow> show_int n)"

lemma sf_append_next:
  assumes "CHR ''%'' \<notin> set lit" "fmt = pre @ lit @ wildcard a @ rest"
  shows "sf_append a \<lparr>sf_fmt = fmt, cur_format_index = length pre, sf_result = res\<rparr> =
    \<lparr>sf_fmt = fmt, cur_format_index = length (pre @ lit @ wildcard a), sf_result = res @ lit @ show_arg a\<rparr>"
proof -
  obtain c where c: "wildcard a = [CHR ''%'', c]" "c \<in> {CHR ''s'', CHR ''d''}" by (cases a) (auto simp: wildcard_def)
  have "move_to_next_wildcard fmt (length pre) res = move_to_next_wildcard fmt (length (pre @ lit)) (res @ lit)"
    using move_literal [OF assms] by simp
  also have "\<dots> = (length (pre @ lit) + 2, res @ lit, Some (plain_type c))"
    by (rule move_wildcard) (use assms(2) c in auto)
  finally have "move_to_next_wildcard fmt (length pre) res = (length (pre @ lit) + 2, res @ lit, Some (plain_type c))" .
  moreover have "plain_type c = plain_type c \<and> ft_type (plain_type c) \<noteq> CHR ''x''" using c(2) by (auto simp: plain_type_def)
  ultimately show ?thesis
    by (cases a) (simp_all add: sf_append_def num_buff_def show_arg_def wildcard_def)
qed

lemma format_pieces:
  assumes "CHR ''%'' \<notin> set lit" "\<forall>(a, l) \<in> set segs. CHR ''%'' \<notin> set l"
    and "fmt = pre @ lit @ concat (map (\<lambda>(a, l). wildcard a @ l) segs)"
  shows "gen_result (fold sf_append (map fst segs) \<lparr>sf_fmt = fmt, cur_format_index = length pre, sf_result = res\<rparr>) =
    res @ lit @ concat (map (\<lambda>(a, l). show_arg a @ l) segs)"
  using assms
proof (induction segs arbitrary: pre lit res)
  case Nil
  then show ?case by (auto simp: gen_result_def)
next
  case (Cons s segs)
  obtain a l where s: "s = (a, l)" by (cases s)
  have "fold sf_append (map fst (s # segs)) \<lparr>sf_fmt = fmt, cur_format_index = length pre, sf_result = res\<rparr> =
      fold sf_append (map fst segs) \<lparr>sf_fmt = fmt, cur_format_index = length (pre @ lit @ wildcard a), sf_result = res @ lit @ show_arg a\<rparr>"
    using sf_append_next [OF Cons.prems(1), of fmt pre a] Cons.prems(3) by (simp add: s)
  then show ?case
    using Cons.IH [of l "pre @ lit @ wildcard a" "res @ lit @ show_arg a"] Cons.prems by (simp add: s)
qed

text \<open>
  The formatter on plain formats. A format of text pieces without percent signs, with one wildcard
  of the argument's kind between them for every argument, gives the pieces and the printed arguments in
  turn.
\<close>

theorem format_interleaves:
  assumes "CHR ''%'' \<notin> set lit" "\<forall>(a, l) \<in> set segs. CHR ''%'' \<notin> set l"
  shows "format (lit @ concat (map (\<lambda>(a, l). wildcard a @ l) segs)) (map fst segs) =
    lit @ concat (map (\<lambda>(a, l). show_arg a @ l) segs)"
  using format_pieces [OF assms, of _ "[]" "[]"] by (simp add: format_def new_str_format_def)

theorem format_interleaves_witness: "format ''user %s has %d coins'' [FStr ''ann'', FInt (- 12)] = ''user ann has -12 coins''"
  using format_interleaves [of "''user ''" "[(FStr ''ann'', '' has ''), (FInt (- 12), '' coins'')]"]
  by (simp add: wildcard_def show_arg_def show_int_def show_nat.simps char_of_def bit_0)

text \<open>A doubled percent sign is one before a wildcard and stays two behind the last one.\<close>

lemma doubled_percent: "format ''%%%s%%'' [FStr ''x''] = ''%x%%''"
  by (simp add: format_def gen_result_def new_str_format_def sf_append_def move_to_next_wildcard.simps fmt_at_def scan_wildcard.simps fill_def
      atoi_def is_blank_def digits_value_def is_digit_def Let_def)

subsection \<open>\<open>log_t\<close>\<close>

record tm =
  tm_sec :: int
  tm_min :: int
  tm_hour :: int
  tm_mday :: int
  tm_mon :: int
  tm_year :: int

record log_t =
  m_enabled_level :: "32 word"
  m_enable_class_set :: "string oset"
  m_class_set_history :: "string oset list"
  m_last_create_dir_tm :: tm
  m_enable_file :: bool
  m_enable_screen :: bool
  m_file :: "string option"
  m_path :: string
  m_filename :: string
  m_file_name_index :: u32
  m_line_num :: u32
  file_lines :: "(string option \<times> string) list"
  screen_lines :: "string list"

text \<open>\<open>file_lines\<close> and \<open>screen_lines\<close> collect what was written, with the file that was open.\<close>

definition zero_tm :: tm where
  "zero_tm = \<lparr>tm_sec = 0, tm_min = 0, tm_hour = 0, tm_mday = 0, tm_mon = 0, tm_year = 0\<rparr>"

text \<open>\<open>1 << i\<close>.\<close>

definition level_bit :: "int \<Rightarrow> 32 word" where
  "level_bit i = push_bit (nat i) 1"

definition new_log :: "int \<Rightarrow> string \<Rightarrow> string \<Rightarrow> string \<Rightarrow> bool \<Rightarrow> bool \<Rightarrow> log_t" where
  "new_log level all_class path file print_file print_screen =
     (let classes = fold os_insert (the (split all_class '','' [])) []
      in \<lparr>m_enabled_level = fold (\<lambda>i w. w OR level_bit i) [0..level] 0,
          m_enable_class_set = classes, m_class_set_history = [classes], m_last_create_dir_tm = zero_tm,
          m_enable_file = print_file, m_enable_screen = print_screen, m_file = None, m_path = path, m_filename = file,
          m_file_name_index = 0, m_line_num = 0, file_lines = [], screen_lines = []\<rparr>)"

definition mod_level :: "int \<Rightarrow> bool \<Rightarrow> log_t \<Rightarrow> log_t" where
  "mod_level level f l =
     (if f then l\<lparr>m_enabled_level := m_enabled_level l OR level_bit level\<rparr>
      else l\<lparr>m_enabled_level := m_enabled_level l AND NOT (level_bit level)\<rparr>)"

definition mod_class :: "string \<Rightarrow> bool \<Rightarrow> log_t \<Rightarrow> log_t" where
  "mod_class c f l =
     (let pset = (if f then os_insert c (m_enable_class_set l) else os_erase c (m_enable_class_set l))
      in l\<lparr>m_class_set_history := m_class_set_history l @ [pset], m_enable_class_set := pset\<rparr>)"

definition is_level_enabled :: "int \<Rightarrow> log_t \<Rightarrow> bool" where
  "is_level_enabled level l \<longleftrightarrow> m_enabled_level l AND level_bit level \<noteq> 0"

definition find_class_name :: "string \<Rightarrow> log_t \<Rightarrow> string option" where
  "find_class_name c l = (if c \<in> set (m_enable_class_set l) then Some c else None)"

lemma level_bit_test: "0 \<le> i \<Longrightarrow> i < 32 \<Longrightarrow> w AND level_bit i \<noteq> 0 \<longleftrightarrow> bit w (nat i)"
  by (auto simp: level_bit_def and_exp_eq_0_iff_not_bit push_bit_eq_mult)

lemma level_bit_bit: "0 \<le> i \<Longrightarrow> i < 32 \<Longrightarrow> bit (level_bit i) k \<longleftrightarrow> k = nat i"
  by (auto simp: level_bit_def bit_simps)

lemma new_log_levels:
  assumes "0 \<le> i" "i < 32" "level < 32"
  shows "is_level_enabled i (new_log level cls path file pf ps) \<longleftrightarrow> i \<le> level"
proof -
  have "bit (fold (\<lambda>i w. w OR level_bit i) is w) (nat i) \<longleftrightarrow> bit w (nat i) \<or> i \<in> set is" if "\<forall>j \<in> set is. 0 \<le> j \<and> j < 32" for "is" w
    using that
  proof (induction "is" arbitrary: w)
    case (Cons j "is")
    then show ?case using level_bit_bit [of j "nat i"] assms(1) by (auto simp: bit_or_iff)
  qed simp
  from this [of "[0..level]" 0] show ?thesis
    using assms level_bit_test [OF assms(1,2)] by (auto simp: is_level_enabled_def new_log_def Let_def)
qed

text \<open>Changing one level leaves the others as they are.\<close>

lemma mod_level_levels:
  assumes "0 \<le> i" "i < 32" "0 \<le> level" "level < 32"
  shows "is_level_enabled i (mod_level level f l) \<longleftrightarrow> (if i = level then f else is_level_enabled i l)"
proof -
  have "bit (m_enabled_level (mod_level level f l)) (nat i) \<longleftrightarrow> (if i = level then f else bit (m_enabled_level l) (nat i))"
    using assms level_bit_bit [OF assms(3,4), of "nat i"]
    by (auto simp: mod_level_def bit_or_iff bit_and_iff bit_not_iff nat_eq_iff)
  then show ?thesis using level_bit_test [OF assms(1,2)] by (simp add: is_level_enabled_def)
qed

subsection \<open>Files\<close>

text \<open>\<open>exists\<close> answers \<open>access\<close>, \<open>made\<close> answers \<open>mkdir\<close>. Paths are cut at the size of the buffer.\<close>

record files =
  exists :: "string \<Rightarrow> bool"
  made :: "string \<Rightarrow> bool"

definition same_day :: "tm \<Rightarrow> tm \<Rightarrow> bool" where
  "same_day a b \<longleftrightarrow> tm_mday a = tm_mday b \<and> tm_mon a = tm_mon b \<and> tm_year a = tm_year b"

definition day_dir :: "log_t \<Rightarrow> tm \<Rightarrow> string" where
  "day_dir l t = take 1023 (m_path l @ ''/'' @ show_int (tm_year t + 1900) @ ''-'' @ show_int (tm_mon t + 1) @ ''-'' @ show_int (tm_mday t))"

definition file_name :: "log_t \<Rightarrow> tm \<Rightarrow> u32 \<Rightarrow> string" where
  "file_name l t n = take 1023 (m_path l @ ''/'' @ show_int (tm_year t + 1900) @ ''-'' @ show_int (tm_mon t + 1) @ ''-'' @ show_int (tm_mday t) @
     ''/'' @ m_filename l @ ''.'' @ show_nat (unat n))"

text \<open>The loop that looks for a free name: the index used last and the name.\<close>

fun free_name :: "(string \<Rightarrow> bool) \<Rightarrow> log_t \<Rightarrow> tm \<Rightarrow> nat \<Rightarrow> u32 \<Rightarrow> string \<Rightarrow> u32 \<times> string" where
  "free_name ex l t 0 n file = (n, file)"
| "free_name ex l t (Suc k) n file =
     (let file1 = file_name l t (n + 1) in if ex file1 then free_name ex l t k (n + 1) file1 else (n + 1, file1))"

definition ensure_dir :: "files \<Rightarrow> string \<Rightarrow> bool" where
  "ensure_dir fs d \<longleftrightarrow> exists fs d \<or> made fs d"

definition check_and_create_dir :: "files \<Rightarrow> tm \<Rightarrow> log_t \<Rightarrow> bool \<times> log_t" where
  "check_and_create_dir fs t l =
     (let time_equal = same_day (m_last_create_dir_tm l) t
      in if \<not> time_equal \<and> \<not> (ensure_dir fs (m_path l) \<and> ensure_dir fs (day_dir l t)) then (False, l)
         else if \<not> time_equal \<or> m_line_num l \<ge> 5000
         then let (n, file) = free_name (exists fs) l t 10000 (m_file_name_index l) []
              in (True, l\<lparr>m_file_name_index := n, m_file := Some file, m_line_num := 0, m_last_create_dir_tm := t\<rparr>)
         else (True, l))"

definition level_names :: "string list" where
  "level_names = [''FATAL'', ''ERROR'', ''WARN '', ''INFO '', ''TRACE'', ''DEBUG'']"

text \<open>The colours of a line on the screen.\<close>

definition colour_head :: "string list" where
  "colour_head = [CHR 0x1B # ''[0;35m'', CHR 0x1B # ''[0;31m'', CHR 0x1B # ''[1;34m'', CHR 0x1B # ''[1;32m'', [], CHR 0x1B # ''[1;33m'']"

definition colour_tail :: "string list" where
  "colour_tail = [CHR 0x1B # ''[0m'', CHR 0x1B # ''[0m'', CHR 0x1B # ''[0m'', CHR 0x1B # ''[0m'', [], CHR 0x1B # ''[0m'']"

text \<open>\<open>%0nd\<close> of a number.\<close>

definition pad0 :: "nat \<Rightarrow> int \<Rightarrow> string" where
  "pad0 k n = (let s = show_int n in replicate (k - length s) (CHR ''0'') @ s)"

definition log_head :: "tm \<Rightarrow> int \<Rightarrow> int \<Rightarrow> nat \<Rightarrow> string \<Rightarrow> string" where
  "log_head t ms tid level cls = take 511 (pad0 2 (tm_hour t) @ '':'' @ pad0 2 (tm_min t) @ '':'' @ pad0 2 (tm_sec t) @ ''.'' @ pad0 3 ms @
     '' '' @ level_names ! level @ '' ['' @ show_int tid @ ''] ['' @ cls @ ''] '')"

definition log_content :: "files \<Rightarrow> tm \<Rightarrow> int \<Rightarrow> int \<Rightarrow> nat \<Rightarrow> string \<Rightarrow> string \<Rightarrow> log_t \<Rightarrow> log_t exc" where
  "log_content fs t ms tid level cls content l =
     (if level \<ge> length level_names then Inl Out_of_range
      else let log_buff = log_head t ms tid level cls;
               (ok, l1) = (if m_enable_file l then check_and_create_dir fs t l else (False, l));
               l2 = (if ok then l1\<lparr>file_lines := file_lines l1 @ [(m_file l1, log_buff @ content)]\<rparr> else l1)
           in Inr (if m_enable_screen l2 then l2\<lparr>screen_lines := screen_lines l2 @ [colour_head ! level @ log_buff @ takeWhile (\<lambda>c. c \<noteq> CHR 0x00) content @ colour_tail ! level]\<rparr> else l2))"

subsection \<open>\<open>log_service_t\<close>\<close>

datatype log_task =
    Log_content nat string string
  | Mod_level int bool | Mod_class string bool | Mod_print_file bool | Mod_print_screen bool

record log_service_t =
  m_log :: "log_t option"
  log_tasks :: "log_task list"

definition new_log_service :: log_service_t where
  "new_log_service = \<lparr>m_log = None, log_tasks = []\<rparr>"

text \<open>The options with their defaults.\<close>

definition opt_or :: "string \<Rightarrow> arg_helper_t \<Rightarrow> string \<Rightarrow> string" where
  "opt_or opt args dflt = (if get_option_value opt args \<noteq> [] then get_option_value opt args else dflt)"

definition opt_level :: "arg_helper_t \<Rightarrow> int" where
  "opt_level args = (if get_option_value ''-log_level'' args \<noteq> [] then atoi (get_option_value ''-log_level'' args) else 2)"

definition log_start :: "string \<Rightarrow> log_service_t \<Rightarrow> log_service_t" where
  "log_start opt s =
     (if m_log s \<noteq> None then s
      else let arg = the (arg_helper_str opt);
               print_file = \<not> (get_option_value ''-log_print_file'' arg = ''false'' \<or> get_option_value ''-log_print_file'' arg = ''0'');
               print_screen = (get_option_value ''-log_print_screen'' arg = ''true'' \<or> get_option_value ''-log_print_screen'' arg = ''1'')
           in s\<lparr>m_log := Some (new_log (opt_level arg) (get_option_value ''-log_class'' arg)
                  (opt_or ''-log_path'' arg ''./log'') (opt_or ''-log_filename'' arg ''log'') print_file print_screen)\<rparr>)"

text \<open>The thread of the service runs the tasks in order; \<open>now\<close> is the clock and the thread id of the turn.\<close>

definition run_log_task :: "files \<Rightarrow> tm \<times> int \<times> int \<Rightarrow> log_task \<Rightarrow> log_t \<Rightarrow> log_t exc" where
  "run_log_task fs now t l = (case t of
     Log_content level cls content \<Rightarrow> (case now of (tv, ms, tid) \<Rightarrow> log_content fs tv ms tid level cls content l)
   | Mod_level level f \<Rightarrow> Inr (mod_level level f l)
   | Mod_class c f \<Rightarrow> Inr (mod_class c f l)
   | Mod_print_file f \<Rightarrow> Inr (l\<lparr>m_enable_file := f\<rparr>)
   | Mod_print_screen f \<Rightarrow> Inr (l\<lparr>m_enable_screen := f\<rparr>))"

fun run_log_tasks :: "files \<Rightarrow> ((tm \<times> int \<times> int) \<times> log_task) list \<Rightarrow> log_t \<Rightarrow> log_t exc" where
  "run_log_tasks fs [] l = Inr l"
| "run_log_tasks fs ((now, t) # ts) l = (case run_log_task fs now t l of Inl e \<Rightarrow> Inl e | Inr l1 \<Rightarrow> run_log_tasks fs ts l1)"

definition svc_produce :: "log_task \<Rightarrow> log_service_t \<Rightarrow> log_service_t" where
  "svc_produce t s = s\<lparr>log_tasks := log_tasks s @ [t]\<rparr>"

definition svc_mod_level :: "int \<Rightarrow> bool \<Rightarrow> log_service_t \<Rightarrow> log_service_t" where
  "svc_mod_level level f = svc_produce (Mod_level level f)"

definition svc_mod_class :: "string \<Rightarrow> bool \<Rightarrow> log_service_t \<Rightarrow> log_service_t" where
  "svc_mod_class c f = svc_produce (Mod_class c f)"

definition svc_mod_print_file :: "bool \<Rightarrow> log_service_t \<Rightarrow> log_service_t" where
  "svc_mod_print_file f = svc_produce (Mod_print_file f)"

definition svc_mod_print_screen :: "bool \<Rightarrow> log_service_t \<Rightarrow> log_service_t" where
  "svc_mod_print_screen f = svc_produce (Mod_print_screen f)"

text \<open>\<open>stop\<close>: the closed queue still gives out what it holds, so the thread runs those tasks before it is
  joined; then the logger is deleted. The logger as it was at the end is the second result.\<close>

definition log_stop :: "files \<Rightarrow> (tm \<times> int \<times> int) list \<Rightarrow> log_service_t \<Rightarrow> (log_service_t \<times> log_t option) exc" where
  "log_stop fs nows s = (case m_log s of
     None \<Rightarrow> Inr (s, None)
   | Some l \<Rightarrow> (case run_log_tasks fs (zip nows (log_tasks s)) l of
        Inl e \<Rightarrow> Inl e
      | Inr l1 \<Rightarrow> Inr (s\<lparr>m_log := None, log_tasks := []\<rparr>, Some l1)))"

text \<open>The calls \<open>async_log...\<close> of the macros: without arguments the format is the content.\<close>

definition async_log :: "nat \<Rightarrow> string \<Rightarrow> string \<Rightarrow> farg list \<Rightarrow> log_service_t \<Rightarrow> log_service_t exc" where
  "async_log level cls fmt args s = (case m_log s of
     None \<Rightarrow> Inl Null_deref
   | Some l \<Rightarrow> Inr (if is_level_enabled (int level) l
       then case find_class_name cls l of
              None \<Rightarrow> s
            | Some c \<Rightarrow> svc_produce (Log_content level c (if args = [] then fmt else format fmt args)) s
       else s))"

text \<open>
  Which calls are logged. After \<open>start\<close> with an option string, a call enters exactly one task with
  the formatted text if its level is at most \<open>-log_level\<close> (2 without it) and its class is one of the
  comma-separated names of \<open>-log_class\<close>, and does nothing otherwise.
\<close>

theorem log_start_filters:
  assumes "arg_helper_str opt = Some args" "opt_level args < 32" "level < 32"
  shows "async_log level cls fmt fargs (log_start opt new_log_service) =
    Inr (if int level \<le> opt_level args \<and> cls \<noteq> [] \<and> cls \<in> set (fields_of CHR '','' (get_option_value ''-log_class'' args))
         then svc_produce (Log_content level cls (if fargs = [] then fmt else format fmt fargs)) (log_start opt new_log_service)
         else log_start opt new_log_service)"
proof -
  let ?cl = "get_option_value ''-log_class'' args"
  obtain path fname pf ps where l: "m_log (log_start opt new_log_service) = Some (new_log (opt_level args) ?cl path fname pf ps)"
    using assms(1) by (simp add: log_start_def new_log_service_def Let_def)
  have "set (fold os_insert xs ys) = set xs \<union> set ys" for xs ys :: "string list"
    by (induction xs arbitrary: ys) auto
  then have "find_class_name cls (new_log (opt_level args) ?cl path fname pf ps) =
      (if cls \<noteq> [] \<and> cls \<in> set (fields_of CHR '','' ?cl) then Some cls else None)"
    by (auto simp: find_class_name_def new_log_def Let_def split_char)
  moreover have "is_level_enabled (int level) (new_log (opt_level args) ?cl path fname pf ps) \<longleftrightarrow> int level \<le> opt_level args"
    using new_log_levels assms(2,3) by simp
  ultimately show ?thesis by (simp add: async_log_def l)
qed

theorem log_start_filters_witness:
  "\<exists>s. s = log_start ''-log_level 3 -log_class RPC,FF'' new_log_service \<and>
    async_log 3 ''FF'' ''n=%d'' [FInt 5] s = Inr (svc_produce (Log_content 3 ''FF'' ''n=5'') s) \<and> async_log 4 ''FF'' ''x'' [] s = Inr s"
proof -
  let ?s = "log_start ''-log_level 3 -log_class RPC,FF'' new_log_service"
  have a: "arg_helper_str ''-log_level 3 -log_class RPC,FF'' = Some [''-log_level'', ''3'', ''-log_class'', ''RPC,FF'']"
    by (simp add: arg_helper_str_def split_char)
  have o: "opt_level [''-log_level'', ''3'', ''-log_class'', ''RPC,FF''] = 3"
    by (simp add: opt_level_def atoi_def is_blank_def digits_value_def is_digit_def)
  have "format ''n=%d'' [FInt 5] = ''n=5''"
    using format_pieces [of "''n=''" "[(FInt 5, [])]" _ "[]" "[]"]
    by (simp add: format_def new_str_format_def wildcard_def show_arg_def show_int_def show_nat.simps char_of_def bit_0)
  then have "async_log 3 ''FF'' ''n=%d'' [FInt 5] ?s = Inr (svc_produce (Log_content 3 ''FF'' ''n=5'') ?s)"
    using log_start_filters [OF a, of 3 "''FF''" "''n=%d''" "[FInt 5]"] o by simp
  moreover have "async_log 4 ''FF'' ''x'' [] ?s = Inr ?s"
    using log_start_filters [OF a, of 4 "''FF''" "''x''" "[]"] o by simp
  ultimately show ?thesis by blast
qed

subsection \<open>The file of a day\<close>

type_synonym log_entry = "tm \<times> int \<times> int \<times> nat \<times> string \<times> string"

fun log_all :: "files \<Rightarrow> log_entry list \<Rightarrow> log_t \<Rightarrow> log_t exc" where
  "log_all fs [] l = Inr l"
| "log_all fs ((t, ms, tid, level, cls, content) # es) l =
     (case log_content fs t ms tid level cls content l of Inl e \<Rightarrow> Inl e | Inr l1 \<Rightarrow> log_all fs es l1)"

fun entry_line :: "log_entry \<Rightarrow> string" where
  "entry_line (t, ms, tid, level, cls, content) = log_head t ms tid level cls @ content"

fun entry_ok :: "tm \<Rightarrow> log_entry \<Rightarrow> bool" where
  "entry_ok day (t, ms, tid, level, cls, content) \<longleftrightarrow> same_day day t \<and> level < 6"

lemma log_content_same_day:
  assumes "m_enable_file l" "m_line_num l < 5000" "same_day (m_last_create_dir_tm l) t" "level < 6"
  shows "\<exists>l'. log_content fs t ms tid level cls content l = Inr l' \<and> m_enable_file l' \<and> m_line_num l' = m_line_num l \<and>
    m_last_create_dir_tm l' = m_last_create_dir_tm l \<and> m_file l' = m_file l \<and>
    file_lines l' = file_lines l @ [(m_file l, log_head t ms tid level cls @ content)]"
proof -
  have "\<not> 5000 \<le> m_line_num l" using assms(2) by (simp add: not_le)
  then have "check_and_create_dir fs t l = (True, l)" using assms(3) by (simp add: check_and_create_dir_def Let_def)
  then show ?thesis using assms(1,4) by (simp add: log_content_def level_names_def Let_def)
qed

lemma log_all_same_day:
  assumes "m_enable_file l" "m_line_num l < 5000" "\<forall>e \<in> set es. entry_ok (m_last_create_dir_tm l) e"
  shows "\<exists>l'. log_all fs es l = Inr l' \<and> m_file l' = m_file l \<and> file_lines l' = file_lines l @ map (\<lambda>e. (m_file l, entry_line e)) es"
  using assms
proof (induction es arbitrary: l)
  case (Cons e es)
  obtain t ms tid level cls content where e: "e = (t, ms, tid, level, cls, content)" by (cases e) auto
  then obtain l1 where l1: "log_content fs t ms tid level cls content l = Inr l1" "m_enable_file l1" "m_line_num l1 = m_line_num l"
    "m_last_create_dir_tm l1 = m_last_create_dir_tm l" "m_file l1 = m_file l"
    "file_lines l1 = file_lines l @ [(m_file l, log_head t ms tid level cls @ content)]"
    using log_content_same_day [OF Cons.prems(1,2), of t level fs ms tid cls content] Cons.prems(3) by auto
  have "m_line_num l1 < 5000" "\<forall>e \<in> set es. entry_ok (m_last_create_dir_tm l1) e"
    unfolding l1(3,4) using Cons.prems(2,3) by simp_all
  from Cons.IH [OF l1(2) this] obtain l' where "log_all fs es l1 = Inr l'" "m_file l' = m_file l1"
    "file_lines l' = file_lines l1 @ map (\<lambda>e. (m_file l1, entry_line e)) es" by blast
  with l1 show ?case by (simp add: e)
qed simp

text \<open>The first line of a day opens a file under a name that was free (if one of ten thousand was).\<close>

lemma free_name_free:
  "\<exists>k < n. \<not> ex (file_name l t (i + 1 + word_of_nat k)) \<Longrightarrow> \<not> ex (snd (free_name ex l t n i fname))"
proof (induction n arbitrary: i fname)
  case (Suc n)
  show ?case
  proof (cases "ex (file_name l t (i + 1))")
    case True
    from Suc.prems obtain k where k: "k < Suc n" "\<not> ex (file_name l t (i + 1 + word_of_nat k))" by blast
    with True obtain j where j: "k = Suc j" by (cases k) auto
    with k have "j < n" "\<not> ex (file_name l t ((i + 1) + 1 + word_of_nat j))" by (simp_all add: algebra_simps)
    then have "\<not> ex (snd (free_name ex l t n (i + 1) (file_name l t (i + 1))))" by (intro Suc.IH) blast
    then show ?thesis using True by (simp add: Let_def)
  qed (simp add: Let_def)
qed simp

text \<open>
  The lines of a day. The first line of a new day opens a file of that day whose name was free;
  it and all further lines of the day, however many, go to that one file, in order. The limit of 5000
  lines for a file is never reached, because lines are not counted.
\<close>

theorem log_day_one_file:
  assumes "m_enable_file l" "\<not> same_day (m_last_create_dir_tm l) t" "ensure_dir fs (m_path l)" "ensure_dir fs (day_dir l t)"
    and "\<exists>k < 10000. \<not> exists fs (file_name l t (m_file_name_index l + 1 + word_of_nat k))"
    and "level < 6" "\<forall>e \<in> set es. entry_ok t e"
  shows "\<exists>fname l'. log_all fs ((t, ms, tid, level, cls, content) # es) l = Inr l' \<and> \<not> exists fs fname \<and>
    file_lines l' = file_lines l @ map (\<lambda>e. (Some fname, entry_line e)) ((t, ms, tid, level, cls, content) # es)"
proof -
  obtain n fname where f: "free_name (exists fs) l t 10000 (m_file_name_index l) [] = (n, fname)" by fastforce
  have free: "\<not> exists fs fname" using free_name_free [OF assms(5), of "[]"] f by simp
  let ?l1 = "l\<lparr>m_file_name_index := n, m_file := Some fname, m_line_num := 0, m_last_create_dir_tm := t\<rparr>"
  have "check_and_create_dir fs t l = (True, ?l1)" using assms(2-4) f by (simp add: check_and_create_dir_def Let_def)
  then obtain l2 where l2: "log_content fs t ms tid level cls content l = Inr l2" "m_enable_file l2" "m_line_num l2 < 5000"
    "m_last_create_dir_tm l2 = t" "m_file l2 = Some fname" "file_lines l2 = file_lines l @ [(Some fname, log_head t ms tid level cls @ content)]"
    using assms(1,6) by (simp add: log_content_def level_names_def Let_def)
  then obtain l' where "log_all fs es l2 = Inr l'" "file_lines l' = file_lines l2 @ map (\<lambda>e. (m_file l2, entry_line e)) es"
    using log_all_same_day [of l2 es fs] assms(7) by auto
  with l2 free show ?thesis by auto
qed

theorem log_day_one_file_witness:
  "\<exists>fname l'. log_all \<lparr>exists = (\<lambda>d. d = ''./log''), made = (\<lambda>_. True)\<rparr>
      ((zero_tm\<lparr>tm_mday := 3\<rparr>, 0, 1, 2, ''FF'', ''one'') # replicate 6000 (zero_tm\<lparr>tm_mday := 3, tm_sec := 9\<rparr>, 0, 1, 2, ''FF'', ''more''))
      (new_log 2 ''FF'' ''./log'' ''log'' True False) = Inr l' \<and>
    length (file_lines l') = 6001 \<and> (\<forall>x \<in> set (file_lines l'). fst x = Some fname)"
proof -
  let ?fs = "\<lparr>exists = (\<lambda>d. d = ''./log''), made = (\<lambda>_. True)\<rparr>" and ?l = "new_log 2 ''FF'' ''./log'' ''log'' True False"
  let ?t = "zero_tm\<lparr>tm_mday := 3\<rparr>" and ?es = "replicate 6000 (zero_tm\<lparr>tm_mday := 3, tm_sec := 9\<rparr>, 0 :: int, 1 :: int, 2 :: nat, ''FF'', ''more'')"
  have "\<exists>fname l'. log_all ?fs ((?t, 0, 1, 2, ''FF'', ''one'') # ?es) ?l = Inr l' \<and> \<not> exists ?fs fname \<and>
      file_lines l' = file_lines ?l @ map (\<lambda>e. (Some fname, entry_line e)) ((?t, 0, 1, 2, ''FF'', ''one'') # ?es)"
  proof (rule log_day_one_file)
    show "\<exists>k < 10000. \<not> exists ?fs (file_name ?l ?t (m_file_name_index ?l + 1 + word_of_nat k))"
      by (intro exI [of _ 0]) (simp add: file_name_def new_log_def Let_def)
  qed (simp_all add: new_log_def Let_def zero_tm_def same_day_def ensure_dir_def)
  then obtain fname l' where r: "log_all ?fs ((?t, 0, 1, 2, ''FF'', ''one'') # ?es) ?l = Inr l'"
    "file_lines l' = map (\<lambda>e. (Some fname, entry_line e)) ((?t, 0, 1, 2, ''FF'', ''one'') # ?es)"
    by (auto simp: new_log_def Let_def)
  show ?thesis by (rule exI [of _ fname], rule exI [of _ l'], intro conjI r(1)) (auto simp: r(2))
qed

subsection \<open>Printed integers are read back\<close>

lemma digit_not_blank: "is_digit c \<Longrightarrow> \<not> is_blank c"
  by (auto simp: is_digit_def is_blank_def)

lemma show_int_word: "show_int n \<noteq> [] \<and> (\<forall>c \<in> set (show_int n). \<not> is_blank c)"
proof -
  have "\<forall>c \<in> set (show_nat k). \<not> is_blank c" for k using show_nat_digits [of k] digit_not_blank by (auto simp: list_all_iff)
  moreover have "show_nat k \<noteq> []" for k by (rule show_nat_Cons [of k]) simp
  ultimately show ?thesis by (auto simp: show_int_def is_blank_def)
qed

lemma atoi_show_int: "atoi (show_int n) = n"
proof (cases "n < 0")
  case True
  have "digits_value (show_nat k) = int k" for k
    using show_nat_digits [of k] show_nat_value [of k]
    by (simp add: digits_value_def list_all_iff takeWhile_eq_all_conv [THEN iffD2])
  with True show ?thesis by (simp add: show_int_def atoi_def is_blank_def)
next
  case False
  then show ?thesis using atoi_show_nat [of "[]" "nat n"] by (simp add: show_int_def)
qed

end
