(* ===== verification/Obj_Counter.thy ===== *)
theory Obj_Counter
  imports Log
begin

section \<open>Object counters\<close>

text \<open>
  \<open>obj_counter_t\<close>, \<open>obj_counter_sum_t\<close> and \<open>obj_sum_mgr_t\<close> of \<^verbatim>\<open>base/fftype.h\<close>: a class with a counter base counts
  its objects, and the manager writes all counts to a file. The sum of a type is a singleton that is made
  and registered at its first use; types are their names. The counters are 64-bit words, changed atomically.
  A file is opened for appending by \<open>fopen_a\<close>: \<open>None\<close> if that fails, otherwise whether it is empty.
\<close>

type_synonym fopen_a = "string \<Rightarrow> bool option"
type_synonym written = "(string \<times> string) list"

subsection \<open>Writing a formatted buffer\<close>

text \<open>\<open>n = snprintf(buff, size, ...)\<close> followed by \<open>fwrite(buff, n, 1, fp)\<close>: \<open>n\<close> is the length of the whole text, so a
  text that was cut is written with its terminator and then with what lies behind the buffer.\<close>

definition fwrite_buff :: "nat \<Rightarrow> string \<Rightarrow> string exc" where
  "fwrite_buff bytes s = (if length s < bytes then Inr s else if length s = bytes then Inr (take (bytes - 1) s @ [CHR 0x00]) else Inl Out_of_range)"

fun fwrite_all :: "nat \<Rightarrow> string list \<Rightarrow> string list exc" where
  "fwrite_all bytes [] = Inr []"
| "fwrite_all bytes (s # ss) = (case fwrite_buff bytes s of Inl e \<Rightarrow> Inl e
     | Inr t \<Rightarrow> (case fwrite_all bytes ss of Inl e \<Rightarrow> Inl e | Inr ts \<Rightarrow> Inr (t # ts)))"

lemma fwrite_all_fits: "\<forall>s \<in> set ss. length s < n \<Longrightarrow> fwrite_all n ss = Inr ss"
  by (induction ss) (simp_all add: fwrite_buff_def)

lemma fwrite_all_overflow: "fwrite_all n ss = Inl e \<longleftrightarrow> e = Out_of_range \<and> (\<exists>s \<in> set ss. n < length s)"
  by (induction ss) (auto simp: fwrite_buff_def split: sum.splits)

definition date_text :: "tm \<Rightarrow> string" where
  "date_text t = pad0 4 (tm_year t + 1900) @ ''-'' @ pad0 2 (tm_mon t + 1) @ ''-'' @ pad0 2 (tm_mday t)"

definition time_text :: "tm \<Rightarrow> string" where
  "time_text t = pad0 4 (tm_year t + 1900) @ pad0 2 (tm_mon t + 1) @ pad0 2 (tm_mday t) @ ''-'' @
     pad0 2 (tm_hour t) @ '':'' @ pad0 2 (tm_min t) @ '':'' @ pad0 2 (tm_sec t)"

definition c_str :: "string \<Rightarrow> string" where
  "c_str s = takeWhile (\<lambda>c. c \<noteq> CHR 0x00) s"

subsection \<open>Counters and their manager\<close>

record obj_counter_sum =
  m_name :: string
  m_ref_count :: u64

definition new_counter_sum :: "string \<Rightarrow> obj_counter_sum" where
  "new_counter_sum T = \<lparr>m_name = T, m_ref_count = 0\<rparr>"

definition counter_inc :: "u64 \<Rightarrow> obj_counter_sum \<Rightarrow> obj_counter_sum" where
  "counter_inc n s = s\<lparr>m_ref_count := m_ref_count s + n\<rparr>"

definition counter_dec :: "u64 \<Rightarrow> obj_counter_sum \<Rightarrow> obj_counter_sum" where
  "counter_dec n s = s\<lparr>m_ref_count := m_ref_count s - n\<rparr>"

definition counter_val :: "obj_counter_sum \<Rightarrow> int" where
  "counter_val s = sint (m_ref_count s)"

text \<open>The manager's list, in the order of registration. \<open>instance\<close> makes and registers a sum at its first use.\<close>

type_synonym obj_sum_mgr = "obj_counter_sum list"

definition counter_reg :: "obj_counter_sum \<Rightarrow> obj_sum_mgr \<Rightarrow> obj_sum_mgr" where
  "counter_reg s m = m @ [s]"

definition counter_instance :: "string \<Rightarrow> obj_sum_mgr \<Rightarrow> obj_sum_mgr" where
  "counter_instance T m = (if T \<in> set (map m_name m) then m else counter_reg (new_counter_sum T) m)"

definition on_counter :: "string \<Rightarrow> (obj_counter_sum \<Rightarrow> obj_counter_sum) \<Rightarrow> obj_sum_mgr \<Rightarrow> obj_sum_mgr" where
  "on_counter T f m = map (\<lambda>s. if m_name s = T then f s else s) m"

definition obj_counter_ctor :: "string \<Rightarrow> obj_sum_mgr \<Rightarrow> obj_sum_mgr" where
  "obj_counter_ctor T m = on_counter T (counter_inc 1) (counter_instance T m)"

definition obj_counter_dtor :: "string \<Rightarrow> obj_sum_mgr \<Rightarrow> obj_sum_mgr" where
  "obj_counter_dtor T m = on_counter T (counter_dec 1) (counter_instance T m)"

definition get_all_obj_num :: "obj_sum_mgr \<Rightarrow> (string, int) omap" where
  "get_all_obj_num m = fold (\<lambda>s ret. fst (om_insert (m_name s) (counter_val s) ret)) m []"

definition counter_header :: string where
  "counter_header = ''time,obj,num'' @ [CHR 0x0A]"

definition counter_row :: "string \<Rightarrow> string \<times> int \<Rightarrow> string" where
  "counter_row now r = now @ '','' @ c_str (fst r) @ '','' @ show_int (snd r) @ [CHR 0x0A]"

definition counter_dump :: "fopen_a \<Rightarrow> tm \<Rightarrow> string \<Rightarrow> obj_sum_mgr \<Rightarrow> written exc" where
  "counter_dump fo t path m = (case fo path of None \<Rightarrow> Inr []
     | Some empty_file \<Rightarrow> (case fwrite_all 1024 (map (counter_row (time_text t)) (get_all_obj_num m)) of Inl e \<Rightarrow> Inl e
        | Inr rows \<Rightarrow> Inr (map (Pair path) ((if empty_file then [counter_header] else []) @ rows))))"

subsection \<open>What a count says\<close>

text \<open>What happens to objects of a counted class: the copy constructor is the implicit one, which counts nothing,
  while every object is destroyed once.\<close>

datatype obj_op = Construct string | Copy string | Destroy string

fun obj_step :: "obj_op \<Rightarrow> obj_sum_mgr \<Rightarrow> obj_sum_mgr" where
  "obj_step (Construct T) m = obj_counter_ctor T m"
| "obj_step (Copy T) m = m"
| "obj_step (Destroy T) m = obj_counter_dtor T m"

definition count_of :: "string \<Rightarrow> obj_sum_mgr \<Rightarrow> u64 option" where
  "count_of T m = map_of (map (\<lambda>s. (m_name s, m_ref_count s)) m) T"

lemma count_of_on:
  "count_of U (on_counter T f m) = (if U = T then map_option (\<lambda>s. m_ref_count (f s)) (find (\<lambda>s. m_name s = T) m) else count_of U m)"
  if "\<And>s. m_name (f s) = m_name s"
  using that by (induction m) (auto simp: count_of_def on_counter_def)

lemma find_count_of: "map_option m_ref_count (find (\<lambda>s. m_name s = T) m) = count_of T m"
  by (induction m) (auto simp: count_of_def)

lemma count_of_append: "count_of T (m @ [s]) = (case count_of T m of Some n \<Rightarrow> Some n | None \<Rightarrow> if m_name s = T then Some (m_ref_count s) else None)"
  by (auto simp: count_of_def map_add_def split: option.splits)

lemma count_of_None: "count_of T m = None \<longleftrightarrow> T \<notin> set (map m_name m)"
  by (induction m) (auto simp: count_of_def)

lemma count_of_instance: "count_of U (counter_instance T m) = (if U = T then Some (case_option 0 id (count_of T m)) else count_of U m)"
  using count_of_None [of T m]
  by (auto simp: counter_instance_def counter_reg_def new_counter_sum_def count_of_append split: option.splits)

lemma count_of_ctor: "count_of U (obj_counter_ctor T m) = (if U = T then Some (case_option 0 id (count_of T m) + 1) else count_of U m)"
proof -
  have "map_option (\<lambda>s. m_ref_count (counter_inc 1 s)) x = map_option (\<lambda>n. n + 1) (map_option m_ref_count x)" for x
    by (simp add: option.map_comp comp_def counter_inc_def)
  then show ?thesis by (auto simp: obj_counter_ctor_def count_of_on counter_inc_def find_count_of count_of_instance split: option.splits)
qed

lemma count_of_dtor: "count_of U (obj_counter_dtor T m) = (if U = T then Some (case_option 0 id (count_of T m) - 1) else count_of U m)"
proof -
  have "map_option (\<lambda>s. m_ref_count (counter_dec 1 s)) x = map_option (\<lambda>n. n - 1) (map_option m_ref_count x)" for x
    by (simp add: option.map_comp comp_def counter_dec_def)
  then show ?thesis by (auto simp: obj_counter_dtor_def count_of_on counter_dec_def find_count_of count_of_instance split: option.splits)
qed

lemma get_all_from:
  "map_of (fold (\<lambda>s ret. fst (om_insert (m_name s) (counter_val s) ret)) m ret) T =
    (case map_of ret T of Some v \<Rightarrow> Some v | None \<Rightarrow> map_option sint (count_of T m))"
  by (induction m arbitrary: ret) (auto simp: map_of_om_insert counter_val_def count_of_def split: option.splits)

lemma get_all_counts: "map_of (get_all_obj_num m) T = map_option sint (count_of T m)"
  by (simp add: get_all_obj_num_def get_all_from)

lemma get_all_wf: "om_wf (get_all_obj_num m)"
proof -
  have "om_wf ret \<Longrightarrow> om_wf (fold (\<lambda>s ret. fst (om_insert (m_name s) (counter_val s) ret)) m ret)" for ret
    by (induction m arbitrary: ret) simp_all
  then show ?thesis by (simp add: get_all_obj_num_def om_wf_def)
qed

abbreviation op_count :: "obj_op \<Rightarrow> obj_op list \<Rightarrow> int" where
  "op_count x ops \<equiv> int (count_list ops x)"

lemma count_of_run:
  "count_of T (fold obj_step ops m) =
    (if Construct T \<in> set ops \<or> Destroy T \<in> set ops \<or> count_of T m \<noteq> None
     then Some (case_option 0 id (count_of T m) + of_int (op_count (Construct T) ops - op_count (Destroy T) ops)) else None)"
proof (induction ops arbitrary: m)
  case (Cons x ops)
  then show ?case by (cases x) (auto simp: count_of_ctor count_of_dtor split: option.splits)
qed auto

text \<open>
  What the counts mean. After any history of the objects of all types the manager has an entry for exactly
  the types of which an object was constructed or destroyed. The number is constructions minus destructions:
  what is alive, less the copies that were ever made, which is negative once copies are destroyed.
\<close>

theorem object_counts:
  assumes "length ops < 2 ^ 63"
  shows "om_wf (get_all_obj_num (fold obj_step ops [])) \<and>
    map_of (get_all_obj_num (fold obj_step ops [])) T =
      (if Construct T \<in> set ops \<or> Destroy T \<in> set ops
       then Some ((op_count (Construct T) ops + op_count (Copy T) ops - op_count (Destroy T) ops) - op_count (Copy T) ops) else None)"
proof -
  let ?n = "op_count (Construct T) ops - op_count (Destroy T) ops"
  have bound: "0 \<le> op_count x ops \<and> op_count x ops < 2 ^ 63" for x
    using count_le_length [of ops x] assms by simp
  have "- (2 ^ 63) \<le> ?n" "?n < 2 ^ 63" using bound [of "Construct T"] bound [of "Destroy T"] by linarith+
  then have "sint (word_of_int ?n :: u64) = ?n"
    using signed_take_bit_int_eq_self [of 63 ?n] by (simp only: sint_sbintrunc' len_num1 len_bit0 len_bit1) simp
  then have val: "sint (of_nat (count_list ops (Construct T)) - of_nat (count_list ops (Destroy T)) :: u64) = ?n"
    by (simp add: of_int_diff)
  have "count_of T [] = None" by (simp add: count_of_def)
  then show ?thesis using get_all_wf by (simp add: get_all_counts count_of_run val)
qed

theorem object_counts_witness:
  "map_of (get_all_obj_num (fold obj_step [Construct ''task'', Copy ''task'', Destroy ''task'', Destroy ''task''] [])) ''task'' = Some (- 1)"
  using object_counts [of "[Construct ''task'', Copy ''task'', Destroy ''task'', Destroy ''task'']" "''task''"] by simp

end
