(* ===== verification/Perf.thy ===== *)
theory Perf
  imports Obj_Counter
begin

section \<open>The performance daemon\<close>

text \<open>
  \<open>performance_daemon_t\<close> of \<^verbatim>\<open>base/performance_daemon.h\<close> and \<open>.cpp\<close>: measured times are posted as tasks to the
  daemon's queue, its thread adds them up per module, and a timer writes the sums to a file from time to
  time, together with the counts of objects. The clock, the answers of \<open>fopen\<close> and the counters are arguments;
  what is written is a list of lines with their files.
  \<open>long\<close>s are integers: sums of microseconds do not reach 64 bits.
\<close>

record perf_info_t =
  pf_max :: int
  pf_min :: int
  pf_total :: int
  pf_times :: int

definition new_perf_info :: perf_info_t where
  "new_perf_info = \<lparr>pf_max = 0, pf_min = 2147483647, pf_total = 0, pf_times = 0\<rparr>"

definition perf_clear :: "perf_info_t \<Rightarrow> perf_info_t" where
  "perf_clear p = p\<lparr>pf_max := 0, pf_min := 2147483647, pf_total := 0, pf_times := 0\<rparr>"

datatype perf_task = Add_perf_data string int int | Perf_timer

record performance_daemon_t =
  pd_started :: bool
  pd_timeout_sec :: int
  pd_info :: "(string, perf_info_t) omap"
  pd_tasks :: "perf_task list"
  pd_path :: string
  pd_timer_service :: bool
  pd_timer_ms :: "int list"
  pd_lines :: written

text \<open>\<open>pd_timer_service\<close>: there is a timer service. \<open>pd_timer_ms\<close> lists the timers that were asked for; \<open>pd_lines\<close> is what was written.\<close>

definition new_perf :: performance_daemon_t where
  "new_perf = \<lparr>pd_started = False, pd_timeout_sec = 3600, pd_info = [], pd_tasks = [], pd_path = [], pd_timer_service = False, pd_timer_ms = [], pd_lines = []\<rparr>"

text \<open>The measured time in microseconds, as the destructor of \<open>perf_tool_t\<close> computes it.\<close>

definition perf_cost :: "int \<times> int \<Rightarrow> int \<times> int \<Rightarrow> int" where
  "perf_cost tm now = (fst now - fst tm) * 1000000 + (snd now - snd tm)"

text \<open>\<open>start\<close> with the answers of \<open>access\<close> and \<open>mkdir\<close>; the new thread begins with \<open>run\<close>, which asks for the first timer.\<close>

definition perf_start :: "files \<Rightarrow> string \<Rightarrow> int \<Rightarrow> performance_daemon_t \<Rightarrow> performance_daemon_t \<times> int" where
  "perf_start fs path seconds d =
     (if pd_started d then (d, - 1)
      else let d1 = d\<lparr>pd_path := path\<rparr>
           in if \<not> ensure_dir fs path then (d1, - 1)
              else (d1\<lparr>pd_timeout_sec := seconds, pd_timer_service := True, pd_started := True, pd_timer_ms := pd_timer_ms d1 @ [seconds * 1000]\<rparr>, 0))"

definition perf_post :: "files \<Rightarrow> string \<Rightarrow> int \<Rightarrow> int \<Rightarrow> performance_daemon_t \<Rightarrow> performance_daemon_t" where
  "perf_post fs m a us d =
     (if pd_started d then d\<lparr>pd_tasks := pd_tasks d @ [Add_perf_data m a us]\<rparr> else fst (perf_start fs ''perf.txt'' 600 d))"

text \<open>The timer thread only puts a task into the queue.\<close>

definition setup_timer :: "performance_daemon_t \<Rightarrow> performance_daemon_t" where
  "setup_timer d = d\<lparr>pd_tasks := pd_tasks d @ [Perf_timer]\<rparr>"

text \<open>The key of a sample; \<open>snprintf\<close> cuts it at 31 characters.\<close>

definition perf_key :: "string \<Rightarrow> int \<Rightarrow> string" where
  "perf_key m a = (if a \<ge> 0 then take 31 (takeWhile (\<lambda>c. c \<noteq> CHR 0x00) m @ ''['' @ show_int a @ '']'') else m)"

definition perf_add :: "int \<Rightarrow> perf_info_t \<Rightarrow> perf_info_t" where
  "perf_add us p = p\<lparr>pf_total := pf_total p + us, pf_times := pf_times p + 1,
     pf_max := (if us > pf_max p then us else pf_max p), pf_min := (if us < pf_min p then us else pf_min p)\<rparr>"

definition add_perf_data :: "string \<Rightarrow> int \<Rightarrow> int \<Rightarrow> performance_daemon_t \<Rightarrow> performance_daemon_t" where
  "add_perf_data m a us d =
     (let k = perf_key m a; p = (case map_of (pd_info d) k of Some p \<Rightarrow> p | None \<Rightarrow> new_perf_info)
      in d\<lparr>pd_info := om_put k (perf_add us p) (pd_info d)\<rparr>)"

text \<open>C division of \<open>long\<close>s.\<close>

definition c_div :: "int \<Rightarrow> int \<Rightarrow> int" where
  "c_div a b = sgn a * sgn b * (\<bar>a\<bar> div \<bar>b\<bar>)"

definition perf_row :: "string \<Rightarrow> string \<Rightarrow> perf_info_t \<Rightarrow> string" where
  "perf_row now k p =
     (let per = (if pf_times p = 0 then 0 else c_div (pf_total p) (pf_times p));
          rps = (if per = 0 then 0 else c_div 1000000 per)
      in now @ '','' @ c_str k @ '','' @ show_int rps @ '','' @ show_int (pf_times p) @ '','' @
           show_int (pf_max p) @ '','' @ show_int (if per = 0 then 0 else pf_min p) @ '','' @ show_int per @ [CHR 0x0A])"

definition perf_header :: string where
  "perf_header = ''time,mod,rps,exe_times,max_cost[us],min_cost[us],per_cost[us]'' @ [CHR 0x0A]"

text \<open>\<open>flush\<close>: nothing when the file cannot be opened; otherwise a header for a new file and a row for every
  module, whose sums start again, and then the dump of the object counters.\<close>

definition perf_flush :: "fopen_a \<Rightarrow> tm \<Rightarrow> obj_sum_mgr \<Rightarrow> performance_daemon_t \<Rightarrow> performance_daemon_t exc" where
  "perf_flush fo t m d = (let filename = pd_path d @ ''/'' @ date_text t @ ''.perf'' in
     case fo filename of None \<Rightarrow> Inr d
     | Some empty_file \<Rightarrow> (case fwrite_all 1024 (map (\<lambda>(k, p). perf_row (time_text t) k p) (pd_info d)) of Inl e \<Rightarrow> Inl e
        | Inr rows \<Rightarrow> (case counter_dump fo t (pd_path d @ ''/'' @ date_text t @ ''.counter'') m of Inl e \<Rightarrow> Inl e
           | Inr ws \<Rightarrow> Inr (d\<lparr>pd_lines := pd_lines d @ map (Pair filename) ((if empty_file then [perf_header] else []) @ rows) @ ws,
               pd_info := map (\<lambda>(k, p). (k, perf_clear p)) (pd_info d)\<rparr>))))"

definition perf_handle_timer :: "fopen_a \<Rightarrow> tm \<Rightarrow> obj_sum_mgr \<Rightarrow> performance_daemon_t \<Rightarrow> performance_daemon_t exc" where
  "perf_handle_timer fo t m d = (case perf_flush fo t m d of Inl e \<Rightarrow> Inl e
     | Inr d1 \<Rightarrow> (if pd_timer_service d1 then Inr (d1\<lparr>pd_timer_ms := pd_timer_ms d1 @ [pd_timeout_sec d1 * 1000]\<rparr>) else Inl Null_deref))"

definition run_perf_task :: "fopen_a \<Rightarrow> tm \<Rightarrow> obj_sum_mgr \<Rightarrow> perf_task \<Rightarrow> performance_daemon_t \<Rightarrow> performance_daemon_t exc" where
  "run_perf_task fo t m task d = (case task of
     Add_perf_data name a us \<Rightarrow> Inr (add_perf_data name a us d)
   | Perf_timer \<Rightarrow> perf_handle_timer fo t m d)"

fun run_perf_tasks :: "fopen_a \<Rightarrow> tm \<Rightarrow> obj_sum_mgr \<Rightarrow> perf_task list \<Rightarrow> performance_daemon_t \<Rightarrow> performance_daemon_t exc" where
  "run_perf_tasks fo t m [] d = Inr d"
| "run_perf_tasks fo t m (x # xs) d = (case run_perf_task fo t m x d of
     Inl e \<Rightarrow> Inl e | Inr d1 \<Rightarrow> run_perf_tasks fo t m xs d1)"

text \<open>\<open>stop\<close> deletes the timer service first; the thread then runs the tasks that are left and is joined.\<close>

definition perf_stop :: "fopen_a \<Rightarrow> tm \<Rightarrow> obj_sum_mgr \<Rightarrow> performance_daemon_t \<Rightarrow> (performance_daemon_t \<times> int) exc" where
  "perf_stop fo t m d =
     (if \<not> pd_started d then Inr (d, - 1)
      else case run_perf_tasks fo t m (pd_tasks d) (d\<lparr>pd_timer_service := False, pd_started := False, pd_tasks := []\<rparr>) of
        Inl e \<Rightarrow> Inl e
      | Inr d1 \<Rightarrow> Inr (d1, 0))"

subsection \<open>What a row says\<close>

text \<open>The samples of one key.\<close>

definition samples_of :: "string \<Rightarrow> (string \<times> int \<times> int) list \<Rightarrow> int list" where
  "samples_of k xs = map (\<lambda>(m, a, us). us) (filter (\<lambda>(m, a, us). perf_key m a = k) xs)"

definition add_all :: "(string \<times> int \<times> int) list \<Rightarrow> performance_daemon_t \<Rightarrow> performance_daemon_t" where
  "add_all xs d = fold (\<lambda>(m, a, us). add_perf_data m a us) xs d"

definition fresh_info :: "performance_daemon_t \<Rightarrow> bool" where
  "fresh_info d \<longleftrightarrow> om_wf (pd_info d) \<and> (\<forall>(k, p) \<in> set (pd_info d). p = new_perf_info)"

definition info_of :: "string \<Rightarrow> performance_daemon_t \<Rightarrow> perf_info_t" where
  "info_of k d = (case map_of (pd_info d) k of Some p \<Rightarrow> p | None \<Rightarrow> new_perf_info)"

lemma add_perf_data_info:
  assumes "om_wf (pd_info d)"
  shows "om_wf (pd_info (add_perf_data m a us d))"
    "info_of k (add_perf_data m a us d) = (if k = perf_key m a then perf_add us (info_of k d) else info_of k d)"
    "map_of (pd_info (add_perf_data m a us d)) k = None \<longleftrightarrow> map_of (pd_info d) k = None \<and> k \<noteq> perf_key m a"
  using assms by (auto simp: add_perf_data_def Let_def info_of_def om.find_put om.wf_put)

lemma add_all_info:
  assumes "om_wf (pd_info d)"
  shows "om_wf (pd_info (add_all xs d)) \<and> info_of k (add_all xs d) = fold perf_add (samples_of k xs) (info_of k d) \<and>
    (map_of (pd_info (add_all xs d)) k = None \<longleftrightarrow> map_of (pd_info d) k = None \<and> samples_of k xs = [])"
  using assms
proof (induction xs arbitrary: d)
  case (Cons x xs)
  obtain m a us where x: "x = (m, a, us)" by (cases x)
  note s = add_perf_data_info [OF Cons.prems, where m = m and a = a and us = us]
  from Cons.IH [OF s(1)] s(2,3) show ?case by (auto simp: x add_all_def samples_of_def)
qed (simp add: add_all_def samples_of_def)

lemma fold_perf_add:
  "fold perf_add us p = \<lparr>pf_max = fold max us (pf_max p), pf_min = fold min us (pf_min p), pf_total = pf_total p + sum_list us,
     pf_times = pf_times p + int (length us)\<rparr>"
  by (induction us arbitrary: p) (auto simp: perf_add_def max_def min_def)

lemma fold_max: "fold max us (m :: int) = Max (set (m # us))"
  using Max.set_eq_fold [of m us] by simp

lemma fold_min: "fold min us (m :: int) = Min (set (m # us))"
  using Min.set_eq_fold [of m us] by simp

lemma perf_clear_new: "perf_clear p = new_perf_info"
  by (cases p) (simp add: perf_clear_def new_perf_info_def)

lemma fresh_info_of: "fresh_info d \<Longrightarrow> info_of k d = new_perf_info"
  by (auto simp: fresh_info_def info_of_def split: option.splits dest!: map_of_SomeD)

text \<open>The sums of a list of samples.\<close>

definition perf_of :: "int list \<Rightarrow> perf_info_t" where
  "perf_of us = \<lparr>pf_max = Max (set (0 # us)), pf_min = Min (set (2147483647 # us)), pf_total = sum_list us, pf_times = int (length us)\<rparr>"

lemma perf_of_fold: "fold perf_add us new_perf_info = perf_of us"
  unfolding fold_perf_add fold_max fold_min by (simp add: new_perf_info_def perf_of_def)

lemma perf_of_empty: "perf_of [] = new_perf_info"
  by (simp add: perf_of_def new_perf_info_def)

lemma add_all_rows:
  assumes "fresh_info d"
  shows "pd_info (add_all xs d) = map (\<lambda>k. (k, perf_of (samples_of k xs))) (map fst (pd_info (add_all xs d)))"
proof -
  have wf: "om_wf (pd_info d)" using assms by (simp add: fresh_info_def)
  note all = add_all_info [OF wf, of xs]
  have "snd x = perf_of (samples_of (fst x) xs)" if "x \<in> set (pd_info (add_all xs d))" for x
  proof -
    have "map_of (pd_info (add_all xs d)) (fst x) = Some (snd x)"
      using that all by (simp add: om_wf_def strict_sorted_iff)
    then show ?thesis using all [of "fst x"] fresh_info_of [OF assms, of "fst x"] by (simp add: info_of_def perf_of_fold)
  qed
  then show ?thesis by (simp add: map_idI prod_eq_iff)
qed

lemma add_all_same: "pd_path (add_all xs d) = pd_path d \<and> pd_lines (add_all xs d) = pd_lines d"
  by (induction xs arbitrary: d) (auto simp: add_all_def add_perf_data_def Let_def)

lemma fresh_clear: "om_wf (pd_info d) \<Longrightarrow> fresh_info (d\<lparr>pd_lines := ls, pd_info := map (\<lambda>(k, p). (k, perf_clear p)) (pd_info d)\<rparr>)"
  by (auto simp: fresh_info_def perf_clear_new om_wf_def comp_def split_beta)

text \<open>
  (C31) What the daemon reports. Samples added since the last report are kept apart by key; the next report
  has one row per key, in the order of the keys, with the number of its samples, their largest and smallest
  value and their average, followed in the second file by the counts of all objects, and all sums start
  again. If the file cannot be opened nothing is lost. A row of more than 1024 bytes, which a long module
  name gives, makes the daemon read behind its buffer.
\<close>

theorem perf_flush_reports:
  assumes "fresh_info d" "f = pd_path d @ ''/'' @ date_text t @ ''.perf''" "fc = pd_path d @ ''/'' @ date_text t @ ''.counter''"
  shows "\<exists>ks. sorted_wrt (<) ks \<and> (\<forall>k. k \<in> set ks \<longleftrightarrow> k \<in> fst ` set (pd_info d) \<or> samples_of k xs \<noteq> []) \<and>
    (let rows = map (\<lambda>k. perf_row (time_text t) k (perf_of (samples_of k xs))) ks; counts = map (counter_row (time_text t)) (get_all_obj_num m) in
     (fo f = None \<longrightarrow> perf_flush fo t m (add_all xs d) = Inr (add_all xs d)) \<and>
     (fo f \<noteq> None \<and> (\<exists>r \<in> set rows. 1024 < length r) \<longrightarrow> perf_flush fo t m (add_all xs d) = Inl Out_of_range) \<and>
     (\<forall>e ec. fo f = Some e \<and> fo fc = Some ec \<and> (\<forall>r \<in> set (rows @ counts). length r < 1024) \<longrightarrow>
       (\<exists>d1. perf_flush fo t m (add_all xs d) = Inr d1 \<and> fresh_info d1 \<and>
         pd_lines d1 = pd_lines d @ map (Pair f) ((if e then [perf_header] else []) @ rows) @ map (Pair fc) ((if ec then [counter_header] else []) @ counts))))"
proof -
  let ?d = "add_all xs d" and ?ks = "map fst (pd_info (add_all xs d))"
  let ?rows = "map (\<lambda>k. perf_row (time_text t) k (perf_of (samples_of k xs))) ?ks" and ?counts = "map (counter_row (time_text t)) (get_all_obj_num m)"
  have all: "om_wf (pd_info ?d)" "k \<in> set ?ks \<longleftrightarrow> k \<in> fst ` set (pd_info d) \<or> samples_of k xs \<noteq> []" for k
    using assms(1) add_all_info [of d xs k] by (auto simp: fresh_info_def map_of_eq_None_iff)
  have rows: "map (\<lambda>(k, p). perf_row (time_text t) k p) (pd_info ?d) = ?rows"
    using arg_cong [OF add_all_rows [OF assms(1), of xs], of "map (\<lambda>(k, p). perf_row (time_text t) k p)"] by (simp only: list.map_comp comp_def split_beta fst_conv snd_conv)
  note flush = perf_flush_def [of fo t m ?d, unfolded rows add_all_same [THEN conjunct1] assms(2,3) [symmetric] Let_def]
  have "perf_flush fo t m ?d = Inl Out_of_range" if op: "fo f \<noteq> None" "\<exists>r \<in> set ?rows. 1024 < length r"
  proof -
    obtain e where e: "fo f = Some e" using op(1) by blast
    have "fwrite_all 1024 ?rows = Inl Out_of_range" unfolding fwrite_all_overflow using op(2) by blast
    then show ?thesis unfolding flush e by (simp only: option.case sum.case)
  qed
  moreover have "\<exists>d1. perf_flush fo t m ?d = Inr d1 \<and> fresh_info d1 \<and>
         pd_lines d1 = pd_lines d @ map (Pair f) ((if e then [perf_header] else []) @ ?rows) @ map (Pair fc) ((if ec then [counter_header] else []) @ ?counts)"
    if "fo f = Some e" "fo fc = Some ec" "\<forall>r \<in> set (?rows @ ?counts). length r < 1024" for e ec
  proof -
    have "fwrite_all 1024 ?rows = Inr ?rows" "fwrite_all 1024 ?counts = Inr ?counts"
      using that(3) by (intro fwrite_all_fits; simp only: set_append; blast)+
    then have "perf_flush fo t m ?d = Inr (?d\<lparr>pd_lines := pd_lines ?d @ map (Pair f) ((if e then [perf_header] else []) @ ?rows) @
        map (Pair fc) ((if ec then [counter_header] else []) @ ?counts), pd_info := map (\<lambda>(k, p). (k, perf_clear p)) (pd_info ?d)\<rparr>)"
      unfolding flush that(1) counter_dump_def that(2) by (simp only: option.case sum.case)
    then show ?thesis using fresh_clear [OF all(1)] add_all_same [of xs d] by (simp only: simp_thms performance_daemon_t.simps) simp
  qed
  moreover have "fo f = None \<Longrightarrow> perf_flush fo t m ?d = Inr ?d" unfolding flush by simp
  ultimately show ?thesis unfolding Let_def using all by (intro exI [of _ ?ks]) (simp add: om_wf_def)
qed

lemma sorted_two: "sorted_wrt (<) ks \<Longrightarrow> set ks = {a, b} \<Longrightarrow> a < b \<Longrightarrow> ks = [a, b]" for a b :: "'a::linorder"
  by (rule strict_sorted_equal) auto

lemmas show_eval = show_int_def show_nat.simps char_of_def bit_0 Let_def

lemma time_text_zero: "time_text zero_tm = ''19000100-00:00:00''" "date_text zero_tm = ''1900-01-00''"
  by (simp_all add: time_text_def date_text_def zero_tm_def pad0_def show_eval)

theorem perf_flush_reports_witness:
  "\<exists>d1. perf_flush (\<lambda>_. Some True) zero_tm (obj_counter_ctor ''task'' []) (add_all [(''db'', - 1, 10), (''net'', - 1, 7), (''db'', - 1, 30)] new_perf) = Inr d1 \<and>
    pd_lines d1 = map (Pair ''/1900-01-00.perf'') [perf_header, ''19000100-00:00:00,db,50000,2,30,10,20'' @ [CHR 0x0A], ''19000100-00:00:00,net,142857,1,7,7,7'' @ [CHR 0x0A]] @
      map (Pair ''/1900-01-00.counter'') [counter_header, ''19000100-00:00:00,task,1'' @ [CHR 0x0A]]"
proof -
  let ?xs = "[(''db'', - 1, 10), (''net'', - 1, 7), (''db'', - 1, 30)] :: (string \<times> int \<times> int) list"
  have d: "fresh_info new_perf" by (simp add: fresh_info_def new_perf_def)
  have p: "''/1900-01-00.perf'' = pd_path new_perf @ ''/'' @ date_text zero_tm @ ''.perf''"
    "''/1900-01-00.counter'' = pd_path new_perf @ ''/'' @ date_text zero_tm @ ''.counter''" by (simp_all add: time_text_zero new_perf_def)
  have r: "perf_row (time_text zero_tm) ''db'' (perf_of (samples_of ''db'' ?xs)) = ''19000100-00:00:00,db,50000,2,30,10,20'' @ [CHR 0x0A]"
    "perf_row (time_text zero_tm) ''net'' (perf_of (samples_of ''net'' ?xs)) = ''19000100-00:00:00,net,142857,1,7,7,7'' @ [CHR 0x0A]"
    by (simp_all add: time_text_zero samples_of_def perf_key_def perf_row_def perf_of_def c_div_def c_str_def show_eval)
  have "get_all_obj_num (obj_counter_ctor ''task'' []) = [(''task'', 1)]"
    by (simp add: get_all_obj_num_def obj_counter_ctor_def on_counter_def counter_instance_def counter_reg_def new_counter_sum_def counter_inc_def counter_val_def om_insert_def)
  then have c: "map (counter_row (time_text zero_tm)) (get_all_obj_num (obj_counter_ctor ''task'' [])) = [''19000100-00:00:00,task,1'' @ [CHR 0x0A]]"
    by (simp add: time_text_zero counter_row_def c_str_def show_eval)
  have keys: "k \<in> fst ` set (pd_info new_perf) \<or> samples_of k ?xs \<noteq> [] \<longleftrightarrow> k \<in> {''db'', ''net''}" for k
    by (auto simp: new_perf_def samples_of_def perf_key_def)
  show ?thesis
    using perf_flush_reports [OF d p, of ?xs "obj_counter_ctor ''task'' []" "\<lambda>_. Some True"] unfolding Let_def
  proof (elim exE conjE, goal_cases)
    case (1 ks)
    have "ks = [''db'', ''net'']"
    proof (rule sorted_two [OF 1(1)])
      show "set ks = {''db'', ''net''}" by (rule set_eqI) (simp only: 1(2) keys)
      show "''db'' < ''net''" by code_simp
    qed
    then have rows: "map (\<lambda>k. perf_row (time_text zero_tm) k (perf_of (samples_of k ?xs))) ks =
        [''19000100-00:00:00,db,50000,2,30,10,20'' @ [CHR 0x0A], ''19000100-00:00:00,net,142857,1,7,7,7'' @ [CHR 0x0A]]"
      by (simp only: list.map r)
    show ?case using 1(5) [THEN spec, of True, THEN spec, of True] unfolding rows c by (auto simp: new_perf_def)
  qed
qed

text \<open>A sample posted before the daemon runs is dropped; it only starts the daemon.\<close>

lemma first_post_lost: "pd_started d = False \<Longrightarrow> pd_tasks (perf_post fs m a us d) = pd_tasks d"
  by (auto simp: perf_post_def perf_start_def Let_def)

text \<open>A timer that fired but was not run yet brings the daemon down when it is stopped.\<close>

lemma perf_flush_timer: "perf_flush fo t m d = Inr d1 \<Longrightarrow> pd_timer_service d1 = pd_timer_service d"
  by (auto simp: perf_flush_def Let_def split: option.splits sum.splits)

lemma run_perf_tasks_timer:
  "\<not> pd_timer_service d \<Longrightarrow> Perf_timer \<in> set ts \<Longrightarrow> \<exists>e. run_perf_tasks fo t m ts d = Inl e"
proof (induction ts arbitrary: d)
  case (Cons x ts)
  show ?case
  proof (cases x)
    case (Add_perf_data n a us)
    then have "\<not> pd_timer_service (add_perf_data n a us d)" using Cons.prems(1) by (simp add: add_perf_data_def Let_def)
    then show ?thesis using Cons.IH Cons.prems(2) Add_perf_data by (auto simp: run_perf_task_def)
  next
    case Perf_timer
    then show ?thesis using Cons.prems(1) by (auto simp: run_perf_task_def perf_handle_timer_def dest: perf_flush_timer split: sum.splits)
  qed
qed simp

lemma stop_with_timer:
  "pd_started d \<Longrightarrow> Perf_timer \<in> set (pd_tasks d) \<Longrightarrow> \<exists>e. perf_stop fo t m d = Inl e"
proof -
  assume "pd_started d" "Perf_timer \<in> set (pd_tasks d)"
  with run_perf_tasks_timer [of "d\<lparr>pd_timer_service := False, pd_started := False, pd_tasks := []\<rparr>" "pd_tasks d" fo t m]
  show ?thesis by (auto simp: perf_stop_def)
qed

end
