(* ===== verification/Ffdb.thy ===== *)
theory Ffdb
  imports Strtool
begin

section \<open>Databases\<close>

text \<open>
  \<open>ffdb_t\<close> of \<^verbatim>\<open>db/ffdb.cpp\<close> with its two drivers \<^verbatim>\<open>db/sqlite_ops.cpp\<close> and \<^verbatim>\<open>db/mysql_ops.cpp\<close>, and the
  escaping of values for statements. The client libraries are parameters: a record \<open>db_lib\<close> of the calls the
  drivers make, over a state \<open>'w\<close> of the databases and handles \<open>'h\<close>. A MYSQL structure that no call of
  \<open>mysql_init\<close> has filled is \<open>None\<close>, and using it is undefined (\<open>Dangling\<close>). The C strings the libraries
  see end at the first zero byte.
\<close>

definition cstr :: "string \<Rightarrow> string" where
  "cstr s = takeWhile (\<lambda>c. c \<noteq> CHR 0x00) s"

text \<open>\<open>strtool_t::split\<close> into a new vector. The separators used here are not empty, so it returns.\<close>

definition vt_of :: "string \<Rightarrow> string \<Rightarrow> string list" where
  "vt_of str sep = (case split str sep [] of Some v \<Rightarrow> v | None \<Rightarrow> [])"

lemma vt_of_char [simp]: "vt_of str [c] = filter (\<lambda>t. t \<noteq> []) (fields_of c str)"
  by (simp add: vt_of_def split_char)

lemma vt_of_split: "sep \<noteq> [] \<Longrightarrow> split str sep [] = Some (vt_of str sep)"
  using split_loop_returns [of sep str "find_first_not_of sep str" "[]"] by (auto simp: vt_of_def split_def)

subsection \<open>Escaping\<close>

abbreviation quote :: char where "quote \<equiv> CHR 0x27"
abbreviation backslash :: char where "backslash \<equiv> CHR 0x5C"

text \<open>The switch of \<open>escape_string\<close>: the letter that stands for a special byte.\<close>

definition escape_code :: "char \<Rightarrow> char option" where
  "escape_code c =
    (if c = CHR 0x00 then Some (CHR ''0'')
     else if c = CHR 0x0A then Some (CHR ''n'')
     else if c = CHR 0x0D then Some (CHR ''r'')
     else if c = backslash then Some backslash
     else if c = quote then Some quote
     else if c = CHR 0x22 then Some (CHR 0x22)
     else if c = CHR 0x1A then Some (CHR ''Z'')
     else None)"

text \<open>The loop: \<open>to_end\<close> is the offset of the last byte of the buffer, \<open>to\<close> what is written so far; the
  flag is \<open>overflow\<close>.\<close>

fun escape_loop :: "nat \<Rightarrow> string \<Rightarrow> string \<Rightarrow> string \<times> bool" where
  "escape_loop to_end to [] = (to, False)"
| "escape_loop to_end to (c # cs) = (case escape_code c of
     Some e \<Rightarrow> (if length to + 2 > to_end then (to, True)
               else escape_loop to_end (to @ [if e = quote then quote else backslash, e]) cs)
   | None \<Rightarrow> (if length to + 1 > to_end then (to, True) else escape_loop to_end (to @ [c]) cs))"

definition escape_string :: "nat \<Rightarrow> string \<Rightarrow> string \<times> size_t" where
  "escape_string to_length src =
    (let (to, overflow) = escape_loop (if to_length \<noteq> 0 then to_length - 1 else 2 * length src) [] src
     in (to, if overflow then - 1 else word_of_nat (length to)))"

text \<open>\<open>ret.append(msg, len)\<close> must stay inside what was written.\<close>

definition escape :: "string \<Rightarrow> string exc" where
  "escape src = (let (msg, len) = escape_string (length src * 2 + 2) src
     in if unat len \<le> length msg then Inr (take (unat len) msg) else Inl Out_of_range)"

text \<open>How a string literal is read behind its opening quote, in SQLite (a doubled quote stands for a quote)
  and in MySQL (where a backslash also takes the next byte): the value and what follows the literal.\<close>

fun sqlite_literal :: "string \<Rightarrow> (string \<times> string) option" where
  "sqlite_literal [] = None"
| "sqlite_literal (c # s) =
    (if c = quote
     then (case s of
         [] \<Rightarrow> Some ([], [])
       | d # t \<Rightarrow> (if d = quote then map_option (apfst ((#) quote)) (sqlite_literal t) else Some ([], s)))
     else map_option (apfst ((#) c)) (sqlite_literal s))"

definition unescape_code :: "char \<Rightarrow> char" where
  "unescape_code e = (if e = CHR ''0'' then CHR 0x00 else if e = CHR ''n'' then CHR 0x0A
     else if e = CHR ''r'' then CHR 0x0D else if e = CHR ''Z'' then CHR 0x1A else e)"

fun mysql_literal :: "string \<Rightarrow> (string \<times> string) option" where
  "mysql_literal [] = None"
| "mysql_literal (c # s) =
    (if c = quote
     then (case s of
         [] \<Rightarrow> Some ([], [])
       | d # t \<Rightarrow> (if d = quote then map_option (apfst ((#) quote)) (mysql_literal t) else Some ([], s)))
     else if c = backslash
     then (case s of [] \<Rightarrow> None | d # t \<Rightarrow> map_option (apfst ((#) (unescape_code d))) (mysql_literal t))
     else map_option (apfst ((#) c)) (mysql_literal s))"

text \<open>The image of one byte, and what SQLite reads it as: it knows no backslashes.\<close>

definition escaped :: "char \<Rightarrow> string" where
  "escaped c = (case escape_code c of Some e \<Rightarrow> [if e = quote then quote else backslash, e] | None \<Rightarrow> [c])"

definition sqlite_value :: "string \<Rightarrow> string" where
  "sqlite_value s = concat (map (\<lambda>c. if c = quote then [quote] else escaped c) s)"

lemma length_escaped: "length (escaped c) \<le> 2"
  by (simp add: escaped_def split: option.split)

lemma length_escaped_all: "length (concat (map escaped s)) \<le> 2 * length s"
proof (induction s)
  case (Cons c s)
  then show ?case using length_escaped [of c] by simp
qed simp

lemma escape_loop_all:
  "length to + 2 * length s \<le> to_end \<Longrightarrow> escape_loop to_end to s = (to @ concat (map escaped s), False)"
proof (induction s arbitrary: to)
  case (Cons c s)
  then show ?case using Cons.IH [of "to @ escaped c"] length_escaped [of c]
    by (simp add: escaped_def split: option.splits)
qed simp

lemma escape_concat:
  assumes "length s < 2 ^ 62"
  shows "escape s = Inr (concat (map escaped s))"
proof -
  have "length (concat (map escaped s)) < 2 ^ 64" using length_escaped_all [of s] assms by simp
  then show ?thesis
    by (simp add: escape_def escape_string_def escape_loop_all unat_of_nat Let_def)
qed

lemma mysql_literal_escaped: "mysql_literal (escaped c @ s) = map_option (apfst ((#) c)) (mysql_literal s)"
  by (simp add: escaped_def escape_code_def unescape_code_def)

lemma sqlite_literal_escaped:
  "sqlite_literal (escaped c @ s) = map_option (apfst ((@) (sqlite_value [c]))) (sqlite_literal s)"
  by (cases "sqlite_literal s") (auto simp: escaped_def escape_code_def sqlite_value_def)

lemma literal_end: "starts [quote] rest \<or> sqlite_literal (quote # rest) = Some ([], rest) \<and> mysql_literal (quote # rest) = Some ([], rest)"
  by (cases rest) (auto simp: starts_def)

text \<open>
  (C28) Escaped values stay inside their quotes. The buffer of \<open>escape\<close> is always large enough. Between
  quotes, the escaped value is one literal in both databases, however it was chosen: the literal ends at the
  closing quote. MySQL reads back exactly the value; SQLite, which knows no backslashes, keeps the two bytes
  that were written for every special byte other than the quote.
\<close>

theorem escape_literal:
  assumes "length s < 2 ^ 62" "\<not> starts [quote] rest"
  shows "\<exists>e. escape s = Inr e \<and> length e \<le> 2 * length s \<and>
    mysql_literal (e @ [quote] @ rest) = Some (s, rest) \<and>
    sqlite_literal (e @ [quote] @ rest) = Some (sqlite_value s, rest)"
proof -
  have "mysql_literal (concat (map escaped s) @ quote # rest) = Some (s, rest)"
    using literal_end [of rest] assms(2) by (induction s) (auto simp: mysql_literal_escaped simp del: mysql_literal.simps)
  moreover have "sqlite_literal (concat (map escaped s) @ quote # rest) = Some (sqlite_value s, rest)"
  proof (induction s)
    case Nil
    show ?case using literal_end [of rest] assms(2) by (simp add: sqlite_value_def del: sqlite_literal.simps)
  next
    case (Cons c s)
    then show ?case by (simp add: sqlite_literal_escaped sqlite_value_def del: sqlite_literal.simps)
  qed
  ultimately show ?thesis using escape_concat [OF assms(1)] length_escaped_all [of s] by simp
qed

theorem escape_literal_witness:
  "\<exists>e. escape ''x' OR '1'='1'' = Inr e \<and> mysql_literal (e @ [quote] @ '');'') = Some (''x' OR '1'='1'', '');'')"
  using escape_literal [of "''x' OR '1'='1''" "'');''"] by (auto simp: starts_def)

subsection \<open>The client libraries\<close>

text \<open>
  A row as a library hands it over: \<open>None\<close> is a NULL pointer. \<open>sqlite3_exec\<close> calls back for every row it
  finds, with the names of its columns, before it returns; its error has a text or not. The answers of
  \<open>mysql_store_result\<close> are the names of the columns and the rows.
\<close>

type_synonym row = "string option list"

record ('w, 'h) db_lib =
  sqlite3_open :: "string \<Rightarrow> 'w \<Rightarrow> bool \<times> 'h \<times> 'w"
  sqlite3_errmsg :: "'h \<Rightarrow> 'w \<Rightarrow> string"
  sqlite3_exec :: "'h \<Rightarrow> string \<Rightarrow> 'w \<Rightarrow> (row \<times> row) list \<times> string option option \<times> 'w"
  sqlite3_close :: "'h \<Rightarrow> 'w \<Rightarrow> 'w"
  mysql_init :: "'w \<Rightarrow> bool \<times> 'h \<times> 'w"
  mysql_options :: "'h \<Rightarrow> string \<Rightarrow> 'w \<Rightarrow> 'w"
  mysql_real_connect :: "'h \<Rightarrow> string \<Rightarrow> string \<Rightarrow> string \<Rightarrow> string \<Rightarrow> int \<Rightarrow> 'w \<Rightarrow> bool \<times> 'w"
  mysql_error :: "'h \<Rightarrow> 'w \<Rightarrow> string"
  mysql_gone :: "'h \<Rightarrow> 'w \<Rightarrow> bool"
  mysql_query :: "'h \<Rightarrow> string \<Rightarrow> 'w \<Rightarrow> bool \<times> 'w"
  mysql_ping :: "'h \<Rightarrow> 'w \<Rightarrow> int \<times> 'w"
  mysql_affected_rows :: "'h \<Rightarrow> 'w \<Rightarrow> int"
  mysql_store_result :: "'h \<Rightarrow> 'w \<Rightarrow> (row \<times> row list) option \<times> 'w"
  mysql_close :: "'h \<Rightarrow> 'w \<Rightarrow> 'w"

subsection \<open>Collecting rows\<close>

text \<open>\<open>each_row_common_cb_t\<close>: the rows so far, and the column names unless they are not wanted.\<close>

record row_cb =
  m_all_data :: "string list list"
  m_col_name :: "string list option"

definition assign :: "string option \<Rightarrow> string" where
  "assign p = (case p of None \<Rightarrow> [] | Some s \<Rightarrow> s)"

definition row_callback :: "row \<Rightarrow> row \<Rightarrow> row_cb \<Rightarrow> row_cb" where
  "row_callback names datas cb = cb\<lparr>m_all_data := m_all_data cb @ [map assign datas],
     m_col_name := (case m_col_name cb of Some [] \<Rightarrow> Some (map (\<lambda>n. cstr (assign n)) names) | c \<Rightarrow> c)\<rparr>"

subsection \<open>\<open>sqlite_ops_t\<close>\<close>

record 'h sqlite_ops_t =
  m_sqlite :: "'h option"
  sq_connected :: bool
  sq_error :: string
  sq_affected_rows_num :: int

definition new_sqlite_ops :: "'h sqlite_ops_t" where
  "new_sqlite_ops = \<lparr>m_sqlite = None, sq_connected = False, sq_error = [], sq_affected_rows_num = 0\<rparr>"

definition sq_clear_env :: "'h sqlite_ops_t \<Rightarrow> 'h sqlite_ops_t" where
  "sq_clear_env d = d\<lparr>sq_affected_rows_num := 0, sq_error := []\<rparr>"

definition sq_close :: "('w, 'h) db_lib \<Rightarrow> 'h sqlite_ops_t \<times> 'w \<Rightarrow> 'h sqlite_ops_t \<times> 'w" where
  "sq_close lib = (\<lambda>(d, w). case m_sqlite d of
     Some h \<Rightarrow> (d\<lparr>m_sqlite := None\<rparr>, sqlite3_close lib h w) | None \<Rightarrow> (d, w))"

definition sq_connect :: "('w, 'h) db_lib \<Rightarrow> string \<Rightarrow> 'h sqlite_ops_t \<times> 'w \<Rightarrow> int \<times> 'h sqlite_ops_t \<times> 'w" where
  "sq_connect lib args = (\<lambda>(d, w). let (d1, w1) = sq_close lib (sq_clear_env d, w);
       (ok, h, w2) = sqlite3_open lib (cstr args) w1
     in if ok then (0, d1\<lparr>m_sqlite := Some h, sq_connected := True\<rparr>, w2)
        else (- 1, d1\<lparr>m_sqlite := Some h, sq_connected := False, sq_error := cstr (sqlite3_errmsg lib h w2)\<rparr>, w2))"

text \<open>\<open>default_callback\<close> counts every row and passes it on, the length of a value being \<open>strlen\<close>.\<close>

definition default_callback :: "row \<Rightarrow> row \<Rightarrow> 'h sqlite_ops_t \<times> row_cb option \<Rightarrow> 'h sqlite_ops_t \<times> row_cb option" where
  "default_callback names datas = (\<lambda>(d, cb). (d\<lparr>sq_affected_rows_num := sq_affected_rows_num d + 1\<rparr>,
     map_option (row_callback names (map (map_option cstr) datas)) cb))"

text \<open>On a closed handle \<open>sqlite3_exec\<close> is a misuse that returns an error without a text.\<close>

definition sq_exe_sql ::
  "('w, 'h) db_lib \<Rightarrow> string \<Rightarrow> row_cb option \<Rightarrow> 'h sqlite_ops_t \<times> 'w \<Rightarrow> int \<times> row_cb option \<times> 'h sqlite_ops_t \<times> 'w" where
  "sq_exe_sql lib sql cb = (\<lambda>(d, w). let d1 = sq_clear_env d in case m_sqlite d of
     None \<Rightarrow> (- 1, cb, d1, w)
   | Some h \<Rightarrow> (let (rows, err, w1) = sqlite3_exec lib h (cstr sql) w;
        (d2, cb2) = fold (\<lambda>(names, datas). default_callback names datas) rows (d1, cb)
      in case err of
           None \<Rightarrow> (0, cb2, d2, w1)
         | Some msg \<Rightarrow> (- 1, cb2, (case msg of Some m \<Rightarrow> d2\<lparr>sq_error := cstr m\<rparr> | None \<Rightarrow> d2), w1)))"

datatype transaction = Begin_transaction | Commit_transaction | Rollback_transaction

fun sq_transaction_sql :: "transaction \<Rightarrow> string" where
  "sq_transaction_sql Begin_transaction = ''begin transaction''"
| "sq_transaction_sql Commit_transaction = ''commit transaction''"
| "sq_transaction_sql Rollback_transaction = ''rollback transaction''"

definition sq_transaction :: "('w, 'h) db_lib \<Rightarrow> transaction \<Rightarrow> 'h sqlite_ops_t \<times> 'w \<Rightarrow> 'h sqlite_ops_t \<times> 'w" where
  "sq_transaction lib t dw = snd (snd (sq_exe_sql lib (sq_transaction_sql t) None dw))"

subsection \<open>\<open>mysql_ops_t\<close>\<close>

record 'h mysql_ops_t =
  m_host_arg :: string
  m_mysql :: "'h option"
  my_connected :: bool
  my_error :: string
  my_affected_rows_num :: int

definition new_mysql_ops :: "'h mysql_ops_t" where
  "new_mysql_ops = \<lparr>m_host_arg = [], m_mysql = None, my_connected = False, my_error = [], my_affected_rows_num = 0\<rparr>"

definition my_clear_env :: "'h mysql_ops_t \<Rightarrow> 'h mysql_ops_t" where
  "my_clear_env d = d\<lparr>my_affected_rows_num := 0, my_error := []\<rparr>"

definition my_close :: "('w, 'h) db_lib \<Rightarrow> 'h mysql_ops_t \<times> 'w \<Rightarrow> ('h mysql_ops_t \<times> 'w) exc" where
  "my_close lib = (\<lambda>(d, w). if my_connected d
     then (case m_mysql d of Some h \<Rightarrow> Inr (d\<lparr>my_connected := False\<rparr>, mysql_close lib h w) | None \<Rightarrow> Inl Dangling)
     else Inr (d, w))"

text \<open>\<open>host:port/user/passwd/db\<close>: host, port, user, password and database, or the error of a string with too
  few parts. \<open>host_vt[0]\<close> is read without a test.\<close>

definition parse_host :: "string \<Rightarrow> (string \<times> string \<times> string \<times> string \<times> string) option exc" where
  "parse_host arg = (let str_vt = vt_of arg ''/'' in
     if length str_vt < 3 then Inr None
     else (let host_vt = vt_of (str_vt ! 0) '':'' in
       if host_vt = [] then Inl Out_of_range
       else Inr (Some (host_vt ! 0, if length host_vt \<ge> 2 then host_vt ! 1 else ''3306'', str_vt ! 1, str_vt ! 2,
          if length str_vt \<ge> 4 then str_vt ! 3 else []))))"

definition my_connect :: "('w, 'h) db_lib \<Rightarrow> string \<Rightarrow> 'h mysql_ops_t \<times> 'w \<Rightarrow> (int \<times> 'h mysql_ops_t \<times> 'w) exc" where
  "my_connect lib args = (\<lambda>(d, w). case my_close lib (my_clear_env d, w) of Inl e \<Rightarrow> Inl e
   | Inr (d1, w1) \<Rightarrow> (let d2 = d1\<lparr>my_connected := False, m_host_arg := args\<rparr> in case parse_host args of Inl e \<Rightarrow> Inl e
   | Inr None \<Rightarrow> Inr (- 1, d2, w1)
   | Inr (Some (host, port, user, passwd, db)) \<Rightarrow>
       (let (ok, h, w2) = mysql_init lib w1; d3 = d2\<lparr>m_mysql := Some h\<rparr> in
        if \<not> ok then Inr (- 1, d3\<lparr>my_error := cstr (mysql_error lib h w2)\<rparr>, w2)
        else let w3 = mysql_options lib h ''MYSQL_SET_CHARSET_NAME'' w2;
          (ok, w4) = mysql_real_connect lib h (cstr host) (cstr user) (cstr passwd) (cstr db) (atoi port) w3 in
          if \<not> ok then Inr (- 1, d3\<lparr>my_error := cstr (mysql_error lib h w4)\<rparr>, w4)
          else Inr (0, d3\<lparr>my_connected := True\<rparr>, mysql_options lib h ''MYSQL_OPT_RECONNECT'' w4))))"

text \<open>The statement, sent a second time after a lost connection.\<close>

definition my_query_retry :: "('w, 'h) db_lib \<Rightarrow> 'h \<Rightarrow> string \<Rightarrow> 'w \<Rightarrow> bool \<times> 'w" where
  "my_query_retry lib h sql w = (let (ok, w1) = mysql_query lib h sql w in
     if ok then (True, w1)
     else if mysql_gone lib h w1 then mysql_query lib h sql (snd (mysql_ping lib h w1))
     else (False, w1))"

definition my_exe_sql ::
  "('w, 'h) db_lib \<Rightarrow> string \<Rightarrow> row_cb option \<Rightarrow> 'h mysql_ops_t \<times> 'w \<Rightarrow> (int \<times> row_cb option \<times> 'h mysql_ops_t \<times> 'w) exc" where
  "my_exe_sql lib sql cb = (\<lambda>(d, w). let d1 = my_clear_env d in case m_mysql d of
     None \<Rightarrow> Inl Dangling
   | Some h \<Rightarrow> (let (ok, w1) = my_query_retry lib h (cstr sql) w in
       if \<not> ok then Inr (- 1, cb, d1\<lparr>my_error := cstr (mysql_error lib h w1)\<rparr>, w1)
       else let d2 = d1\<lparr>my_affected_rows_num := mysql_affected_rows lib h w1\<rparr> in case cb of
         None \<Rightarrow> Inr (0, None, d2, w1)
       | Some c \<Rightarrow> (case mysql_store_result lib h w1 of
            (None, w2) \<Rightarrow> Inr (0, Some c, d2, w2)
          | (Some (names, rows), w2) \<Rightarrow> Inr (0, Some (fold (row_callback names) rows c), d2, w2))))"

definition my_ping :: "('w, 'h) db_lib \<Rightarrow> 'h mysql_ops_t \<times> 'w \<Rightarrow> (int \<times> 'h mysql_ops_t \<times> 'w) exc" where
  "my_ping lib = (\<lambda>(d, w). case m_mysql d of None \<Rightarrow> Inl Dangling
   | Some h \<Rightarrow> (let (r, w1) = mysql_ping lib h w in Inr (r, d, w1)))"

fun my_transaction_sql :: "transaction \<Rightarrow> string" where
  "my_transaction_sql Begin_transaction = ''START TRANSACTION;''"
| "my_transaction_sql Commit_transaction = ''COMMIT;''"
| "my_transaction_sql Rollback_transaction = ''ROLLBACK;''"

definition my_transaction :: "('w, 'h) db_lib \<Rightarrow> transaction \<Rightarrow> 'h mysql_ops_t \<times> 'w \<Rightarrow> ('h mysql_ops_t \<times> 'w) exc" where
  "my_transaction lib t dw = (case my_exe_sql lib (my_transaction_sql t) None dw of Inl e \<Rightarrow> Inl e | Inr (_, _, dw1) \<Rightarrow> Inr dw1)"

subsection \<open>\<open>ffdb_t\<close>\<close>

datatype 'h db_ops = Sqlite_ops "'h sqlite_ops_t" | Mysql_ops "'h mysql_ops_t"

type_synonym 'h ffdb_t = "'h db_ops option"

definition new_ffdb :: "'h ffdb_t" where
  "new_ffdb = None"

definition db_close :: "('w, 'h) db_lib \<Rightarrow> 'h ffdb_t \<times> 'w \<Rightarrow> ('h ffdb_t \<times> 'w) exc" where
  "db_close lib = (\<lambda>(db, w). case db of
     None \<Rightarrow> Inr (None, w)
   | Some (Sqlite_ops d) \<Rightarrow> Inr (None, snd (sq_close lib (d, w)))
   | Some (Mysql_ops d) \<Rightarrow> (case my_close lib (d, w) of Inl e \<Rightarrow> Inl e | Inr (_, w1) \<Rightarrow> Inr (None, w1)))"

text \<open>The build option \<open>FF_ENABLE_SQLITE\<close> is an argument. The driver stays in place when it could not
  connect.\<close>

definition db_connect :: "bool \<Rightarrow> ('w, 'h) db_lib \<Rightarrow> string \<Rightarrow> 'h ffdb_t \<times> 'w \<Rightarrow> (int \<times> 'h ffdb_t \<times> 'w) exc" where
  "db_connect ff_enable_sqlite lib args dw = (case db_close lib dw of Inl e \<Rightarrow> Inl e
   | Inr (_, w) \<Rightarrow> (case vt_of args ''://'' of
        [driver, rest] \<Rightarrow>
          (if driver = ''sqlite''
           then (if ff_enable_sqlite
                 then (let (r, d, w1) = sq_connect lib rest (new_sqlite_ops, w) in Inr (r, Some (Sqlite_ops d), w1))
                 else Inr (- 1, None, w))
           else (case my_connect lib rest (new_mysql_ops, w) of Inl e \<Rightarrow> Inl e
             | Inr (r, d, w1) \<Rightarrow> Inr (r, Some (Mysql_ops d), w1)))
      | _ \<Rightarrow> Inr (- 1, None, w)))"

definition db_is_connected :: "'h ffdb_t \<Rightarrow> bool" where
  "db_is_connected db = (case db of None \<Rightarrow> False | Some (Sqlite_ops d) \<Rightarrow> sq_connected d | Some (Mysql_ops d) \<Rightarrow> my_connected d)"

definition db_affected_rows :: "'h ffdb_t \<Rightarrow> int" where
  "db_affected_rows db = (case db of None \<Rightarrow> 0 | Some (Sqlite_ops d) \<Rightarrow> sq_affected_rows_num d | Some (Mysql_ops d) \<Rightarrow> my_affected_rows_num d)"

definition db_error_msg :: "'h ffdb_t \<Rightarrow> string" where
  "db_error_msg db = (case db of None \<Rightarrow> ''none connection'' | Some (Sqlite_ops d) \<Rightarrow> sq_error d | Some (Mysql_ops d) \<Rightarrow> my_error d)"

definition db_exe :: "('w, 'h) db_lib \<Rightarrow> string \<Rightarrow> row_cb option \<Rightarrow> 'h ffdb_t \<times> 'w \<Rightarrow> (int \<times> row_cb option \<times> 'h ffdb_t \<times> 'w) exc" where
  "db_exe lib sql cb = (\<lambda>(db, w). case db of
     None \<Rightarrow> Inr (- 1, cb, None, w)
   | Some (Sqlite_ops d) \<Rightarrow> (let (r, cb1, d1, w1) = sq_exe_sql lib sql cb (d, w) in Inr (r, cb1, Some (Sqlite_ops d1), w1))
   | Some (Mysql_ops d) \<Rightarrow> (case my_exe_sql lib sql cb (d, w) of Inl e \<Rightarrow> Inl e
      | Inr (r, cb1, d1, w1) \<Rightarrow> Inr (r, cb1, Some (Mysql_ops d1), w1)))"

text \<open>The three forms of \<open>exe_sql\<close>: without rows, with rows, with rows and column names.\<close>

definition exe_sql :: "('w, 'h) db_lib \<Rightarrow> string \<Rightarrow> 'h ffdb_t \<times> 'w \<Rightarrow> (int \<times> 'h ffdb_t \<times> 'w) exc" where
  "exe_sql lib sql dw = (case db_exe lib sql None dw of Inl e \<Rightarrow> Inl e | Inr (r, _, dw1) \<Rightarrow> Inr (r, dw1))"

definition exe_sql_data ::
  "('w, 'h) db_lib \<Rightarrow> string \<Rightarrow> string list list \<Rightarrow> 'h ffdb_t \<times> 'w \<Rightarrow> (int \<times> string list list \<times> 'h ffdb_t \<times> 'w) exc" where
  "exe_sql_data lib sql ret_data dw =
    (case db_exe lib sql (Some \<lparr>m_all_data = ret_data, m_col_name = None\<rparr>) dw of Inl e \<Rightarrow> Inl e
     | Inr (r, cb, dw1) \<Rightarrow> Inr (r, (case cb of Some c \<Rightarrow> m_all_data c | None \<Rightarrow> ret_data), dw1))"

definition exe_sql_cols ::
  "('w, 'h) db_lib \<Rightarrow> string \<Rightarrow> string list list \<Rightarrow> string list \<Rightarrow> 'h ffdb_t \<times> 'w \<Rightarrow>
   (int \<times> string list list \<times> string list \<times> 'h ffdb_t \<times> 'w) exc" where
  "exe_sql_cols lib sql ret_data col_names dw =
    (case db_exe lib sql (Some \<lparr>m_all_data = ret_data, m_col_name = Some col_names\<rparr>) dw of Inl e \<Rightarrow> Inl e
     | Inr (r, cb, dw1) \<Rightarrow> Inr (r, (case cb of Some c \<Rightarrow> m_all_data c | None \<Rightarrow> ret_data),
          (case cb of Some c \<Rightarrow> (case m_col_name c of Some cs \<Rightarrow> cs | None \<Rightarrow> col_names) | None \<Rightarrow> col_names), dw1))"

definition db_ping :: "('w, 'h) db_lib \<Rightarrow> 'h ffdb_t \<times> 'w \<Rightarrow> (int \<times> 'h ffdb_t \<times> 'w) exc" where
  "db_ping lib = (\<lambda>(db, w). case db of
     None \<Rightarrow> Inr (- 1, None, w)
   | Some (Sqlite_ops d) \<Rightarrow> Inr (0, db, w)
   | Some (Mysql_ops d) \<Rightarrow> (case my_ping lib (d, w) of Inl e \<Rightarrow> Inl e | Inr (r, d1, w1) \<Rightarrow> Inr (r, Some (Mysql_ops d1), w1)))"

text \<open>\<open>dump\<close> prints a result and empties it: the text and the data left.\<close>

definition dump :: "string list list \<Rightarrow> string list \<Rightarrow> string \<times> string list list" where
  "dump ret_data col_names = (concat (map (\<lambda>n. ''    '' @ cstr n) col_names) @ [CHR 0x0A] @
     concat (map (\<lambda>r. concat (map (\<lambda>v. '' '' @ cstr v) r) @ [CHR 0x0A]) ret_data), [])"

subsection \<open>What the drivers do\<close>

lemma fold_row_callback:
  "fold (\<lambda>(names, datas). row_callback names datas) rows cb =
    cb\<lparr>m_all_data := m_all_data cb @ map (\<lambda>(_, datas). map assign datas) rows,
       m_col_name := m_col_name (fold (\<lambda>(names, datas). row_callback names datas) rows cb)\<rparr>"
proof (induction rows arbitrary: cb)
  case (Cons r rows)
  obtain names datas where r: "r = (names, datas)" by fastforce
  show ?case by (simp add: r) (subst Cons.IH, simp add: row_callback_def)
qed simp

lemma fold_default_callback:
  "fold (\<lambda>(names, datas). default_callback names datas) rows (d, cb) =
    (d\<lparr>sq_affected_rows_num := sq_affected_rows_num d + int (length rows)\<rparr>,
     map_option (fold (\<lambda>(names, datas). row_callback names (map (map_option cstr) datas)) rows) cb)"
proof (induction rows arbitrary: d cb)
  case (Cons r rows)
  obtain names datas where r: "r = (names, datas)" by fastforce
  have "default_callback names datas (d, cb) = (d\<lparr>sq_affected_rows_num := sq_affected_rows_num d + 1\<rparr>,
      map_option (row_callback names (map (map_option cstr) datas)) cb)" by (simp add: default_callback_def)
  then show ?case by (simp add: r Cons.IH option.map_comp comp_def algebra_simps)
qed (simp add: option.map_id)

lemma fold_col_name:
  assumes "\<forall>(n, _) \<in> set rows. n = names" "names \<noteq> []" "m_col_name cb = Some cs"
  shows "m_col_name (fold (\<lambda>(names, datas). row_callback names (f datas)) rows cb) =
    Some (if cs = [] \<and> rows \<noteq> [] then map (\<lambda>n. cstr (assign n)) names else cs)"
  using assms
proof (induction rows arbitrary: cb cs)
  case (Cons r rows)
  obtain datas where r: "r = (names, datas)" using Cons.prems(1) by fastforce
  have "m_col_name (row_callback names (f datas) cb) = Some (if cs = [] then map (\<lambda>n. cstr (assign n)) names else cs)"
    using Cons.prems(3) by (cases cs) (simp_all add: row_callback_def)
  from Cons.IH [OF _ Cons.prems(2) this] Cons.prems(1,2) show ?case by (simp add: r)
qed simp

text \<open>
  What a query of SQLite returns. All rows with their values in order, empty strings for NULL, the count of
  rows in \<open>affected_rows\<close>, the return value by the library's error; the column names come with the first row,
  so a query without rows leaves them empty.
\<close>

theorem sqlite_query_collects:
  assumes "sqlite3_exec lib h (cstr sql) w = (rows, err, w1)" "\<forall>(n, _) \<in> set rows. n = names" "names \<noteq> []" "m_sqlite d = Some h"
  shows "\<exists>db1. exe_sql_cols lib sql data [] (Some (Sqlite_ops d), w) =
      Inr (if err = None then 0 else - 1, data @ map (\<lambda>(_, datas). map (\<lambda>p. cstr (assign p)) datas) rows,
           (if rows = [] then [] else map (\<lambda>n. cstr (assign n)) names), db1, w1) \<and>
    db_affected_rows db1 = int (length rows) \<and> db_error_msg db1 = (case err of Some (Some m) \<Rightarrow> cstr m | _ \<Rightarrow> [])"
proof -
  let ?cb = "\<lparr>m_all_data = data, m_col_name = Some []\<rparr>"
  let ?f = "fold (\<lambda>(names, datas). row_callback names (map (map_option cstr) datas)) rows ?cb"
  have ac: "assign (map_option cstr p) = cstr (assign p)" for p by (simp add: assign_def cstr_def split: option.split)
  have "?f = fold (\<lambda>(names, datas). row_callback names datas) (map (\<lambda>(n, ds). (n, map (map_option cstr) ds)) rows) ?cb"
    by (simp add: fold_map comp_def case_prod_unfold)
  then have data: "m_all_data ?f = data @ map (\<lambda>(_, datas). map (\<lambda>p. cstr (assign p)) datas) rows"
    by (subst (asm) fold_row_callback) (simp add: ac comp_def case_prod_unfold)
  have cols: "m_col_name ?f = Some (if rows = [] then [] else map (\<lambda>n. cstr (assign n)) names)"
    using fold_col_name [OF assms(2,3), of ?cb "[]" "map (map_option cstr)"] by simp
  show ?thesis
    by (simp add: exe_sql_cols_def db_exe_def sq_exe_sql_def assms(1,4) fold_default_callback data cols Let_def
        db_affected_rows_def db_error_msg_def sq_clear_env_def split: option.split)
qed

text \<open>The handle that a driver uses is there: a MySQL driver that says it is connected has been initialised.\<close>

definition db_wf :: "'h ffdb_t \<Rightarrow> bool" where
  "db_wf db = (case db of Some (Mysql_ops d) \<Rightarrow> my_connected d \<longrightarrow> m_mysql d \<noteq> None | _ \<Rightarrow> True)"

lemma db_close_ok: "db_wf db \<Longrightarrow> \<exists>w1. db_close lib (db, w) = Inr (None, w1)"
  by (auto simp: db_wf_def db_close_def my_close_def split: option.splits db_ops.splits)

lemma my_connect_result:
  assumes "my_connect lib args (new_mysql_ops, w) = Inr (r, d, w1)"
  shows "(r = 0 \<longleftrightarrow> my_connected d) \<and> (my_connected d \<longrightarrow> m_mysql d \<noteq> None) \<and> (m_mysql d = None \<longleftrightarrow> length (vt_of args ''/'') < 3)"
  using assms
  by (auto simp: my_connect_def my_close_def my_clear_env_def new_mysql_ops_def parse_host_def Let_def
      split: sum.splits option.splits if_splits prod.splits)

lemma sq_connect_result: "sq_connect lib args (new_sqlite_ops, w) = (r, d, w1) \<Longrightarrow> (r = 0 \<longleftrightarrow> sq_connected d) \<and> m_sqlite d \<noteq> None"
  by (auto simp: sq_connect_def sq_close_def sq_clear_env_def new_sqlite_ops_def Let_def split: if_splits prod.splits)

lemma my_exe_keeps:
  "my_exe_sql lib sql cb (d, w) = Inr (r, cb1, d1, w1) \<Longrightarrow> m_mysql d1 = m_mysql d \<and> m_mysql d \<noteq> None \<and> my_connected d1 = my_connected d"
  by (auto simp: my_exe_sql_def my_clear_env_def Let_def split: option.splits prod.splits if_splits)

lemma my_exe_defined: "(\<exists>x. my_exe_sql lib sql cb (d, w) = Inr x) \<longleftrightarrow> m_mysql d \<noteq> None"
  by (cases "m_mysql d") (auto simp: my_exe_sql_def Let_def split: option.splits prod.splits)

lemma db_exe_keeps: "db_exe lib sql cb (db, w) = Inr (r, cb1, db1, w1) \<Longrightarrow> db_wf db \<Longrightarrow> db_wf db1"
  using my_exe_keeps by (fastforce simp: db_exe_def db_wf_def split: option.splits db_ops.splits sum.splits prod.splits)

text \<open>
  Connecting. From a well-formed object \<open>connect\<close> first closes the old connection and returns 0 exactly
  if the object is then connected. After a success every statement can be executed. After a failure statements are answered with an
  error, but a MySQL address with fewer than three parts leaves a driver whose structure was never
  initialised, and the next statement uses it.
\<close>

theorem connect_outcome:
  assumes "db_wf db" "db_connect en lib args (db, w) = Inr (r, db1, w1)"
  shows "db_wf db1 \<and> (r = 0 \<longleftrightarrow> db_is_connected db1) \<and>
    ((\<exists>x. db_exe lib sql cb (db1, w1) = Inr x) \<longleftrightarrow>
      (r = 0 \<or> (\<forall>driver rest. vt_of args ''://'' = [driver, rest] \<longrightarrow> driver \<noteq> ''sqlite'' \<longrightarrow> length (vt_of rest ''/'') \<ge> 3)))"
proof -
  obtain w0 where close: "db_close lib (db, w) = Inr (None, w0)" using db_close_ok [OF assms(1), of lib w] by blast
  consider (none) "db1 = None" "r = - 1" "\<forall>driver rest. vt_of args ''://'' = [driver, rest] \<longrightarrow> driver = ''sqlite''"
    | (sqlite) rest d where "vt_of args ''://'' = [''sqlite'', rest]" "db1 = Some (Sqlite_ops d)" "sq_connect lib rest (new_sqlite_ops, w0) = (r, d, w1)"
    | (mysql) driver rest d where "vt_of args ''://'' = [driver, rest]" "driver \<noteq> ''sqlite''" "db1 = Some (Mysql_ops d)"
        "my_connect lib rest (new_mysql_ops, w0) = Inr (r, d, w1)"
    using assms(2) unfolding db_connect_def close
    by (fastforce split: list.splits if_splits sum.splits prod.splits)
  then show ?thesis
  proof cases
    case none
    then show ?thesis by (auto simp: db_wf_def db_is_connected_def db_exe_def)
  next
    case sqlite
    then show ?thesis using sq_connect_result [OF sqlite(3)] by (auto simp: db_wf_def db_is_connected_def db_exe_def split: prod.split)
  next
    case mysql
    from my_connect_result [OF mysql(4)] my_exe_defined [of lib sql cb d w1] mysql(1-3) show ?thesis
      by (auto simp: db_wf_def db_is_connected_def db_exe_def split: sum.splits prod.splits)
  qed
qed

text \<open>An instance of the libraries for the witnesses: it records the statements by the name of the database and
  answers a \<open>select\<close> with one row of two columns, the second NULL.\<close>

definition sample_lib :: "((string \<times> string) list, string) db_lib" where
  "sample_lib = \<lparr>sqlite3_open = (\<lambda>name w. (name \<noteq> [], name, w)), sqlite3_errmsg = (\<lambda>_ _. ''unable to open''),
     sqlite3_exec = (\<lambda>h sql w. (if starts ''select'' sql then [([Some ''id'', Some ''name''], [Some ''7'', None])] else [], None, w @ [(h, sql)])),
     sqlite3_close = (\<lambda>_ w. w), mysql_init = (\<lambda>w. (True, ''mysql'', w)), mysql_options = (\<lambda>_ _ w. w),
     mysql_real_connect = (\<lambda>_ host _ _ _ _ w. (host = ''db'', w)), mysql_error = (\<lambda>_ _. ''access denied''), mysql_gone = (\<lambda>_ _. False),
     mysql_query = (\<lambda>h sql w. (True, w @ [(h, sql)])), mysql_ping = (\<lambda>_ w. (0, w)), mysql_affected_rows = (\<lambda>_ _. 0),
     mysql_store_result = (\<lambda>_ w. (None, w)), mysql_close = (\<lambda>_ w. w)\<rparr>"

theorem sqlite_query_collects_witness:
  "\<exists>db1. exe_sql_cols sample_lib ''select * from t'' [] [] (Some (Sqlite_ops (new_sqlite_ops\<lparr>m_sqlite := Some ''a.db''\<rparr>)), []) =
      Inr (0, [[''7'', []]], [''id'', ''name''], db1, [(''a.db'', ''select * from t'')])"
  using sqlite_query_collects [of sample_lib "''a.db''" "''select * from t''" "[]" "[([Some ''id'', Some ''name''], [Some ''7'', None])]" None
      "[(''a.db'', ''select * from t'')]" "[Some ''id'', Some ''name'']" "new_sqlite_ops\<lparr>m_sqlite := Some ''a.db''\<rparr>" "[]"]
  by (auto simp: sample_lib_def starts_def cstr_def assign_def)

theorem connect_outcome_witness:
  "\<exists>r db1 w1. db_connect True sample_lib ''mysql://db:3306/user'' (None, []) = Inr (r, db1, w1) \<and> r = - 1 \<and>
    \<not> (\<exists>x. db_exe sample_lib ''select 1'' None (db1, w1) = Inr x)"
proof -
  have c: "db_connect True sample_lib ''mysql://db:3306/user'' (None, []) =
      Inr (- 1, Some (Mysql_ops (new_mysql_ops\<lparr>m_host_arg := ''db:3306/user''\<rparr>)), [])"
    by code_simp
  have v: "vt_of ''mysql://db:3306/user'' ''://'' = [''mysql'', ''db:3306/user'']" "length (vt_of ''db:3306/user'' ''/'') = 2"
    by code_simp+
  have "\<not> (\<exists>x. db_exe sample_lib ''select 1'' None (Some (Mysql_ops (new_mysql_ops\<lparr>m_host_arg := ''db:3306/user''\<rparr>)), []) = Inr x)"
    using connect_outcome [OF _ c, of "''select 1''" None] v by (simp add: db_wf_def)
  with c show ?thesis by blast
qed

end
