(* ===== verification/Ffcount.thy ===== *)
theory Ffcount
  imports Rpc_Callback Ffdb Log
begin

section \<open>Event logs\<close>

text \<open>
  The first half of \<^verbatim>\<open>count/ffcount.h\<close>: the messages \<open>event_log_t\<close> and \<open>event_queryt_t\<close>, the conversion of
  values through one string stream (\<open>def\<close>), and \<open>ffcount_t\<close>, which turns an event into SQL statements. The
  statement is printed piece by piece into a buffer of 1024 bytes; writing behind it is \<open>Out_of_range\<close>.
\<close>

subsection \<open>The messages\<close>

record event_log_t = msg_i +
  m_db_name :: string
  m_table_name :: string
  m_field_names :: string
  m_values :: "string list"

definition new_event_log :: "string \<Rightarrow> string \<Rightarrow> string \<Rightarrow> event_log_t" where
  "new_event_log db table field_names = msg_i.extend (new_msg_i ''event_log_t'') (event_log_t.fields db table field_names [])"

definition encode_event_log :: "event_log_t \<Rightarrow> event_log_t \<times> string" where
  "encode_event_log m = get_buff (put_enc (enc_string (m_db_name m) @ enc_string (m_table_name m) @ enc_string (m_field_names m) @
     enc_vector enc_string (m_values m)) (init_encoder m))"

definition decode_event_log :: "string \<Rightarrow> event_log_t \<Rightarrow> event_log_t dres" where
  "decode_event_log s m =
     dec_push dec_string m_values (\<lambda>v m. m\<lparr>m_values := v\<rparr>)
       (dec_into dec_string (\<lambda>v m. m\<lparr>m_field_names := v\<rparr>)
         (dec_into dec_string (\<lambda>v m. m\<lparr>m_table_name := v\<rparr>)
           (dec_into dec_string (\<lambda>v m. m\<lparr>m_db_name := v\<rparr>) (init_decoder s m))))"

record event_query_in = msg_i +
  q_str_time :: string
  q_db_name :: string
  q_sql :: string

definition new_event_query_in :: event_query_in where
  "new_event_query_in = msg_i.extend (new_msg_i ''event_queryt_t::in_t'') (event_query_in.fields [] ''default'' [])"

definition encode_event_query_in :: "event_query_in \<Rightarrow> event_query_in \<times> string" where
  "encode_event_query_in m = get_buff (put_enc (enc_string (q_str_time m) @ enc_string (q_db_name m) @ enc_string (q_sql m)) (init_encoder m))"

definition decode_event_query_in :: "string \<Rightarrow> event_query_in \<Rightarrow> event_query_in dres" where
  "decode_event_query_in s m =
     dec_into dec_string (\<lambda>v m. m\<lparr>q_sql := v\<rparr>)
       (dec_into dec_string (\<lambda>v m. m\<lparr>q_db_name := v\<rparr>)
         (dec_into dec_string (\<lambda>v m. m\<lparr>q_str_time := v\<rparr>) (init_decoder s m)))"

record event_query_out = msg_i +
  q_ret_data :: "string list list"
  q_col_names :: "string list"
  q_err_msg :: string

definition new_event_query_out :: event_query_out where
  "new_event_query_out = msg_i.extend (new_msg_i ''event_queryt_t::out_t'') (event_query_out.fields [] [] [])"

definition encode_event_query_out :: "event_query_out \<Rightarrow> event_query_out \<times> string" where
  "encode_event_query_out m = get_buff (put_enc (enc_vector (enc_vector enc_string) (q_ret_data m) @ enc_vector enc_string (q_col_names m) @
     enc_string (q_err_msg m)) (init_encoder m))"

definition decode_event_query_out :: "string \<Rightarrow> event_query_out \<Rightarrow> event_query_out dres" where
  "decode_event_query_out s m =
     dec_into dec_string (\<lambda>v m. m\<lparr>q_err_msg := v\<rparr>)
       (dec_push dec_string q_col_names (\<lambda>v m. m\<lparr>q_col_names := v\<rparr>)
         (dec_push (dec_vector dec_string []) q_ret_data (\<lambda>v m. m\<lparr>q_ret_data := v\<rparr>) (init_decoder s m)))"

text \<open>All three are codecs of the RPC layer's messages, with its laws.\<close>

interpretation vec_vec_strw: wire "enc_vector (enc_vector enc_string)" "dec_vector (dec_vector dec_string []) []"
  "\<lambda>xs. length xs < 2 ^ 32 \<and> (\<forall>x \<in> set xs. length x < 2 ^ 32 \<and> (\<forall>s \<in> set x. length s < 2 ^ 32))"
  by (rule vec_strw.vector_wire)

definition small :: "string \<Rightarrow> bool" where
  "small s \<longleftrightarrow> length s < 2 ^ 32"

definition image_event_log :: "event_log_t \<Rightarrow> string" where
  "image_event_log m = (((head_image m @ enc_string (m_db_name m)) @ enc_string (m_table_name m)) @ enc_string (m_field_names m)) @
     enc_vector enc_string (m_values m)"

definition fill_event_log :: "event_log_t \<Rightarrow> event_log_t \<Rightarrow> event_log_t" where
  "fill_event_log m m0 = (head_from m m0)\<lparr>m_db_name := m_db_name m, m_table_name := m_table_name m, m_field_names := m_field_names m,
     m_values := m_values m0 @ m_values m\<rparr>"

definition ok_event_log :: "event_log_t \<Rightarrow> bool" where
  "ok_event_log m \<longleftrightarrow> \<not> encode_name m \<and> small (m_db_name m) \<and> small (m_table_name m) \<and> small (m_field_names m) \<and>
     length (m_values m) < 2 ^ 32 \<and> (\<forall>v \<in> set (m_values m). small v)"

interpretation event_log: msg_codec encode_event_log decode_event_log image_event_log fill_event_log ok_event_log
proof
  show "decodes decode_event_log (image_event_log m) (fill_event_log m)" if "ok_event_log m" for m
    unfolding decode_event_log_def [abs_def] image_event_log_def
    by (rule decodes_cong, (rule decodes_fields decodes_head)+)
      (use that in \<open>simp_all add: ok_event_log_def small_def fill_event_log_def head_from_def\<close>)
qed (simp_all add: encode_event_log_def encode_unfold image_event_log_def)

definition image_event_query_in :: "event_query_in \<Rightarrow> string" where
  "image_event_query_in m = ((head_image m @ enc_string (q_str_time m)) @ enc_string (q_db_name m)) @ enc_string (q_sql m)"

definition fill_event_query_in :: "event_query_in \<Rightarrow> event_query_in \<Rightarrow> event_query_in" where
  "fill_event_query_in m m0 = (head_from m m0)\<lparr>q_str_time := q_str_time m, q_db_name := q_db_name m, q_sql := q_sql m\<rparr>"

definition ok_event_query_in :: "event_query_in \<Rightarrow> bool" where
  "ok_event_query_in m \<longleftrightarrow> \<not> encode_name m \<and> small (q_str_time m) \<and> small (q_db_name m) \<and> small (q_sql m)"

interpretation event_query_in: msg_codec encode_event_query_in decode_event_query_in image_event_query_in fill_event_query_in ok_event_query_in
proof
  show "decodes decode_event_query_in (image_event_query_in m) (fill_event_query_in m)" if "ok_event_query_in m" for m
    unfolding decode_event_query_in_def [abs_def] image_event_query_in_def
    by (rule decodes_cong, (rule decodes_fields decodes_head)+)
      (use that in \<open>simp_all add: ok_event_query_in_def small_def fill_event_query_in_def head_from_def\<close>)
qed (simp_all add: encode_event_query_in_def encode_unfold image_event_query_in_def)

definition image_event_query_out :: "event_query_out \<Rightarrow> string" where
  "image_event_query_out m = ((head_image m @ enc_vector (enc_vector enc_string) (q_ret_data m)) @ enc_vector enc_string (q_col_names m)) @
     enc_string (q_err_msg m)"

definition fill_event_query_out :: "event_query_out \<Rightarrow> event_query_out \<Rightarrow> event_query_out" where
  "fill_event_query_out m m0 = (head_from m m0)\<lparr>q_ret_data := q_ret_data m0 @ q_ret_data m, q_col_names := q_col_names m0 @ q_col_names m,
     q_err_msg := q_err_msg m\<rparr>"

definition ok_event_query_out :: "event_query_out \<Rightarrow> bool" where
  "ok_event_query_out m \<longleftrightarrow> \<not> encode_name m \<and> small (q_err_msg m) \<and> length (q_col_names m) < 2 ^ 32 \<and> (\<forall>c \<in> set (q_col_names m). small c) \<and>
     length (q_ret_data m) < 2 ^ 32 \<and> (\<forall>r \<in> set (q_ret_data m). length r < 2 ^ 32 \<and> (\<forall>v \<in> set r. small v))"

interpretation event_query_out: msg_codec encode_event_query_out decode_event_query_out image_event_query_out fill_event_query_out ok_event_query_out
proof
  show "decodes decode_event_query_out (image_event_query_out m) (fill_event_query_out m)" if "ok_event_query_out m" for m
    unfolding decode_event_query_out_def [abs_def] image_event_query_out_def
    by (rule decodes_cong, (rule decodes_fields decodes_push [OF vec_vec_strw.wire_axioms] decodes_head)+)
      (use that in \<open>simp_all add: ok_event_query_out_def small_def fill_event_query_out_def head_from_def\<close>)
qed (simp_all add: encode_event_query_out_def encode_unfold image_event_query_out_def)

subsection \<open>Values through a string stream\<close>

text \<open>
  \<open>def\<close> prints every argument to one \<open>stringstream\<close>, reads a word and calls \<open>clear\<close>, which resets the flags
  but keeps the text that was not read. \<open>stream_word\<close> is \<open>ss >> ret\<close>: it skips blanks and reads up to the
  next one; the second component stays in the stream.
\<close>

definition stream_word :: "string \<Rightarrow> string \<times> string" where
  "stream_word buf = (let s = dropWhile is_blank buf in (takeWhile (\<lambda>c. \<not> is_blank c) s, dropWhile (\<lambda>c. \<not> is_blank c) s))"

fun def_loop :: "string \<Rightarrow> farg list \<Rightarrow> string list \<Rightarrow> string list" where
  "def_loop ss [] values = values"
| "def_loop ss (arg # args) values =
    (let (ret, rest) = stream_word (ss @ show_arg arg) in def_loop rest args (values @ [ret]))"

definition def_values :: "farg list \<Rightarrow> event_log_t \<Rightarrow> event_log_t" where
  "def_values args m = m\<lparr>m_values := def_loop [] args (m_values m)\<rparr>"

lemma stream_word_plain: "\<forall>c \<in> set s. \<not> is_blank c \<Longrightarrow> stream_word s = (s, [])"
proof -
  assume s: "\<forall>c \<in> set s. \<not> is_blank c"
  then have "dropWhile is_blank s = s" by (cases s) auto
  with s show ?thesis by (simp add: stream_word_def takeWhile_eq_all_conv dropWhile_eq_Nil_conv)
qed

lemma def_loop_plain:
  "\<forall>a \<in> set args. \<forall>c \<in> set (show_arg a). \<not> is_blank c \<Longrightarrow> def_loop [] args vs = vs @ map show_arg args"
  by (induction args arbitrary: vs) (auto simp: stream_word_plain)

text \<open>A value with a blank is cut, and its rest goes in front of the next value.\<close>

lemma def_blank_shifts: "def_loop [] [FStr ''big sword'', FInt 5] [] = [''big'', ''sword5'']"
  by code_simp

subsection \<open>\<open>ffcount_t\<close>\<close>

record 'h ffcount_t =
  m_ffdb :: "'h ffdb_t"
  m_table2fields :: "(string, string oset) omap"

definition new_ffcount :: "'h ffcount_t" where
  "new_ffcount = \<lparr>m_ffdb = new_ffdb, m_table2fields = []\<rparr>"

text \<open>\<open>m_table2fields[table]\<close> enters an empty set for a new table.\<close>

definition fields_at :: "string \<Rightarrow> 'h ffcount_t \<Rightarrow> string oset" where
  "fields_at table c = (case map_of (m_table2fields c) table of Some fs \<Rightarrow> fs | None \<Rightarrow> [])"

definition set_fields :: "string \<Rightarrow> string oset \<Rightarrow> 'h ffcount_t \<Rightarrow> 'h ffcount_t" where
  "set_fields table fs c = c\<lparr>m_table2fields := om_put table fs (m_table2fields c)\<rparr>"

definition init_fields :: "('w, 'h) db_lib \<Rightarrow> string \<Rightarrow> 'h ffcount_t \<times> 'w \<Rightarrow> ('h ffcount_t \<times> 'w) exc" where
  "init_fields lib table = (\<lambda>(c, w).
     case exe_sql_cols lib (''select * from '' @ table @ '' limit 1'') [] [] (m_ffdb c, w) of Inl e \<Rightarrow> Inl e
     | Inr (_, _, col_names, db1, w1) \<Rightarrow>
         Inr (set_fields table (fold os_insert col_names (fields_at table c)) (c\<lparr>m_ffdb := db1\<rparr>), w1))"

text \<open>One turn of the loop that adds the columns the table does not have; the result of the statement is not
  looked at.\<close>

definition alter_sql :: "string \<Rightarrow> string \<Rightarrow> string" where
  "alter_sql table field = ''ALTER TABLE '' @ table @ '' ADD '' @ field @ '' varchar(255) default '' @ [quote, quote]"

definition add_field :: "('w, 'h) db_lib \<Rightarrow> string \<Rightarrow> string \<Rightarrow> 'h ffcount_t \<times> 'w \<Rightarrow> ('h ffcount_t \<times> 'w) exc" where
  "add_field lib table field = (\<lambda>(c, w).
     if field \<in> set (fields_at table c) then Inr (c, w)
     else (case exe_sql lib (alter_sql table field) (m_ffdb c, w) of Inl e \<Rightarrow> Inl e
       | Inr (_, db1, w1) \<Rightarrow> Inr (set_fields table (os_insert field (fields_at table c)) (c\<lparr>m_ffdb := db1\<rparr>), w1)))"

fun add_fields :: "('w, 'h) db_lib \<Rightarrow> string \<Rightarrow> string list \<Rightarrow> 'h ffcount_t \<times> 'w \<Rightarrow> ('h ffcount_t \<times> 'w) exc" where
  "add_fields lib table [] cw = Inr cw"
| "add_fields lib table (f # fs) cw = (case add_field lib table f cw of Inl e \<Rightarrow> Inl e | Inr cw1 \<Rightarrow> add_fields lib table fs cw1)"

text \<open>
  \<open>n += snprintf(buff + n, sizeof(buff) - n, \<dots>)\<close>: \<open>snprintf\<close> returns the length it would have liked, so \<open>n\<close>
  may pass the size; the next call then writes behind the buffer with a size that has wrapped around.
\<close>

definition bprintf :: "nat \<Rightarrow> string \<Rightarrow> string \<times> nat \<Rightarrow> (string \<times> nat) exc" where
  "bprintf sz s = (\<lambda>(buff, n). if n > sz then Inl Out_of_range else Inr (buff @ take (sz - n - 1) s, n + length s))"

fun bprintfs :: "nat \<Rightarrow> string list \<Rightarrow> string \<times> nat \<Rightarrow> (string \<times> nat) exc" where
  "bprintfs sz [] bn = Inr bn"
| "bprintfs sz (s # ss) bn = (case bprintf sz s bn of Inl e \<Rightarrow> Inl e | Inr bn1 \<Rightarrow> bprintfs sz ss bn1)"

text \<open>The loops over field names and over escaped values, separated by commas.\<close>

definition comma_list :: "(string \<Rightarrow> string) \<Rightarrow> string list \<Rightarrow> string list" where
  "comma_list f xs = map (\<lambda>(i, x). (if i = 0 then [] else '','') @ f x) (enumerate 0 xs)"

fun escape_all :: "string list \<Rightarrow> string list exc" where
  "escape_all [] = Inr []"
| "escape_all (v # vs) = (case escape v of Inl e \<Rightarrow> Inl e | Inr x \<Rightarrow> (case escape_all vs of Inl e \<Rightarrow> Inl e | Inr xs \<Rightarrow> Inr (x # xs)))"

definition insert_pieces :: "string \<Rightarrow> string list \<Rightarrow> string list \<Rightarrow> string list" where
  "insert_pieces table fnames escs = [''INSERT INTO '' @ cstr table @ '' (''] @ comma_list cstr fnames @ ['') VALUES (''] @
     comma_list (\<lambda>v. [quote] @ cstr v @ [quote]) escs @ ['')'']"

definition save_event :: "('w, 'h) db_lib \<Rightarrow> event_log_t \<Rightarrow> 'h ffcount_t \<times> 'w \<Rightarrow> (int \<times> 'h ffcount_t \<times> 'w) exc" where
  "save_event lib ev = (\<lambda>(c, w).
     let table = m_table_name ev; str_vt = vt_of (m_field_names ev) '','';
         c0 = set_fields table (fields_at table c) c
     in case (if fields_at table c = [] then init_fields lib table (c0, w) else Inr (c0, w)) of Inl e \<Rightarrow> Inl e
     | Inr cw1 \<Rightarrow> (case add_fields lib table str_vt cw1 of Inl e \<Rightarrow> Inl e
     | Inr (c2, w2) \<Rightarrow> (case escape_all (m_values ev) of Inl e \<Rightarrow> Inl e
     | Inr escs \<Rightarrow> (case bprintfs 1024 (insert_pieces table str_vt escs) ([], 0) of Inl e \<Rightarrow> Inl e
     | Inr (buff, _) \<Rightarrow> (case exe_sql lib buff (m_ffdb c2, w2) of Inl e \<Rightarrow> Inl e
     | Inr (r, db3, w3) \<Rightarrow> Inr (if r \<noteq> 0 then - 1 else 0, c2\<lparr>m_ffdb := db3\<rparr>, w3))))))"

subsection \<open>What \<open>save_event\<close> executes\<close>

lemma bprintfs_prefix:
  "bprintfs sz ss (take (sz - 1) p, length p) =
    (if ss = [] \<or> length (p @ concat (butlast ss)) \<le> sz then Inr (take (sz - 1) (p @ concat ss), length (p @ concat ss)) else Inl Out_of_range)"
proof (induction ss arbitrary: p)
  case (Cons s ss)
  show ?case
  proof (cases "length p \<le> sz")
    case True
    have "take (sz - 1) p @ take (sz - length p - 1) s = take (sz - 1) (p @ s)"
      using True by (cases "length p = sz") simp_all
    then have "bprintf sz s (take (sz - 1) p, length p) = Inr (take (sz - 1) (p @ s), length (p @ s))"
      using True by (simp add: bprintf_def)
    then show ?thesis using Cons.IH [of "p @ s"] True by simp
  next
    case False
    then show ?thesis by (simp add: bprintf_def)
  qed
qed simp

lemma bprintfs_all:
  "ss \<noteq> [] \<Longrightarrow> bprintfs sz ss ([], 0) =
    (if length (concat (butlast ss)) \<le> sz then Inr (take (sz - 1) (concat ss), length (concat ss)) else Inl Out_of_range)"
  using bprintfs_prefix [of sz ss "[]"] by simp

lemma concat_comma_list: "concat (comma_list f xs) = join_with CHR '','' (map f xs)"
proof -
  have tail: "concat (map (\<lambda>(i, x). (if i = 0 then [] else '','') @ f x) (enumerate (Suc k) xs)) = concat (map (\<lambda>x. '','' @ f x) xs)" for k xs
    by (induction xs arbitrary: k) simp_all
  have join: "join_with CHR '','' (map f (y # ys)) = f y @ concat (map (\<lambda>x. '','' @ f x) ys)" for y ys
    by (induction ys arbitrary: y) simp_all
  show ?thesis by (cases xs) (simp_all add: comma_list_def tail join [simplified])
qed

lemma escape_all_short: "\<forall>v \<in> set vs. length v < 2 ^ 62 \<Longrightarrow> escape_all vs = Inr (map (\<lambda>v. concat (map escaped v)) vs)"
  by (induction vs) (simp_all add: escape_concat)

lemma cstr_escaped: "cstr (concat (map escaped v)) = concat (map escaped v)"
proof -
  have "CHR 0x00 \<notin> set (escaped c)" for c by (auto simp: escaped_def escape_code_def split: if_splits)
  then show ?thesis by (auto simp: cstr_def takeWhile_eq_all_conv)
qed

text \<open>The statement meant, and the columns that are new: each once, in the order of the event.\<close>

definition insert_sql :: "string \<Rightarrow> string list \<Rightarrow> string list \<Rightarrow> string" where
  "insert_sql table fnames values = ''INSERT INTO '' @ table @ '' ('' @ join_with CHR '','' fnames @ '') VALUES ('' @
     join_with CHR '','' (map (\<lambda>v. [quote] @ concat (map escaped v) @ [quote]) values) @ '')''"

fun new_fields :: "string set \<Rightarrow> string list \<Rightarrow> string list" where
  "new_fields known [] = []"
| "new_fields known (f # fs) = (if f \<in> known then new_fields known fs else f # new_fields (insert f known) fs)"

fun exe_sqls :: "('w, 'h) db_lib \<Rightarrow> string list \<Rightarrow> 'h ffdb_t \<times> 'w \<Rightarrow> ('h ffdb_t \<times> 'w) exc" where
  "exe_sqls lib [] dw = Inr dw"
| "exe_sqls lib (q # qs) dw = (case exe_sql lib q dw of Inl e \<Rightarrow> Inl e | Inr (_, dw1) \<Rightarrow> exe_sqls lib qs dw1)"

lemma insert_pieces_sql:
  assumes "cstr table = table" "\<forall>f \<in> set fnames. cstr f = f"
  shows "concat (insert_pieces table fnames (map (\<lambda>v. concat (map escaped v)) values)) = insert_sql table fnames values"
proof -
  have "map cstr fnames = fnames" using assms(2) by (simp add: map_idI)
  then show ?thesis by (simp add: insert_pieces_def insert_sql_def concat_comma_list assms(1) comp_def cstr_escaped)
qed

lemma fields_at_set [simp]: "fields_at t (set_fields t fs c) = fs"
  by (simp add: fields_at_def set_fields_def)

lemma fields_at_ffdb [simp]: "fields_at t (c\<lparr>m_ffdb := db\<rparr>) = fields_at t c" "m_ffdb (set_fields t fs c) = m_ffdb c"
  by (simp_all add: fields_at_def set_fields_def)

lemma add_fields_alters:
  "case exe_sqls lib (map (alter_sql t) (new_fields (set (fields_at t c)) fs)) (m_ffdb c, w) of
     Inl e \<Rightarrow> add_fields lib t fs (c, w) = Inl e
   | Inr (db1, w1) \<Rightarrow> \<exists>c1. add_fields lib t fs (c, w) = Inr (c1, w1) \<and> m_ffdb c1 = db1 \<and> set (fields_at t c1) = set (fields_at t c) \<union> set fs"
proof (induction fs arbitrary: c w)
  case (Cons f fs)
  show ?case
  proof (cases "f \<in> set (fields_at t c)")
    case True
    then show ?thesis using Cons.IH [of c w] by (auto simp: add_field_def insert_absorb split: sum.splits)
  next
    case False
    show ?thesis
    proof (cases "exe_sql lib (alter_sql t f) (m_ffdb c, w)")
      case (Inl e)
      then show ?thesis using False by (simp add: add_field_def)
    next
      case (Inr p)
      obtain r db1 w1 where p: "p = (r, db1, w1)" by (cases p) auto
      let ?c = "set_fields t (os_insert f (fields_at t c)) (c\<lparr>m_ffdb := db1\<rparr>)"
      have "add_fields lib t (f # fs) (c, w) = add_fields lib t fs (?c, w1)" using False Inr by (simp add: add_field_def p)
      then show ?thesis using Cons.IH [of ?c w1] False Inr by (auto simp: p split: sum.splits)
    qed
  qed
qed simp

lemma fields_of_chars: "f \<in> set (fields_of c s) \<Longrightarrow> set f \<subseteq> set s"
  by (induction s arbitrary: f) (fastforce split: list.splits if_splits)+

lemma length_join_with: "w \<in> set ws \<Longrightarrow> length w \<le> length (join_with c ws)"
  by (induction c ws rule: join_with.induct) auto

lemma length_escaped_ge: "length v \<le> length (concat (map escaped v))"
proof (induction v)
  case (Cons c v)
  have "1 \<le> length (escaped c)" by (simp add: escaped_def split: option.split)
  with Cons show ?case by simp
qed simp

lemma value_in_sql:
  assumes "v \<in> set values"
  shows "length v \<le> length (insert_sql t fs values)"
proof -
  have "length ([quote] @ concat (map escaped v) @ [quote]) \<le> length (join_with CHR '','' (map (\<lambda>v. [quote] @ concat (map escaped v) @ [quote]) values))"
    by (rule length_join_with) (use assms in auto)
  then show ?thesis using length_escaped_ge [of v] by (simp add: insert_sql_def)
qed

lemma length_concat_butlast: "length (concat (butlast ss)) \<le> length (concat ss)"
  by (induction ss) auto

lemma exe_sql_sqlite:
  "\<exists>r d1 w1. exe_sql lib q (Some (Sqlite_ops d), w) = Inr (r, Some (Sqlite_ops d1), w1)"
  by (cases "sq_exe_sql lib q None (d, w)") (simp add: exe_sql_def db_exe_def)

lemma exe_sqls_sqlite: "\<exists>d1 w1. exe_sqls lib qs (Some (Sqlite_ops d), w) = Inr (Some (Sqlite_ops d1), w1)"
proof (induction qs arbitrary: d w)
  case (Cons q qs)
  obtain r d1 w1 where "exe_sql lib q (Some (Sqlite_ops d), w) = Inr (r, Some (Sqlite_ops d1), w1)" using exe_sql_sqlite [of lib q d w] by blast
  then show ?case using Cons.IH [of d1 w1] by simp
qed simp

lemma insert_pieces_ne: "insert_pieces t fs es \<noteq> []" by (simp add: insert_pieces_def)

text \<open>\<open>save_event\<close> from the point where the fields of the table are known or have been asked for.\<close>

lemma save_event_from:
  assumes "(if fields_at (m_table_name ev) c = [] then init_fields lib (m_table_name ev) (set_fields (m_table_name ev) (fields_at (m_table_name ev) c) c, w)
      else Inr (set_fields (m_table_name ev) (fields_at (m_table_name ev) c) c, w)) = Inr (c0, w0)"
    and "\<forall>v \<in> set (m_values ev). length v < 2 ^ 62" "m_ffdb c0 = Some (Sqlite_ops d)"
  defines "t \<equiv> m_table_name ev" and "fs \<equiv> vt_of (m_field_names ev) '',''"
    and "pieces \<equiv> insert_pieces (m_table_name ev) (vt_of (m_field_names ev) '','') (map (\<lambda>v. concat (map escaped v)) (m_values ev))"
  shows "\<exists>db1 w1 c1. exe_sqls lib (map (alter_sql t) (new_fields (set (fields_at t c0)) fs)) (m_ffdb c0, w0) = Inr (db1, w1) \<and>
    m_ffdb c1 = db1 \<and> set (fields_at t c1) = set (fields_at t c0) \<union> set fs \<and>
    save_event lib ev (c, w) = (if length (concat (butlast pieces)) \<le> 1024
      then (case exe_sql lib (take 1023 (concat pieces)) (db1, w1) of Inl e \<Rightarrow> Inl e
            | Inr (r, db3, w3) \<Rightarrow> Inr (if r \<noteq> 0 then - 1 else 0, c1\<lparr>m_ffdb := db3\<rparr>, w3))
      else Inl Out_of_range)"
proof -
  obtain d1 w1 where x: "exe_sqls lib (map (alter_sql t) (new_fields (set (fields_at t c0)) fs)) (m_ffdb c0, w0) = Inr (Some (Sqlite_ops d1), w1)"
    using exe_sqls_sqlite assms(3) by metis
  with add_fields_alters [where lib = lib and t = t and c = c0 and fs = fs and w = w0] obtain c1 where c1: "add_fields lib t fs (c0, w0) = Inr (c1, w1)"
    "m_ffdb c1 = Some (Sqlite_ops d1)" "set (fields_at t c1) = set (fields_at t c0) \<union> set fs" by auto
  have "save_event lib ev (c, w) = (case bprintfs 1024 pieces ([], 0) of Inl e \<Rightarrow> Inl e
     | Inr (buff, _) \<Rightarrow> (case exe_sql lib buff (m_ffdb c1, w1) of Inl e \<Rightarrow> Inl e
     | Inr (r, db3, w3) \<Rightarrow> Inr (if r \<noteq> 0 then - 1 else 0, c1\<lparr>m_ffdb := db3\<rparr>, w3)))"
    using assms(1) c1(1) unfolding save_event_def t_def fs_def pieces_def
    by (simp add: Let_def escape_all_short [OF assms(2)] del: vt_of_char)
  then show ?thesis using x c1(2,3) bprintfs_all [of pieces 1024] insert_pieces_ne
    by (auto simp: pieces_def simp del: concat_append)
qed

lemma save_event_known:
  assumes "fields_at (m_table_name ev) c \<noteq> []" "\<forall>v \<in> set (m_values ev). length v < 2 ^ 62"
    and "m_ffdb c = Some (Sqlite_ops d)"
  defines "t \<equiv> m_table_name ev" and "fs \<equiv> vt_of (m_field_names ev) '',''"
    and "pieces \<equiv> insert_pieces (m_table_name ev) (vt_of (m_field_names ev) '','') (map (\<lambda>v. concat (map escaped v)) (m_values ev))"
  shows "\<exists>db1 w1 c1. exe_sqls lib (map (alter_sql t) (new_fields (set (fields_at t c)) fs)) (m_ffdb c, w) = Inr (db1, w1) \<and>
    m_ffdb c1 = db1 \<and> set (fields_at t c1) = set (fields_at t c) \<union> set fs \<and>
    save_event lib ev (c, w) = (if length (concat (butlast pieces)) \<le> 1024
      then (case exe_sql lib (take 1023 (concat pieces)) (db1, w1) of Inl e \<Rightarrow> Inl e
            | Inr (r, db3, w3) \<Rightarrow> Inr (if r \<noteq> 0 then - 1 else 0, c1\<lparr>m_ffdb := db3\<rparr>, w3))
      else Inl Out_of_range)"
  using save_event_from [where ev = ev and c = c and lib = lib and w = w and c0 = "set_fields t (fields_at t c) c" and w0 = w and d = d]
    assms(1-3) unfolding t_def fs_def pieces_def by (simp del: vt_of_char)

lemma exe_sql_cols_sqlite:
  "\<exists>r rows cols d1 w1. exe_sql_cols lib q [] [] (Some (Sqlite_ops d), w) = Inr (r, rows, cols, Some (Sqlite_ops d1), w1)"
  by (cases "sq_exe_sql lib q (Some \<lparr>m_all_data = [], m_col_name = Some []\<rparr>) (d, w)") (simp add: exe_sql_cols_def db_exe_def)

lemma set_fold_os_insert: "set (fold os_insert xs ys) = set xs \<union> set ys"
  by (induction xs arbitrary: ys) auto

text \<open>
  (C27) What an event does to the database, on a SQLite connection, for names without zero bytes and a statement
  shorter than the buffer of 1024 bytes. If no fields of the table are known, \<open>save_event\<close> first asks for the columns
  of the table; then it adds the columns of the event that are not among the known ones, each once, and then it
  executes exactly the \<open>INSERT\<close> of the event's fields and escaped values; it returns 0 exactly if that statement
  succeeded, and the fields of the event are known afterwards.
\<close>

theorem save_event_statements:
  assumes "m_ffdb c = Some (Sqlite_ops d)"
    and "CHR 0x00 \<notin> set (m_table_name ev)" "CHR 0x00 \<notin> set (m_field_names ev)"
    and "length (insert_sql (m_table_name ev) (vt_of (m_field_names ev) '','') (m_values ev)) < 1024"
  shows "\<exists>known db0 w0 db1 w1 r c2 w2.
    (if fields_at (m_table_name ev) c \<noteq> [] then known = set (fields_at (m_table_name ev) c) \<and> db0 = m_ffdb c \<and> w0 = w
     else \<exists>q rows cols. exe_sql_cols lib (''select * from '' @ m_table_name ev @ '' limit 1'') [] [] (m_ffdb c, w) = Inr (q, rows, cols, db0, w0) \<and>
       known = set cols) \<and>
    exe_sqls lib (map (alter_sql (m_table_name ev)) (new_fields known (vt_of (m_field_names ev) '',''))) (db0, w0) = Inr (db1, w1) \<and>
    exe_sql lib (insert_sql (m_table_name ev) (vt_of (m_field_names ev) '','') (m_values ev)) (db1, w1) = Inr (r, m_ffdb c2, w2) \<and>
    save_event lib ev (c, w) = Inr (if r \<noteq> 0 then - 1 else 0, c2, w2) \<and>
    set (fields_at (m_table_name ev) c2) = known \<union> set (vt_of (m_field_names ev) '','')"
proof -
  let ?t = "m_table_name ev" and ?fs = "vt_of (m_field_names ev) '',''"
  let ?sql = "insert_sql ?t ?fs (m_values ev)"
  let ?p = "insert_pieces ?t ?fs (map (\<lambda>v. concat (map escaped v)) (m_values ev))"
  let ?c = "set_fields ?t (fields_at ?t c) c"
  obtain known c0 w0 d0 where k: "(if fields_at ?t c \<noteq> [] then known = set (fields_at ?t c) \<and> m_ffdb c0 = m_ffdb c \<and> w0 = w
     else \<exists>q rows cols. exe_sql_cols lib (''select * from '' @ ?t @ '' limit 1'') [] [] (m_ffdb c, w) = Inr (q, rows, cols, m_ffdb c0, w0) \<and>
       known = set cols)"
    "(if fields_at ?t c = [] then init_fields lib ?t (?c, w) else Inr (?c, w)) = Inr (c0, w0)"
    "m_ffdb c0 = Some (Sqlite_ops d0)" "set (fields_at ?t c0) = known"
  proof (cases "fields_at ?t c = []")
    case True
    obtain q rows cols d1 w1 where "exe_sql_cols lib (''select * from '' @ ?t @ '' limit 1'') [] [] (m_ffdb c, w) = Inr (q, rows, cols, Some (Sqlite_ops d1), w1)"
      using exe_sql_cols_sqlite assms(1) by metis
    then show ?thesis
      using True that [of "set cols" "set_fields ?t (fold os_insert cols []) (?c\<lparr>m_ffdb := Some (Sqlite_ops d1)\<rparr>)" w1 d1]
      by (simp add: init_fields_def set_fold_os_insert)
  next
    case False
    then show ?thesis using that [of "set (fields_at ?t c)" ?c w d] assms(1) by simp
  qed
  have fnul: "CHR 0x00 \<notin> set f" if "f \<in> set ?fs" for f
    using that assms(3) fields_of_chars [of f] by auto
  have cs: "cstr ?t = ?t" "\<forall>f \<in> set ?fs. cstr f = f"
    using assms(2) fnul by (auto simp: cstr_def takeWhile_eq_all_conv simp del: vt_of_char)
  have p: "concat ?p = ?sql" by (rule insert_pieces_sql [OF cs])
  have short: "\<forall>v \<in> set (m_values ev). length v < 2 ^ 62" using value_in_sql assms(4) by (fastforce dest: le_less_trans)
  have fit: "take 1023 (concat ?p) = ?sql" "length (concat (butlast ?p)) \<le> 1024"
    using assms(4) p length_concat_butlast [of ?p] by simp_all
  obtain db1 w1 c1 where s: "exe_sqls lib (map (alter_sql ?t) (new_fields known ?fs)) (m_ffdb c0, w0) = Inr (db1, w1)"
    "m_ffdb c1 = db1" "set (fields_at ?t c1) = known \<union> set ?fs"
    "save_event lib ev (c, w) = (case exe_sql lib ?sql (db1, w1) of Inl e \<Rightarrow> Inl e
       | Inr (r, db3, w3) \<Rightarrow> Inr (if r \<noteq> 0 then - 1 else 0, c1\<lparr>m_ffdb := db3\<rparr>, w3))"
    using save_event_from [OF k(2) short k(3)] fit k(4) by force
  obtain d1 where d1: "db1 = Some (Sqlite_ops d1)" using exe_sqls_sqlite s(1) k(3) by (metis Inr_inject prod.inject)
  obtain r d2 w2 where e: "exe_sql lib ?sql (db1, w1) = Inr (r, Some (Sqlite_ops d2), w2)" using exe_sql_sqlite d1 by metis
  show ?thesis
    using k(1) s e by (intro exI [of _ known] exI [of _ "m_ffdb c0"] exI [of _ w0] exI [of _ db1] exI [of _ w1] exI [of _ r]
        exI [of _ "c1\<lparr>m_ffdb := Some (Sqlite_ops d2)\<rparr>"] exI [of _ w2]) simp
qed

text \<open>
  (C38) The buffer of \<open>save_event\<close>. Under the same conditions the statement is written behind the buffer of
  1024 bytes exactly if it has more than 1025 bytes; one of 1024 or 1025 bytes loses its end.
\<close>

theorem save_event_overflow:
  assumes "m_ffdb c = Some (Sqlite_ops d)" "fields_at (m_table_name ev) c \<noteq> []"
    and "CHR 0x00 \<notin> set (m_table_name ev)" "CHR 0x00 \<notin> set (m_field_names ev)" "\<forall>v \<in> set (m_values ev). length v < 2 ^ 62"
  shows "save_event lib ev (c, w) = Inl Out_of_range \<longleftrightarrow>
    1025 < length (insert_sql (m_table_name ev) (vt_of (m_field_names ev) '','') (m_values ev))"
proof -
  let ?fs = "vt_of (m_field_names ev) '',''"
  let ?p = "insert_pieces (m_table_name ev) ?fs (map (\<lambda>v. concat (map escaped v)) (m_values ev))"
  have fnul: "CHR 0x00 \<notin> set f" if "f \<in> set ?fs" for f
    using that assms(4) fields_of_chars [of f] by auto
  have "cstr (m_table_name ev) = m_table_name ev" "\<forall>f \<in> set ?fs. cstr f = f"
    using assms(3) fnul by (auto simp: cstr_def takeWhile_eq_all_conv simp del: vt_of_char)
  then have "concat ?p = insert_sql (m_table_name ev) ?fs (m_values ev)" by (rule insert_pieces_sql)
  moreover have "concat ?p = concat (butlast ?p) @ '')''" by (simp add: insert_pieces_def butlast_append)
  ultimately have len: "length (insert_sql (m_table_name ev) ?fs (m_values ev)) = length (concat (butlast ?p)) + 1"
    by (metis length_append length_Cons list.size(3) One_nat_def)
  obtain db1 w1 c1 where s: "exe_sqls lib (map (alter_sql (m_table_name ev)) (new_fields (set (fields_at (m_table_name ev) c)) ?fs)) (m_ffdb c, w) = Inr (db1, w1)"
    "save_event lib ev (c, w) = (if length (concat (butlast ?p)) \<le> 1024
      then (case exe_sql lib (take 1023 (concat ?p)) (db1, w1) of Inl e \<Rightarrow> Inl e
            | Inr (r, db3, w3) \<Rightarrow> Inr (if r \<noteq> 0 then - 1 else 0, c1\<lparr>m_ffdb := db3\<rparr>, w3))
      else Inl Out_of_range)"
    using save_event_known [OF assms(2,5,1), of lib w] by metis
  obtain d1 where "db1 = Some (Sqlite_ops d1)" using exe_sqls_sqlite s(1) assms(1) by (metis Inr_inject prod.inject)
  then obtain r d2 w2 where "exe_sql lib (take 1023 (concat ?p)) (db1, w1) = Inr (r, Some (Sqlite_ops d2), w2)"
    using exe_sql_sqlite by metis
  then show ?thesis using s(2) len by simp
qed

definition sample_count :: "string ffcount_t" where
  "sample_count = \<lparr>m_ffdb = Some (Sqlite_ops (new_sqlite_ops\<lparr>m_sqlite := Some ''5.db''\<rparr>)), m_table2fields = [(''login'', [''uid''])]\<rparr>"

definition sample_event :: "string list \<Rightarrow> event_log_t" where
  "sample_event vs = (new_event_log ''default'' ''login'' ''uid,name'')\<lparr>m_values := vs\<rparr>"

lemma sample_event_ok:
  "m_ffdb sample_count = Some (Sqlite_ops (new_sqlite_ops\<lparr>m_sqlite := Some ''5.db''\<rparr>))"
  "fields_at ''login'' sample_count = [''uid'']" "m_table_name (sample_event vs) = ''login''"
  "m_field_names (sample_event vs) = ''uid,name''" "m_values (sample_event vs) = vs" "vt_of ''uid,name'' '','' = [''uid'', ''name'']"
  by (simp_all add: sample_count_def sample_event_def new_event_log_def fields_at_def new_msg_i_def msg_i.defs event_log_t.defs)

theorem save_event_statements_witness:
  "\<exists>r c2 w2. save_event sample_lib (sample_event [''7'', ''O'Neil'']) (sample_count, []) = Inr (r, c2, w2) \<and>
    set (fields_at ''login'' c2) = {''uid'', ''name''} \<and>
    insert_sql ''login'' [''uid'', ''name''] [''7'', ''O'Neil''] = ''INSERT INTO login (uid,name) VALUES ('7','O'' @ [quote, quote] @ ''Neil')''"
proof -
  have sql: "insert_sql ''login'' [''uid'', ''name''] [''7'', ''O'Neil''] = ''INSERT INTO login (uid,name) VALUES ('7','O'' @ [quote, quote] @ ''Neil')''"
    by code_simp
  show ?thesis
    using save_event_statements [where c = sample_count and ev = "sample_event [''7'', ''O'Neil'']" and lib = sample_lib and w = "[]", OF sample_event_ok(1)] sql
    by (auto simp: sample_event_ok insert_commute)
qed

theorem save_event_overflow_witness:
  "save_event sample_lib (sample_event [replicate 1100 CHR ''x'']) (sample_count, []) = Inl Out_of_range"
proof -
  have "length (replicate 1100 CHR ''x'') \<le> length (insert_sql ''login'' [''uid'', ''name''] [replicate 1100 CHR ''x''])"
    by (rule value_in_sql) simp
  then show ?thesis
    using save_event_overflow [of sample_count _ "sample_event [replicate 1100 CHR ''x'']" sample_lib "[]", OF sample_event_ok(1)]
    by (simp add: sample_event_ok)
qed

end
