(* ===== verification/Ffcount_Service.thy ===== *)
theory Ffcount_Service
  imports Ffcount
begin

section \<open>The event log service\<close>

text \<open>
  \<open>ffcount_service_t\<close>, the second half of \<^verbatim>\<open>count/ffcount.h\<close>, with the clock of \<^verbatim>\<open>base/time_tool.h\<close> and the
  directory listing of \<^verbatim>\<open>base/os_tool.h\<close>. Requests arrive on network threads and take the service's lock; each
  database has a queue with one thread that runs its statements. A task names its database instead of pointing
  into the map, whose entries are never erased. What surrounds the service is a record of functions, \<open>env\<close>: the
  database libraries, the directories, the clock, the table of message names and the printer of JSON values
  (RapidJSON's writer). The last section interleaves the operations.
\<close>

subsection \<open>The calendar\<close>

definition today_at_zero :: "int \<Rightarrow> tm \<Rightarrow> int" where
  "today_at_zero now t = now - tm_hour t * 3600 - tm_min t * 60 - tm_sec t"

definition help_month :: "int list" where
  "help_month = [31, 28, 31, 30, 31, 30, 31, 31, 30, 31, 30, 31]"

definition month_day_num :: "tm \<Rightarrow> int" where
  "month_day_num t = help_month ! nat (tm_mon t) + (if tm_mon t = 1 \<and> (tm_year t + 1900) mod 4 = 0 then 1 else 0)"

definition next_month :: "int \<Rightarrow> tm \<Rightarrow> int" where
  "next_month now t = now + (month_day_num t - tm_mday t) * 86400 + (23 - tm_hour t) * 3600 + (59 - tm_min t) * 60 + (60 - tm_sec t)"

text \<open>\<open>next_month\<close> is as many days behind the first of this month as the month has.\<close>

lemma next_month_from_first:
  "next_month now t = (today_at_zero now t - (tm_mday t - 1) * 86400) + month_day_num t * 86400"
  by (simp add: next_month_def today_at_zero_def algebra_simps)

subsection \<open>JSON values\<close>

text \<open>\<open>PushBack\<close> wants an array and moves its argument: the variable that was pushed is null afterwards.\<close>

datatype json = JNull | JString string | JArray "json list" | JObject "(string \<times> json) list"

definition json_assert :: exn where
  "json_assert = Runtime_error ''RAPIDJSON_ASSERT''"

fun push_json :: "json \<Rightarrow> json \<Rightarrow> json exc" where
  "push_json v (JArray xs) = Inr (JArray (xs @ [v]))"
| "push_json v _ = Inl json_assert"

fun push_strings :: "string list \<Rightarrow> json \<Rightarrow> json exc" where
  "push_strings [] a = Inr a"
| "push_strings (s # ss) a = (case push_json (JString s) a of Inl e \<Rightarrow> Inl e | Inr a1 \<Rightarrow> push_strings ss a1)"

fun push_rows :: "string list list \<Rightarrow> json \<Rightarrow> json exc" where
  "push_rows [] a = Inr a"
| "push_rows (r # rs) a = (case push_strings r (JArray []) of Inl e \<Rightarrow> Inl e
     | Inr tmp_val \<Rightarrow> (case push_json tmp_val a of Inl e \<Rightarrow> Inl e | Inr a1 \<Rightarrow> push_rows rs a1))"

subsection \<open>The state\<close>

datatype count_task =
    Save_task string event_log_t
  | Query_task string event_query_in rpc_callcack_t
  | Clear_task string
  | Http_task string sock string string

fun task_db :: "count_task \<Rightarrow> string" where
  "task_db (Save_task db _) = db"
| "task_db (Query_task db _ _) = db"
| "task_db (Clear_task db) = db"
| "task_db (Http_task db _ _ _) = db"

record 'h table_info_t =
  need_create_flag :: bool
  tq :: "nat option"
  ffcount :: "'h ffcount_t"
  table_names :: "string oset"

definition new_table_info :: "'h table_info_t" where
  "new_table_info = \<lparr>need_create_flag = True, tq = None, ffcount = new_ffcount, table_names = []\<rparr>"

record 'h ffcount_service_t =
  fc_path :: string
  fc_index :: u32
  fc_db_info :: "(string, 'h table_info_t) omap"
  fc_all_tq :: "count_task list list"
  fc_socket_cache :: "sock oset"

definition new_ffcount_service :: "'h ffcount_service_t" where
  "new_ffcount_service = \<lparr>fc_path = ''./'', fc_index = 0, fc_db_info = [], fc_all_tq = [], fc_socket_cache = []\<rparr>"

record ('w, 'h) count_env =
  ce_lib :: "('w, 'h) db_lib"
  ce_sqlite :: bool
  ce_mkdir :: "string \<Rightarrow> 'w \<Rightarrow> 'w"
  ce_now :: tm
  ce_store :: msg_name_store_t
  ce_json :: "json \<Rightarrow> string"
  ce_readdir :: "string \<Rightarrow> string list option"
  ce_is_dir :: "string \<Rightarrow> bool"

text \<open>\<open>m_db_info[name]\<close> enters a new entry.\<close>

definition info_at :: "string \<Rightarrow> 'h ffcount_service_t \<Rightarrow> 'h table_info_t" where
  "info_at db s = (case map_of (fc_db_info s) db of Some i \<Rightarrow> i | None \<Rightarrow> new_table_info)"

definition put_info :: "string \<Rightarrow> 'h table_info_t \<Rightarrow> 'h ffcount_service_t \<Rightarrow> 'h ffcount_service_t" where
  "put_info db i s = s\<lparr>fc_db_info := om_put db i (fc_db_info s)\<rparr>"

text \<open>\<open>info.tq->produce\<close> on the queue of the database, which \<open>stop\<close> may have deleted.\<close>

definition produce_task :: "count_task \<Rightarrow> 'h ffcount_service_t \<Rightarrow> 'h ffcount_service_t exc" where
  "produce_task t s = (case tq (info_at (task_db t) s) of
     None \<Rightarrow> Inl Null_deref
   | Some k \<Rightarrow> (if k < length (fc_all_tq s) then Inr (s\<lparr>fc_all_tq := (fc_all_tq s)[k := fc_all_tq s ! k @ [t]]\<rparr>) else Inl Dangling))"

subsection \<open>Opening databases and tables\<close>

definition year_month :: "tm \<Rightarrow> string" where
  "year_month t = show_int (tm_year t + 1900) @ ''/'' @ show_int (tm_mon t + 1)"

definition connect_db :: "('w, 'h) count_env \<Rightarrow> string \<Rightarrow> string \<Rightarrow> 'h ffcount_t \<times> 'w \<Rightarrow> (int \<times> 'h ffcount_t \<times> 'w) exc" where
  "connect_db env path db_name = (\<lambda>(c, w).
     let y = show_int (tm_year (ce_now env) + 1900);
         w1 = ce_mkdir env (take 255 (cstr path @ ''/'' @ y @ ''/'')) w;
         w2 = ce_mkdir env (take 255 (cstr path @ ''/'' @ year_month (ce_now env))) w1
     in case db_connect (ce_sqlite env) (ce_lib env)
         (take 255 (''sqlite://'' @ cstr path @ ''/'' @ year_month (ce_now env) @ ''/'' @ cstr db_name @ ''.db'')) (m_ffdb c, w2) of
       Inl e \<Rightarrow> Inl e | Inr (r, db1, w3) \<Rightarrow> Inr (r, c\<lparr>m_ffdb := db1\<rparr>, w3))"

definition create_sql :: "string \<Rightarrow> string" where
  "create_sql table = take 255 (''create table IF NOT EXISTS '' @ cstr table @
     ''(autoid integer PRIMARY KEY autoincrement, logtime TIMESTAMP default (datetime('now', 'localtime')))'')"

text \<open>The queue of a new database is the next one in turn: \<open>m_index\<close> is an \<open>int\<close>, here its 32 bits, which wrap around,
  extended with its sign to the \<open>size_t\<close> of the remainder; without queues the remainder divides by zero
  (\<open>Out_of_range\<close>). The database is connected at the first use and after every month; a table is created when
  its name is new.\<close>

definition queue_of :: "u32 \<Rightarrow> nat \<Rightarrow> nat" where
  "queue_of i n = unat (word_of_int (sint i) :: size_t) mod n"

definition assign_queue :: "'h table_info_t \<Rightarrow> 'h ffcount_service_t \<Rightarrow> ('h table_info_t \<times> 'h ffcount_service_t) exc" where
  "assign_queue info s = (case tq info of
     Some _ \<Rightarrow> Inr (info, s)
   | None \<Rightarrow> (if fc_all_tq s = [] then Inl Out_of_range
      else Inr (info\<lparr>tq := Some (queue_of (fc_index s) (length (fc_all_tq s)))\<rparr>, s\<lparr>fc_index := fc_index s + 1\<rparr>)))"

definition open_db :: "('w, 'h) count_env \<Rightarrow> string \<Rightarrow> 'h table_info_t \<Rightarrow> 'h ffcount_service_t \<times> 'w \<Rightarrow>
    (int \<times> 'h table_info_t \<times> 'h ffcount_service_t \<times> 'w) exc" where
  "open_db env db_name info = (\<lambda>(s, w). if \<not> need_create_flag info then Inr (0, info, s, w)
     else (case assign_queue info s of Inl e \<Rightarrow> Inl e
     | Inr (info1, s1) \<Rightarrow> (case connect_db env (fc_path s) db_name (ffcount info1, w) of Inl e \<Rightarrow> Inl e
     | Inr (r, c, w1) \<Rightarrow> (if r \<noteq> 0 then Inr (- 1, info1\<lparr>ffcount := c\<rparr>, s1, w1)
         else Inr (0, info1\<lparr>ffcount := c, need_create_flag := False\<rparr>, s1, w1)))))"

definition create_table :: "('w, 'h) count_env \<Rightarrow> string \<Rightarrow> 'h table_info_t \<Rightarrow> 'w \<Rightarrow> (int \<times> 'h table_info_t \<times> 'w) exc" where
  "create_table env table_name info w =
    (if table_name = [] \<or> table_name \<in> set (table_names info) then Inr (0, info, w)
     else (case exe_sql (ce_lib env) (create_sql table_name) (m_ffdb (ffcount info), w) of Inl e \<Rightarrow> Inl e
       | Inr (r, db1, w1) \<Rightarrow> (let info1 = info\<lparr>ffcount := (ffcount info)\<lparr>m_ffdb := db1\<rparr>\<rparr> in
            if r \<noteq> 0 then Inr (- 1, info1, w1)
            else Inr (0, info1\<lparr>table_names := os_insert table_name (table_names info1)\<rparr>, w1))))"

definition check_db_valid :: "('w, 'h) count_env \<Rightarrow> string \<Rightarrow> string \<Rightarrow> 'h ffcount_service_t \<times> 'w \<Rightarrow>
    (int \<times> 'h ffcount_service_t \<times> 'w) exc" where
  "check_db_valid env db_name table_name = (\<lambda>(s, w). case open_db env db_name (info_at db_name s) (s, w) of Inl e \<Rightarrow> Inl e
   | Inr (r, info, s1, w1) \<Rightarrow>
      (if r \<noteq> 0 then Inr (- 1, put_info db_name info s1, w1)
       else (case create_table env table_name info w1 of Inl e \<Rightarrow> Inl e
         | Inr (r2, info2, w2) \<Rightarrow> Inr (r2, put_info db_name info2 s1, w2))))"

subsection \<open>Start and stop\<close>

datatype fc_out = Out effect | Once_timer u64

text \<open>Both values of the clock that \<open>start\<close> and \<open>create_new_dir\<close> read; the difference is unsigned.\<close>

definition month_timer :: "int \<Rightarrow> tm \<Rightarrow> int \<Rightarrow> fc_out" where
  "month_timer now t now2 = Once_timer (word_of_int (next_month now t - now2 + 1) * 1000)"

definition fc_start :: "string \<Rightarrow> int \<Rightarrow> tm \<Rightarrow> int \<Rightarrow> 'h ffcount_service_t \<Rightarrow> 'h ffcount_service_t \<times> fc_out list" where
  "fc_start config now t now2 s = (s\<lparr>fc_path := (if config \<noteq> [] then config else fc_path s),
     fc_all_tq := fc_all_tq s @ replicate 8 []\<rparr>, [month_timer now t now2])"

text \<open>\<open>stop\<close> closes the queues, waits for the threads and deletes the queues; the databases keep their pointers to
  them. (What the threads still run is part of the interleaving below.)\<close>

definition fc_stop :: "'h ffcount_service_t \<Rightarrow> 'h ffcount_service_t" where
  "fc_stop s = s\<lparr>fc_all_tq := []\<rparr>"

subsection \<open>Requests\<close>

text \<open>The answer of \<open>save_event\<close> is sent before anything is tried.\<close>

definition service_save_event :: "('w, 'h) count_env \<Rightarrow> event_log_t \<Rightarrow> rpc_callcack_t \<Rightarrow> 'h ffcount_service_t \<times> 'w \<Rightarrow>
    (int \<times> 'h ffcount_service_t \<times> 'w \<times> fc_out list) exc" where
  "service_save_event env in_msg cb sw =
    (let out = map Out (callcack_call encode_bool_ret (ce_store env) ''bool_ret_msg_t'' cb ((new_bool_ret ''bool_ret_msg_t'')\<lparr>ret_value := True\<rparr>))
     in case check_db_valid env (m_db_name in_msg) (m_table_name in_msg) sw of Inl e \<Rightarrow> Inl e
     | Inr (r, s1, w1) \<Rightarrow> (if r \<noteq> 0 then Inr (- 1, s1, w1, out)
        else (case produce_task (Save_task (m_db_name in_msg) in_msg) s1 of Inl e \<Rightarrow> Inl e
          | Inr s2 \<Rightarrow> Inr (0, s2, w1, out))))"

definition answer_query :: "('w, 'h) count_env \<Rightarrow> rpc_callcack_t \<Rightarrow> event_query_out \<Rightarrow> fc_out list" where
  "answer_query env cb ret = map Out (callcack_call encode_event_query_out (ce_store env) ''event_queryt_t::out_t'' cb ret)"

definition service_query :: "('w, 'h) count_env \<Rightarrow> event_query_in \<Rightarrow> rpc_callcack_t \<Rightarrow> 'h ffcount_service_t \<times> 'w \<Rightarrow>
    (int \<times> 'h ffcount_service_t \<times> 'w \<times> fc_out list) exc" where
  "service_query env in_msg cb sw = (case check_db_valid env (q_db_name in_msg) [] sw of Inl e \<Rightarrow> Inl e
     | Inr (r, s1, w1) \<Rightarrow> (if r \<noteq> 0 then Inr (- 1, s1, w1, answer_query env cb new_event_query_out)
        else (case produce_task (Query_task (q_db_name in_msg) in_msg cb) s1 of Inl e \<Rightarrow> Inl e
          | Inr s2 \<Rightarrow> Inr (0, s2, w1, []))))"

fun month_turn :: "string \<times> 'h table_info_t \<Rightarrow> 'h ffcount_service_t exc \<Rightarrow> 'h ffcount_service_t exc" where
  "month_turn (db, info) (Inl e) = Inl e"
| "month_turn (db, info) (Inr s) = (if tq info = None then Inr s else produce_task (Clear_task db) s)"

definition create_new_dir :: "int \<Rightarrow> tm \<Rightarrow> int \<Rightarrow> 'h ffcount_service_t \<Rightarrow> ('h ffcount_service_t \<times> fc_out list) exc" where
  "create_new_dir now t now2 s = (case fold month_turn (fc_db_info s) (Inr s) of
      Inl e \<Rightarrow> Inl e | Inr s1 \<Rightarrow> Inr (s1, [month_timer now t now2]))"

definition clear_ops :: "string \<Rightarrow> 'h ffcount_service_t \<Rightarrow> 'h ffcount_service_t" where
  "clear_ops db s = put_info db ((info_at db s)\<lparr>need_create_flag := True\<rparr>) s"

definition fc_handle_broken :: "sock \<Rightarrow> 'h ffcount_service_t \<Rightarrow> 'h ffcount_service_t \<times> fc_out list" where
  "fc_handle_broken k s = (s\<lparr>fc_socket_cache := os_erase k (fc_socket_cache s)\<rparr>, [Out (Safe_delete k)])"

subsection \<open>HTTP requests\<close>

text \<open>\<open>strtool_t::replace\<close> with a pattern that is not empty returns.\<close>

definition repl :: "string \<times> string \<Rightarrow> string \<Rightarrow> string" where
  "repl = (\<lambda>(src, dest) s. case replace s src dest of Some r \<Rightarrow> r | None \<Rightarrow> s)"

definition url_decode :: "string \<Rightarrow> string" where
  "url_decode arg = fold repl [(''%20'', '' ''), (''%2A'', ''*''), (''%2B'', ''+''), (''%2F'', ''/''), (''%3F'', ''?''),
     (''%25'', ''%''), (''%23'', ''#''), (''%26'', ''&''), (''%3D'', ''='')] arg"

text \<open>\<open>os_tool_t::ls\<close> into an empty vector.\<close>

definition os_ls :: "('w, 'h) count_env \<Rightarrow> string \<Rightarrow> string list" where
  "os_ls env path = (case ce_readdir env (cstr path) of None \<Rightarrow> [] | Some es \<Rightarrow> filter (\<lambda>e. e \<noteq> ''.'' \<and> e \<noteq> ''..'') es)"

text \<open>The answer to \<open>/\<close>: the months of all years, then for every month its files. \<open>tmp_val\<close> is declared outside
  the loop over the files, so it is null from the second file on.\<close>

definition all_dirs :: "('w, 'h) count_env \<Rightarrow> string \<Rightarrow> string list" where
  "all_dirs env path = concat (map (\<lambda>year. if ce_is_dir env (cstr year) then map (\<lambda>r. path @ year @ ''/'' @ r) (os_ls env (path @ year)) else [])
     (os_ls env path))"

fun list_files :: "string \<Rightarrow> string list \<Rightarrow> json \<Rightarrow> json \<Rightarrow> json exc" where
  "list_files dir [] tmp_val data_array = Inr data_array"
| "list_files dir (f # fs) tmp_val data_array = (case push_strings [dir, f] tmp_val of Inl e \<Rightarrow> Inl e
     | Inr tmp1 \<Rightarrow> (case push_json tmp1 data_array of Inl e \<Rightarrow> Inl e | Inr data1 \<Rightarrow> list_files dir fs JNull data1))"

fun list_dirs :: "('w, 'h) count_env \<Rightarrow> string list \<Rightarrow> json \<Rightarrow> json exc" where
  "list_dirs env [] data_array = Inr data_array"
| "list_dirs env (d # ds) data_array = (if \<not> ce_is_dir env (cstr d) then list_dirs env ds data_array
     else (case list_files d (os_ls env d) (JArray []) data_array of Inl e \<Rightarrow> Inl e | Inr data1 \<Rightarrow> list_dirs env ds data1))"

definition list_json :: "('w, 'h) count_env \<Rightarrow> string \<Rightarrow> json exc" where
  "list_json env path = (case list_dirs env (all_dirs env path) (JArray []) of Inl e \<Rightarrow> Inl e
     | Inr data \<Rightarrow> Inr (JObject [(''err_msg'', JString []), (''col_names'', JArray [JString ''date'', JString ''dbname'']), (''ret_data'', data)]))"

text \<open>\<open>handle_msg\<close>: a listing, or a query of \<open>/year/month/db/sql\<close> that goes to the queue of the database with
  the socket remembered.\<close>

definition fc_handle_msg :: "('w, 'h) count_env \<Rightarrow> string \<Rightarrow> sock \<Rightarrow> 'h ffcount_service_t \<times> 'w \<Rightarrow>
    ('h ffcount_service_t \<times> 'w \<times> fc_out list) exc" where
  "fc_handle_msg env body k = (\<lambda>(s, w). let arg = url_decode body in
     if arg = ''/''
     then (case list_json env (fc_path s) of Inl e \<Rightarrow> Inl e | Inr j \<Rightarrow> Inr (s, w, [Out (Async_send k (ce_json env j))]))
     else (case vt_of arg ''/'' of
       [year, month, db_name, sql] \<Rightarrow> (case check_db_valid env db_name [] (s, w) of Inl e \<Rightarrow> Inl e
         | Inr (r, s1, w1) \<Rightarrow> (if r \<noteq> 0 then Inr (s1, w1, [Out (Async_send k ''db connect failed'')])
            else (case produce_task (Http_task db_name k (year @ ''/'' @ month) sql) (s1\<lparr>fc_socket_cache := os_insert k (fc_socket_cache s1)\<rparr>) of
                Inl e \<Rightarrow> Inl e | Inr s2 \<Rightarrow> Inr (s2, w1, []))))
     | _ \<Rightarrow> Inr (s, w, [Out (Async_send k ''/time/db_name/sql format needed'')])))"

subsection \<open>Tasks of a queue\<close>

text \<open>A query of the current month uses the connection of the database, one of another month a connection of its
  own, which its destructor closes; the error text is always that of the database's connection.\<close>

definition run_query :: "('w, 'h) count_env \<Rightarrow> string \<Rightarrow> string \<Rightarrow> string \<Rightarrow> string \<Rightarrow> 'h ffcount_t \<times> 'w \<Rightarrow>
    (string list list \<times> string list \<times> string \<times> 'h ffcount_t \<times> 'w) exc" where
  "run_query env path str_time db_name sql = (\<lambda>(c, w).
     if str_time = [] \<or> str_time = year_month (ce_now env)
     then (case exe_sql_cols (ce_lib env) sql [] [] (m_ffdb c, w) of Inl e \<Rightarrow> Inl e
       | Inr (r, data, cols, db1, w1) \<Rightarrow> Inr (data, cols, if r \<noteq> 0 then db_error_msg db1 else [], c\<lparr>m_ffdb := db1\<rparr>, w1))
     else (case db_connect (ce_sqlite env) (ce_lib env) (take 255 (''sqlite://'' @ cstr path @ ''/'' @ cstr str_time @ ''/'' @ cstr db_name @ ''.db'')) (new_ffdb, w) of
         Inl e \<Rightarrow> Inl e
       | Inr (r, db1, w1) \<Rightarrow>
          (case (if r \<noteq> 0 then Inr (- 1, [], [], db1, w1) else exe_sql_cols (ce_lib env) sql [] [] (db1, w1)) of Inl e \<Rightarrow> Inl e
           | Inr (r2, data, cols, db2, w2) \<Rightarrow> (case db_close (ce_lib env) (db2, w2) of Inl e \<Rightarrow> Inl e
              | Inr (_, w3) \<Rightarrow> Inr (data, cols, if r2 \<noteq> 0 then db_error_msg (m_ffdb c) else [], c, w3)))))"

definition query_impl :: "('w, 'h) count_env \<Rightarrow> string \<Rightarrow> event_query_in \<Rightarrow> rpc_callcack_t \<Rightarrow> 'h ffcount_t \<times> 'w \<Rightarrow>
    ('h ffcount_t \<times> 'w \<times> fc_out list) exc" where
  "query_impl env path in_msg cb cw = (case run_query env path (q_str_time in_msg) (q_db_name in_msg) (q_sql in_msg) cw of Inl e \<Rightarrow> Inl e
     | Inr (data, cols, err, c1, w1) \<Rightarrow>
         Inr (c1, w1, answer_query env cb (new_event_query_out\<lparr>q_ret_data := data, q_col_names := cols, q_err_msg := err\<rparr>)))"

definition query_json :: "string \<Rightarrow> string list \<Rightarrow> string list list \<Rightarrow> json exc" where
  "query_json err cols data = (case push_strings cols (JArray []) of Inl e \<Rightarrow> Inl e
     | Inr cs \<Rightarrow> (case push_rows data (JArray []) of Inl e \<Rightarrow> Inl e
        | Inr ds \<Rightarrow> Inr (JObject [(''err_msg'', JString err), (''col_names'', cs), (''ret_data'', ds)])))"

definition http_query_impl :: "('w, 'h) count_env \<Rightarrow> string \<Rightarrow> sock \<Rightarrow> string \<Rightarrow> string \<Rightarrow> 'h ffcount_service_t \<times> 'w \<Rightarrow>
    ('h ffcount_service_t \<times> 'w \<times> fc_out list) exc" where
  "http_query_impl env db_name k str_time sql = (\<lambda>(s, w).
     case run_query env (fc_path s) str_time db_name sql (ffcount (info_at db_name s), w) of Inl e \<Rightarrow> Inl e
     | Inr (data, cols, err, c1, w1) \<Rightarrow> (case query_json err cols data of Inl e \<Rightarrow> Inl e
        | Inr j \<Rightarrow> (let s1 = put_info db_name ((info_at db_name s)\<lparr>ffcount := c1\<rparr>) s in
            if k \<in> set (fc_socket_cache s1)
            then Inr (s1\<lparr>fc_socket_cache := os_erase k (fc_socket_cache s1)\<rparr>, w1, [Out (Async_send k (ce_json env j))])
            else Inr (s1, w1, []))))"

fun run_task :: "('w, 'h) count_env \<Rightarrow> count_task \<Rightarrow> 'h ffcount_service_t \<times> 'w \<Rightarrow> ('h ffcount_service_t \<times> 'w \<times> fc_out list) exc" where
  "run_task env (Save_task db ev) (s, w) = (case Ffcount.save_event (ce_lib env) ev (ffcount (info_at db s), w) of Inl e \<Rightarrow> Inl e
     | Inr (_, c1, w1) \<Rightarrow> Inr (put_info db ((info_at db s)\<lparr>ffcount := c1\<rparr>) s, w1, []))"
| "run_task env (Query_task db in_msg cb) (s, w) = (case query_impl env (fc_path s) in_msg cb (ffcount (info_at db s), w) of Inl e \<Rightarrow> Inl e
     | Inr (c1, w1, out) \<Rightarrow> Inr (put_info db ((info_at db s)\<lparr>ffcount := c1\<rparr>) s, w1, out))"
| "run_task env (Clear_task db) (s, w) = Inr (clear_ops db s, w, [])"
| "run_task env (Http_task db k str_time sql) (s, w) = http_query_impl env db k str_time sql (s, w)"

subsection \<open>The listing\<close>

lemma push_strings_array: "push_strings ss (JArray xs) = Inr (JArray (xs @ map JString ss))"
  by (induction ss arbitrary: xs) simp_all

lemma push_rows_array: "push_rows rs (JArray xs) = Inr (JArray (xs @ map (\<lambda>r. JArray (map JString r)) rs))"
  by (induction rs arbitrary: xs) (simp_all add: push_strings_array)

lemma query_json_value:
  "query_json err cols data = Inr (JObject [(''err_msg'', JString err), (''col_names'', JArray (map JString cols)),
     (''ret_data'', JArray (map (\<lambda>r. JArray (map JString r)) data))])"
  by (simp add: query_json_def push_strings_array push_rows_array)

lemma list_files_array:
  "list_files d fs (JArray []) (JArray xs) =
    (case fs of [] \<Rightarrow> Inr (JArray xs) | [f] \<Rightarrow> Inr (JArray (xs @ [JArray [JString d, JString f]])) | _ \<Rightarrow> Inl json_assert)"
  by (cases fs rule: remdups_adj.cases) simp_all

lemma list_dirs_array:
  "list_dirs env ds (JArray xs) =
    (if \<exists>d \<in> set ds. ce_is_dir env (cstr d) \<and> length (os_ls env d) > 1 then Inl json_assert
     else Inr (JArray (xs @ concat (map (\<lambda>d. if ce_is_dir env (cstr d) then map (\<lambda>f. JArray [JString d, JString f]) (os_ls env d) else []) ds))))"
proof (induction ds arbitrary: xs)
  case (Cons d ds)
  then show ?case by (cases "os_ls env d" rule: remdups_adj.cases) (auto simp: list_files_array)
qed simp

text \<open>
  The listing of an event log server. A request for \<open>/\<close> is answered with one row of month and file for
  every month that holds one file, but as soon as some month holds two files, building the answer fails an
  assertion of the JSON library and takes the process down.
\<close>

theorem listing_fails:
  "fc_handle_msg env ''/'' k (s, w) =
    (if \<exists>d \<in> set (all_dirs env (fc_path s)). ce_is_dir env (cstr d) \<and> length (os_ls env d) > 1 then Inl json_assert
     else Inr (s, w, [Out (Async_send k (ce_json env (JObject [(''err_msg'', JString []), (''col_names'', JArray [JString ''date'', JString ''dbname'']),
       (''ret_data'', JArray (concat (map (\<lambda>d. if ce_is_dir env (cstr d) then map (\<lambda>f. JArray [JString d, JString f]) (os_ls env d) else [])
          (all_dirs env (fc_path s)))))])))]))"
proof -
  have "url_decode ''/'' = ''/''" by code_simp
  then show ?thesis by (simp add: fc_handle_msg_def list_json_def list_dirs_array)
qed



subsection \<open>Interleaving\<close>

text \<open>
  The whole service under its threads: connections come and break, requests arrive, the month changes, and the
  thread of a queue takes its oldest task. Handlers run under the lock, so they are single steps. A task is a single
  step too, although only its last part, the look into the cache of sockets and the answer, runs under the lock: its
  statements run without it, and \<open>clear_ops\<close> writes the flag \<open>need_create_flag\<close> without it. The step stands at the
  moment of that last part, and the races of the earlier parts with \<open>check_db_valid\<close>, which are undefined behaviour,
  are not modelled. The environment (the clock, the directories) may be another one at every step. \<open>live\<close> are the
  addresses of the sockets that are connected; an address is used again by a later connection, and \<open>conns\<close> counts the
  connections at each so far. \<open>accepted\<close> and \<open>executed\<close> record the tasks, \<open>asked\<close> the HTTP queries with the number of
  the connection that sent them.
\<close>

record ('w, 'h) count_sys =
  svc :: "'h ffcount_service_t"
  world :: 'w
  live :: "sock set"
  conns :: "sock \<Rightarrow> nat"
  asked :: "(count_task \<times> nat) list"
  accepted :: "count_task list"
  executed :: "count_task list"

definition month_tasks :: "'h ffcount_service_t \<Rightarrow> count_task list" where
  "month_tasks s = map (\<lambda>(db, _). Clear_task db) (filter (\<lambda>(_, info). tq info \<noteq> None) (fc_db_info s))"

definition http_tasks :: "string \<Rightarrow> sock \<Rightarrow> fc_out list \<Rightarrow> count_task list" where
  "http_tasks body k out = (case vt_of (url_decode body) ''/'' of
     [year, month, db_name, sql] \<Rightarrow> (if out = [] then [Http_task db_name k (year @ ''/'' @ month) sql] else []) | _ \<Rightarrow> [])"

inductive count_step :: "('w, 'h) count_sys \<Rightarrow> ('w, 'h) count_sys \<Rightarrow> bool" where
  connected: "k \<notin> live x \<Longrightarrow> count_step x (x\<lparr>live := insert k (live x), conns := (conns x)(k := conns x k + 1)\<rparr>)"
| broken: "k \<in> live x \<Longrightarrow> count_step x (x\<lparr>svc := fst (fc_handle_broken k (svc x)), live := live x - {k}\<rparr>)"
| saved: "service_save_event env ev cb (svc x, world x) = Inr (r, s1, w1, out) \<Longrightarrow>
    count_step x (x\<lparr>svc := s1, world := w1, accepted := accepted x @ (if r = 0 then [Save_task (m_db_name ev) ev] else [])\<rparr>)"
| queried: "service_query env q cb (svc x, world x) = Inr (r, s1, w1, out) \<Longrightarrow>
    count_step x (x\<lparr>svc := s1, world := w1, accepted := accepted x @ (if r = 0 then [Query_task (q_db_name q) q cb] else [])\<rparr>)"
| http: "k \<in> live x \<Longrightarrow> fc_handle_msg env body k (svc x, world x) = Inr (s1, w1, out) \<Longrightarrow>
    count_step x (x\<lparr>svc := s1, world := w1, accepted := accepted x @ http_tasks body k out,
      asked := asked x @ map (\<lambda>t. (t, conns x k)) (http_tasks body k out)\<rparr>)"
| month: "create_new_dir now t now2 (svc x) = Inr (s1, out) \<Longrightarrow>
    count_step x (x\<lparr>svc := s1, accepted := accepted x @ month_tasks (svc x)\<rparr>)"
| run: "k < length (fc_all_tq (svc x)) \<Longrightarrow> fc_all_tq (svc x) ! k = t # ts \<Longrightarrow>
    run_task env t ((svc x)\<lparr>fc_all_tq := (fc_all_tq (svc x))[k := ts]\<rparr>, world x) = Inr (s1, w1, out) \<Longrightarrow>
    count_step x (x\<lparr>svc := s1, world := w1, executed := executed x @ [t]\<rparr>)"

inductive count_reach :: "('w, 'h) count_sys \<Rightarrow> bool" where
  started: "s = fst (fc_start config now t now2 new_ffcount_service) \<Longrightarrow>
    count_reach \<lparr>svc = s, world = w, live = {}, conns = (\<lambda>_. 0), asked = [], accepted = [], executed = []\<rparr>"
| stepped: "count_reach x \<Longrightarrow> count_step x y \<Longrightarrow> count_reach y"

text \<open>The tasks of a database that wait, in its queue.\<close>

definition pending :: "string \<Rightarrow> 'h ffcount_service_t \<Rightarrow> count_task list" where
  "pending db s = (case tq (info_at db s) of None \<Rightarrow> [] | Some k \<Rightarrow> filter (\<lambda>t. task_db t = db) (fc_all_tq s ! k))"

definition queues_ok :: "'h ffcount_service_t \<Rightarrow> bool" where
  "queues_ok s \<longleftrightarrow> (\<forall>db k. tq (info_at db s) = Some k \<longrightarrow> k < length (fc_all_tq s)) \<and>
     (\<forall>k < length (fc_all_tq s). \<forall>t \<in> set (fc_all_tq s ! k). tq (info_at (task_db t) s) = Some k) \<and>
     (\<forall>db. \<not> need_create_flag (info_at db s) \<longrightarrow> tq (info_at db s) \<noteq> None) \<and> fc_all_tq s \<noteq> [] \<and> om_wf (fc_db_info s)"

definition in_order :: "count_task list \<Rightarrow> count_task list \<Rightarrow> 'h ffcount_service_t \<Rightarrow> bool" where
  "in_order acc exe s \<longleftrightarrow> (\<forall>db. filter (\<lambda>t. task_db t = db) acc = filter (\<lambda>t. task_db t = db) exe @ pending db s)"

text \<open>What the operations on databases keep: the queues and the queue of every database that has one.\<close>

definition keeps :: "'h ffcount_service_t \<Rightarrow> 'h ffcount_service_t \<Rightarrow> bool" where
  "keeps s s1 \<longleftrightarrow> fc_all_tq s1 = fc_all_tq s \<and> set (fc_socket_cache s1) \<subseteq> set (fc_socket_cache s) \<and> (om_wf (fc_db_info s) \<longrightarrow> om_wf (fc_db_info s1)) \<and>
     (\<forall>db. case tq (info_at db s) of Some k \<Rightarrow> tq (info_at db s1) = Some k
        | None \<Rightarrow> (case tq (info_at db s1) of None \<Rightarrow> need_create_flag (info_at db s1) \<or> \<not> need_create_flag (info_at db s)
             | Some k \<Rightarrow> k < length (fc_all_tq s)))"

lemma info_at_put [simp]: "info_at db (put_info db2 i s) = (if db = db2 then i else info_at db s)"
  by (simp add: info_at_def put_info_def)

lemma put_info_sel [simp]: "fc_all_tq (put_info db i s) = fc_all_tq s" "fc_socket_cache (put_info db i s) = fc_socket_cache s"
  "fc_path (put_info db i s) = fc_path s" "om_wf (fc_db_info s) \<Longrightarrow> om_wf (fc_db_info (put_info db i s))"
  by (simp_all add: put_info_def)

lemma info_at_upd [simp]: "info_at db (s\<lparr>fc_all_tq := q\<rparr>) = info_at db s" "info_at db (s\<lparr>fc_socket_cache := c\<rparr>) = info_at db s"
  "info_at db (s\<lparr>fc_index := n\<rparr>) = info_at db s" "put_info db i (s\<lparr>fc_index := n\<rparr>) = (put_info db i s)\<lparr>fc_index := n\<rparr>"
  by (simp_all add: info_at_def put_info_def)

lemma keeps_put:
  assumes "tq info = tq (info_at db s)" "need_create_flag info \<or> \<not> need_create_flag (info_at db s)"
  shows "keeps s (put_info db info s)"
  using assms by (auto simp: keeps_def split: option.splits)

lemma assign_queue_cases:
  assumes "assign_queue info s = Inr (info1, s1)"
  shows "tq info1 = (case tq info of Some k \<Rightarrow> Some k | None \<Rightarrow> Some (queue_of (fc_index s) (length (fc_all_tq s)))) \<and>
    (tq info = None \<longrightarrow> fc_all_tq s \<noteq> []) \<and> (\<exists>n. s1 = s\<lparr>fc_index := n\<rparr>)"
  using assms by (auto simp: assign_queue_def split: option.splits if_splits) (metis ffcount_service_t.surjective ffcount_service_t.update_convs(2))

lemma open_db_keeps:
  assumes "open_db env db (info_at db s) (s, w) = Inr (r, info, s1, w1)"
  shows "(\<exists>n. s1 = s\<lparr>fc_index := n\<rparr>) \<and> (case tq (info_at db s) of Some k \<Rightarrow> tq info = Some k
    | None \<Rightarrow> (case tq info of None \<Rightarrow> \<not> need_create_flag (info_at db s) | Some k \<Rightarrow> k < length (fc_all_tq s)))"
proof (cases "need_create_flag (info_at db s)")
  case True
  with assms obtain info1 where "assign_queue (info_at db s) s = Inr (info1, s1)" "tq info = tq info1"
    by (auto simp: open_db_def split: sum.splits if_splits)
  then show ?thesis using assign_queue_cases [of "info_at db s" s info1 s1] by (auto simp: queue_of_def split: option.splits)
next
  case False
  have "\<exists>n. s = s\<lparr>fc_index := n\<rparr>" by (rule exI [of _ "fc_index s"]) simp
  then show ?thesis using False assms by (auto simp: open_db_def split: option.splits)
qed

lemma create_table_keeps: "create_table env t info w = Inr (r, info1, w1) \<Longrightarrow> tq info1 = tq info \<and> need_create_flag info1 = need_create_flag info"
  by (auto simp: create_table_def Let_def split: sum.splits if_splits)

lemma check_keeps:
  assumes "check_db_valid env db t (s, w) = Inr (r, s1, w1)"
  shows "keeps s s1" "fc_path s1 = fc_path s"
proof -
  obtain r0 info s2 w2 where o: "open_db env db (info_at db s) (s, w) = Inr (r0, info, s2, w2)"
    using assms by (auto simp: check_db_valid_def split: sum.splits)
  obtain n where n: "s2 = s\<lparr>fc_index := n\<rparr>" using open_db_keeps [OF o] by blast
  obtain info1 where "s1 = put_info db info1 s2" "tq info1 = tq info"
    using assms o create_table_keeps [of env t info w2] by (auto simp: check_db_valid_def split: sum.splits if_splits)
  then show "keeps s s1" "fc_path s1 = fc_path s" using open_db_keeps [OF o] n
    by (auto simp: keeps_def split: option.splits)
qed

lemma keepsD:
  assumes "keeps s s1"
  shows "fc_all_tq s1 = fc_all_tq s" "set (fc_socket_cache s1) \<subseteq> set (fc_socket_cache s)" "om_wf (fc_db_info s) \<Longrightarrow> om_wf (fc_db_info s1)"
    and keeps_old: "tq (info_at db s) = Some k \<Longrightarrow> tq (info_at db s1) = Some k"
    and keeps_new: "tq (info_at db s) = None \<Longrightarrow> tq (info_at db s1) = Some k \<Longrightarrow> k < length (fc_all_tq s)"
    and keeps_none: "tq (info_at db s) = None \<Longrightarrow> tq (info_at db s1) = None \<Longrightarrow> need_create_flag (info_at db s1) \<or> \<not> need_create_flag (info_at db s)"
  using assms unfolding keeps_def by (auto dest: spec [of _ db])

lemma keeps_cache: "keeps s s1 \<Longrightarrow> set cache \<subseteq> set (fc_socket_cache s) \<Longrightarrow> keeps s (s1\<lparr>fc_socket_cache := cache\<rparr>)"
  by (simp add: keeps_def cong: option.case_cong)

lemma run_task_keeps:
  assumes "run_task env t (s, w) = Inr (s1, w1, out)"
  shows "keeps s s1"
proof (cases t)
  case (Save_task db ev)
  with assms obtain c1 where "s1 = put_info db ((info_at db s)\<lparr>ffcount := c1\<rparr>) s" by (auto split: sum.splits)
  then show ?thesis by (simp add: keeps_put)
next
  case (Query_task db q cb)
  with assms obtain c1 where "s1 = put_info db ((info_at db s)\<lparr>ffcount := c1\<rparr>) s" by (auto split: sum.splits)
  then show ?thesis by (simp add: keeps_put)
next
  case (Clear_task db)
  with assms show ?thesis by (auto simp: clear_ops_def intro!: keeps_put)
next
  case (Http_task db k tm sql)
  with assms obtain c1 cache where "s1 = (put_info db ((info_at db s)\<lparr>ffcount := c1\<rparr>) s)\<lparr>fc_socket_cache := cache\<rparr>" "set cache \<subseteq> set (fc_socket_cache s)"
    by (auto simp: http_query_impl_def Let_def split: sum.splits if_splits)
      (metis ffcount_service_t.surjective ffcount_service_t.update_convs(5) order_refl put_info_sel(2))
  then show ?thesis by (simp add: keeps_cache keeps_put)
qed

lemma keeps_pending:
  assumes "keeps s s1" "queues_ok s"
  shows "pending db s1 = pending db s"
proof (cases "tq (info_at db s)")
  case None
  show ?thesis
  proof (cases "tq (info_at db s1)")
    case (Some k)
    have "k < length (fc_all_tq s)" using keeps_new [OF assms(1) None Some] .
    then have "\<forall>t \<in> set (fc_all_tq s ! k). task_db t \<noteq> db" using assms(2) None by (auto simp: queues_ok_def)
    then show ?thesis using keepsD(1) [OF assms(1)] None Some by (simp add: pending_def)
  qed (simp add: pending_def None)
next
  case (Some k)
  then show ?thesis using keeps_old [OF assms(1) Some] keepsD(1) [OF assms(1)] by (simp add: pending_def)
qed

lemma keeps_queues_ok:
  assumes "keeps s s1" "queues_ok s"
  shows "queues_ok s1"
proof -
  note keep = keepsD [OF assms(1)]
  have q: "\<forall>db k. tq (info_at db s) = Some k \<longrightarrow> k < length (fc_all_tq s)"
    "\<forall>k < length (fc_all_tq s). \<forall>t \<in> set (fc_all_tq s ! k). tq (info_at (task_db t) s) = Some k"
    "\<forall>db. \<not> need_create_flag (info_at db s) \<longrightarrow> tq (info_at db s) \<noteq> None" "fc_all_tq s \<noteq> []" "om_wf (fc_db_info s)"
    using assms(2) by (simp_all add: queues_ok_def)
  have "k < length (fc_all_tq s)" if "tq (info_at db s1) = Some k" for db k
    using q(1) that keep(4) [of db] keep(5) [of db] by (cases "tq (info_at db s)") auto
  moreover have "tq (info_at db s1) \<noteq> None" if "\<not> need_create_flag (info_at db s1)" for db
    using q(3) that keep(4) [of db] keep(6) [of db] by (cases "tq (info_at db s)") auto
  moreover have "\<forall>k < length (fc_all_tq s). \<forall>t \<in> set (fc_all_tq s ! k). tq (info_at (task_db t) s1) = Some k"
    using q(2) keep(4) by blast
  ultimately show ?thesis using q(4,5) keep(1,3) by (simp add: queues_ok_def)
qed

lemma keeps_in_order: "keeps s s1 \<Longrightarrow> queues_ok s \<Longrightarrow> in_order acc exe s \<Longrightarrow> in_order acc exe s1"
  by (simp add: in_order_def keeps_pending)

lemma produce_task_ok:
  assumes "produce_task t s = Inr s1" "queues_ok s"
  shows "queues_ok s1" "in_order acc exe s \<Longrightarrow> in_order (acc @ [t]) exe s1" "fc_socket_cache s1 = fc_socket_cache s" "fc_db_info s1 = fc_db_info s"
proof -
  obtain k where k: "tq (info_at (task_db t) s) = Some k" "s1 = s\<lparr>fc_all_tq := (fc_all_tq s)[k := fc_all_tq s ! k @ [t]]\<rparr>"
    using assms(1) by (auto simp: produce_task_def split: option.splits if_splits)
  have len: "k < length (fc_all_tq s)" using assms(2) k(1) by (auto simp: queues_ok_def)
  show "queues_ok s1" using assms(2) k len by (auto simp: queues_ok_def nth_list_update)
  show "in_order (acc @ [t]) exe s1" if "in_order acc exe s"
    using that k len by (auto simp: in_order_def pending_def nth_list_update split: option.splits)
  show "fc_socket_cache s1 = fc_socket_cache s" "fc_db_info s1 = fc_db_info s" using k by simp_all
qed

subsection \<open>What the interleaving keeps\<close>

definition count_inv :: "('w, 'h) count_sys \<Rightarrow> bool" where
  "count_inv x \<longleftrightarrow> queues_ok (svc x) \<and> in_order (accepted x) (executed x) (svc x) \<and> set (fc_socket_cache (svc x)) \<subseteq> live x"

text \<open>A request whose database checks out is in the queue; without a task nothing but \<open>keeps\<close> has happened.\<close>

lemma accept_ok:
  assumes "check_db_valid env db t (s, w) = Inr (r, s1, w1)" "queues_ok s" "in_order acc exe s"
  shows "queues_ok s1 \<and> in_order acc exe s1 \<and> set (fc_socket_cache s1) \<subseteq> set (fc_socket_cache s)"
  using check_keeps [OF assms(1)] keeps_queues_ok keeps_in_order assms(2,3) keepsD(2) by blast

lemma saved_ok:
  assumes "service_save_event env ev cb (s, w) = Inr (r, s1, w1, out)" "queues_ok s" "in_order acc exe s"
  shows "queues_ok s1 \<and> in_order (acc @ (if r = 0 then [Save_task (m_db_name ev) ev] else [])) exe s1 \<and>
    set (fc_socket_cache s1) \<subseteq> set (fc_socket_cache s)"
proof -
  obtain r0 s2 where c: "check_db_valid env (m_db_name ev) (m_table_name ev) (s, w) = Inr (r0, s2, w1)"
    "r0 \<noteq> 0 \<and> r \<noteq> 0 \<and> s1 = s2 \<or> r0 = 0 \<and> r = 0 \<and> produce_task (Save_task (m_db_name ev) ev) s2 = Inr s1"
    using assms(1) by (auto simp: service_save_event_def Let_def split: sum.splits if_splits)
  show ?thesis using c(2) accept_ok [OF c(1) assms(2,3)] produce_task_ok [of "Save_task (m_db_name ev) ev" s2 s1] by auto
qed

lemma queried_ok:
  assumes "service_query env q cb (s, w) = Inr (r, s1, w1, out)" "queues_ok s" "in_order acc exe s"
  shows "queues_ok s1 \<and> in_order (acc @ (if r = 0 then [Query_task (q_db_name q) q cb] else [])) exe s1 \<and>
    set (fc_socket_cache s1) \<subseteq> set (fc_socket_cache s)"
proof -
  obtain r0 s2 where c: "check_db_valid env (q_db_name q) [] (s, w) = Inr (r0, s2, w1)"
    "r0 \<noteq> 0 \<and> r \<noteq> 0 \<and> s1 = s2 \<or> r0 = 0 \<and> r = 0 \<and> produce_task (Query_task (q_db_name q) q cb) s2 = Inr s1"
    using assms(1) by (auto simp: service_query_def split: sum.splits if_splits)
  show ?thesis using c(2) accept_ok [OF c(1) assms(2,3)] produce_task_ok [of "Query_task (q_db_name q) q cb" s2 s1] by auto
qed

lemma queues_ok_cache [simp]: "queues_ok (s\<lparr>fc_socket_cache := c\<rparr>) = queues_ok s" "in_order acc exe (s\<lparr>fc_socket_cache := c\<rparr>) = in_order acc exe s"
  by (simp_all add: queues_ok_def in_order_def pending_def cong: option.case_cong)

lemma http_ok:
  assumes "fc_handle_msg env body k (s, w) = Inr (s1, w1, out)" "queues_ok s" "in_order acc exe s"
  shows "queues_ok s1 \<and> in_order (acc @ http_tasks body k out) exe s1 \<and>
    set (fc_socket_cache s1) \<subseteq> (if http_tasks body k out = [] then {} else {k}) \<union> set (fc_socket_cache s)"
proof (cases "\<exists>y m db sql. url_decode body \<noteq> ''/'' \<and> vt_of (url_decode body) ''/'' = [y, m, db, sql]")
  case True
  then obtain y m db sql where v: "url_decode body \<noteq> ''/''" "vt_of (url_decode body) ''/'' = [y, m, db, sql]" by blast
  let ?t = "Http_task db k (y @ ''/'' @ m) sql"
  obtain r s2 where c: "check_db_valid env db [] (s, w) = Inr (r, s2, w1)"
    "r \<noteq> 0 \<and> out \<noteq> [] \<and> s1 = s2 \<or> r = 0 \<and> out = [] \<and> produce_task ?t (s2\<lparr>fc_socket_cache := os_insert k (fc_socket_cache s2)\<rparr>) = Inr s1"
    using assms(1) v by (auto simp: fc_handle_msg_def Let_def simp del: vt_of_char split: sum.splits if_splits)
  show ?thesis
    using c(2) v accept_ok [OF c(1) assms(2,3)] produce_task_ok [of ?t "s2\<lparr>fc_socket_cache := os_insert k (fc_socket_cache s2)\<rparr>" s1]
    by (auto simp: http_tasks_def simp del: vt_of_char)
next
  case False
  have root: "vt_of ''/'' ''/'' = []" by code_simp
  have "s1 = s \<and> out \<noteq> []" using assms(1) False
    by (fastforce simp: fc_handle_msg_def Let_def simp del: vt_of_char split: sum.splits if_splits list.splits)
  moreover have "http_tasks body k out = []"
    using calculation False root by (auto simp: http_tasks_def simp del: vt_of_char split: list.splits)
  ultimately show ?thesis using assms(2,3) by auto
qed

lemma fold_month_turn_Inl [simp]: "fold month_turn m (Inl e) = Inl e"
proof (induction m)
  case (Cons p m)
  then show ?case by (cases p) simp
qed simp

lemma fold_month_turn:
  assumes "fold month_turn m (Inr s) = Inr s1" "queues_ok s" "in_order acc exe s"
  shows "queues_ok s1 \<and> in_order (acc @ map (\<lambda>(db, _). Clear_task db) (filter (\<lambda>(_, info). tq info \<noteq> None) m)) exe s1 \<and>
    fc_socket_cache s1 = fc_socket_cache s"
  using assms
proof (induction m arbitrary: s acc)
  case (Cons p m)
  obtain db info where p: "p = (db, info)" by fastforce
  show ?case
  proof (cases "tq info")
    case None
    then show ?thesis using Cons p by auto
  next
    case (Some k)
    then obtain s2 where s2: "produce_task (Clear_task db) s = Inr s2"
      using Cons.prems(1) p by (cases "produce_task (Clear_task db) s") auto
    show ?thesis using Cons.IH [of s2 "acc @ [Clear_task db]"] Cons.prems produce_task_ok [OF s2 Cons.prems(2)] Some s2 p by auto
  qed
qed simp

lemma month_ok:
  assumes "create_new_dir now t now2 s = Inr (s1, out)" "queues_ok s" "in_order acc exe s"
  shows "queues_ok s1 \<and> in_order (acc @ month_tasks s) exe s1 \<and> fc_socket_cache s1 = fc_socket_cache s"
proof -
  have "fold month_turn (fc_db_info s) (Inr s) = Inr s1" using assms(1) by (auto simp: create_new_dir_def split: sum.splits)
  from fold_month_turn [OF this assms(2,3)] show ?thesis unfolding month_tasks_def .
qed

lemma run_ok:
  assumes "k < length (fc_all_tq s)" "fc_all_tq s ! k = t # ts" "queues_ok s" "in_order acc exe s"
    and "run_task env t (s\<lparr>fc_all_tq := (fc_all_tq s)[k := ts]\<rparr>, w) = Inr (s1, w1, out)"
  shows "queues_ok s1 \<and> in_order acc (exe @ [t]) s1 \<and> set (fc_socket_cache s1) \<subseteq> set (fc_socket_cache s)"
proof -
  let ?s = "s\<lparr>fc_all_tq := (fc_all_tq s)[k := ts]\<rparr>"
  have q: "tq (info_at (task_db t) s) = Some k" using assms(1-3) by (auto simp: queues_ok_def)
  have taken: "queues_ok ?s" using assms(1-3) by (fastforce simp: queues_ok_def nth_list_update)
  have "filter (\<lambda>u. task_db u = db) exe @ pending db s = filter (\<lambda>u. task_db u = db) (exe @ [t]) @ pending db ?s" for db
    using q assms(1,2) by (auto simp: pending_def nth_list_update split: option.split)
  then have "in_order acc (exe @ [t]) ?s" using assms(4) by (simp add: in_order_def)
  then show ?thesis
    using run_task_keeps [OF assms(5)] taken keeps_queues_ok keeps_in_order keepsD(2) by fastforce
qed

lemma start_state:
  "info_at db (fst (fc_start config now t now2 new_ffcount_service)) = new_table_info"
  "fc_all_tq (fst (fc_start config now t now2 new_ffcount_service)) = replicate 8 []"
  "fc_socket_cache (fst (fc_start config now t now2 new_ffcount_service)) = []"
  "fc_db_info (fst (fc_start config now t now2 new_ffcount_service)) = []"
  by (simp_all add: info_at_def fc_start_def new_ffcount_service_def)

lemma start_inv:
  "count_inv \<lparr>svc = fst (fc_start config now t now2 new_ffcount_service), world = w, live = {}, conns = (\<lambda>_. 0), asked = [], accepted = [], executed = []\<rparr>"
  by (simp add: count_inv_def queues_ok_def in_order_def pending_def start_state new_table_info_def)

lemma step_inv: "count_step x y \<Longrightarrow> count_inv x \<Longrightarrow> count_inv y"
proof (induction rule: count_step.induct)
  case (connected k x)
  then show ?case by (auto simp: count_inv_def)
next
  case (broken k x)
  then show ?case by (auto simp: count_inv_def fc_handle_broken_def)
next
  case (saved env ev cb x r s1 w1 out)
  then show ?case using saved_ok [OF saved(1)] by (auto simp: count_inv_def)
next
  case (queried env q cb x r s1 w1 out)
  then show ?case using queried_ok [OF queried(1)] by (auto simp: count_inv_def)
next
  case (http k x env body s1 w1 out)
  then show ?case using http_ok [OF http(2)] by (fastforce simp: count_inv_def split: if_splits)
next
  case (month now t now2 x s1 out)
  then show ?case using month_ok [OF month(1)] by (auto simp: count_inv_def)
next
  case (run k x t ts env s1 w1 out)
  then show ?case using run_ok [OF run(1,2) _ _ run(3)] by (auto simp: count_inv_def)
qed

lemma reach_inv: "count_reach x \<Longrightarrow> count_inv x"
  by (induction rule: count_reach.induct) (auto intro: start_inv step_inv)

text \<open>
  (C25) Every database has one thread. However requests, month changes and the threads of the queues interleave,
  all tasks that wait for a database are in one queue, its own; and for every database the tasks accepted so far
  are those executed followed by those waiting, in the order of acceptance: events of a database are stored in
  the order in which they were accepted and none is lost.
\<close>

theorem database_in_order:
  assumes "count_reach x"
  shows "(\<forall>k < length (fc_all_tq (svc x)). \<forall>t \<in> set (fc_all_tq (svc x) ! k). tq (info_at (task_db t) (svc x)) = Some k) \<and>
    filter (\<lambda>t. task_db t = db) (accepted x) = filter (\<lambda>t. task_db t = db) (executed x) @ pending db (svc x)"
  using reach_inv [OF assms] by (simp add: count_inv_def queues_ok_def in_order_def)










text \<open>
  A new month has no tables. After the month has changed, the next event for a table that was already used
  connects the database to the new month's file and executes nothing there: the table is not created, because
  the names of the tables are kept although the file is new.
\<close>

theorem month_without_tables:
  assumes "tq (info_at db s) = Some k" "table \<in> set (table_names (info_at db s))"
    and "check_db_valid env db table (clear_ops db s, w) = Inr (0, s1, w1)"
  shows "\<exists>c. connect_db env (fc_path s) db (ffcount (info_at db s), w) = Inr (0, c, w1) \<and> ffcount (info_at db s1) = c \<and>
    table_names (info_at db s1) = table_names (info_at db s)"
proof -
  have info: "info_at db (clear_ops db s) = (info_at db s)\<lparr>need_create_flag := True\<rparr>" "fc_path (clear_ops db s) = fc_path s"
    by (simp_all add: clear_ops_def)
  show ?thesis using assms(3)
    by (auto simp: check_db_valid_def open_db_def assign_queue_def info assms(1) create_table_def assms(2) split: sum.splits if_splits)
qed

text \<open>A service in May 2013 for the witnesses.\<close>

definition sample_env :: "((string \<times> string) list, string) count_env" where
  "sample_env = \<lparr>ce_lib = sample_lib, ce_sqlite = True, ce_mkdir = (\<lambda>_ w. w), ce_now = zero_tm\<lparr>tm_year := 113, tm_mon := 4\<rparr>,
     ce_store = new_store, ce_json = (\<lambda>_. ''json''), ce_readdir = (\<lambda>_. None), ce_is_dir = (\<lambda>_. False)\<rparr>"

definition sample_service :: "string ffcount_service_t" where
  "sample_service = fst (fc_start [] 0 zero_tm 0 new_ffcount_service)"

definition sample_sys :: "((string \<times> string) list, string) count_sys" where
  "sample_sys = \<lparr>svc = sample_service, world = [], live = {}, conns = (\<lambda>_. 0), asked = [], accepted = [], executed = []\<rparr>"

lemma sample_reach: "count_reach sample_sys"
  unfolding sample_sys_def by (rule started) (simp add: sample_service_def)

theorem database_in_order_witness:
  "\<exists>x :: ((string \<times> string) list, string) count_sys. count_reach x \<and> accepted x = [Save_task ''default'' (sample_event [''7''])] \<and>
    filter (\<lambda>t. task_db t = ''default'') (accepted x) = filter (\<lambda>t. task_db t = ''default'') (executed x) @ pending ''default'' (svc x)"
proof -
  let ?cb = "make_callcack 0 0 0 0 None"
  have "map_sum id fst (service_save_event sample_env (sample_event [''7'']) ?cb (sample_service, [])) = Inr 0" by code_simp
  then obtain s1 w1 out where s: "service_save_event sample_env (sample_event [''7'']) ?cb (sample_service, []) = Inr (0, s1, w1, out)"
    by (cases "service_save_event sample_env (sample_event [''7'']) ?cb (sample_service, [])") auto
  have name: "m_db_name (sample_event [''7'']) = ''default''" by code_simp
  let ?y = "sample_sys\<lparr>svc := s1, world := w1, accepted := [Save_task ''default'' (sample_event [''7''])]\<rparr>"
  have "count_step sample_sys ?y"
    using name saved [of sample_env "sample_event [''7'']" ?cb sample_sys 0 s1 w1 out] s by (simp add: sample_sys_def)
  then have y: "count_reach ?y" by (rule stepped [OF sample_reach])
  show ?thesis
    by (rule exI [of _ ?y], intro conjI, rule y, simp, rule conjunct2 [OF database_in_order [OF y, of "''default''"]])
qed


text \<open>
  Behind a reused address: connection 1 at address 3 asks and breaks, connection 2 at the same address asks too; then
  the answer to the first query is sent to connection 2, which never asked it.
\<close>

lemma stale_answer_misdelivered:
  "\<exists>x :: ((string \<times> string) list, string) count_sys. count_reach x \<and> conns x 3 = 2 \<and>
    (\<exists>ts s1 w1. fc_all_tq (svc x) ! 0 = Http_task ''default'' 3 ''2013/5'' ''select 1'' # ts \<and>
      (Http_task ''default'' 3 ''2013/5'' ''select 1'', 1) \<in> set (asked x) \<and> (Http_task ''default'' 3 ''2013/5'' ''select 1'', 2) \<notin> set (asked x) \<and>
      run_task sample_env (Http_task ''default'' 3 ''2013/5'' ''select 1'') ((svc x)\<lparr>fc_all_tq := (fc_all_tq (svc x))[0 := ts]\<rparr>, world x) =
        Inr (s1, w1, [Out (Async_send 3 ''json'')]))"
proof -
  let ?t = "Http_task ''default'' 3 ''2013/5'' ''select 1''" and ?u = "Http_task ''default'' 3 ''2013/5'' ''select 2''"
  let ?q1 = "''/2013/5/default/select%201''" and ?q2 = "''/2013/5/default/select%202''"
  let ?next = "fc_handle_msg sample_env ?q1 3 (sample_service, [])"
  let ?more = "\<lambda>(s1, w1, _). fc_handle_msg sample_env ?q2 3 (fst (fc_handle_broken 3 s1), w1)"
  let ?run = "\<lambda>(s1, w1, _). run_task sample_env ?t (s1\<lparr>fc_all_tq := (fc_all_tq s1)[0 := [?u]]\<rparr>, w1)"
  have tasks: "http_tasks ?q1 3 [] = [?t]" "http_tasks ?q2 3 [] = [?u]" by code_simp+
  have "map_sum id (\<lambda>(_, _, out). out) ?next = Inr []" by code_simp
  then obtain s1 w1 where n: "?next = Inr (s1, w1, [])" by (cases ?next) auto
  have "(case ?next of Inr p \<Rightarrow> map_sum id (\<lambda>(s2, _, out). (out, fc_all_tq s2 ! 0)) (?more p) | Inl e \<Rightarrow> Inl e) = Inr ([], [?t, ?u])" by code_simp
  then obtain s2 w2 where m: "?more (s1, w1, []) = Inr (s2, w2, [])" "fc_all_tq s2 ! 0 = [?t, ?u]" using n by (cases "?more (s1, w1, [])") auto
  have "(case ?next of Inr p \<Rightarrow> (case ?more p of Inr q \<Rightarrow> map_sum id (\<lambda>(_, _, out). out) (?run q) | Inl e \<Rightarrow> Inl e) | Inl e \<Rightarrow> Inl e) = Inr [Out (Async_send 3 ''json'')]"
    by code_simp
  then obtain s3 w3 where r: "?run (s2, w2, []) = Inr (s3, w3, [Out (Async_send 3 ''json'')])" using n m by (cases "?run (s2, w2, [])") auto
  let ?x1 = "sample_sys\<lparr>live := {3}, conns := (\<lambda>_. 0)(3 := 1)\<rparr>"
  let ?x2 = "?x1\<lparr>svc := s1, world := w1, accepted := [?t], asked := [(?t, 1)]\<rparr>"
  let ?x3 = "?x2\<lparr>svc := fst (fc_handle_broken 3 s1), live := {}\<rparr>"
  let ?x4 = "?x3\<lparr>live := {3}, conns := (\<lambda>_. 0)(3 := 2)\<rparr>"
  let ?x5 = "?x4\<lparr>svc := s2, world := w2, accepted := [?t, ?u], asked := [(?t, 1), (?u, 2)]\<rparr>"
  have "count_reach ?x1" using stepped [OF sample_reach connected [of 3 sample_sys]] by (simp add: sample_sys_def)
  from stepped [OF this http [of 3 ?x1 sample_env ?q1 s1 w1 "[]"]] have "count_reach ?x2" using n tasks by (simp add: sample_sys_def)
  from stepped [OF this broken [of 3 ?x2]] have "count_reach ?x3" by simp
  from stepped [OF this connected [of 3 ?x3]] have "count_reach ?x4" by (simp add: numeral_2_eq_2)
  from stepped [OF this http [of 3 ?x4 sample_env ?q2 s2 w2 "[]"]] have "count_reach ?x5" using m tasks by simp
  then show ?thesis by (rule exI [of _ ?x5, OF conjI]) (use m(2) r in auto)
qed

theorem month_without_tables_witness:
  "\<exists>s s1 w1. ''login'' \<in> set (table_names (info_at ''default'' s)) \<and> check_db_valid sample_env ''default'' ''login'' (clear_ops ''default'' s, []) = Inr (0, s1, w1) \<and>
    (\<exists>c. connect_db sample_env (fc_path s) ''default'' (ffcount (info_at ''default'' s), []) = Inr (0, c, w1))"
proof -
  let ?next = "check_db_valid sample_env ''default'' ''login'' (sample_service, [])"
  let ?again = "\<lambda>(_, s, _). check_db_valid sample_env ''default'' ''login'' (clear_ops ''default'' s, [])"
  have "map_sum id (\<lambda>(r, s, _). (tq (info_at ''default'' s), table_names (info_at ''default'' s))) ?next = Inr (Some 0, [''login''])" by code_simp
  then obtain r s w where s: "?next = Inr (r, s, w)" "tq (info_at ''default'' s) = Some 0" "table_names (info_at ''default'' s) = [''login'']"
    by (cases ?next) auto
  have "(case ?next of Inr p \<Rightarrow> map_sum id fst (?again p) | Inl e \<Rightarrow> Inl e) = Inr 0" by code_simp
  then obtain s1 w1 where a: "?again (r, s, w) = Inr (0, s1, w1)" using s(1) by (cases "?again (r, s, w)") auto
  have "\<exists>c. connect_db sample_env (fc_path s) ''default'' (ffcount (info_at ''default'' s), []) = Inr (0, c, w1)"
    using month_without_tables [OF s(2), of "''login''" sample_env "[]" s1 w1] s(3) a by auto
  with s(3) a show ?thesis by (intro exI [of _ s] exI [of _ s1] exI [of _ w1]) auto
qed

end
