(* ===== verification/Ffcrud.thy ===== *)
theory Ffcrud
  imports Ffcount
begin

section \<open>Objects as rows\<close>

text \<open>
  \<^verbatim>\<open>db/ffcrud.h\<close>: a class registers its members as the columns of a table, and \<open>ffcrud_t\<close> writes and executes the
  statements that store and load an object. An object is a function from the keys of its members (the member
  pointers that the code copies into a \<open>long\<close>) to values; a value is a string or an integer, printed and read
  through a string stream (\<open>stream_word\<close> of the event log). A member behind an accessor function is a member
  with the key of the function. Values go into statements as they are.
\<close>

subsection \<open>Members\<close>

type_synonym obj = "int \<Rightarrow> farg"

text \<open>\<open>db_field_info_i::get\<close>: prints the member and reads one word back.\<close>

definition field_get :: "int \<Rightarrow> obj \<Rightarrow> string" where
  "field_get key x = fst (stream_word (show_arg (x key)))"

text \<open>\<open>db_field_info_i::set\<close>: reads one word into the member. Without a word the member keeps its value; a word
  that is no number reads as 0.\<close>

definition read_into :: "farg \<Rightarrow> string \<Rightarrow> farg" where
  "read_into old val = (let word = fst (stream_word val) in
     if word = [] then old else (case old of FStr _ \<Rightarrow> FStr word | FInt _ \<Rightarrow> FInt (atoi word)))"

definition field_set :: "int \<Rightarrow> string \<Rightarrow> obj \<Rightarrow> obj" where
  "field_set key val x = x(key := read_into (x key) val)"

subsection \<open>Registration\<close>

text \<open>A registered field: its name and the key of its member, NULL for a primary key that has not been defined.\<close>

record field_reg_info_t =
  field_name :: string
  field_data :: "int option"

datatype field_ref = Primary_ref nat | Normal_ref nat

record ffcrud_register_t =
  cr_table_name :: string
  m_primarykey_fields :: "field_reg_info_t list"
  m_normal_fields :: "field_reg_info_t list"
  m_index_for_field :: "(int, field_ref) omap"

definition new_register :: ffcrud_register_t where
  "new_register = \<lparr>cr_table_name = [], m_primarykey_fields = [], m_normal_fields = [], m_index_for_field = []\<rparr>"

definition bind_table :: "string \<Rightarrow> string \<Rightarrow> ffcrud_register_t \<Rightarrow> ffcrud_register_t" where
  "bind_table table primarykeys r = r\<lparr>cr_table_name := table, m_primarykey_fields := m_primarykey_fields r @
     map (\<lambda>n. \<lparr>field_name = n, field_data = None\<rparr>) (vt_of primarykeys '','')\<rparr>"

definition find_field :: "field_reg_info_t list \<Rightarrow> string \<Rightarrow> nat option" where
  "find_field vt name = find_pos (\<lambda>f. field_name f = name) vt"

text \<open>\<open>def\<close> for a member (or accessor) with its key.\<close>

definition def_field :: "int \<Rightarrow> string \<Rightarrow> ffcrud_register_t \<Rightarrow> ffcrud_register_t" where
  "def_field key name r = (case find_field (m_primarykey_fields r) name of
     Some i \<Rightarrow> r\<lparr>m_primarykey_fields := (m_primarykey_fields r)[i := (m_primarykey_fields r ! i)\<lparr>field_data := Some key\<rparr>],
                m_index_for_field := om_put key (Primary_ref i) (m_index_for_field r)\<rparr>
   | None \<Rightarrow> r\<lparr>m_normal_fields := m_normal_fields r @ [\<lparr>field_name = name, field_data = Some key\<rparr>],
                m_index_for_field := om_put key (Normal_ref (length (m_normal_fields r))) (m_index_for_field r)\<rparr>)"

definition get_field_by_key :: "int \<Rightarrow> ffcrud_register_t \<Rightarrow> field_reg_info_t option" where
  "get_field_by_key key r = map_option (\<lambda>ref. case ref of Primary_ref i \<Rightarrow> m_primarykey_fields r ! i | Normal_ref i \<Rightarrow> m_normal_fields r ! i)
     (map_of (m_index_for_field r) key)"

subsection \<open>Statements\<close>

definition value_of :: "obj \<Rightarrow> field_reg_info_t \<Rightarrow> string exc" where
  "value_of x f = (case field_data f of None \<Rightarrow> Inl Null_deref | Some key \<Rightarrow> Inr (field_get key x))"

text \<open>A loop over fields that appends for every field: \<open>g first name value\<close>.\<close>

fun each_field :: "(bool \<Rightarrow> string \<Rightarrow> string \<Rightarrow> string) \<Rightarrow> bool \<Rightarrow> obj \<Rightarrow> field_reg_info_t list \<Rightarrow> string exc" where
  "each_field g first x [] = Inr []"
| "each_field g first x (f # fs) = (case value_of x f of Inl e \<Rightarrow> Inl e
     | Inr v \<Rightarrow> (case each_field g False x fs of Inl e \<Rightarrow> Inl e | Inr s \<Rightarrow> Inr (g first (field_name f) v @ s)))"

definition eq_clause :: "string \<Rightarrow> bool \<Rightarrow> string \<Rightarrow> string \<Rightarrow> string" where
  "eq_clause sep first name v = (if first then [] else sep) @ name @ '' = '' @ [quote] @ v @ [quote]"

definition name_clause :: "bool \<Rightarrow> string \<Rightarrow> string" where
  "name_clause first name = (if first then [] else '', '') @ name @ '' ''"

fun name_list :: "bool \<Rightarrow> field_reg_info_t list \<Rightarrow> string" where
  "name_list first [] = []"
| "name_list first (f # fs) = name_clause first (field_name f) @ name_list False fs"

text \<open>\<open>insert_sql\<close> collects names and values with a trailing comma and overwrites the last two characters.\<close>

definition crud_insert_sql :: "ffcrud_register_t \<Rightarrow> obj \<Rightarrow> string exc" where
  "crud_insert_sql r x = (let fs = m_primarykey_fields r @ m_normal_fields r;
       sql = ''INSERT INTO '' @ cr_table_name r @ '' ('' @ concat (map (\<lambda>f. field_name f @ '', '') fs)
     in case each_field (\<lambda>_ _ v. [quote] @ v @ [quote] @ '', '') True x fs of Inl e \<Rightarrow> Inl e
     | Inr vs \<Rightarrow> (let val = '' ('' @ vs in
         Inr (sql[length sql - 2 := CHR '')''] @ ''VALUES'' @ (val[length val - 2 := CHR '')''])[length val - 1 := CHR '';''])))"

definition where_keys :: "ffcrud_register_t \<Rightarrow> obj \<Rightarrow> string exc" where
  "where_keys r x = each_field (eq_clause '', '') True x (m_primarykey_fields r)"

definition crud_select_sql :: "ffcrud_register_t \<Rightarrow> obj \<Rightarrow> string exc" where
  "crud_select_sql r x = (case where_keys r x of Inl e \<Rightarrow> Inl e
     | Inr k \<Rightarrow> Inr (''SELECT '' @ name_list True (m_normal_fields r) @ ''FROM '' @ cr_table_name r @ '' WHERE '' @ k @ '' limit 1;''))"

definition crud_update_sql :: "ffcrud_register_t \<Rightarrow> obj \<Rightarrow> string exc" where
  "crud_update_sql r x = (case each_field (eq_clause '', '') True x (m_normal_fields r) of Inl e \<Rightarrow> Inl e
     | Inr vs \<Rightarrow> (case where_keys r x of Inl e \<Rightarrow> Inl e
        | Inr k \<Rightarrow> Inr (''UPDATE '' @ cr_table_name r @ '' SET '' @ vs @ '' WHERE '' @ k)))"

definition crud_del_sql :: "ffcrud_register_t \<Rightarrow> obj \<Rightarrow> string exc" where
  "crud_del_sql r x = (case where_keys r x of Inl e \<Rightarrow> Inl e | Inr k \<Rightarrow> Inr (''DELETE FROM '' @ cr_table_name r @ '' WHERE '' @ k))"

text \<open>The fields that arguments of \<open>update\<close> and \<open>select_all\<close> name by their keys; one that is not registered makes
  the statement empty.\<close>

fun fields_by_key :: "int list \<Rightarrow> ffcrud_register_t \<Rightarrow> field_reg_info_t list option" where
  "fields_by_key [] r = Some []"
| "fields_by_key (k # ks) r = (case get_field_by_key k r of None \<Rightarrow> None
     | Some f \<Rightarrow> (if field_data f = None then None else map_option ((#) f) (fields_by_key ks r)))"

definition update_sql_args :: "int list \<Rightarrow> ffcrud_register_t \<Rightarrow> obj \<Rightarrow> string exc" where
  "update_sql_args keys r x = (case fields_by_key keys r of None \<Rightarrow> Inr []
     | Some fs \<Rightarrow> (case each_field (eq_clause '', '') True x fs of Inl e \<Rightarrow> Inl e
        | Inr vs \<Rightarrow> (case where_keys r x of Inl e \<Rightarrow> Inl e
           | Inr k \<Rightarrow> Inr (''UPDATE '' @ cr_table_name r @ '' SET '' @ vs @ '' WHERE '' @ k))))"

definition select_sql_args :: "int list \<Rightarrow> ffcrud_register_t \<Rightarrow> obj \<Rightarrow> string exc" where
  "select_sql_args keys r x = (case fields_by_key keys r of None \<Rightarrow> Inr []
     | Some fs \<Rightarrow> (case each_field (eq_clause '' AND '') True x fs of Inl e \<Rightarrow> Inl e
        | Inr k \<Rightarrow> Inr (''SELECT '' @ name_list True (m_primarykey_fields r @ m_normal_fields r) @ ''FROM '' @ cr_table_name r @ '' WHERE '' @ k)))"

subsection \<open>Operations\<close>

definition crud_exe :: "('w, 'h) db_lib \<Rightarrow> string exc \<Rightarrow> 'h ffdb_t \<times> 'w \<Rightarrow> (int \<times> 'h ffdb_t \<times> 'w) exc" where
  "crud_exe lib sql dw = (case sql of Inl e \<Rightarrow> Inl e | Inr q \<Rightarrow> exe_sql lib q dw)"

definition crud_insert :: "('w, 'h) db_lib \<Rightarrow> ffcrud_register_t \<Rightarrow> obj \<Rightarrow> 'h ffdb_t \<times> 'w \<Rightarrow> (int \<times> 'h ffdb_t \<times> 'w) exc" where
  "crud_insert lib r x = crud_exe lib (crud_insert_sql r x)"

definition crud_update :: "('w, 'h) db_lib \<Rightarrow> ffcrud_register_t \<Rightarrow> obj \<Rightarrow> 'h ffdb_t \<times> 'w \<Rightarrow> (int \<times> 'h ffdb_t \<times> 'w) exc" where
  "crud_update lib r x = crud_exe lib (crud_update_sql r x)"

definition crud_del :: "('w, 'h) db_lib \<Rightarrow> ffcrud_register_t \<Rightarrow> obj \<Rightarrow> 'h ffdb_t \<times> 'w \<Rightarrow> (int \<times> 'h ffdb_t \<times> 'w) exc" where
  "crud_del lib r x = crud_exe lib (crud_del_sql r x)"

definition crud_update_args :: "('w, 'h) db_lib \<Rightarrow> ffcrud_register_t \<Rightarrow> obj \<Rightarrow> int list \<Rightarrow> 'h ffdb_t \<times> 'w \<Rightarrow> (int \<times> 'h ffdb_t \<times> 'w) exc" where
  "crud_update_args lib r x keys dw = (case update_sql_args keys r x of Inl e \<Rightarrow> Inl e
     | Inr sql \<Rightarrow> (if sql \<noteq> [] then exe_sql lib sql dw else Inr (- 1, dw)))"

text \<open>The columns of a row into the fields, in order; the row is indexed without a test.\<close>

fun load_fields :: "field_reg_info_t list \<Rightarrow> string list \<Rightarrow> obj \<Rightarrow> obj exc" where
  "load_fields [] row x = Inr x"
| "load_fields (f # fs) row x = (case field_data f of None \<Rightarrow> Inl Null_deref
     | Some key \<Rightarrow> (case row of [] \<Rightarrow> Inl Out_of_range | v # vs \<Rightarrow> load_fields fs vs (field_set key v x)))"

definition crud_select :: "('w, 'h) db_lib \<Rightarrow> ffcrud_register_t \<Rightarrow> string exc \<Rightarrow> obj \<Rightarrow> 'h ffdb_t \<times> 'w \<Rightarrow> (int \<times> obj \<times> 'h ffdb_t \<times> 'w) exc" where
  "crud_select lib r sql x dw = (case sql of Inl e \<Rightarrow> Inl e
   | Inr q \<Rightarrow> (case exe_sql_data lib q [] dw of Inl e \<Rightarrow> Inl e
   | Inr (rc, ret_data, dw1) \<Rightarrow> (if rc \<noteq> 0 \<or> length ret_data \<noteq> 1 then Inr (- 1, x, dw1)
        else (case load_fields (m_normal_fields r) (ret_data ! 0) x of Inl e \<Rightarrow> Inl e | Inr x1 \<Rightarrow> Inr (0, x1, dw1)))))"

text \<open>\<open>select_all\<close> makes a default object for every row; \<open>fresh\<close> is \<open>T()\<close>.\<close>

fun load_all :: "field_reg_info_t list \<Rightarrow> obj \<Rightarrow> string list list \<Rightarrow> obj list exc" where
  "load_all fs fresh [] = Inr []"
| "load_all fs fresh (row # rows) = (case load_fields fs row fresh of Inl e \<Rightarrow> Inl e
     | Inr x \<Rightarrow> (case load_all fs fresh rows of Inl e \<Rightarrow> Inl e | Inr xs \<Rightarrow> Inr (x # xs)))"

definition crud_select_all ::
  "('w, 'h) db_lib \<Rightarrow> ffcrud_register_t \<Rightarrow> obj \<Rightarrow> obj \<Rightarrow> int list \<Rightarrow> obj list \<Rightarrow> 'h ffdb_t \<times> 'w \<Rightarrow> (int \<times> obj list \<times> 'h ffdb_t \<times> 'w) exc" where
  "crud_select_all lib r fresh x keys ret dw = (case select_sql_args keys r x of Inl e \<Rightarrow> Inl e
   | Inr q \<Rightarrow> (case exe_sql_data lib q [] dw of Inl e \<Rightarrow> Inl e
   | Inr (rc, ret_data, dw1) \<Rightarrow> (if rc \<noteq> 0 then Inr (- 1, ret, dw1)
        else (case load_all (m_primarykey_fields r @ m_normal_fields r) fresh ret_data of Inl e \<Rightarrow> Inl e
          | Inr xs \<Rightarrow> Inr (0, ret @ xs, dw1)))))"

subsection \<open>What the statements say\<close>

definition registered :: "field_reg_info_t list \<Rightarrow> bool" where
  "registered fs \<longleftrightarrow> (\<forall>f \<in> set fs. field_data f \<noteq> None)"

definition values_of :: "obj \<Rightarrow> field_reg_info_t list \<Rightarrow> string list" where
  "values_of x fs = map (\<lambda>f. field_get (the (field_data f)) x) fs"

text \<open>The reference: a list with \<open>sep\<close> between its elements.\<close>

fun sep_list :: "string \<Rightarrow> string list \<Rightarrow> string" where
  "sep_list sep [] = []"
| "sep_list sep (s # ss) = s @ concat (map (\<lambda>t. sep @ t) ss)"

definition quoted :: "string \<Rightarrow> string" where
  "quoted v = [quote] @ v @ [quote]"

lemma each_field_all:
  "registered fs \<Longrightarrow> each_field g first x fs =
    Inr (concat (map (\<lambda>(i, f). g (first \<and> i = 0) (field_name f) (field_get (the (field_data f)) x)) (enumerate 0 fs)))"
proof (induction fs arbitrary: first)
  case (Cons f fs)
  have e: "enumerate (Suc 0) fs = map (\<lambda>(i, f). (Suc i, f)) (enumerate 0 fs)"
    by (auto simp: enumerate_Suc_eq)
  have v: "value_of x f = Inr (field_get (the (field_data f)) x)" using Cons.prems by (auto simp: registered_def value_of_def)
  show ?case using Cons by (simp add: e v registered_def comp_def case_prod_unfold)
qed simp

lemma each_field_unregistered: "\<not> registered fs \<Longrightarrow> each_field g first x fs = Inl Null_deref"
proof (induction fs arbitrary: first)
  case (Cons f fs)
  then show ?case by (cases "field_data f") (simp_all add: registered_def value_of_def)
qed (simp add: registered_def)

lemma eq_clauses_tail:
  "concat (map (\<lambda>(i, f). eq_clause sep False (field_name f) (h f)) (enumerate j ys)) =
    concat (map (\<lambda>t. sep @ t) (map (\<lambda>(n, v). n @ '' = '' @ quoted v) (zip (map field_name ys) (map h ys))))"
  by (induction ys arbitrary: j) (simp_all add: eq_clause_def quoted_def)

lemma eq_clauses:
  assumes "registered fs"
  shows "each_field (eq_clause sep) True x fs = Inr (sep_list sep (map (\<lambda>(n, v). n @ '' = '' @ quoted v) (zip (map field_name fs) (values_of x fs))))"
proof -
  show ?thesis
  proof (cases fs)
    case (Cons f gs)
    have r: "registered gs" and d: "value_of x f = Inr (field_get (the (field_data f)) x)"
      using assms Cons by (auto simp: registered_def value_of_def)
    show ?thesis using each_field_all [OF r, of "eq_clause sep" False x] eq_clauses_tail [where ys = gs and h = "\<lambda>f. field_get (the (field_data f)) x"]
      by (simp add: Cons d values_of_def eq_clause_def quoted_def case_prod_unfold)
  qed (simp add: values_of_def)
qed

lemma close_lists:
  "(let sql = a @ '', ''; val = b @ '', '' in
      sql[length sql - 2 := CHR '')''] @ ''VALUES'' @ (val[length val - 2 := CHR '')''])[length val - 1 := CHR '';'']) =
    a @ '') VALUES'' @ b @ '');''"
  by (simp add: Let_def list_update_append)

lemma trailing_list: "ss \<noteq> [] \<Longrightarrow> concat (map (\<lambda>s. s @ '', '') ss) = sep_list '', '' ss @ '', ''"
proof (induction ss)
  case (Cons s ss)
  then show ?case by (cases ss) simp_all
qed simp

text \<open>
  The statement that stores an object. For a class with fields, all of them defined, \<open>insert_sql\<close> is the
  \<open>INSERT\<close> of all names and all values, in order; a primary key that was bound but not defined is a null
  pointer.
\<close>

theorem crud_insert_statement:
  assumes "m_primarykey_fields r @ m_normal_fields r \<noteq> []"
  shows "crud_insert_sql r x = (if registered (m_primarykey_fields r @ m_normal_fields r)
    then Inr (''INSERT INTO '' @ cr_table_name r @ '' ('' @ sep_list '', '' (map field_name (m_primarykey_fields r @ m_normal_fields r)) @ '') VALUES ('' @
      sep_list '', '' (map quoted (values_of x (m_primarykey_fields r @ m_normal_fields r))) @ '');'')
    else Inl Null_deref)"
proof (cases "registered (m_primarykey_fields r @ m_normal_fields r)")
  case True
  let ?fs = "m_primarykey_fields r @ m_normal_fields r"
  let ?names = "''INSERT INTO '' @ cr_table_name r @ '' ('' @ sep_list '', '' (map field_name ?fs)"
  let ?vals = "'' ('' @ sep_list '', '' (map quoted (values_of x ?fs))"
  have drop_index: "concat (map (\<lambda>(i, f). h f) (enumerate k fs)) = concat (map h fs)" for h k and fs :: "field_reg_info_t list"
    by (induction fs arbitrary: k) simp_all
  have vs: "each_field (\<lambda>_ _ v. [quote] @ v @ [quote] @ '', '') True x ?fs = Inr (sep_list '', '' (map quoted (values_of x ?fs)) @ '', '')"
    using each_field_all [OF True, of "\<lambda>_ _ v. [quote] @ v @ [quote] @ '', ''" True x] trailing_list [of "map quoted (values_of x ?fs)"] assms
    by (simp add: drop_index values_of_def quoted_def comp_def)
  have ns: "concat (map (\<lambda>f. field_name f @ '', '') ?fs) = sep_list '', '' (map field_name ?fs) @ '', ''"
    using trailing_list [of "map field_name ?fs"] assms by (simp add: comp_def)
  have "crud_insert_sql r x = Inr (let sql = ?names @ '', ''; val = ?vals @ '', '' in
      sql[length sql - 2 := CHR '')''] @ ''VALUES'' @ (val[length val - 2 := CHR '')''])[length val - 1 := CHR '';''])"
    unfolding crud_insert_sql_def Let_def vs ns by (simp only: sum.case append_assoc)
  also have "\<dots> = Inr (?names @ '') VALUES'' @ ?vals @ '');'')" unfolding close_lists ..
  finally show ?thesis using True by simp
next
  case False
  then show ?thesis by (simp add: crud_insert_sql_def each_field_unregistered Let_def)
qed

subsection \<open>Storing and loading\<close>

text \<open>What a string stream brings back: every integer, and strings of one word.\<close>

definition storable :: "farg \<Rightarrow> bool" where
  "storable v = (case v of FInt _ \<Rightarrow> True | FStr s \<Rightarrow> s \<noteq> [] \<and> (\<forall>c \<in> set s. \<not> is_blank c))"

definition same_kind :: "farg \<Rightarrow> farg \<Rightarrow> bool" where
  "same_kind v w = (case v of FInt _ \<Rightarrow> (\<exists>n. w = FInt n) | FStr _ \<Rightarrow> (\<exists>s. w = FStr s))"

lemma storable_word: "storable v \<Longrightarrow> show_arg v \<noteq> [] \<and> fst (stream_word (show_arg v)) = show_arg v"
  using show_int_word by (auto simp: storable_def show_arg_def stream_word_plain split: farg.splits)

lemma read_back: "storable v \<Longrightarrow> same_kind v w \<Longrightarrow> read_into w (field_get k (x(k := v))) = v"
  using storable_word [of v] atoi_show_int stream_word_plain
  by (auto simp: read_into_def field_get_def Let_def same_kind_def storable_def show_arg_def show_int_word split: farg.splits)

definition field_keys :: "field_reg_info_t list \<Rightarrow> int set" where
  "field_keys fs = {k. \<exists>f \<in> set fs. field_data f = Some k}"

lemma load_fields_all:
  assumes "registered fs" "\<forall>k \<in> field_keys fs. storable (x k) \<and> same_kind (x k) (y k)"
  shows "load_fields fs (values_of x fs) y = Inr (\<lambda>k. if k \<in> field_keys fs then x k else y k)"
  using assms
proof (induction fs arbitrary: y)
  case (Cons f fs)
  obtain k where k: "field_data f = Some k" using Cons.prems(1) by (auto simp: registered_def)
  have "storable (x k)" "same_kind (x k) (y k)" using Cons.prems(2) k by (auto simp: field_keys_def)
  then have set: "field_set k (field_get k x) y = y(k := x k)" using read_back [of "x k" "y k" k x] by (simp add: field_set_def)
  have "load_fields fs (values_of x fs) (y(k := x k)) = Inr (\<lambda>j. if j \<in> field_keys fs then x j else (y(k := x k)) j)"
    by (rule Cons.IH) (use Cons.prems in \<open>auto simp: registered_def field_keys_def same_kind_def split: farg.splits\<close>)
  moreover have "(\<lambda>j. if j \<in> field_keys fs then x j else (y(k := x k)) j) = (\<lambda>j. if j \<in> field_keys (f # fs) then x j else y j)"
    using k by (auto simp: field_keys_def)
  ultimately show ?case using k set by (simp add: values_of_def)
qed (simp add: values_of_def field_keys_def)

text \<open>
  Storing and loading. When the database answers the \<open>SELECT\<close> of an object with one row that holds what
  \<open>insert_sql\<close> or \<open>update_sql\<close> wrote for another object's fields, \<open>select\<close> gives the first object all of the
  other's fields and leaves its other members alone, provided that strings are single words; with no row, more
  than one row or an error it returns -1 and changes nothing.
\<close>

theorem crud_select_loads:
  assumes "registered (m_normal_fields r)" "crud_select_sql r y = Inr q" "exe_sql_data lib q [] dw = Inr (rc, rows, dw1)"
    and "\<forall>k \<in> field_keys (m_normal_fields r). storable (x k) \<and> same_kind (x k) (y k)"
  shows "(rc = 0 \<and> rows = [values_of x (m_normal_fields r)] \<longrightarrow>
      crud_select lib r (crud_select_sql r y) y dw = Inr (0, \<lambda>k. if k \<in> field_keys (m_normal_fields r) then x k else y k, dw1)) \<and>
    (rc \<noteq> 0 \<or> length rows \<noteq> 1 \<longrightarrow> crud_select lib r (crud_select_sql r y) y dw = Inr (- 1, y, dw1))"
  using load_fields_all [OF assms(1,4)] assms(2,3) by (auto simp: crud_select_def)

lemma sqlite_literal_length: "sqlite_literal s = Some (u, t) \<Longrightarrow> length u + length t < length s"
proof (induction s arbitrary: u rule: length_induct)
  case (1 s)
  show ?case
  proof (cases s)
    case (Cons c s1)
    show ?thesis
    proof (cases "c = quote")
      case True
      then show ?thesis using 1(2) spec [OF 1(1), of "tl s1"] Cons by (cases s1) (auto split: if_splits)
    next
      case False
      then show ?thesis using 1 Cons by auto
    qed
  qed (use 1 in simp)
qed

lemma sqlite_literal_skip: "quote \<notin> set a \<Longrightarrow> sqlite_literal (a @ s) = map_option (apfst ((@) a)) (sqlite_literal s)"
proof (induction a)
  case Nil
  show ?case by (cases "sqlite_literal s") auto
next
  case (Cons c a)
  then show ?case by (cases "sqlite_literal s") auto
qed

lemma plain_literal: "sqlite_literal (v @ [quote]) = Some (v, []) \<longleftrightarrow> quote \<notin> set v"
proof (cases "quote \<in> set v")
  case True
  then obtain a b where v: "v = a @ quote # b" "quote \<notin> set a" by (meson split_list_first)
  have "sqlite_literal (quote # b @ [quote]) \<noteq> Some (quote # b, [])"
    using sqlite_literal_length [of "tl (b @ [quote])" "b" "[]"] by (cases b) auto
  then show ?thesis using True sqlite_literal_skip [OF v(2), of "quote # b @ [quote]"] v(1) by auto
next
  case False
  then show ?thesis using sqlite_literal_skip [of v "[quote]"] by simp
qed

text \<open>
  Values are not escaped. A statement that names an object by its key holds the key's value between quotes as
  it is: SQLite reads exactly the value if it has no quote, and never when it has one.
\<close>

theorem crud_key_literal:
  assumes "m_primarykey_fields r = [\<lparr>field_name = name, field_data = Some key\<rparr>]"
  shows "crud_del_sql r x = Inr (''DELETE FROM '' @ cr_table_name r @ '' WHERE '' @ name @ '' = '' @ [quote] @ (field_get key x @ [quote])) \<and>
    (sqlite_literal (field_get key x @ [quote]) = Some (field_get key x, []) \<longleftrightarrow> quote \<notin> set (field_get key x))"
proof -
  show ?thesis using plain_literal [of "field_get key x"]
    by (simp add: crud_del_sql_def where_keys_def assms value_of_def eq_clause_def)
qed

text \<open>A class with a key and two columns, and two objects of it.\<close>

definition sample_register :: ffcrud_register_t where
  "sample_register = def_field 16 ''name'' (def_field 8 ''level'' (def_field 0 ''uid'' (bind_table ''user'' ''uid'' new_register)))"

definition sample_obj :: "int \<Rightarrow> int \<Rightarrow> string \<Rightarrow> obj" where
  "sample_obj uid level name = (\<lambda>_. FInt 0)(0 := FInt uid, 8 := FInt level, 16 := FStr name)"

lemma sample_register_fields:
  "m_primarykey_fields sample_register = [\<lparr>field_name = ''uid'', field_data = Some 0\<rparr>]"
  "m_normal_fields sample_register = [\<lparr>field_name = ''level'', field_data = Some 8\<rparr>, \<lparr>field_name = ''name'', field_data = Some 16\<rparr>]"
  "cr_table_name sample_register = ''user''"
  by (simp_all add: sample_register_def def_field_def bind_table_def new_register_def find_field_def)

theorem crud_insert_statement_witness:
  "crud_insert_sql sample_register (sample_obj 7 (- 3) ''ann'') = Inr ''INSERT INTO user (uid, level, name) VALUES ('7', '-3', 'ann');''"
proof -
  have "map quoted (values_of (sample_obj 7 (- 3) ''ann'') (m_primarykey_fields sample_register @ m_normal_fields sample_register)) =
      [quoted ''7'', quoted ''-3'', quoted ''ann'']" by code_simp
  then show ?thesis
    using crud_insert_statement [of sample_register "sample_obj 7 (- 3) ''ann''"]
    by (simp add: sample_register_fields registered_def quoted_def)
qed

definition row_lib :: "((string \<times> string) list, string) db_lib" where
  "row_lib = sample_lib\<lparr>sqlite3_exec := (\<lambda>h sql w. ([([Some ''level'', Some ''name''], [Some ''5'', Some ''ann''])], None, w))\<rparr>"

theorem crud_select_loads_witness:
  "\<exists>x1 dw1. crud_select row_lib sample_register (crud_select_sql sample_register (sample_obj 7 0 ''x'')) (sample_obj 7 0 ''x'')
      (Some (Sqlite_ops (new_sqlite_ops\<lparr>m_sqlite := Some ''a.db''\<rparr>)), []) = Inr (0, x1, dw1) \<and> x1 0 = FInt 7 \<and> x1 8 = FInt 5 \<and> x1 16 = FStr ''ann''"
proof -
  let ?y = "sample_obj 7 0 ''x''" and ?x = "sample_obj 7 5 ''ann''"
  let ?dw = "(Some (Sqlite_ops (new_sqlite_ops\<lparr>m_sqlite := Some ''a.db''\<rparr>)), [])"
  have q: "crud_select_sql sample_register ?y = Inr ''SELECT level , name FROM user WHERE uid = '7' limit 1;''" by code_simp
  have e: "\<exists>dw1. exe_sql_data row_lib ''SELECT level , name FROM user WHERE uid = '7' limit 1;'' [] ?dw = Inr (0, [[''5'', ''ann'']], dw1)"
    by (simp add: exe_sql_data_def db_exe_def sq_exe_sql_def row_lib_def default_callback_def row_callback_def assign_def cstr_def Let_def)
  have v: "values_of ?x (m_normal_fields sample_register) = [''5'', ''ann'']" by code_simp
  show ?thesis
    using crud_select_loads [OF _ q, of row_lib ?dw 0 "[[''5'', ''ann'']]" _ ?x] e v
    by (auto simp: sample_register_fields registered_def field_keys_def storable_def same_kind_def sample_obj_def is_blank_def)
qed

theorem crud_key_literal_witness:
  "\<exists>s. crud_del_sql sample_register (\<lambda>_. FStr ''x'or'1'='1'') = Inr s \<and>
    sqlite_literal (''x'or'1'='1'' @ [quote]) \<noteq> Some (''x'or'1'='1'', [])"
proof -
  have "field_get 0 (\<lambda>_. FStr ''x'or'1'='1'') = ''x'or'1'='1''" by code_simp
  then show ?thesis
    using crud_key_literal [OF sample_register_fields(1), of "\<lambda>_. FStr ''x'or'1'='1''"] by auto
qed

end
