(* ===== verification/Gateway.thy ===== *)
theory Gateway
  imports Heartbeat Timer_Service Ffdb Rpc_Callback Task_Queue
begin

section \<open>Gateways and the start of the network\<close>

text \<open>
  The parts that put the network components together: \<open>net_stat_t\<close> (\<^verbatim>\<open>net/net_stat.cpp\<close>), which runs the
  heartbeat's check from a timer; opening a gateway (\<^verbatim>\<open>net/gateway_acceptor.cpp\<close>); the base class of gateway
  handlers (\<^verbatim>\<open>rpc/gateway_service_i.h\<close>), whose user-defined methods are events of its output; \<open>connector_t\<close> and
  the process-wide \<open>net_factory_t\<close>. Answers of system calls are arguments.
\<close>

subsection \<open>\<open>net_stat_t\<close>\<close>

text \<open>The only timer is the check, so the callback is \<open>()\<close>. Sockets whose time is up are closed; they are the output.\<close>

record net_stat_t =
  ns_timer_service :: "unit timer_service option"
  m_max_packet_size :: int
  ns_heartbeat :: gw_heartbeat

definition new_net_stat :: "int \<Rightarrow> net_stat_t" where
  "new_net_stat now = \<lparr>ns_timer_service = None, m_max_packet_size = 1000, ns_heartbeat = new_heartbeat now\<rparr>"

text \<open>The heartbeat's timeout, which is in seconds, is taken as the milliseconds of the timer.\<close>

definition check_timer :: "u64 \<Rightarrow> gw_heartbeat \<Rightarrow> unit timer_service \<Rightarrow> unit timer_service" where
  "check_timer now_ms h ts = timer_callback now_ms (word_of_int (m_timeout h)) () ts"

definition net_stat_start :: "arg_helper_t \<Rightarrow> u64 \<Rightarrow> net_stat_t \<Rightarrow> net_stat_t" where
  "net_stat_start args now_ms ns =
    (let h = set_option (if is_enable_option ''-timeout'' args then Some (atoi (get_option_value ''-timeout'' args)) else None) (ns_heartbeat ns)
     in ns\<lparr>m_max_packet_size := (if is_enable_option ''-max_packet_size'' args then atoi (get_option_value ''-max_packet_size'' args) else m_max_packet_size ns),
           ns_heartbeat := h, ns_timer_service := Some (check_timer now_ms h new_timer_service)\<rparr>)"

definition handle_timer_check :: "int \<Rightarrow> u64 \<Rightarrow> net_stat_t \<Rightarrow> net_stat_t \<times> sock list" where
  "handle_timer_check now now_ms ns = (let (h, closed) = timer_check now (ns_heartbeat ns) in
     (ns\<lparr>ns_heartbeat := h, ns_timer_service := map_option (check_timer now_ms h) (ns_timer_service ns)\<rparr>, closed))"

definition net_stat_stop :: "net_stat_t \<Rightarrow> net_stat_t" where
  "net_stat_stop ns = ns\<lparr>ns_timer_service := None\<rparr>"

text \<open>
  One turn of the timer's thread at \<open>now_ms\<close>, with the checks it fires; \<open>again n\<close> is the clock reading when the \<open>n\<close>th
  of them is registered again.
\<close>

fun run_checks :: "int \<Rightarrow> (nat \<Rightarrow> u64) \<Rightarrow> unit list \<Rightarrow> net_stat_t \<Rightarrow> net_stat_t \<times> sock list" where
  "run_checks now again [] ns = (ns, [])"
| "run_checks now again (_ # fired) ns =
     (let (ns1, c1) = handle_timer_check now (again 0) ns; (ns2, c2) = run_checks now (\<lambda>n. again (Suc n)) fired ns1 in (ns2, c1 @ c2))"

definition net_stat_turn :: "int \<Rightarrow> u64 \<Rightarrow> (nat \<Rightarrow> u64) \<Rightarrow> net_stat_t \<Rightarrow> (net_stat_t \<times> sock list) option" where
  "net_stat_turn now now_ms again ns = (case ns_timer_service ns of None \<Rightarrow> None
     | Some ts \<Rightarrow> (case timer_turn now_ms again ts of None \<Rightarrow> None
        | Some (ts1, fired) \<Rightarrow> Some (run_checks now again fired (ns\<lparr>ns_timer_service := Some ts1\<rparr>))))"

subsection \<open>Opening a gateway\<close>

text \<open>\<open>gateway_acceptor_t::open\<close> up to the address it listens on, and the controller of a new connection.\<close>

definition gw_acceptor_open :: "string \<Rightarrow> u64 \<Rightarrow> net_stat_t \<Rightarrow> net_stat_t \<times> string" where
  "gw_acceptor_open args now_ms ns = (let h = vt_of args '' '' in (net_stat_start h now_ms ns, get_option_value ''-gateway_listen'' h))"

definition gw_create_controller :: gateway_socket_controller where
  "gw_create_controller = \<lparr>gw_common = new_controller, m_last_update_tm = 0\<rparr>"

subsection \<open>Handlers of gateways\<close>

datatype gate_event =
    Handle_login gate_msg_tool_t sock
  | Handle_common_logic gate_msg_tool_t sock
  | Handle_logout sock
  | Gate_close sock
  | Gate_safe_delete sock

definition new_gate_msg_tool :: gate_msg_tool_t where
  "new_gate_msg_tool = msg_i.extend (new_msg_i []) (gate_msg_tool_t.fields [])"

definition gate_handle_broken :: "sock \<Rightarrow> gate_event list" where
  "gate_handle_broken k = [Handle_logout k, Gate_safe_delete k]"

text \<open>\<open>throws\<close> says which calls of the user's methods leave with an exception.\<close>

definition gate_handle_msg :: "(gate_event \<Rightarrow> bool) \<Rightarrow> msg_name_store_t \<Rightarrow> string \<Rightarrow> sock \<Rightarrow> gate_event list" where
  "gate_handle_msg throws st body k = (case gate_decode body new_gate_msg_tool of
     Throw _ _ \<Rightarrow> [Gate_close k]
   | Ok msg_tool _ \<Rightarrow> (let ev = (if get_name st msg_tool = ''login_t::in_t'' then Handle_login msg_tool k else Handle_common_logic msg_tool k)
       in ev # (if throws ev then [Gate_close k] else [])))"

subsection \<open>Connecting\<close>

text \<open>\<open>connector_t::connect\<close>: the asserts on the address, then the two system calls. The result is the address and
  port of the new socket; a descriptor that could not be connected stays open.\<close>

definition connector_connect :: "string \<Rightarrow> bool \<Rightarrow> bool \<Rightarrow> ((string \<times> u16) option \<times> bool) exc" where
  "connector_connect host socket_ok connect_ok = (case vt_of host ''://'' of
     [_, addr] \<Rightarrow> (case vt_of addr '':'' of
        [ip, port] \<Rightarrow> (if \<not> socket_ok then Inr (None, False)
           else if \<not> connect_ok then Inr (None, True)
           else Inr (Some (ip, word_of_int (atoi port)), False))
      | _ \<Rightarrow> Inl (Runtime_error ''assert vt2.size() == 2''))
   | _ \<Rightarrow> Inl (Runtime_error ''assert vt.size() == 2''))"

subsection \<open>\<open>net_factory_t\<close>\<close>

record global_data_t =
  started_flag :: bool
  tg :: "unit task_queue_pool_t option"
  threads :: nat
  epoll_open :: bool
  all_acceptor :: "nat list"

definition new_global :: global_data_t where
  "new_global = \<lparr>started_flag = False, tg = None, threads = 0, epoll_open = True, all_acceptor = []\<rparr>"

definition net_start :: "nat \<Rightarrow> global_data_t \<Rightarrow> global_data_t exc" where
  "net_start thread_num g = (if started_flag g then Inr g
     else if thread_num = 0 then Inl (Runtime_error ''assert thread_num_ > 0'')
     else Inr (g\<lparr>started_flag := True, tg := Some (new_pool thread_num), threads := threads g + 1 + thread_num\<rparr>))"

text \<open>\<open>listen\<close>, \<open>gateway_listen\<close> and \<open>http_listen\<close>: \<open>opened\<close> is what \<open>open\<close> returned, \<open>a\<close> the new acceptor.\<close>

definition net_listen :: "nat \<Rightarrow> bool \<Rightarrow> global_data_t \<Rightarrow> (nat option \<times> global_data_t) exc" where
  "net_listen a opened g = (case net_start 2 g of Inl e \<Rightarrow> Inl e
     | Inr g1 \<Rightarrow> (if opened then Inr (Some a, g1\<lparr>all_acceptor := all_acceptor g1 @ [a]\<rparr>) else Inr (None, g1)))"

text \<open>\<open>connect\<close> chooses a queue of the pool before it connects; \<open>counter\<close> is the static variable of \<open>rand_alloc\<close>.\<close>

definition net_connect :: "string \<Rightarrow> bool \<Rightarrow> bool \<Rightarrow> u64 \<Rightarrow> global_data_t \<Rightarrow> ((string \<times> u16 \<times> nat) option \<times> global_data_t) exc" where
  "net_connect host socket_ok connect_ok counter g = (case net_start 2 g of Inl e \<Rightarrow> Inl e
     | Inr g1 \<Rightarrow> (case tg g1 of None \<Rightarrow> Inl Null_deref
        | Some pool \<Rightarrow> (case snd (rand_alloc counter pool) of Inl e \<Rightarrow> Inl e
           | Inr q \<Rightarrow> (case connector_connect host socket_ok connect_ok of Inl e \<Rightarrow> Inl e
              | Inr (r, _) \<Rightarrow> Inr (map_option (\<lambda>(ip, port). (ip, port, q)) r, g1)))))"

text \<open>\<open>stop\<close>: the acceptors that are closed and deleted; the threads end and the pool is deleted. \<open>started_flag\<close>
  stays set, so a second call uses the deleted pool.\<close>

definition net_stop :: "global_data_t \<Rightarrow> (nat list \<times> global_data_t) exc" where
  "net_stop g = (if \<not> started_flag g then Inr ([], g)
     else (case tg g of None \<Rightarrow> Inl Null_deref
       | Some _ \<Rightarrow> Inr (all_acceptor g, g\<lparr>all_acceptor := [], epoll_open := False, threads := 0, tg := None\<rparr>)))"

subsection \<open>The check recurs\<close>

text \<open>One check is registered: the timer that is pending.\<close>

definition pending_check :: "net_stat_t \<Rightarrow> unit registered_info_t option" where
  "pending_check ns = (case ns_timer_service ns of None \<Rightarrow> None
     | Some ts \<Rightarrow> (case m_registered_store ts @ m_tmp_register_list ts of
          [x] \<Rightarrow> (if m_runing ts \<and> \<not> is_loop x then Some x else None) | _ \<Rightarrow> None))"

lemma start_pending:
  "\<exists>x. pending_check (net_stat_start args now_ms ns) = Some x \<and> dest_tm x = now_ms + word_of_int (m_timeout (ns_heartbeat (net_stat_start args now_ms ns)))"
  by (simp add: pending_check_def net_stat_start_def check_timer_def timer_callback_def once_timer_def new_timer_service_def Let_def)

lemma stop_pending: "pending_check (net_stat_stop ns) = None \<and> net_stat_turn now now_ms again (net_stat_stop ns) = None"
  by (simp add: pending_check_def net_stat_stop_def net_stat_turn_def)

lemma timer_turn_single:
  assumes "pending_check ns = Some x" "ns_timer_service ns = Some ts"
  shows "timer_turn now_ms again ts = Some (if is_timeout now_ms x
    then (ts\<lparr>m_tmp_register_list := [], m_registered_store := []\<rparr>, [callback x])
    else (ts\<lparr>m_tmp_register_list := [], m_registered_store := [x]\<rparr>, []))"
proof -
  have run: "m_runing ts" "\<not> is_loop x"
    and one: "m_registered_store ts = [x] \<and> m_tmp_register_list ts = [] \<or> m_registered_store ts = [] \<and> m_tmp_register_list ts = [x]"
    using assms by (auto simp: pending_check_def Cons_eq_append_conv append_eq_Cons_conv split: list.splits if_splits)
  have "add_new_timer ts = ts\<lparr>m_tmp_register_list := [], m_registered_store := [x]\<rparr>"
    using one by (auto simp: add_new_timer_def)
  then show ?thesis using run by (simp add: timer_turn_def process_timer_callback_def)
qed

text \<open>
  A running gateway: it is started, then connections open, read and end (as long as none of these uses a dangling
  iterator), and the timer's thread takes its turns, in any order. The first argument is the clock in seconds, which
  does not run backwards.
\<close>

inductive gateway_run :: "int \<Rightarrow> net_stat_t \<Rightarrow> bool" where
  start: "gateway_run now (net_stat_start args now_ms (new_net_stat t0))"
| opens: "gateway_run t ns \<Longrightarrow> t \<le> now \<Longrightarrow> gw_open now k c (ns_heartbeat ns) = (c', h) \<Longrightarrow> gateway_run now (ns\<lparr>ns_heartbeat := h\<rparr>)"
| reads: "gateway_run t ns \<Longrightarrow> t \<le> now \<Longrightarrow> gw_read now lim k buff c (ns_heartbeat ns) = Inr (c', msgs, big, h) \<Longrightarrow>
    gateway_run now (ns\<lparr>ns_heartbeat := h\<rparr>)"
| ends: "gateway_run t ns \<Longrightarrow> t \<le> now \<Longrightarrow> gw_error k (ns_heartbeat ns) = Inr h \<Longrightarrow> gateway_run now (ns\<lparr>ns_heartbeat := h\<rparr>)"
| turns: "gateway_run t ns \<Longrightarrow> t \<le> now \<Longrightarrow> net_stat_turn now now_ms again ns = Some (ns', closed) \<Longrightarrow> gateway_run now ns'"

definition check_inv :: "int \<Rightarrow> net_stat_t \<Rightarrow> bool" where
  "check_inv t ns \<longleftrightarrow> pending_check ns \<noteq> None \<and> hb_wf (ns_heartbeat ns) \<and> hb_sorted t (ns_heartbeat ns)"

lemma pending_check_heartbeat [simp]: "pending_check (ns\<lparr>ns_heartbeat := h\<rparr>) = pending_check ns"
  by (simp add: pending_check_def)

lemma hb_sorted_later: "hb_sorted t h \<Longrightarrow> t \<le> now \<Longrightarrow> hb_sorted now h"
  by (auto simp: hb_sorted_def intro: order_trans [OF _ add_right_mono])

lemma net_stat_turn_spec:
  assumes "pending_check ns = Some x" "hb_wf (ns_heartbeat ns)" "hb_sorted t0 (ns_heartbeat ns)"
  shows "\<exists>ns1 closed y. net_stat_turn now now_ms again ns = Some (ns1, closed) \<and> pending_check ns1 = Some y \<and>
    hb_wf (ns_heartbeat ns1) \<and> hb_sorted t0 (ns_heartbeat ns1) \<and> distinct closed \<and>
    (if is_timeout now_ms x
     then set closed = {k. \<exists>t. deadline (ns_heartbeat ns) k = Some t \<and> t \<le> now} \<and>
       dest_tm y = again 0 + word_of_int (m_timeout (ns_heartbeat ns)) \<and> (\<forall>k \<in> set closed. gw_error k (ns_heartbeat ns1) = Inl Dangling)
     else closed = [] \<and> y = x \<and> ns_heartbeat ns1 = ns_heartbeat ns)"
proof -
  obtain ts where ts: "ns_timer_service ns = Some ts" using assms(1) by (auto simp: pending_check_def split: option.splits)
  have run: "m_runing ts" "\<not> is_loop x" using assms(1) ts by (auto simp: pending_check_def split: list.splits if_splits)
  note turn = timer_turn_single [OF assms(1) ts, of now_ms again]
  show ?thesis
  proof (cases "is_timeout now_ms x")
    case False
    then have "net_stat_turn now now_ms again ns = Some (ns\<lparr>ns_timer_service := Some (ts\<lparr>m_tmp_register_list := [], m_registered_store := [x]\<rparr>)\<rparr>, [])"
      by (simp add: net_stat_turn_def ts turn)
    then show ?thesis using False run assms(2,3) by (simp add: pending_check_def)
  next
    case True
    obtain h closed where c: "timer_check now (ns_heartbeat ns) = (h, closed)" by fastforce
    let ?ts = "check_timer (again 0) h (ts\<lparr>m_tmp_register_list := [], m_registered_store := []\<rparr>)"
    let ?ns = "ns\<lparr>ns_heartbeat := h, ns_timer_service := Some ?ts\<rparr>"
    have h: "m_timeout h = m_timeout (ns_heartbeat ns)" using c by (auto simp: timer_check_def split: prod.splits)
    have t: "net_stat_turn now now_ms again ns = Some (?ns, closed)"
      using True by (simp add: net_stat_turn_def ts turn handle_timer_check_def c)
    have p: "pending_check ?ns = Some \<lparr>timeout = word_of_int (m_timeout h), dest_tm = again 0 + word_of_int (m_timeout h), callback = (), is_loop = False\<rparr>"
      using run(1) by (simp add: pending_check_def check_timer_def timer_callback_def once_timer_def)
    have "\<forall>k \<in> set closed. gw_error k h = Inl Dangling" using timer_check_expires [OF assms(2,3) c] by (simp add: gw_error_def)
    with t p h True timer_check_spec [OF assms(2,3), of now] show ?thesis by (simp add: c)
  qed
qed

lemma gateway_run_inv: "gateway_run t ns \<Longrightarrow> check_inv t ns"
proof (induction rule: gateway_run.induct)
  case (start now args now_ms t0)
  obtain x where "pending_check (net_stat_start args now_ms (new_net_stat t0)) = Some x" using start_pending by blast
  then show ?case
    by (simp add: check_inv_def net_stat_start_def new_net_stat_def Let_def new_heartbeat_ok)
next
  case (opens t ns now k c c' h)
  then have "hb_wf (ns_heartbeat ns)" "hb_sorted now (ns_heartbeat ns)" by (auto simp: check_inv_def dest: hb_sorted_later)
  from hb_add_spec [OF this, of k] opens show ?case by (auto simp: check_inv_def gw_open_def split: prod.splits)
next
  case (reads t ns now lim k buff c c' msgs big h)
  then have ok: "hb_wf (ns_heartbeat ns)" "hb_sorted now (ns_heartbeat ns)" by (auto simp: check_inv_def dest: hb_sorted_later)
  have "h = ns_heartbeat ns \<or> (\<exists>r. hb_update now k (ns_heartbeat ns) = Inr (h, r))"
    using reads(3) by (auto simp: gw_read_def Let_def split: prod.splits if_splits sum.splits)
  with hb_update_spec [OF ok, of k] ok reads(4) show ?case by (auto simp: check_inv_def)
next
  case (ends t ns now k h)
  then have "hb_wf (ns_heartbeat ns)" "hb_sorted now (ns_heartbeat ns)" by (auto simp: check_inv_def dest: hb_sorted_later)
  from hb_del_spec [OF this, of k] ends show ?case by (auto simp: check_inv_def gw_error_def split: sum.splits prod.splits)
next
  case (turns t ns now now_ms again ns' closed)
  then have ok: "hb_wf (ns_heartbeat ns)" "hb_sorted now (ns_heartbeat ns)" by (auto simp: check_inv_def dest: hb_sorted_later)
  from turns(4) obtain x where "pending_check ns = Some x" by (auto simp: check_inv_def)
  from net_stat_turn_spec [OF this ok, of now now_ms again] turns(3) show ?case by (auto simp: check_inv_def)
qed

text \<open>
  (C21) Silent clients. While a gateway runs, whatever its connections do and however many sockets have expired,
  exactly one check of the heartbeat is pending. A turn of the timer's thread before its time changes nothing; one
  at or after it closes exactly the sockets whose deadline has come, each once, and registers the next check, the
  heartbeat's timeout in milliseconds later. Each socket closed this way is still in the heartbeat's map, so that
  handling its end (\<open>handle_error\<close>) uses an iterator that is gone.
\<close>

theorem gateway_check_recurs:
  assumes "gateway_run t0 ns"
  shows "\<exists>x ns1 closed y. pending_check ns = Some x \<and> net_stat_turn now now_ms again ns = Some (ns1, closed) \<and> pending_check ns1 = Some y \<and>
    distinct closed \<and>
    (if is_timeout now_ms x
     then set closed = {k. \<exists>t. deadline (ns_heartbeat ns) k = Some t \<and> t \<le> now} \<and>
       dest_tm y = again 0 + word_of_int (m_timeout (ns_heartbeat ns)) \<and> (\<forall>k \<in> set closed. gw_error k (ns_heartbeat ns1) = Inl Dangling)
     else closed = [] \<and> y = x \<and> ns_heartbeat ns1 = ns_heartbeat ns)"
proof -
  from gateway_run_inv [OF assms] obtain x where x: "pending_check ns = Some x" "hb_wf (ns_heartbeat ns)" "hb_sorted t0 (ns_heartbeat ns)"
    by (auto simp: check_inv_def)
  from net_stat_turn_spec [OF x, of now now_ms again] x(1) show ?thesis by blast
qed

theorem gateway_check_recurs_witness:
  "\<exists>ns1 closed. net_stat_turn 130 5000 (\<lambda>_. 5001) ((net_stat_start [''-timeout'', ''30''] 100 (new_net_stat 100))\<lparr>ns_heartbeat := sample_hb\<rparr>) = Some (ns1, closed) \<and>
    set closed = {7} \<and> gw_error 7 (ns_heartbeat ns1) = Inl Dangling"
proof -
  let ?start = "net_stat_start [''-timeout'', ''30''] 100 (new_net_stat 100)"
  let ?ns = "?start\<lparr>ns_heartbeat := sample_hb\<rparr>"
  have "atoi ''30'' = 30" by code_simp
  then have hb: "ns_heartbeat ?start = Heartbeat.set_option (Some 30) (new_heartbeat 100)"
    by (simp add: net_stat_start_def new_net_stat_def set_option_def Let_def)
  have "gw_open 100 7 gw_create_controller (ns_heartbeat ?start) = (gw_create_controller\<lparr>m_last_update_tm := m_cur_tick (ns_heartbeat ?start)\<rparr>, sample_hb)"
    by (simp add: gw_open_def hb sample_hb_def)
  from gateway_run.opens [OF gateway_run.start order_refl this] have r: "gateway_run 100 ?ns" .
  have p: "pending_check ?ns = Some \<lparr>timeout = 30, dest_tm = 130, callback = (), is_loop = False\<rparr>"
    using \<open>atoi ''30'' = 30\<close>
    by (simp add: pending_check_def net_stat_start_def check_timer_def timer_callback_def once_timer_def new_timer_service_def set_option_def Let_def)
  have d: "{k. \<exists>t. deadline sample_hb k = Some t \<and> t \<le> 130} = {7}"
    by (auto simp: deadline_def sample_hb_eq split: if_splits)
  from gateway_check_recurs [OF r, of 130 5000 "\<lambda>_. 5001"] p d show ?thesis
    by (auto simp: is_timeout_def)
qed

text \<open>
  What a gateway does with a packet. A packet that begins with a name goes to the login method exactly if the
  name is that of the login message, and to the other method otherwise, with the packet unchanged; a packet
  without a complete name, and a method that throws, close the connection.
\<close>

theorem gate_dispatch:
  assumes "length name < 2 ^ 32" "name \<noteq> []"
  shows "(\<exists>m. packet_body m = enc_string name @ body \<and> msg_name m = name \<and>
      gate_handle_msg throws st (enc_string name @ body) k =
        (let ev = (if name = ''login_t::in_t'' then Handle_login m k else Handle_common_logic m k) in ev # (if throws ev then [Gate_close k] else []))) \<and>
    (strict_prefix p (enc_string name) \<longrightarrow> gate_handle_msg throws st p k = [Gate_close k])"
proof -
  let ?m = "new_gate_msg_tool\<lparr>packet_body := enc_string name @ body, msg_name := name\<rparr>"
  have "gate_decode (enc_string name @ body) new_gate_msg_tool = Ok ?m body"
    using strw.dec_enc [OF assms(1), of body] by (simp add: gate_decode_def dec_into_def)
  then have "\<exists>m. packet_body m = enc_string name @ body \<and> msg_name m = name \<and>
      gate_handle_msg throws st (enc_string name @ body) k =
        (let ev = (if name = ''login_t::in_t'' then Handle_login m k else Handle_common_logic m k) in ev # (if throws ev then [Gate_close k] else []))"
    using assms(2) by (intro exI [of _ ?m]) (simp add: gate_handle_msg_def get_name_def)
  moreover have "gate_handle_msg throws st p k = [Gate_close k]" if "strict_prefix p (enc_string name)"
    using strw.dec_short [OF assms(1) that] by (simp add: gate_handle_msg_def gate_decode_def dec_into_def)
  ultimately show ?thesis by blast
qed

theorem gate_dispatch_witness:
  "\<exists>m. msg_name m = ''login_t::in_t'' \<and> gate_handle_msg (\<lambda>_. True) new_store (enc_string ''login_t::in_t'' @ ''ann'') 4 = [Handle_login m 4, Gate_close 4]"
  using gate_dispatch [of "''login_t::in_t''" "''ann''" "\<lambda>_. True" new_store 4 "[]"] by auto

subsection \<open>The factory\<close>

lemma net_started: "net_start n g = Inr g1 \<Longrightarrow> tg g \<noteq> None \<or> \<not> started_flag g \<Longrightarrow> started_flag g1 \<and> tg g1 \<noteq> None"
  by (auto simp: net_start_def split: if_splits)

lemma net_stop_twice: "started_flag g \<Longrightarrow> net_stop g = Inr (closed, g1) \<Longrightarrow>
    closed = all_acceptor g \<and> net_stop g1 = Inl Null_deref \<and> net_connect host so co n g1 = Inl Null_deref"
  by (auto simp: net_stop_def net_connect_def net_start_def split: option.splits)

end
