(* ===== verification/Acceptor.thy ===== *)
theory Acceptor
  imports Gateway
begin

section \<open>The listening socket\<close>

text \<open>
  Opening, closing and destroying \<open>acceptor_impl_t\<close> (\<^verbatim>\<open>net/acceptor_impl.cpp\<close>) and \<open>listen\<close> of \<^verbatim>\<open>net/net_factory.h\<close>. The answers of the
  system calls are an argument. The world has the descriptors that are open and that the loop watches, the address lists of \<open>getaddrinfo\<close>
  that were not freed, the acceptors that exist, and those in the loop's list of error descriptors. \<open>asserts\<close> says whether
  \<open>assert\<close> is compiled in. The http and gateway acceptors inherit these functions.
\<close>

record open_answers =
  ok_getaddrinfo :: bool
  fd_socket :: int
  ok_setsockopt :: bool
  ok_bind :: bool
  ok_listen :: bool
  ok_register :: bool

record acc_world =
  w_open :: "int set"
  w_registered :: "int set"
  w_addrinfo :: nat
  w_acceptors :: "nat set"
  w_error_set :: "nat list"

definition host_port :: "bool \<Rightarrow> string \<Rightarrow> (string option \<times> string) exc" where
  "host_port asserts address = (let vt = vt_of address ''://'' in
     if asserts \<and> length vt \<noteq> 2 then Inl (Runtime_error ''assert vt.size() == 2'') else if length vt < 2 then Inl Out_of_range
     else let vt2 = vt_of (vt ! 1) '':'' in
       if asserts \<and> length vt2 \<noteq> 2 then Inl (Runtime_error ''assert vt2.size() == 2'') else if length vt2 < 2 then Inl Out_of_range
       else Inr (if vt2 ! 0 = ''*'' then None else Some (vt2 ! 0), vt2 ! 1))"

text \<open>\<open>open\<close> of the acceptor, with the answers of the system calls in the order in which they are called. The result is its value and the descriptor it leaves.\<close>

definition acceptor_open :: "bool \<Rightarrow> (string option \<Rightarrow> string \<Rightarrow> open_answers) \<Rightarrow> string \<Rightarrow> acc_world \<Rightarrow> (int \<times> int \<times> acc_world) exc" where
  "acceptor_open asserts os address w = (case host_port asserts address of Inl e \<Rightarrow> Inl e
     | Inr (host, port) \<Rightarrow> (let ans = os host port; fd = fd_socket ans; w1 = w\<lparr>w_addrinfo := w_addrinfo w + 1\<rparr>; w2 = w1\<lparr>w_open := insert fd (w_open w)\<rparr> in
         if \<not> ok_getaddrinfo ans then Inr (- 1, - 1, w)
         else if fd = - 1 then Inr (- 1, - 1, w1)
         else if \<not> ok_setsockopt ans then Inr (- 1, fd, w2)
         else if \<not> ok_bind ans then Inr (- 1, fd, w2)
         else if \<not> ok_listen ans then Inr (- 1, fd, w2)
         else let w3 = w2\<lparr>w_addrinfo := w_addrinfo w\<rparr> in
           if ok_register ans then Inr (0, fd, w3\<lparr>w_registered := insert fd (w_registered w)\<rparr>) else Inr (- 1, fd, w3)))"

text \<open>\<open>unregister_fd\<close> enters the object into the list of error descriptors, whether or not \<open>epoll_ctl\<close> succeeds.\<close>

definition acc_unregister :: "nat \<Rightarrow> int \<Rightarrow> acc_world \<Rightarrow> bool \<times> acc_world" where
  "acc_unregister self fd w = (fd \<in> w_registered w, w\<lparr>w_registered := w_registered w - {fd}, w_error_set := w_error_set w @ [self]\<rparr>)"

text \<open>\<open>close\<close>: the call of \<open>unregister_fd\<close> is inside an \<open>assert\<close>. Closing a descriptor ends the watching of it.\<close>

definition acceptor_close :: "bool \<Rightarrow> nat \<Rightarrow> int \<Rightarrow> acc_world \<Rightarrow> (int \<times> acc_world) exc" where
  "acceptor_close asserts self fd w = (if fd \<le> 0 then Inr (fd, w)
     else if asserts then (case acc_unregister self fd w of (False, _) \<Rightarrow> Inl (Runtime_error ''assert 0 == unregister_fd'')
       | (True, w1) \<Rightarrow> Inr (- 1, w1\<lparr>w_open := w_open w1 - {fd}\<rparr>))
     else Inr (- 1, w\<lparr>w_open := w_open w - {fd}, w_registered := w_registered w - {fd}\<rparr>))"

definition acceptor_delete :: "bool \<Rightarrow> nat \<Rightarrow> int \<Rightarrow> acc_world \<Rightarrow> acc_world exc" where
  "acceptor_delete asserts self fd w = (case acceptor_close asserts self fd w of Inl e \<Rightarrow> Inl e | Inr (_, w1) \<Rightarrow> Inr (w1\<lparr>w_acceptors := w_acceptors w1 - {self}\<rparr>))"

definition factory_listen :: "bool \<Rightarrow> nat \<Rightarrow> (string option \<Rightarrow> string \<Rightarrow> open_answers) \<Rightarrow> string \<Rightarrow> acc_world \<Rightarrow> ((nat \<times> int) option \<times> acc_world) exc" where
  "factory_listen asserts self os address w = (case acceptor_open asserts os address (w\<lparr>w_acceptors := insert self (w_acceptors w)\<rparr>) of Inl e \<Rightarrow> Inl e
     | Inr (ret, fd, w1) \<Rightarrow> (if ret \<noteq> 0 then (case acceptor_delete asserts self fd w1 of Inl e \<Rightarrow> Inl e | Inr w2 \<Rightarrow> Inr (None, w2))
         else Inr (Some (self, fd), w1)))"

text \<open>\<open>stop\<close>: all acceptors are closed and then deleted; their descriptor is \<open>- 1\<close> by then.\<close>

fun close_all :: "bool \<Rightarrow> (nat \<times> int) list \<Rightarrow> acc_world \<Rightarrow> ((nat \<times> int) list \<times> acc_world) exc" where
  "close_all asserts [] w = Inr ([], w)"
| "close_all asserts ((self, fd) # as) w = (case acceptor_close asserts self fd w of Inl e \<Rightarrow> Inl e
     | Inr (fd', w1) \<Rightarrow> (case close_all asserts as w1 of Inl e \<Rightarrow> Inl e | Inr (as', w2) \<Rightarrow> Inr ((self, fd') # as', w2)))"

fun delete_all :: "bool \<Rightarrow> (nat \<times> int) list \<Rightarrow> acc_world \<Rightarrow> acc_world exc" where
  "delete_all asserts [] w = Inr w"
| "delete_all asserts ((self, fd) # as) w = (case acceptor_delete asserts self fd w of Inl e \<Rightarrow> Inl e | Inr w1 \<Rightarrow> delete_all asserts as w1)"

definition stop_acceptors :: "bool \<Rightarrow> (nat \<times> int) list \<Rightarrow> acc_world \<Rightarrow> acc_world exc" where
  "stop_acceptors asserts as w = (case close_all asserts as w of Inl e \<Rightarrow> Inl e | Inr (as', w1) \<Rightarrow> delete_all asserts as' w1)"

text \<open>The loop calls \<open>handle_epoll_del\<close> of every object in the list; that of an acceptor only returns 0.\<close>

fun del_callbacks :: "nat list \<Rightarrow> acc_world \<Rightarrow> acc_world exc" where
  "del_callbacks [] w = Inr (w\<lparr>w_error_set := []\<rparr>)"
| "del_callbacks (x # xs) w = (if x \<notin> w_acceptors w then Inl Dangling else del_callbacks xs w)"

subsection \<open>What listening does\<close>

text \<open>
  (C22) Listening, for every address and every answer of the system calls (a descriptor that \<open>socket\<close> returns is
  not negative, or - 1 for an error, and was not open before). An address that is not of the form \<open>scheme://host:port\<close>
  ends the process: by an assertion, or without \<open>assert\<close> by a read behind the parts, unless it has more parts than
  two, which are then ignored. With \<open>assert\<close> compiled in, an address that cannot be bound, listened on or watched does
  not make \<open>listen\<close> return null: the destructor of the acceptor asserts that the descriptor was watched, and the
  process ends. Without \<open>assert\<close> it returns null and the descriptor is closed. Descriptor 0 is the exception in both
  builds: \<open>close\<close> takes it for none, so null is returned and the descriptor stays open for ever. The list of addresses
  is never freed if the failure came before the watching.
\<close>

theorem factory_listen_outcome:
  assumes "\<And>host port. host_port asserts address = Inr (host, port) \<Longrightarrow>
      - 1 \<le> fd_socket (os host port) \<and> fd_socket (os host port) \<notin> w_open w \<union> w_registered w"
    and "self \<notin> w_acceptors w"
  shows "factory_listen asserts self os address w = (case host_port asserts address of Inl e \<Rightarrow> Inl e
    | Inr (host, port) \<Rightarrow>
       (let ans = os host port; fd = fd_socket ans; opened = (ok_setsockopt ans \<and> ok_bind ans \<and> ok_listen ans);
            leak = w\<lparr>w_addrinfo := w_addrinfo w + 1\<rparr>
        in if \<not> ok_getaddrinfo ans then Inr (None, w)
           else if fd = - 1 then Inr (None, leak)
           else if opened \<and> ok_register ans then Inr (Some (self, fd),
             w\<lparr>w_open := insert fd (w_open w), w_registered := insert fd (w_registered w), w_acceptors := insert self (w_acceptors w)\<rparr>)
           else if fd = 0 then Inr (None, (if opened then w else leak)\<lparr>w_open := insert 0 (w_open w)\<rparr>)
           else if asserts then Inl (Runtime_error ''assert 0 == unregister_fd'')
           else Inr (None, if opened then w else leak)))"
proof (cases "host_port asserts address")
  case (Inl e)
  then show ?thesis by (simp add: factory_listen_def acceptor_open_def)
next
  case (Inr hp)
  obtain host port where hp: "hp = (host, port)" by fastforce
  with Inr assms(1) have fd: "- 1 \<le> fd_socket (os host port)" "fd_socket (os host port) \<notin> w_open w" "fd_socket (os host port) \<notin> w_registered w"
    by auto
  have del: "insert self (w_acceptors w) - {self} = w_acceptors w" using assms(2) by auto
  show ?thesis using fd del unfolding Inr hp
    by (cases w) (auto simp: factory_listen_def acceptor_open_def Inr hp Let_def acceptor_delete_def acceptor_close_def acc_unregister_def)
qed

lemma host_port_bad:
  "host_port asserts address = Inl e \<longleftrightarrow>
    (let vt = vt_of address ''://''; vt2 = vt_of (vt ! 1) '':'' in
      if asserts then length vt \<noteq> 2 \<and> e = Runtime_error ''assert vt.size() == 2'' \<or>
        length vt = 2 \<and> length vt2 \<noteq> 2 \<and> e = Runtime_error ''assert vt2.size() == 2''
      else e = Out_of_range \<and> (length vt < 2 \<or> length vt2 < 2))"
  by (auto simp: host_port_def Let_def)

definition empty_world :: acc_world where
  "empty_world = \<lparr>w_open = {}, w_registered = {}, w_addrinfo = 0, w_acceptors = {}, w_error_set = []\<rparr>"

definition port_in_use :: "string option \<Rightarrow> string \<Rightarrow> open_answers" where
  "port_in_use host port = \<lparr>ok_getaddrinfo = True, fd_socket = 5, ok_setsockopt = True, ok_bind = False, ok_listen = True, ok_register = True\<rparr>"

definition port_zero :: "string option \<Rightarrow> string \<Rightarrow> open_answers" where
  "port_zero host port = (port_in_use host port)\<lparr>fd_socket := 0\<rparr>"

theorem factory_listen_outcome_witness:
  "factory_listen True 1 port_in_use ''tcp://*:8080'' empty_world = Inl (Runtime_error ''assert 0 == unregister_fd'') \<and>
   factory_listen False 1 port_in_use ''tcp://*:8080'' empty_world = Inr (None, empty_world\<lparr>w_addrinfo := 1\<rparr>) \<and>
   factory_listen True 1 port_zero ''tcp://*:8080'' empty_world = Inr (None, empty_world\<lparr>w_addrinfo := 1, w_open := {0}\<rparr>) \<and>
   factory_listen False 1 port_in_use ''8080'' empty_world = Inl Out_of_range"
proof -
  have "host_port True ''tcp://*:8080'' = Inr (None, ''8080'')" "host_port False ''tcp://*:8080'' = Inr (None, ''8080'')"
    "host_port False ''8080'' = Inl Out_of_range" by code_simp+
  note h = this
  note d = port_in_use_def port_zero_def empty_world_def
  show ?thesis
    using factory_listen_outcome [of True "''tcp://*:8080''" port_in_use empty_world 1]
      factory_listen_outcome [of False "''tcp://*:8080''" port_in_use empty_world 1]
      factory_listen_outcome [of True "''tcp://*:8080''" port_zero empty_world 1]
      factory_listen_outcome [of False "''8080''" port_in_use empty_world 1]
    by (simp add: h d)
qed

subsection \<open>What stopping leaves\<close>

lemma close_all_result:
  assumes "\<forall>(x, fd) \<in> set as. 0 < fd \<and> fd \<in> w_registered w" "distinct (map snd as)"
  shows "close_all True as w = Inr (map (\<lambda>(x, _). (x, - 1)) as,
    w\<lparr>w_open := w_open w - snd ` set as, w_registered := w_registered w - snd ` set as, w_error_set := w_error_set w @ map fst as\<rparr>)"
  using assms
proof (induction as arbitrary: w)
  case Nil
  show ?case by (cases w) simp
next
  case (Cons a as)
  obtain x fd where a: "a = (x, fd)" by (cases a)
  let ?w = "w\<lparr>w_registered := w_registered w - {fd}, w_error_set := w_error_set w @ [x], w_open := w_open w - {fd}\<rparr>"
  have h: "\<forall>(x, fd) \<in> set as. 0 < fd \<and> fd \<in> w_registered ?w" "distinct (map snd as)" using Cons(2,3) by (force simp: a image_iff)+
  have "acceptor_close True x fd w = Inr (- 1, ?w)" using Cons(2) by (simp add: a acceptor_close_def acc_unregister_def)
  then show ?case using Cons(1) [OF h] by (simp add: a) (intro acc_world.equality; auto)
qed

lemma delete_all_result: "delete_all asserts (map (\<lambda>(x, _). (x, - 1)) as) w = Inr (w\<lparr>w_acceptors := w_acceptors w - fst ` set as\<rparr>)"
proof (induction as arbitrary: w)
  case Nil
  show ?case by (cases w) simp
next
  case (Cons a as)
  have "w_acceptors w - {fst a} - fst ` set as = w_acceptors w - fst ` set (a # as)" by auto
  then show ?case using Cons by (cases a) (simp add: acceptor_delete_def acceptor_close_def)
qed

text \<open>
  Stopping with \<open>assert\<close> compiled in: all descriptors are closed and all acceptors deleted, but they stay in the loop's list of error
  descriptors, and the loop, which \<open>stop\<close> wakes afterwards, calls a method of a deleted acceptor.
\<close>

lemma stopped_acceptors_dangle:
  assumes "\<forall>(x, fd) \<in> set as. 0 < fd \<and> fd \<in> w_registered w" "distinct (map snd as)" "as \<noteq> []" "w_error_set w = []"
  shows "\<exists>w'. stop_acceptors True as w = Inr w' \<and> w_open w' = w_open w - snd ` set as \<and> w_acceptors w' = w_acceptors w - fst ` set as \<and>
    del_callbacks (w_error_set w') w' = Inl Dangling"
proof -
  let ?w = "w\<lparr>w_open := w_open w - snd ` set as, w_registered := w_registered w - snd ` set as, w_error_set := map fst as, w_acceptors := w_acceptors w - fst ` set as\<rparr>"
  have s: "stop_acceptors True as w = Inr ?w" by (simp add: stop_acceptors_def close_all_result [OF assms(1,2)] delete_all_result assms(4))
  have "del_callbacks (w_error_set ?w) ?w = Inl Dangling" using assms(3) by (cases as) auto
  then show ?thesis using s by (intro exI [of _ ?w]) simp
qed

end
