(* ===== verification/Lua_Api.thy ===== *)
theory Lua_Api
  imports Log "HOL-Library.Multiset"
begin

section \<open>What the binding uses of Lua\<close>

text \<open>
  The Lua library is not part of the sources, so its functions are a parameter: a record of functions over an
  abstract state. \<open>lua_laws\<close> states what the reference manual says of them, through a view of the state: the
  stack, the globals, the tables with the order in which \<open>lua_next\<close> visits them, the registry's metatables and
  the blocks of userdata. Numbers are an abstract type with the C conversions from and to integers, since they
  are doubles. A Lua error (a \<open>longjmp\<close>) is \<open>Inl\<close>. \<open>sample_lua\<close> shows that the laws can hold.
\<close>

datatype 'n lua_value =
    LNil
  | LBool bool
  | LNumber 'n
  | LString string
  | LLight nat
  | LUdata nat
  | LTable nat
  | LFunction nat

record ('s, 'n) lua_lib =
  l_value :: "'s \<Rightarrow> int \<Rightarrow> 'n lua_value option"
  l_push :: "'s \<Rightarrow> 'n lua_value \<Rightarrow> 's"
  l_pop :: "'s \<Rightarrow> nat \<Rightarrow> 's"
  l_tolstring :: "'s \<Rightarrow> int \<Rightarrow> string option \<times> 's"
  l_str2num :: "string \<Rightarrow> 'n option"
  l_of_int :: "int \<Rightarrow> 'n"
  l_trunc :: "'n \<Rightarrow> int option"
  l_to_float :: "'n \<Rightarrow> 'n"
  l_newtable :: "'s \<Rightarrow> 's"
  l_settable :: "'s \<Rightarrow> int \<Rightarrow> 's exc"
  l_next :: "'s \<Rightarrow> int \<Rightarrow> (bool \<times> 's) exc"
  l_getfield :: "'s \<Rightarrow> int \<Rightarrow> string \<Rightarrow> 's exc"
  l_getglobal :: "'s \<Rightarrow> string \<Rightarrow> 's"
  l_setglobal :: "'s \<Rightarrow> string \<Rightarrow> 's"
  l_pcall :: "'s \<Rightarrow> nat \<Rightarrow> nat \<Rightarrow> bool \<times> 's"
  l_dostring :: "'s \<Rightarrow> string \<Rightarrow> bool \<times> 's"
  l_dofile :: "'s \<Rightarrow> string \<Rightarrow> bool \<times> 's"
  l_newuserdata :: "'s \<Rightarrow> nat \<times> 's"
  l_block_put :: "'s \<Rightarrow> nat \<Rightarrow> nat \<Rightarrow> 's"
  l_block_get :: "'s \<Rightarrow> nat \<Rightarrow> nat"
  l_reg_metatable :: "'s \<Rightarrow> string \<Rightarrow> 's"
  l_setmetatable :: "'s \<Rightarrow> int \<Rightarrow> 's"
  l_getmetatable :: "'s \<Rightarrow> int \<Rightarrow> bool \<times> 's"
  l_gettop :: "'s \<Rightarrow> nat"
  l_remove :: "'s \<Rightarrow> int \<Rightarrow> 's"
  l_newmetatable :: "'s \<Rightarrow> string \<Rightarrow> 's"
  l_setfield :: "'s \<Rightarrow> int \<Rightarrow> string \<Rightarrow> 's exc"
  l_pushcclosure :: "'s \<Rightarrow> nat \<Rightarrow> nat \<Rightarrow> 's"
  l_checkudata :: "'s \<Rightarrow> int \<Rightarrow> string \<Rightarrow> nat exc"

text \<open>
  \<open>l_value\<close> stands for \<open>lua_type\<close> and the functions \<open>lua_to...\<close> that only read: the value at an acceptable index.
  \<open>l_push\<close> stands for the functions that push a value. \<open>l_pcall\<close>, \<open>l_dostring\<close> and \<open>l_dofile\<close> say whether they
  failed. \<open>l_block_put\<close> and \<open>l_block_get\<close> access the object pointer in the block of a full userdata, \<open>l_reg_metatable\<close>
  is \<open>luaL_getmetatable\<close>. \<open>ltab\<close> has the tables without a metatable, \<open>lblock\<close> the live blocks. \<open>l_of_int\<close> and \<open>l_trunc\<close> are the C conversions between integers and \<open>lua_Number\<close>.
\<close>

record 'n lua_view =
  lstack :: "'n lua_value list"
  lglobal :: "string \<Rightarrow> 'n lua_value"
  ltab :: "nat \<rightharpoonup> ('n lua_value \<times> 'n lua_value) list"
  lreg :: "string \<Rightarrow> 'n lua_value"
  lmeta :: "nat \<Rightarrow> 'n lua_value"
  lblock :: "nat \<rightharpoonup> nat"

text \<open>The value at an index: from the bottom when positive, from the top when negative.\<close>

definition slot :: "'a list \<Rightarrow> int \<Rightarrow> nat option" where
  "slot st p = (if 0 < p \<and> nat p \<le> length st then Some (nat p - 1)
     else if p < 0 \<and> nat (- p) \<le> length st then Some (length st - nat (- p)) else None)"

definition at :: "'a list \<Rightarrow> int \<Rightarrow> 'a option" where
  "at st p = map_option (nth st) (slot st p)"

text \<open>The entry behind a key in the order of a table: an unknown key is an error, behind the last there is none.\<close>

definition next_entry :: "('n lua_value \<times> 'n lua_value) list \<Rightarrow> 'n lua_value \<Rightarrow> ('n lua_value \<times> 'n lua_value) option exc" where
  "next_entry es k = (if k = LNil then Inr (case es of [] \<Rightarrow> None | e # _ \<Rightarrow> Some e)
     else case dropWhile (\<lambda>e. fst e \<noteq> k) es of [] \<Rightarrow> Inl (Runtime_error ''invalid key to next'')
       | [_] \<Rightarrow> Inr None | _ # e # _ \<Rightarrow> Inr (Some e))"

definition key_like :: "('s, 'n) lua_lib \<Rightarrow> 'n lua_value \<Rightarrow> bool" where
  "key_like L k \<longleftrightarrow> (\<exists>x. k = LString x) \<or> (\<exists>b. k = LBool b) \<or> (\<exists>i. \<bar>i\<bar> < 2 ^ 53 \<and> k = LNumber (l_of_int L i))"

definition stack_laws :: "('s, 'n) lua_lib \<Rightarrow> ('s \<Rightarrow> 'n lua_view) \<Rightarrow> bool" where
  "stack_laws L V \<longleftrightarrow>
     (\<forall>s p. l_value L s p = at (lstack (V s)) p) \<and>
     (\<forall>s v. V (l_push L s v) = (V s)\<lparr>lstack := lstack (V s) @ [v]\<rparr>) \<and>
     (\<forall>s n. V (l_pop L s n) = (V s)\<lparr>lstack := take (length (lstack (V s)) - n) (lstack (V s))\<rparr>) \<and>
     (\<forall>s p x. at (lstack (V s)) p = Some (LString x) \<longrightarrow> fst (l_tolstring L s p) = Some x \<and> V (snd (l_tolstring L s p)) = V s) \<and>
     (\<forall>s p i n. slot (lstack (V s)) p = Some i \<and> lstack (V s) ! i = LNumber n \<longrightarrow>
        (\<exists>x. fst (l_tolstring L s p) = Some x \<and> V (snd (l_tolstring L s p)) = (V s)\<lparr>lstack := (lstack (V s))[i := LString x]\<rparr>)) \<and>
     (\<forall>s p. (\<forall>x n. at (lstack (V s)) p \<noteq> Some (LString x) \<and> at (lstack (V s)) p \<noteq> Some (LNumber n)) \<longrightarrow>
        fst (l_tolstring L s p) = None \<and> V (snd (l_tolstring L s p)) = V s) \<and>
     (\<forall>i. \<bar>i\<bar> < 2 ^ 53 \<longrightarrow> l_trunc L (l_of_int L i) = Some i)"

definition table_laws :: "('s, 'n) lua_lib \<Rightarrow> ('s \<Rightarrow> 'n lua_view) \<Rightarrow> bool" where
  "table_laws L V \<longleftrightarrow>
     (\<forall>s. \<exists>t. ltab (V s) t = None \<and> V (l_newtable L s) = (V s)\<lparr>lstack := lstack (V s) @ [LTable t], ltab := (ltab (V s))(t \<mapsto> [])\<rparr>) \<and>
     (\<forall>s p st t k v es. lstack (V s) = st @ [k, v] \<and> at (st @ [k, v]) p = Some (LTable t) \<and> ltab (V s) t = Some es \<and> distinct (map fst es) \<and> key_like L k \<and> v \<noteq> LNil \<longrightarrow>
        (\<exists>s' es'. l_settable L s p = Inr s' \<and> distinct (map fst es') \<and> map_of es' = (map_of es)(k \<mapsto> v) \<and>
           V s' = (V s)\<lparr>lstack := st, ltab := (ltab (V s))(t \<mapsto> es')\<rparr>)) \<and>
     (\<forall>s p st k t es. lstack (V s) = st @ [k] \<and> at (st @ [k]) p = Some (LTable t) \<and> ltab (V s) t = Some es \<longrightarrow>
        (case next_entry es k of Inl e \<Rightarrow> (\<exists>e. l_next L s p = Inl e)
         | Inr None \<Rightarrow> (\<exists>s'. l_next L s p = Inr (False, s') \<and> V s' = (V s)\<lparr>lstack := st\<rparr>)
         | Inr (Some (k1, v1)) \<Rightarrow> (\<exists>s'. l_next L s p = Inr (True, s') \<and> V s' = (V s)\<lparr>lstack := st @ [k1, v1]\<rparr>)))"

definition run_laws :: "('s, 'n) lua_lib \<Rightarrow> ('s \<Rightarrow> 'n lua_view) \<Rightarrow> bool" where
  "run_laws L V \<longleftrightarrow>
     (\<forall>s g. V (l_getglobal L s g) = (V s)\<lparr>lstack := lstack (V s) @ [lglobal (V s) g]\<rparr>) \<and>
     (\<forall>s g base v. lstack (V s) = base @ [v] \<longrightarrow> V (l_setglobal L s g) = (V s)\<lparr>lstack := base, lglobal := (lglobal (V s))(g := v)\<rparr>) \<and>
     (\<forall>s base f args n nres failed s'. lstack (V s) = base @ [f] @ args \<and> n = length args \<and> l_pcall L s n nres = (failed, s') \<longrightarrow>
        (\<exists>rs. lstack (V s') = base @ rs \<and> length rs = (if failed then 1 else nres))) \<and>
     (\<forall>s x failed s'. l_dostring L s x = (failed, s') \<or> l_dofile L s x = (failed, s') \<longrightarrow>
        (\<exists>rs. lstack (V s') = lstack (V s) @ rs \<and> (failed \<longrightarrow> length rs = 1)))"

text \<open>What classes need: metatables by name, userdata with its block and metatable, closures, and raw reads of fields.\<close>

definition field_of :: "('n lua_value \<times> 'n lua_value) list \<Rightarrow> string \<Rightarrow> 'n lua_value" where
  "field_of es key = (case map_of es (LString key) of Some v \<Rightarrow> v | None \<Rightarrow> LNil)"

definition meta_laws :: "('s, 'n) lua_lib \<Rightarrow> ('s \<Rightarrow> 'n lua_view) \<Rightarrow> bool" where
  "meta_laws L V \<longleftrightarrow>
     (\<forall>s. l_gettop L s = length (lstack (V s))) \<and>
     (\<forall>s p i. slot (lstack (V s)) p = Some i \<longrightarrow> V (l_remove L s p) = (V s)\<lparr>lstack := take i (lstack (V s)) @ drop (Suc i) (lstack (V s))\<rparr>) \<and>
     (\<forall>s n. V (l_reg_metatable L s n) = (V s)\<lparr>lstack := lstack (V s) @ [lreg (V s) n]\<rparr>) \<and>
     (\<forall>s n. lreg (V s) n \<noteq> LNil \<longrightarrow> V (l_newmetatable L s n) = (V s)\<lparr>lstack := lstack (V s) @ [lreg (V s) n]\<rparr>) \<and>
     (\<forall>s n. lreg (V s) n = LNil \<longrightarrow> (\<exists>t es. ltab (V s) t = None \<and> distinct (map fst es) \<and> fst ` set es \<subseteq> {LString ''__name''} \<and>
        V (l_newmetatable L s n) = (V s)\<lparr>lstack := lstack (V s) @ [LTable t], ltab := (ltab (V s))(t \<mapsto> es), lreg := (lreg (V s))(n := LTable t)\<rparr>)) \<and>
     (\<forall>s p key st t v es. lstack (V s) = st @ [v] \<and> at (st @ [v]) p = Some (LTable t) \<and> ltab (V s) t = Some es \<and> distinct (map fst es) \<and> v \<noteq> LNil \<longrightarrow>
        (\<exists>s' es'. l_setfield L s p key = Inr s' \<and> distinct (map fst es') \<and> map_of es' = (map_of es)(LString key \<mapsto> v) \<and>
           V s' = (V s)\<lparr>lstack := st, ltab := (ltab (V s))(t \<mapsto> es')\<rparr>)) \<and>
     (\<forall>s p key t es. at (lstack (V s)) p = Some (LTable t) \<and> ltab (V s) t = Some es \<longrightarrow>
        (\<exists>s'. l_getfield L s p key = Inr s' \<and> V s' = (V s)\<lparr>lstack := lstack (V s) @ [field_of es key]\<rparr>)) \<and>
     (\<forall>s p key. at (lstack (V s)) p = Some LNil \<longrightarrow> (\<exists>e. l_getfield L s p key = Inl (Runtime_error e))) \<and>
     (\<forall>s n f st ups. lstack (V s) = st @ ups \<and> n = length ups \<longrightarrow> V (l_pushcclosure L s f n) = (V s)\<lparr>lstack := st @ [LFunction f]\<rparr>)"

definition udata_laws :: "('s, 'n) lua_lib \<Rightarrow> ('s \<Rightarrow> 'n lua_view) \<Rightarrow> bool" where
  "udata_laws L V \<longleftrightarrow>
     (\<forall>s. \<exists>a s' b. l_newuserdata L s = (a, s') \<and> a \<noteq> 0 \<and> lblock (V s) a = None \<and>
        V s' = (V s)\<lparr>lstack := lstack (V s) @ [LUdata a], lmeta := (lmeta (V s))(a := LNil), lblock := (lblock (V s))(a \<mapsto> b)\<rparr>) \<and>
     (\<forall>s a x. lblock (V s) a \<noteq> None \<longrightarrow> V (l_block_put L s a x) = (V s)\<lparr>lblock := (lblock (V s))(a \<mapsto> x)\<rparr>) \<and>
     (\<forall>s a x. lblock (V s) a = Some x \<longrightarrow> l_block_get L s a = x) \<and>
     (\<forall>s st a m. lstack (V s) = st @ [LUdata a, m] \<longrightarrow> V (l_setmetatable L s (- 2)) = (V s)\<lparr>lstack := st @ [LUdata a], lmeta := (lmeta (V s))(a := m)\<rparr>) \<and>
     (\<forall>s p a. at (lstack (V s)) p = Some (LUdata a) \<longrightarrow> (\<exists>s'. l_getmetatable L s p = (lmeta (V s) a \<noteq> LNil, s') \<and>
        V s' = (if lmeta (V s) a = LNil then V s else (V s)\<lparr>lstack := lstack (V s) @ [lmeta (V s) a]\<rparr>))) \<and>
     (\<forall>s p n. (case at (lstack (V s)) p of
          Some (LUdata a) \<Rightarrow> if lmeta (V s) a = lreg (V s) n \<and> lreg (V s) n \<noteq> LNil then l_checkudata L s p n = Inr a else (\<exists>e. l_checkudata L s p n = Inl (Runtime_error e))
        | _ \<Rightarrow> \<exists>e. l_checkudata L s p n = Inl (Runtime_error e)))"

definition class_laws :: "('s, 'n) lua_lib \<Rightarrow> ('s \<Rightarrow> 'n lua_view) \<Rightarrow> bool" where
  "class_laws L V \<longleftrightarrow> meta_laws L V \<and> udata_laws L V"

definition lua_laws :: "('s, 'n) lua_lib \<Rightarrow> ('s \<Rightarrow> 'n lua_view) \<Rightarrow> bool" where
  "lua_laws L V \<longleftrightarrow> stack_laws L V \<and> table_laws L V \<and> run_laws L V \<and> class_laws L V"

subsection \<open>Facts about the laws\<close>

named_theorems lua_simps \<open>what the functions of the library do to the view\<close>

lemma at_top [simp]: "at (st @ [v]) (- 1) = Some v" "at (st @ [w, v]) (- 1) = Some v" "at (st @ [v, w]) (- 2) = Some v"
  by (simp_all add: at_def slot_def nth_append)

lemma at_append:
  assumes "at st p = Some v"
  shows "at (st @ [w]) (if p < 0 then p - 1 else p) = Some v"
proof (cases "p < 0")
  case True
  have "length (st @ [w]) - nat (- (p - 1)) = length st - nat (- p)" using True by (simp add: nat_diff_distrib')
  then show ?thesis using assms True by (auto simp: at_def slot_def nth_append split: if_splits)
qed (use assms in \<open>auto simp: at_def slot_def nth_append split: if_splits\<close>)

lemma lua_value: "lua_laws L V \<Longrightarrow> l_value L s p = at (lstack (V s)) p"
  by (simp add: lua_laws_def stack_laws_def)

lemma lua_push: "lua_laws L V \<Longrightarrow> V (l_push L s v) = (V s)\<lparr>lstack := lstack (V s) @ [v]\<rparr>"
  by (simp add: lua_laws_def stack_laws_def)

lemma lua_pop: "lua_laws L V \<Longrightarrow> V (l_pop L s n) = (V s)\<lparr>lstack := take (length (lstack (V s)) - n) (lstack (V s))\<rparr>"
  by (simp add: lua_laws_def stack_laws_def)

lemma lua_tolstring: "lua_laws L V \<Longrightarrow> at (lstack (V s)) p = Some (LString x) \<Longrightarrow>
    fst (l_tolstring L s p) = Some x \<and> V (snd (l_tolstring L s p)) = V s"
  by (simp add: lua_laws_def stack_laws_def)

lemma lua_tolstring_other:
  "lua_laws L V \<Longrightarrow> (\<And>x. at (lstack (V s)) p \<noteq> Some (LString x)) \<Longrightarrow> (\<And>n. at (lstack (V s)) p \<noteq> Some (LNumber n)) \<Longrightarrow>
    fst (l_tolstring L s p) = None \<and> V (snd (l_tolstring L s p)) = V s"
  by (simp add: lua_laws_def stack_laws_def)

lemma lua_tolstring_number:
  "lua_laws L V \<Longrightarrow> slot (lstack (V s)) p = Some i \<Longrightarrow> lstack (V s) ! i = LNumber n \<Longrightarrow>
    \<exists>x. fst (l_tolstring L s p) = Some x \<and> V (snd (l_tolstring L s p)) = (V s)\<lparr>lstack := (lstack (V s))[i := LString x]\<rparr>"
  by (simp add: lua_laws_def stack_laws_def)

text \<open>\<open>lua_tolstring\<close> may convert the value it reads in place; nothing else on the stack changes.\<close>

lemma lua_tolstring_top:
  assumes "lua_laws L V" "lstack (V s) = st @ [v]"
  shows "\<exists>w. lstack (V (snd (l_tolstring L s (- 1)))) = st @ [w]"
proof (cases v)
  case (LNumber n)
  then show ?thesis using lua_tolstring_number [OF assms(1), of s "- 1" "length st"] assms(2) by (auto simp: slot_def)
next
  case (LString x)
  then show ?thesis using lua_tolstring [OF assms(1), of s "- 1"] assms(2) by auto
qed (use lua_tolstring_other [OF assms(1), of s "- 1"] assms(2) in auto)

lemma lua_trunc: "lua_laws L V \<Longrightarrow> \<bar>i\<bar> < 2 ^ 53 \<Longrightarrow> l_trunc L (l_of_int L i) = Some i"
  by (simp add: lua_laws_def stack_laws_def)

lemma lua_newtable: "lua_laws L V \<Longrightarrow> \<exists>t. ltab (V s) t = None \<and> V (l_newtable L s) = (V s)\<lparr>lstack := lstack (V s) @ [LTable t], ltab := (ltab (V s))(t \<mapsto> [])\<rparr>"
  by (simp add: lua_laws_def table_laws_def)

lemma lua_settable_at:
  assumes "lua_laws L V" "lstack (V s) = st @ [k, v]" "at (st @ [k, v]) p = Some (LTable t)" "ltab (V s) t = Some es" "distinct (map fst es)" "key_like L k" "v \<noteq> LNil"
  shows "\<exists>s' es'. l_settable L s p = Inr s' \<and> distinct (map fst es') \<and> map_of es' = (map_of es)(k \<mapsto> v) \<and>
    V s' = (V s)\<lparr>lstack := st, ltab := (ltab (V s))(t \<mapsto> es')\<rparr>"
  using assms unfolding lua_laws_def table_laws_def by blast

lemma at_third [simp]: "at (st @ [u, v, w]) (- 3) = Some u"
  by (simp add: at_def slot_def nth_append)

lemma lua_settable:
  assumes "lua_laws L V" "lstack (V s) = base @ [LTable t, k, v]" "ltab (V s) t = Some es" "distinct (map fst es)" "key_like L k" "v \<noteq> LNil"
  shows "\<exists>s' es'. l_settable L s (- 3) = Inr s' \<and> distinct (map fst es') \<and> map_of es' = (map_of es)(k \<mapsto> v) \<and>
    V s' = (V s)\<lparr>lstack := base @ [LTable t], ltab := (ltab (V s))(t \<mapsto> es')\<rparr>"
  using lua_settable_at [of L V s "base @ [LTable t]" k v "- 3" t es] assms by simp

lemma lua_next:
  assumes "lua_laws L V" "lstack (V s) = st @ [k]" "at (st @ [k]) p = Some (LTable t)" "ltab (V s) t = Some es"
  shows "case next_entry es k of Inl e \<Rightarrow> (\<exists>e. l_next L s p = Inl e)
     | Inr None \<Rightarrow> (\<exists>s'. l_next L s p = Inr (False, s') \<and> V s' = (V s)\<lparr>lstack := st\<rparr>)
     | Inr (Some (k1, v1)) \<Rightarrow> (\<exists>s'. l_next L s p = Inr (True, s') \<and> V s' = (V s)\<lparr>lstack := st @ [k1, v1]\<rparr>)"
  using assms unfolding lua_laws_def table_laws_def by blast

lemma lua_getglobal: "lua_laws L V \<Longrightarrow> V (l_getglobal L s g) = (V s)\<lparr>lstack := lstack (V s) @ [lglobal (V s) g]\<rparr>"
  by (simp add: lua_laws_def run_laws_def)

lemma lua_setglobal: "lua_laws L V \<Longrightarrow> lstack (V s) = base @ [v] \<Longrightarrow> V (l_setglobal L s g) = (V s)\<lparr>lstack := base, lglobal := (lglobal (V s))(g := v)\<rparr>"
  by (simp add: lua_laws_def run_laws_def)

lemma lua_pcall:
  assumes "lua_laws L V" "lstack (V s) = base @ [f] @ args" "l_pcall L s (length args) nres = (failed, s')"
  shows "\<exists>rs. lstack (V s') = base @ rs \<and> length rs = (if failed then 1 else nres)"
  using assms unfolding lua_laws_def run_laws_def by blast

lemma lua_do:
  assumes "lua_laws L V" "l_dostring L s x = (failed, s') \<or> l_dofile L s x = (failed, s')"
  shows "\<exists>rs. lstack (V s') = lstack (V s) @ rs \<and> (failed \<longrightarrow> length rs = 1)"
  using assms unfolding lua_laws_def run_laws_def by blast

subsection \<open>A library that satisfies the laws\<close>

text \<open>Numbers are integers. Function 0 raises an error, function 1 returns its first argument and function 2 the global \<open>t\<close>.\<close>

record smp =
  s_stack :: "int lua_value list"
  s_global :: "(string \<times> int lua_value) list"
  s_tabs :: "(int lua_value \<times> int lua_value) list list"
  s_reg :: "(string \<times> nat) list"
  s_meta :: "(nat \<times> int lua_value) list"
  s_blocks :: "nat list"

definition or_nil :: "'n lua_value option \<Rightarrow> 'n lua_value" where
  "or_nil x = (case x of Some v \<Rightarrow> v | None \<Rightarrow> LNil)"

definition smp_global :: "smp \<Rightarrow> string \<Rightarrow> int lua_value" where
  "smp_global s g = or_nil (map_of (s_global s) g)"

definition smp_reg :: "smp \<Rightarrow> string \<Rightarrow> int lua_value" where
  "smp_reg s n = or_nil (map_option LTable (map_of (s_reg s) n))"

definition smp_meta :: "smp \<Rightarrow> nat \<Rightarrow> int lua_value" where
  "smp_meta s a = or_nil (map_of (s_meta s) a)"

definition smp_view :: "smp \<Rightarrow> int lua_view" where
  "smp_view s = \<lparr>lstack = s_stack s, lglobal = smp_global s, ltab = (\<lambda>t. if t < length (s_tabs s) then Some (s_tabs s ! t) else None),
     lreg = smp_reg s, lmeta = smp_meta s, lblock = (\<lambda>a. if 0 < a \<and> a \<le> length (s_blocks s) then Some (s_blocks s ! (a - 1)) else None)\<rparr>"

text \<open>Entering a value into the table at an index, for \<open>lua_settable\<close> and \<open>lua_setfield\<close>.\<close>

definition smp_put :: "smp \<Rightarrow> int lua_value list \<Rightarrow> int \<Rightarrow> int lua_value \<Rightarrow> int lua_value \<Rightarrow> smp exc" where
  "smp_put s st p k v = (case at (s_stack s) p of
     Some (LTable t) \<Rightarrow> Inr (s\<lparr>s_stack := st, s_tabs := (s_tabs s)[t := filter (\<lambda>e. fst e \<noteq> k) (s_tabs s ! t) @ [(k, v)]]\<rparr>)
   | _ \<Rightarrow> Inl (Runtime_error ''not a table''))"

definition smp_tolstring :: "smp \<Rightarrow> int \<Rightarrow> string option \<times> smp" where
  "smp_tolstring s p = (case slot (s_stack s) p of None \<Rightarrow> (None, s)
     | Some i \<Rightarrow> (case s_stack s ! i of LString x \<Rightarrow> (Some x, s)
         | LNumber n \<Rightarrow> (Some (show_int n), s\<lparr>s_stack := (s_stack s)[i := LString (show_int n)]\<rparr>) | _ \<Rightarrow> (None, s)))"

definition smp_settable :: "smp \<Rightarrow> int \<Rightarrow> smp exc" where
  "smp_settable s p = smp_put s (butlast (butlast (s_stack s))) p (last (butlast (s_stack s))) (last (s_stack s))"

definition smp_next :: "smp \<Rightarrow> int \<Rightarrow> (bool \<times> smp) exc" where
  "smp_next s p = (case at (s_stack s) p of Some (LTable t) \<Rightarrow>
       (case next_entry (if t < length (s_tabs s) then s_tabs s ! t else []) (last (s_stack s)) of Inl e \<Rightarrow> Inl e
        | Inr None \<Rightarrow> Inr (False, s\<lparr>s_stack := butlast (s_stack s)\<rparr>)
        | Inr (Some (k, v)) \<Rightarrow> Inr (True, s\<lparr>s_stack := butlast (s_stack s) @ [k, v]\<rparr>))
     | _ \<Rightarrow> Inl (Runtime_error ''not a table''))"

definition smp_getfield :: "smp \<Rightarrow> int \<Rightarrow> string \<Rightarrow> smp exc" where
  "smp_getfield s p key = (case at (s_stack s) p of
     Some (LTable t) \<Rightarrow> Inr (s\<lparr>s_stack := s_stack s @ [field_of (if t < length (s_tabs s) then s_tabs s ! t else []) key]\<rparr>)
   | _ \<Rightarrow> Inl (Runtime_error ''attempt to index a value''))"

definition smp_pcall :: "smp \<Rightarrow> nat \<Rightarrow> nat \<Rightarrow> bool \<times> smp" where
  "smp_pcall s n nres = (let base = take (length (s_stack s) - (n + 1)) (s_stack s); args = drop (length (s_stack s) - n) (s_stack s);
       r = (case at (s_stack s) (- int n - 1) of Some (LFunction (Suc 0)) \<Rightarrow> (case args of a # _ \<Rightarrow> Some a | [] \<Rightarrow> Some LNil)
             | Some (LFunction (Suc (Suc 0))) \<Rightarrow> Some (smp_global s ''t'') | _ \<Rightarrow> None)
     in case r of None \<Rightarrow> (True, s\<lparr>s_stack := base @ [LString ''error'']\<rparr>)
        | Some v \<Rightarrow> (False, s\<lparr>s_stack := base @ (if nres = 0 then [] else v # replicate (nres - 1) LNil)\<rparr>))"

definition smp_newmetatable :: "smp \<Rightarrow> string \<Rightarrow> smp" where
  "smp_newmetatable s n = (if map_of (s_reg s) n = None
     then s\<lparr>s_stack := s_stack s @ [LTable (length (s_tabs s))], s_reg := (n, length (s_tabs s)) # s_reg s, s_tabs := s_tabs s @ [[]]\<rparr>
     else s\<lparr>s_stack := s_stack s @ [smp_reg s n]\<rparr>)"

definition smp_setmetatable :: "smp \<Rightarrow> int \<Rightarrow> smp" where
  "smp_setmetatable s p = (case at (s_stack s) p of Some (LUdata a) \<Rightarrow> s\<lparr>s_stack := butlast (s_stack s), s_meta := (a, last (s_stack s)) # s_meta s\<rparr> | _ \<Rightarrow> s)"

definition smp_getmetatable :: "smp \<Rightarrow> int \<Rightarrow> bool \<times> smp" where
  "smp_getmetatable s p = (case at (s_stack s) p of
     Some (LUdata a) \<Rightarrow> (if smp_meta s a = LNil then (False, s) else (True, s\<lparr>s_stack := s_stack s @ [smp_meta s a]\<rparr>)) | _ \<Rightarrow> (False, s))"

definition smp_remove :: "smp \<Rightarrow> int \<Rightarrow> smp" where
  "smp_remove s p = (case slot (s_stack s) p of Some i \<Rightarrow> s\<lparr>s_stack := take i (s_stack s) @ drop (Suc i) (s_stack s)\<rparr> | None \<Rightarrow> s)"

definition smp_checkudata :: "smp \<Rightarrow> int \<Rightarrow> string \<Rightarrow> nat exc" where
  "smp_checkudata s p n = (case at (s_stack s) p of
     Some (LUdata a) \<Rightarrow> (if smp_meta s a = smp_reg s n \<and> smp_reg s n \<noteq> LNil then Inr a else Inl (Runtime_error n)) | _ \<Rightarrow> Inl (Runtime_error n))"

definition sample_lua :: "(smp, int) lua_lib" where
  "sample_lua = \<lparr>l_value = (\<lambda>s. at (s_stack s)), l_push = (\<lambda>s v. s\<lparr>s_stack := s_stack s @ [v]\<rparr>),
     l_pop = (\<lambda>s n. s\<lparr>s_stack := take (length (s_stack s) - n) (s_stack s)\<rparr>), l_tolstring = smp_tolstring, l_str2num = (\<lambda>_. None),
     l_of_int = (\<lambda>i. i), l_trunc = Some, l_to_float = (\<lambda>i. i),
     l_newtable = (\<lambda>s. s\<lparr>s_stack := s_stack s @ [LTable (length (s_tabs s))], s_tabs := s_tabs s @ [[]]\<rparr>),
     l_settable = smp_settable, l_next = smp_next, l_getfield = smp_getfield,
     l_getglobal = (\<lambda>s g. s\<lparr>s_stack := s_stack s @ [smp_global s g]\<rparr>),
     l_setglobal = (\<lambda>s g. s\<lparr>s_stack := butlast (s_stack s), s_global := (g, last (s_stack s)) # s_global s\<rparr>),
     l_pcall = smp_pcall, l_dostring = (\<lambda>s x. (True, s\<lparr>s_stack := s_stack s @ [LString x]\<rparr>)),
     l_dofile = (\<lambda>s x. (False, s\<lparr>s_stack := s_stack s @ [LBool True, LBool True]\<rparr>)),
     l_newuserdata = (\<lambda>s. (length (s_blocks s) + 1, s\<lparr>s_stack := s_stack s @ [LUdata (length (s_blocks s) + 1)],
       s_meta := (length (s_blocks s) + 1, LNil) # s_meta s, s_blocks := s_blocks s @ [0]\<rparr>)),
     l_block_put = (\<lambda>s a p. s\<lparr>s_blocks := (s_blocks s)[a - 1 := p]\<rparr>), l_block_get = (\<lambda>s a. s_blocks s ! (a - 1)),
     l_reg_metatable = (\<lambda>s x. s\<lparr>s_stack := s_stack s @ [smp_reg s x]\<rparr>), l_setmetatable = smp_setmetatable, l_getmetatable = smp_getmetatable,
     l_gettop = (\<lambda>s. length (s_stack s)), l_remove = smp_remove, l_newmetatable = smp_newmetatable,
     l_setfield = (\<lambda>s p key. smp_put s (butlast (s_stack s)) p (LString key) (last (s_stack s))),
     l_pushcclosure = (\<lambda>s f n. s\<lparr>s_stack := take (length (s_stack s) - n) (s_stack s) @ [LFunction f]\<rparr>), l_checkudata = smp_checkudata\<rparr>"

lemmas smp_simps = sample_lua_def smp_view_def smp_global_def smp_reg_def smp_meta_def or_nil_def

lemma sample_stack_laws: "stack_laws sample_lua smp_view"
  by (auto simp: stack_laws_def smp_simps smp_tolstring_def at_def fun_eq_iff split: option.splits lua_value.splits)

lemma smp_put_effect:
  assumes "at (s_stack s) p = Some (LTable t)" "ltab (smp_view s) t = Some es" "distinct (map fst es)"
  shows "\<exists>s' es'. smp_put s st p k v = Inr s' \<and> distinct (map fst es') \<and> map_of es' = (map_of es)(k \<mapsto> v) \<and>
    smp_view s' = (smp_view s)\<lparr>lstack := st, ltab := (ltab (smp_view s))(t \<mapsto> es')\<rparr>"
proof -
  let ?es = "filter (\<lambda>e. fst e \<noteq> k) es @ [(k, v)]"
  have t: "t < length (s_tabs s)" "s_tabs s ! t = es" using assms(2) by (auto simp: smp_view_def split: if_splits)
  have "distinct (map fst ?es)" using assms(3) by (auto simp: distinct_map_filter)
  moreover have "map_of ?es x = ((map_of es)(k \<mapsto> v)) x" for x by (induction es) (auto simp: map_add_def)
  moreover have "smp_put s st p k v = Inr (s\<lparr>s_stack := st, s_tabs := (s_tabs s)[t := ?es]\<rparr>)"
    using assms(1) t by (simp add: smp_put_def)
  moreover have "smp_view (s\<lparr>s_stack := st, s_tabs := (s_tabs s)[t := ?es]\<rparr>) = (smp_view s)\<lparr>lstack := st, ltab := (ltab (smp_view s))(t \<mapsto> ?es)\<rparr>"
    using t by (auto simp: smp_view_def smp_global_def smp_reg_def smp_meta_def fun_eq_iff)
  ultimately show ?thesis by blast
qed

lemma sample_table_laws: "table_laws sample_lua smp_view"
proof -
  have new: "\<exists>t. ltab (smp_view s) t = None \<and> smp_view (l_newtable sample_lua s) =
      (smp_view s)\<lparr>lstack := lstack (smp_view s) @ [LTable t], ltab := (ltab (smp_view s))(t \<mapsto> [])\<rparr>" for s
    by (intro exI [of _ "length (s_tabs s)"]) (auto simp: smp_simps fun_eq_iff nth_append)
  have set: "\<exists>s' es'. l_settable sample_lua s p = Inr s' \<and> distinct (map fst es') \<and> map_of es' = (map_of es)(k \<mapsto> v) \<and>
      smp_view s' = (smp_view s)\<lparr>lstack := st, ltab := (ltab (smp_view s))(t \<mapsto> es')\<rparr>"
    if a: "lstack (smp_view s) = st @ [k, v]" "at (st @ [k, v]) p = Some (LTable t)" "ltab (smp_view s) t = Some es" "distinct (map fst es)" for s p st t k v es
  proof -
    have st: "s_stack s = st @ [k, v]" using a(1) by (simp add: smp_view_def)
    then have "l_settable sample_lua s p = smp_put s st p k v" by (simp add: sample_lua_def smp_settable_def butlast_append)
    then show ?thesis using smp_put_effect [of s p t es st k v] a(2-4) st by simp
  qed
  have nxt: "case next_entry es k of Inl e \<Rightarrow> (\<exists>e. l_next sample_lua s p = Inl e)
     | Inr None \<Rightarrow> (\<exists>s'. l_next sample_lua s p = Inr (False, s') \<and> smp_view s' = (smp_view s)\<lparr>lstack := st\<rparr>)
     | Inr (Some (k1, v1)) \<Rightarrow> (\<exists>s'. l_next sample_lua s p = Inr (True, s') \<and> smp_view s' = (smp_view s)\<lparr>lstack := st @ [k1, v1]\<rparr>)"
    if "lstack (smp_view s) = st @ [k]" "at (st @ [k]) p = Some (LTable t)" "ltab (smp_view s) t = Some es" for s p st k t es
    using that by (auto simp: smp_simps smp_next_def fun_eq_iff split: sum.splits option.splits if_splits)
  from new set nxt show ?thesis unfolding table_laws_def by blast
qed

lemma sample_run_laws: "run_laws sample_lua smp_view"
proof -
  have pcall: "\<exists>rs. lstack (smp_view s') = base @ rs \<and> length rs = (if failed then 1 else nres)"
    if "lstack (smp_view s) = base @ [f] @ args" "n = length args" "l_pcall sample_lua s n nres = (failed, s')" for s base f args n nres failed s'
    using that by (auto simp: sample_lua_def smp_view_def smp_pcall_def Let_def split: option.splits if_splits)
  show ?thesis unfolding run_laws_def
  proof (intro conjI allI impI, goal_cases)
    case (3 s base f args n nres failed s')
    then show ?case using pcall by blast
  qed (auto simp: smp_simps fun_eq_iff)
qed

lemma sample_meta_laws: "meta_laws sample_lua smp_view"
proof -
  have new: "\<exists>t es. ltab (smp_view s) t = None \<and> distinct (map fst es) \<and> fst ` set es \<subseteq> {LString ''__name''} \<and>
      smp_view (l_newmetatable sample_lua s n) = (smp_view s)\<lparr>lstack := lstack (smp_view s) @ [LTable t], ltab := (ltab (smp_view s))(t \<mapsto> es), lreg := (lreg (smp_view s))(n := LTable t)\<rparr>"
    if "lreg (smp_view s) n = LNil" for s n
    using that by (intro exI [of _ "length (s_tabs s)"] exI [of _ "[]"]) (auto simp: smp_simps smp_newmetatable_def fun_eq_iff nth_append split: option.splits)
  have put: "\<exists>s' es'. l_setfield sample_lua s p key = Inr s' \<and> distinct (map fst es') \<and> map_of es' = (map_of es)(LString key \<mapsto> v) \<and>
      smp_view s' = (smp_view s)\<lparr>lstack := st, ltab := (ltab (smp_view s))(t \<mapsto> es')\<rparr>"
    if "lstack (smp_view s) = st @ [v]" "at (st @ [v]) p = Some (LTable t)" "ltab (smp_view s) t = Some es" "distinct (map fst es)" for s p key st t v es
    using that smp_put_effect [of s p t es st "LString key" v] by (simp add: sample_lua_def smp_view_def)
  show ?thesis unfolding meta_laws_def
  proof (intro conjI allI impI, goal_cases)
    case (5 s n)
    then show ?case using new by blast
  next
    case (6 s p key st t v es)
    then show ?case using put by blast
  qed (auto simp: smp_simps smp_remove_def smp_newmetatable_def smp_getfield_def fun_eq_iff split: option.splits if_splits)
qed

lemma sample_udata_laws: "udata_laws sample_lua smp_view"
  unfolding udata_laws_def
proof (intro conjI allI impI, goal_cases)
  case (1 s)
  show ?case
    by (intro exI [of _ "length (s_blocks s) + 1"] exI [of _ "snd (l_newuserdata sample_lua s)"] exI [of _ 0])
      (auto simp: smp_simps fun_eq_iff nth_append)
next
  case (2 s a x)
  then show ?case by (auto simp: smp_simps fun_eq_iff nth_list_update split: if_splits)
qed (auto simp: smp_simps butlast_append smp_setmetatable_def smp_getmetatable_def smp_checkudata_def fun_eq_iff split: option.splits if_splits lua_value.splits)

lemma sample_lua_laws: "lua_laws sample_lua smp_view"
  using sample_stack_laws sample_table_laws sample_run_laws sample_meta_laws sample_udata_laws by (simp add: lua_laws_def class_laws_def)

end
