(* ===== verification/Fflua_Type.thy ===== *)
theory Fflua_Type
  imports Lua_Api Obj_Counter
begin

section \<open>Converting values between C++ and Lua\<close>

text \<open>
  \<open>lua_op_t\<close> of \<^verbatim>\<open>lua/fflua_type.h\<close>. A specialisation for a type is a record of its functions: \<open>push_stack\<close>, \<open>get_ret_value\<close>
  (which answers 0 or -1, here whether it failed) and \<open>lua_to_value\<close> (which raises a Lua error instead), with the
  type's initial value. Reference parameters are returned. \<open>None\<close> is a loop over a table that does not end. A number
  whose conversion to an integer type is undefined in C is \<open>Inl Out_of_range\<close>.
\<close>

record ('s, 'a) lua_op_t =
  push_stack :: "'s \<Rightarrow> 'a \<Rightarrow> 's exc"
  get_ret_value :: "'s \<Rightarrow> int \<Rightarrow> 'a \<Rightarrow> (bool \<times> 'a \<times> 's) exc option"
  lua_to_value :: "'s \<Rightarrow> int \<Rightarrow> 'a \<Rightarrow> ('a \<times> 's) exc option"
  init_value :: 'a

definition lua_error :: "string \<Rightarrow> 'a exc option" where
  "lua_error msg = Some (Inl (Runtime_error msg))"

subsection \<open>Scalars\<close>

text \<open>\<open>lua_tonumber\<close>: numbers and strings that can be read as numbers.\<close>

definition to_number :: "('s, 'n) lua_lib \<Rightarrow> 's \<Rightarrow> int \<Rightarrow> 'n option" where
  "to_number L s p = (case l_value L s p of Some (LNumber n) \<Rightarrow> Some n | Some (LString x) \<Rightarrow> l_str2num L x | _ \<Rightarrow> None)"

definition is_string :: "('s, 'n) lua_lib \<Rightarrow> 's \<Rightarrow> int \<Rightarrow> bool" where
  "is_string L s p \<longleftrightarrow> (case l_value L s p of Some (LString x) \<Rightarrow> True | Some (LNumber n) \<Rightarrow> True | _ \<Rightarrow> False)"

text \<open>The integer types from \<open>int8_t\<close> to \<open>uint32_t\<close> go through \<open>lua_Number\<close>; \<open>lo\<close> and \<open>hi\<close> bound the type.\<close>

definition cast_int :: "('s, 'n) lua_lib \<Rightarrow> int \<Rightarrow> int \<Rightarrow> 'n \<Rightarrow> int exc" where
  "cast_int L lo hi n = (case l_trunc L n of Some i \<Rightarrow> if lo \<le> i \<and> i \<le> hi then Inr i else Inl Out_of_range | None \<Rightarrow> Inl Out_of_range)"

definition op_integer :: "('s, 'n) lua_lib \<Rightarrow> int \<Rightarrow> int \<Rightarrow> ('s, int) lua_op_t" where
  "op_integer L lo hi = \<lparr>push_stack = (\<lambda>s x. Inr (l_push L s (LNumber (l_of_int L x)))),
     get_ret_value = (\<lambda>s p x. case to_number L s p of None \<Rightarrow> Some (Inr (True, x, s))
       | Some n \<Rightarrow> (case cast_int L lo hi n of Inl e \<Rightarrow> Some (Inl e) | Inr i \<Rightarrow> Some (Inr (False, i, s)))),
     lua_to_value = (\<lambda>s p x. case to_number L s p of None \<Rightarrow> lua_error ''number expected''
       | Some n \<Rightarrow> (case cast_int L lo hi n of Inl e \<Rightarrow> Some (Inl e) | Inr i \<Rightarrow> Some (Inr (i, s)))),
     init_value = 0\<rparr>"

definition op_int8 where "op_int8 L = op_integer L (- 128) 127"
definition op_uint8 where "op_uint8 L = op_integer L 0 255"
definition op_int16 where "op_int16 L = op_integer L (- 32768) 32767"
definition op_uint16 where "op_uint16 L = op_integer L 0 65535"
definition op_int32 where "op_int32 L = op_integer L (- 2147483648) 2147483647"
definition op_uint32 where "op_uint32 L = op_integer L 0 4294967295"

text \<open>\<open>double\<close> and \<open>float\<close>.\<close>

definition op_real :: "('s, 'n) lua_lib \<Rightarrow> ('n \<Rightarrow> 'n) \<Rightarrow> ('s, 'n) lua_op_t" where
  "op_real L conv = \<lparr>push_stack = (\<lambda>s x. Inr (l_push L s (LNumber x))),
     get_ret_value = (\<lambda>s p x. case to_number L s p of None \<Rightarrow> Some (Inr (True, x, s)) | Some n \<Rightarrow> Some (Inr (False, conv n, s))),
     lua_to_value = (\<lambda>s p x. case to_number L s p of None \<Rightarrow> lua_error ''number expected'' | Some n \<Rightarrow> Some (Inr (conv n, s))),
     init_value = l_of_int L 0\<rparr>"

definition op_double where "op_double L = op_real L (\<lambda>x. x)"
definition op_float where "op_float L = op_real L (l_to_float L)"

text \<open>64-bit integers are strings in Lua.\<close>

definition strtoll :: "string \<Rightarrow> int" where
  "strtoll x = min (2 ^ 63 - 1) (max (- (2 ^ 63)) (atoi (c_str x)))"

definition strtoull :: "string \<Rightarrow> int" where
  "strtoull x = (let i = atoi (c_str x) in if \<bar>i\<bar> < 2 ^ 64 then i mod 2 ^ 64 else 2 ^ 64 - 1)"

definition op_big :: "('s, 'n) lua_lib \<Rightarrow> (string \<Rightarrow> int) \<Rightarrow> ('s, int) lua_op_t" where
  "op_big L conv = \<lparr>push_stack = (\<lambda>s x. Inr (l_push L s (LString (show_int x)))),
     get_ret_value = (\<lambda>s p x. if \<not> is_string L s p then Some (Inr (True, x, s))
       else case l_tolstring L s p of (Some src, s1) \<Rightarrow> Some (Inr (False, conv src, s1)) | (None, s1) \<Rightarrow> Some (Inl Null_deref)),
     lua_to_value = (\<lambda>s p x. case l_tolstring L s p of (Some src, s1) \<Rightarrow> Some (Inr (conv src, s1)) | (None, s1) \<Rightarrow> lua_error ''string expected''),
     init_value = 0\<rparr>"

definition op_int64 where "op_int64 L = op_big L strtoll"
definition op_uint64 where "op_uint64 L = op_big L strtoull"

definition op_bool :: "('s, 'n) lua_lib \<Rightarrow> ('s, bool) lua_op_t" where
  "op_bool L = \<lparr>push_stack = (\<lambda>s x. Inr (l_push L s (LBool x))),
     get_ret_value = (\<lambda>s p x. case l_value L s p of Some LNil \<Rightarrow> Some (Inr (False, False, s)) | Some (LBool b) \<Rightarrow> Some (Inr (False, b, s))
       | _ \<Rightarrow> Some (Inr (True, x, s))),
     lua_to_value = (\<lambda>s p x. case l_value L s p of Some (LBool b) \<Rightarrow> Some (Inr (b, s)) | _ \<Rightarrow> lua_error ''boolean expected''),
     init_value = False\<rparr>"

definition op_string :: "('s, 'n) lua_lib \<Rightarrow> ('s, string) lua_op_t" where
  "op_string L = \<lparr>push_stack = (\<lambda>s x. Inr (l_push L s (LString x))),
     get_ret_value = (\<lambda>s p x. if \<not> is_string L s p then Some (Inr (True, x, s))
       else case l_value L s p of None \<Rightarrow> Some (Inl Null_deref)
       | Some v \<Rightarrow> (case l_tolstring L (l_push L s v) (- 1) of (Some src, s1) \<Rightarrow> Some (Inr (False, src, l_pop L s1 1)) | (None, s1) \<Rightarrow> Some (Inl Null_deref))),
     lua_to_value = (\<lambda>s p x. case l_tolstring L s p of (Some src, s1) \<Rightarrow> Some (Inr (src, s1)) | (None, s1) \<Rightarrow> lua_error ''string expected''),
     init_value = ''''\<rparr>"

definition op_void_ptr :: "('s, 'n) lua_lib \<Rightarrow> ('s, nat) lua_op_t" where
  "op_void_ptr L = \<lparr>push_stack = (\<lambda>s x. Inr (l_push L s (LLight x))),
     get_ret_value = (\<lambda>s p x. case l_value L s p of Some (LLight a) \<Rightarrow> Some (Inr (False, a, s)) | Some (LUdata a) \<Rightarrow> Some (Inr (False, a, s))
       | _ \<Rightarrow> Some (Inr (True, x, s))),
     lua_to_value = (\<lambda>s p x. case l_value L s p of Some (LLight a) \<Rightarrow> Some (Inr (a, s)) | Some (LUdata a) \<Rightarrow> Some (Inr (a, s))
       | _ \<Rightarrow> lua_error ''userdata param expected''),
     init_value = 0\<rparr>"

subsection \<open>Containers\<close>

text \<open>
  The loop of all containers over \<open>lua_next\<close>: \<open>read\<close> converts the entry on top of the stack. A conversion that fails
  ends the loop with the key and the value still on the stack; \<open>vector\<close> and \<open>list\<close> have entered the element before
  (\<open>early\<close>).
\<close>

definition real_index :: "int \<Rightarrow> int" where
  "real_index p = (if p < 0 then p - 1 else p)"

partial_function (option) each_entry :: "('s, 'n) lua_lib \<Rightarrow> ('s \<Rightarrow> (bool \<times> 'e \<times> 's) exc option) \<Rightarrow> ('e \<Rightarrow> 'c \<Rightarrow> 'c) \<Rightarrow> bool \<Rightarrow> int \<Rightarrow> 's \<Rightarrow> 'c
    \<Rightarrow> (bool \<times> 'c \<times> 's) exc option" where
  "each_entry L read add early real_pos s c = (case l_next L s real_pos of Inl e \<Rightarrow> Some (Inl e)
     | Inr (found, s1) \<Rightarrow> (if \<not> found then Some (Inr (False, c, s1))
        else (case read s1 of None \<Rightarrow> None
          | Some (Inl e) \<Rightarrow> Some (Inl e)
          | Some (Inr (failed, x, s2)) \<Rightarrow> (if failed then Some (Inr (True, if early then add x c else c, s2))
              else each_entry L read add early real_pos (l_pop L s2 1) (add x c)))))"

definition container_get :: "('s, 'n) lua_lib \<Rightarrow> ('s \<Rightarrow> (bool \<times> 'e \<times> 's) exc option) \<Rightarrow> ('e \<Rightarrow> 'c \<Rightarrow> 'c) \<Rightarrow> bool \<Rightarrow> 's \<Rightarrow> int \<Rightarrow> 'c
    \<Rightarrow> (bool \<times> 'c \<times> 's) exc option" where
  "container_get L read add early s p c = (case l_value L s p of
     Some (LTable t) \<Rightarrow> each_entry L read add early (real_index p) (l_push L s LNil) c
   | _ \<Rightarrow> Some (Inr (True, c, s)))"

text \<open>\<open>lua_to_value\<close> of a container: the same loop, with errors instead of the answer -1.\<close>

definition container_to :: "('s, 'n) lua_lib \<Rightarrow> ('s \<Rightarrow> (bool \<times> 'e \<times> 's) exc option) \<Rightarrow> ('e \<Rightarrow> 'c \<Rightarrow> 'c) \<Rightarrow> bool \<Rightarrow> 's \<Rightarrow> int \<Rightarrow> 'c
    \<Rightarrow> ('c \<times> 's) exc option" where
  "container_to L read add early s p c = (case l_value L s p of
     Some (LTable t) \<Rightarrow> (case each_entry L read add early (real_index p) (l_push L s LNil) c of None \<Rightarrow> None
       | Some (Inl e) \<Rightarrow> Some (Inl e)
       | Some (Inr (failed, c1, s1)) \<Rightarrow> (if failed then lua_error ''convert to vector failed'' else Some (Inr (c1, s1))))
   | _ \<Rightarrow> lua_error ''table expected'')"

definition read_by_to :: "('s, 'a) lua_op_t \<Rightarrow> 's \<Rightarrow> (bool \<times> 'a \<times> 's) exc option" where
  "read_by_to op s = (case lua_to_value op s (- 1) (init_value op) of None \<Rightarrow> None | Some (Inl e) \<Rightarrow> Some (Inl e) | Some (Inr (x, s1)) \<Rightarrow> Some (Inr (False, x, s1)))"

definition read_pair :: "('s, 'k) lua_op_t \<Rightarrow> ('s, 'v) lua_op_t \<Rightarrow> 's \<Rightarrow> (bool \<times> ('k \<times> 'v) \<times> 's) exc option" where
  "read_pair opk opv s = (case get_ret_value opk s (- 2) (init_value opk) of None \<Rightarrow> None | Some (Inl e) \<Rightarrow> Some (Inl e)
     | Some (Inr (failed, k, s1)) \<Rightarrow> (if failed then Some (Inr (True, (k, init_value opv), s1))
        else (case get_ret_value opv s1 (- 1) (init_value opv) of None \<Rightarrow> None | Some (Inl e) \<Rightarrow> Some (Inl e)
          | Some (Inr (failed, v, s2)) \<Rightarrow> Some (Inr (failed, (k, v), s2)))))"

text \<open>Pushing: each item pushes a key and a value, which \<open>lua_settable\<close> enters into the table below them.\<close>

definition push_pair :: "('s, 'k) lua_op_t \<Rightarrow> ('s, 'v) lua_op_t \<Rightarrow> 's \<Rightarrow> 'k \<times> 'v \<Rightarrow> 's exc" where
  "push_pair opk opv s e = (case push_stack opk s (fst e) of Inl x \<Rightarrow> Inl x | Inr s1 \<Rightarrow> push_stack opv s1 (snd e))"

fun push_items :: "('s, 'n) lua_lib \<Rightarrow> ('s, 'k) lua_op_t \<Rightarrow> ('s, 'v) lua_op_t \<Rightarrow> 's \<Rightarrow> ('k \<times> 'v) list \<Rightarrow> 's exc" where
  "push_items L opk opv s [] = Inr s"
| "push_items L opk opv s (e # es) = (case push_pair opk opv s e of Inl x \<Rightarrow> Inl x
     | Inr s1 \<Rightarrow> (case l_settable L s1 (- 3) of Inl x \<Rightarrow> Inl x | Inr s2 \<Rightarrow> push_items L opk opv s2 es))"

definition push_seq :: "('s, 'n) lua_lib \<Rightarrow> ('s, 'a) lua_op_t \<Rightarrow> 's \<Rightarrow> 'a list \<Rightarrow> 's exc" where
  "push_seq L op s xs = push_items L (op_int32 L) op (l_newtable L s) (zip (map int [1..<length xs + 1]) xs)"

definition op_vector :: "('s, 'n) lua_lib \<Rightarrow> ('s, 'a) lua_op_t \<Rightarrow> ('s, 'a list) lua_op_t" where
  "op_vector L op = \<lparr>push_stack = push_seq L op,
     get_ret_value = container_get L (\<lambda>s. get_ret_value op s (- 1) (init_value op)) (\<lambda>x c. c @ [x]) True,
     lua_to_value = container_to L (read_by_to op) (\<lambda>x c. c @ [x]) True,
     init_value = []\<rparr>"

definition op_list :: "('s, 'n) lua_lib \<Rightarrow> ('s, 'a) lua_op_t \<Rightarrow> ('s, 'a list) lua_op_t" where
  "op_list L op = \<lparr>push_stack = push_seq L op,
     get_ret_value = container_get L (\<lambda>s. get_ret_value op s (- 1) (init_value op)) (\<lambda>x c. c @ [x]) True,
     lua_to_value = container_to L (read_by_to op) (\<lambda>x c. c @ [x]) True,
     init_value = []\<rparr>"

definition op_set :: "('s, 'n) lua_lib \<Rightarrow> ('s, 'a::linorder) lua_op_t \<Rightarrow> ('s, 'a oset) lua_op_t" where
  "op_set L op = \<lparr>push_stack = push_seq L op,
     get_ret_value = container_get L (\<lambda>s. get_ret_value op s (- 1) (init_value op)) os_insert False,
     lua_to_value = container_to L (read_by_to op) os_insert False,
     init_value = []\<rparr>"

definition op_map :: "('s, 'n) lua_lib \<Rightarrow> ('s, 'k::linorder) lua_op_t \<Rightarrow> ('s, 'v) lua_op_t \<Rightarrow> ('s, ('k, 'v) omap) lua_op_t" where
  "op_map L opk opv = \<lparr>push_stack = (\<lambda>s m. push_items L opk opv (l_newtable L s) m),
     get_ret_value = container_get L (read_pair opk opv) (\<lambda>(k, v) c. fst (om_insert k v c)) False,
     lua_to_value = container_to L (read_pair opk opv) (\<lambda>(k, v) c. fst (om_insert k v c)) False,
     init_value = []\<rparr>"

declare each_entry.simps [code]

subsection \<open>The contract of a conversion\<close>

text \<open>
  \<open>rep T v x\<close>: under the tables \<open>T\<close> the Lua value \<open>v\<close> stands for \<open>x\<close>. Pushing an allowed value leaves one value more
  that stands for it by new tables only and disturbs nothing; reading a value that stands for something succeeds, leaves the state
  as it was and gives something the value stands for.
\<close>

definition pushed :: "('s \<Rightarrow> 'n lua_view) \<Rightarrow> 's \<Rightarrow> 'n lua_value \<Rightarrow> 's \<Rightarrow> bool" where
  "pushed V s v s' \<longleftrightarrow> lstack (V s') = lstack (V s) @ [v] \<and> ltab (V s) \<subseteq>\<^sub>m ltab (V s') \<and> lglobal (V s') = lglobal (V s)"

type_synonym 'n tabs = "nat \<rightharpoonup> ('n lua_value \<times> 'n lua_value) list"

locale lua_conversion =
  fixes L :: "('s, 'n) lua_lib" and V :: "'s \<Rightarrow> 'n lua_view" and op :: "('s, 'a) lua_op_t"
    and ok :: "'a \<Rightarrow> bool" and rep :: "'n tabs \<Rightarrow> 'n lua_value \<Rightarrow> 'a \<Rightarrow> bool"
  assumes laws: "lua_laws L V"
    and rep_mono: "rep T v x \<Longrightarrow> T \<subseteq>\<^sub>m T' \<Longrightarrow> rep T' v x"
    and rep_not_nil: "rep T v x \<Longrightarrow> v \<noteq> LNil"
    and push: "ok x \<Longrightarrow> \<exists>s' v. push_stack op s x = Inr s' \<and> pushed V s v s' \<and> rep (ltab (V s') |` (- dom (ltab (V s)))) v x"
    and get: "at (lstack (V s)) p = Some v \<Longrightarrow> rep (ltab (V s)) v x \<Longrightarrow>
      \<exists>s' x'. get_ret_value op s p (init_value op) = Some (Inr (False, x', s')) \<and> V s' = V s \<and> rep (ltab (V s)) v x'"

text \<open>Conversions whose values can be keys: the Lua value determines what it stands for.\<close>

locale lua_key = lua_conversion +
  assumes rep_key: "rep T v x \<Longrightarrow> key_like L v"
    and rep_exact: "rep T v x \<Longrightarrow> rep T' v y \<Longrightarrow> x = y"
begin

lemma get_exact: "at (lstack (V s)) p = Some v \<Longrightarrow> rep (ltab (V s)) v x \<Longrightarrow>
    \<exists>s'. get_ret_value op s p (init_value op) = Some (Inr (False, x, s')) \<and> V s' = V s"
  using get rep_exact by blast

end

lemma stack_same [simp]: "v\<lparr>lstack := lstack v\<rparr> = v"
  by (cases v) simp

lemma pushed_push: "lua_laws L V \<Longrightarrow> pushed V s v (l_push L s v)"
  by (simp add: pushed_def lua_push)

definition rep_integer :: "('s, 'n) lua_lib \<Rightarrow> int \<Rightarrow> int \<Rightarrow> 'n tabs \<Rightarrow> 'n lua_value \<Rightarrow> int \<Rightarrow> bool" where
  "rep_integer L lo hi T v x \<longleftrightarrow> lo \<le> x \<and> x \<le> hi \<and> v = LNumber (l_of_int L x)"

lemma integer_key:
  assumes "lua_laws L V" "- (2 ^ 53) < lo" "hi < 2 ^ 53"
  shows "lua_key L V (op_integer L lo hi) (\<lambda>x. lo \<le> x \<and> x \<le> hi) (rep_integer L lo hi)"
proof -
  have t: "l_trunc L (l_of_int L x) = Some x" if "lo \<le> x" "x \<le> hi" for x
    using assms that by (intro lua_trunc [OF assms(1)]) linarith
  show ?thesis
  proof (unfold_locales, goal_cases)
    case (7 T v x T' y)
    then show ?case using t by (metis lua_value.inject(2) option.inject rep_integer_def)
  next
    case (6 T v x)
    then have "\<bar>x\<bar> < 2 ^ 53" using assms(2,3) by (auto simp: rep_integer_def abs_less_iff)
    then show ?case using 6 by (auto simp: rep_integer_def key_like_def)
  qed (use assms(1) pushed_push [OF assms(1)] in \<open>auto simp: rep_integer_def op_integer_def to_number_def lua_value cast_int_def t\<close>)
qed

definition rep_big :: "(string \<Rightarrow> int) \<Rightarrow> 'n tabs \<Rightarrow> 'n lua_value \<Rightarrow> int \<Rightarrow> bool" where
  "rep_big conv T v x \<longleftrightarrow> conv (show_int x) = x \<and> v = LString (show_int x)"

lemma big_key:
  assumes "lua_laws L V"
  shows "lua_key L V (op_big L conv) (\<lambda>x. conv (show_int x) = x) (rep_big conv)"
proof (unfold_locales, goal_cases)
  case (5 s p v x)
  then show ?case using lua_tolstring [OF assms, of s p] by (auto simp: rep_big_def op_big_def is_string_def lua_value [OF assms] split: prod.splits)
next
  case (7 T v x T' y)
  then show ?case unfolding rep_big_def by (metis lua_value.inject(3))
qed (use assms pushed_push [OF assms] in \<open>auto simp: rep_big_def op_big_def key_like_def\<close>)

lemma c_str_show_int: "c_str (show_int n) = show_int n"
proof -
  have "\<forall>c \<in> set (show_nat k). c \<noteq> CHR 0x00" for k using show_nat_digits [of k] by (auto simp: list_all_iff is_digit_def)
  then show ?thesis by (auto simp: c_str_def show_int_def takeWhile_eq_all_conv)
qed

lemma strtoll_show: "strtoll (show_int x) = x \<longleftrightarrow> - (2 ^ 63) \<le> x \<and> x < 2 ^ 63"
  by (auto simp: strtoll_def c_str_show_int atoi_show_int)

lemma strtoull_show: "strtoull (show_int x) = x \<longleftrightarrow> 0 \<le> x \<and> x < 2 ^ 64"
  by (auto simp: strtoull_def c_str_show_int atoi_show_int Let_def)

definition rep_string :: "'n tabs \<Rightarrow> 'n lua_value \<Rightarrow> string \<Rightarrow> bool" where
  "rep_string T v x \<longleftrightarrow> v = LString x"

lemma string_key:
  assumes "lua_laws L V"
  shows "lua_key L V (op_string L) (\<lambda>_. True) rep_string"
proof (unfold_locales, goal_cases)
  case (5 s p v x)
  let ?s = "l_push L s (LString x)"
  have "fst (l_tolstring L ?s (- 1)) = Some x \<and> V (snd (l_tolstring L ?s (- 1))) = V ?s"
    by (rule lua_tolstring [OF assms]) (simp add: lua_push [OF assms])
  then show ?case using 5
    by (auto simp: rep_string_def op_string_def is_string_def lua_value [OF assms] lua_pop [OF assms] lua_push [OF assms] split: prod.splits)
qed (use assms pushed_push [OF assms] in \<open>auto simp: rep_string_def op_string_def key_like_def\<close>)

definition rep_bool :: "'n tabs \<Rightarrow> 'n lua_value \<Rightarrow> bool \<Rightarrow> bool" where
  "rep_bool T v x \<longleftrightarrow> v = LBool x"

lemma bool_key:
  assumes "lua_laws L V"
  shows "lua_key L V (op_bool L) (\<lambda>_. True) rep_bool"
  by unfold_locales (use assms pushed_push [OF assms] in \<open>auto simp: rep_bool_def op_bool_def key_like_def lua_value\<close>)

subsection \<open>Reading tables\<close>

lemma next_entry_split:
  assumes "distinct (map fst (es1 @ es2))" "LNil \<notin> fst ` set (es1 @ es2)" "k = (if es1 = [] then LNil else fst (last es1))"
  shows "next_entry (es1 @ es2) k = Inr (case es2 of [] \<Rightarrow> None | e # _ \<Rightarrow> Some e)"
proof (cases es1 rule: rev_cases)
  case (snoc fs e)
  have "k \<notin> fst ` set fs" "k = fst e" using assms snoc by auto
  then have "\<forall>x \<in> set fs. fst x \<noteq> k" "k = fst e" by (simp_all add: image_iff) metis
  then have "dropWhile (\<lambda>e. fst e \<noteq> k) (fs @ e # es2) = e # es2" by (subst dropWhile_append2) auto
  then have "dropWhile (\<lambda>e. fst e \<noteq> k) (es1 @ es2) = e # es2" by (simp add: snoc)
  moreover have "k \<noteq> LNil" using snoc assms by force
  ultimately show ?thesis by (simp add: next_entry_def split: list.splits)
qed (use assms in \<open>simp add: next_entry_def\<close>)

text \<open>\<open>read\<close> converts the entries \<open>es\<close> of a table when they are on top of the stack.\<close>

definition reads :: "('s \<Rightarrow> 'n lua_view) \<Rightarrow> ('s \<Rightarrow> (bool \<times> 'e \<times> 's) exc option) \<Rightarrow> 'n tabs \<Rightarrow> ('n lua_value \<times> 'n lua_value) list
    \<Rightarrow> ('n lua_value \<times> 'n lua_value \<Rightarrow> 'e \<Rightarrow> bool) \<Rightarrow> bool" where
  "reads V read T es R \<longleftrightarrow> (\<forall>s st k v. (k, v) \<in> set es \<and> lstack (V s) = st @ [k, v] \<and> ltab (V s) = T \<longrightarrow>
     (\<exists>s' y. read s = Some (Inr (False, y, s')) \<and> V s' = V s \<and> R (k, v) y))"

lemma each_entry_prefix:
  assumes "lua_laws L V" "T t = Some (es0 @ es1 @ es2)" "distinct (map fst (es0 @ es1 @ es2))" "LNil \<notin> fst ` set (es0 @ es1 @ es2)"
    and "reads V read T es1 R" "\<And>w. at (st @ [w]) p = Some (LTable t)"
    and "lstack (V s) = st @ [if es0 = [] then LNil else fst (last es0)]" "ltab (V s) = T"
  shows "\<exists>s' ys. each_entry L read add early p s c = each_entry L read add early p s' (fold add ys c) \<and>
    V s' = (V s)\<lparr>lstack := st @ [if es0 @ es1 = [] then LNil else fst (last (es0 @ es1))]\<rparr> \<and> list_all2 R es1 ys"
  using assms(2-5,7-)
proof (induction es1 arbitrary: es0 s c)
  case Nil
  have "V s = (V s)\<lparr>lstack := lstack (V s)\<rparr>" by simp
  then show ?case using Nil.prems(5) by (intro exI [of _ s] exI [of _ "[]"]) (simp only: append_Nil2 fold_simps list.rel_inject simp_thms)
next
  case (Cons e es1)
  obtain k v where e: "e = (k, v)" by (cases e)
  let ?k0 = "if es0 = [] then LNil else fst (last es0)"
  have n: "next_entry (es0 @ (e # es1) @ es2) ?k0 = Inr (Some (k, v))"
    using next_entry_split [of es0 "(e # es1) @ es2", OF Cons.prems(2,3) refl] by (simp add: e)
  obtain s1 where s1: "l_next L s p = Inr (True, s1)" "V s1 = (V s)\<lparr>lstack := st @ [k, v]\<rparr>"
    using lua_next [OF assms(1) Cons.prems(5) assms(6), of "es0 @ (e # es1) @ es2"] Cons.prems(1,6) n by auto
  obtain s2 y where s2: "read s1 = Some (Inr (False, y, s2))" "V s2 = V s1" "R (k, v) y"
    using Cons.prems(4) [unfolded reads_def e, THEN spec [of _ s1], THEN spec [of _ st], THEN spec [of _ k], THEN spec [of _ v]] Cons.prems(6) s1(2) by auto
  define s3 where "s3 = l_pop L s2 1"
  have s: "V s3 = (V s)\<lparr>lstack := st @ [k]\<rparr>" using s1(2) s2(2) by (simp add: s3_def lua_pop [OF assms(1)])
  have step: "each_entry L read add early p s c = each_entry L read add early p s3 (add y c)"
    by (subst each_entry.simps) (simp add: s1(1) s2(1) s3_def)
  have "\<exists>s' ys. each_entry L read add early p s3 (add y c) = each_entry L read add early p s' (fold add ys (add y c)) \<and>
      V s' = (V s3)\<lparr>lstack := st @ [if (es0 @ [e]) @ es1 = [] then LNil else fst (last ((es0 @ [e]) @ es1))]\<rparr> \<and> list_all2 R es1 ys"
    by (rule Cons.IH [of "es0 @ [e]"]) (use Cons.prems s e in \<open>auto simp: reads_def\<close>)
  then obtain s' ys where "each_entry L read add early p s3 (add y c) = each_entry L read add early p s' (fold add ys (add y c))"
    "V s' = (V s)\<lparr>lstack := st @ [fst (last (e # es1))]\<rparr>" "list_all2 R es1 ys" by (auto simp: s)
  then show ?case using step s2(3) e by (intro exI [of _ s'] exI [of _ "y # ys"]) simp
qed

lemma each_entry_all:
  assumes "lua_laws L V" "T t = Some es" "distinct (map fst es)" "LNil \<notin> fst ` set es" "reads V read T es R"
    and "\<And>w. at (st @ [w]) p = Some (LTable t)" "lstack (V s) = st @ [LNil]" "ltab (V s) = T"
  shows "\<exists>s' ys. each_entry L read add early p s c = Some (Inr (False, fold add ys c, s')) \<and> V s' = (V s)\<lparr>lstack := st\<rparr> \<and> list_all2 R es ys"
proof -
  obtain s1 ys where s1: "each_entry L read add early p s c = each_entry L read add early p s1 (fold add ys c)"
      "V s1 = (V s)\<lparr>lstack := st @ [if es = [] then LNil else fst (last es)]\<rparr>" "list_all2 R es ys"
    using each_entry_prefix [of L V T t "[]" es "[]" read R st p s add early c] assms by auto
  have "next_entry es (if es = [] then LNil else fst (last es)) = Inr None"
    using next_entry_split [of es "[]" "if es = [] then LNil else fst (last es)"] assms(3,4) by simp
  then obtain s2 where "l_next L s1 p = Inr (False, s2)" "V s2 = (V s1)\<lparr>lstack := st\<rparr>"
    using lua_next [OF assms(1), of s1 st _ p t es] s1(2) assms(2,6,8) by auto
  then show ?thesis using s1 by (intro exI [of _ s2] exI [of _ ys]) (simp add: each_entry.simps [of L read add early p s1])
qed

lemma each_entry_fails:
  assumes "lua_laws L V" "T t = Some (es1 @ (k, v) # es2)" "distinct (map fst (es1 @ (k, v) # es2))" "LNil \<notin> fst ` set (es1 @ (k, v) # es2)"
    and "reads V read T es1 R" "\<And>s. lstack (V s) = st @ [k, v] \<Longrightarrow> ltab (V s) = T \<Longrightarrow> \<exists>y s'. read s = Some (Inr (True, y, s')) \<and> V s' = V s"
    and "\<And>w. at (st @ [w]) p = Some (LTable t)" "lstack (V s) = st @ [LNil]" "ltab (V s) = T"
  shows "\<exists>s' c'. each_entry L read add early p s c = Some (Inr (True, c', s')) \<and> V s' = (V s)\<lparr>lstack := st @ [k, v]\<rparr>"
proof -
  let ?k = "if es1 = [] then LNil else fst (last es1)"
  obtain s1 ys where s1: "each_entry L read add early p s c = each_entry L read add early p s1 (fold add ys c)"
      "V s1 = (V s)\<lparr>lstack := st @ [?k]\<rparr>"
    using each_entry_prefix [of L V T t "[]" es1 "(k, v) # es2" read R st p s add early c] assms by auto
  have "next_entry (es1 @ (k, v) # es2) ?k = Inr (Some (k, v))"
    using next_entry_split [OF assms(3,4) refl] by simp
  then obtain s2 where s2: "l_next L s1 p = Inr (True, s2)" "V s2 = (V s1)\<lparr>lstack := st @ [k, v]\<rparr>"
    using lua_next [OF assms(1), of s1 st ?k p t "es1 @ (k, v) # es2"] s1(2) assms(2,7,9) by auto
  obtain y s3 where "read s2 = Some (Inr (True, y, s3))" "V s3 = V s2" using assms(6) [of s2] s2(2) s1(2) assms(9) by auto
  then show ?thesis using s1 s2 by (auto simp: each_entry.simps [of L read add early p s1])
qed

subsection \<open>Building tables\<close>

lemma same_map_mset:
  assumes "distinct (map fst es)" "distinct (map fst es')" "k \<notin> fst ` set es" "map_of es' = (map_of es)(k \<mapsto> v)"
  shows "mset es' = mset (es @ [(k, v)])"
proof -
  have "distinct (map fst (es @ [(k, v)]))" using assms(1,3) by simp
  moreover have "map_of (es @ [(k, v)]) = map_of es'" using assms(3,4) map_of_eq_None_iff [of es k] by (auto simp: fun_eq_iff map_add_def split: option.splits)
  ultimately have "set es' = set (es @ [(k, v)])" using assms(2) by (metis map_of_eq_Some_iff subset_antisym subsetI surj_pair)
  then show ?thesis using assms(1-3) set_eq_iff_mset_eq_distinct [of es' "es @ [(k, v)]"] by (force simp: distinct_map)
qed

definition rep_pair :: "('n tabs \<Rightarrow> 'n lua_value \<Rightarrow> 'k \<Rightarrow> bool) \<Rightarrow> ('n tabs \<Rightarrow> 'n lua_value \<Rightarrow> 'v \<Rightarrow> bool) \<Rightarrow> 'n tabs \<Rightarrow>
    'n lua_value \<times> 'n lua_value \<Rightarrow> 'k \<times> 'v \<Rightarrow> bool" where
  "rep_pair repk repv T e x \<longleftrightarrow> repk T (fst e) (fst x) \<and> repv T (snd e) (snd x)"

lemma restrict_submap: "T \<subseteq>\<^sub>m T' \<Longrightarrow> A \<subseteq> B \<Longrightarrow> (T |` A) \<subseteq>\<^sub>m (T' |` B)"
  by (auto simp: map_le_def restrict_map_def split: if_splits)

lemma push_pair_effect:
  assumes "lua_key L V opk okk repk" "lua_conversion L V opv okv repv" "okk (fst e)" "okv (snd e)"
  shows "\<exists>s' k v. push_pair opk opv s e = Inr s' \<and> lstack (V s') = lstack (V s) @ [k, v] \<and> ltab (V s) \<subseteq>\<^sub>m ltab (V s') \<and> lglobal (V s') = lglobal (V s) \<and>
    key_like L k \<and> v \<noteq> LNil \<and> rep_pair repk repv (ltab (V s') |` (- dom (ltab (V s)))) (k, v) e"
proof -
  note k = lua_key.axioms(1) [OF assms(1)] and v = assms(2)
  obtain s1 kv where s1: "push_stack opk s (fst e) = Inr s1" "pushed V s kv s1" "repk (ltab (V s1) |` (- dom (ltab (V s)))) kv (fst e)"
    using lua_conversion.push [OF k assms(3)] by blast
  obtain s2 vv where s2: "push_stack opv s1 (snd e) = Inr s2" "pushed V s1 vv s2" "repv (ltab (V s2) |` (- dom (ltab (V s1)))) vv (snd e)"
    using lua_conversion.push [OF v assms(4)] by blast
  have le: "ltab (V s) \<subseteq>\<^sub>m ltab (V s1)" "ltab (V s1) \<subseteq>\<^sub>m ltab (V s2)" using s1(2) s2(2) by (simp_all add: pushed_def)
  have "dom (ltab (V s)) \<subseteq> dom (ltab (V s1))" using le(1) by (rule map_le_implies_dom_le)
  then have "(ltab (V s1) |` (- dom (ltab (V s)))) \<subseteq>\<^sub>m (ltab (V s2) |` (- dom (ltab (V s))))"
    "(ltab (V s2) |` (- dom (ltab (V s1)))) \<subseteq>\<^sub>m (ltab (V s2) |` (- dom (ltab (V s))))"
    using le(2) by (intro restrict_submap; auto)+
  then have "repk (ltab (V s2) |` (- dom (ltab (V s)))) kv (fst e)" "repv (ltab (V s2) |` (- dom (ltab (V s)))) vv (snd e)"
    using lua_conversion.rep_mono [OF k s1(3)] lua_conversion.rep_mono [OF v s2(3)] by blast+
  then show ?thesis
    using s1 s2 map_le_trans [OF le] lua_key.rep_key [OF assms(1) s1(3)] lua_conversion.rep_not_nil [OF v s2(3)]
    by (auto simp: push_pair_def pushed_def rep_pair_def)
qed

text \<open>A table \<open>t\<close> on top of the stack whose entries \<open>es\<close> stand for the items \<open>ys\<close>, by tables outside \<open>D\<close>.\<close>

definition filled :: "('s \<Rightarrow> 'n lua_view) \<Rightarrow> ('n tabs \<Rightarrow> 'n lua_value \<times> 'n lua_value \<Rightarrow> 'e \<Rightarrow> bool) \<Rightarrow> 'n lua_value list \<Rightarrow> nat \<Rightarrow> nat set \<Rightarrow>
    's \<Rightarrow> ('n lua_value \<times> 'n lua_value) list \<Rightarrow> 'e list \<Rightarrow> bool" where
  "filled V R base t D s es ys \<longleftrightarrow> lstack (V s) = base @ [LTable t] \<and> ltab (V s) t = Some es \<and> t \<in> D \<and> D \<subseteq> dom (ltab (V s)) \<and>
     distinct (map fst es) \<and> LNil \<notin> fst ` set es \<and> list_all2 (R (ltab (V s) |` (- D))) es ys"

lemma push_item:
  assumes k: "lua_key L V opk okk repk" and v: "lua_conversion L V opv okv repv"
    and f: "filled V (rep_pair repk repv) base t D s es ys" and x: "okk (fst x)" "okv (snd x)" "fst x \<notin> fst ` set ys"
  shows "\<exists>s1 s2 es2 ys2. push_pair opk opv s x = Inr s1 \<and> l_settable L s1 (- 3) = Inr s2 \<and> filled V (rep_pair repk repv) base t D s2 es2 ys2 \<and>
    mset ys2 = add_mset x (mset ys) \<and> lglobal (V s2) = lglobal (V s) \<and> (ltab (V s) |` (- {t})) \<subseteq>\<^sub>m ltab (V s2)"
proof -
  note f' = f [unfolded filled_def]
  note mono = lua_conversion.rep_mono [OF lua_key.axioms(1) [OF k]] lua_conversion.rep_mono [OF v]
  obtain s1 kv vv where s1: "push_pair opk opv s x = Inr s1" "lstack (V s1) = lstack (V s) @ [kv, vv]" "ltab (V s) \<subseteq>\<^sub>m ltab (V s1)" "lglobal (V s1) = lglobal (V s)"
    "key_like L kv" "vv \<noteq> LNil" "rep_pair repk repv (ltab (V s1) |` (- dom (ltab (V s)))) (kv, vv) x"
    using push_pair_effect [OF k v, of x s] x by auto
  have "ltab (V s1) t = Some es" using s1(3) f' unfolding map_le_def by (metis domI)
  then obtain s2 es2 where s2: "l_settable L s1 (- 3) = Inr s2" "distinct (map fst es2)" "map_of es2 = (map_of es)(kv \<mapsto> vv)"
    "V s2 = (V s1)\<lparr>lstack := base @ [LTable t], ltab := (ltab (V s1))(t \<mapsto> es2)\<rparr>"
    using lua_settable [OF lua_conversion.laws [OF v], of s1 base t kv vv es] s1(2,5,6) f' by auto
  have old: "list_all2 (rep_pair repk repv (ltab (V s1) |` (- D))) es ys"
    using f' mono [OF _ restrict_submap [OF s1(3) order_refl]] by (auto simp: rep_pair_def elim!: list_all2_mono)
  have "(ltab (V s1) |` (- dom (ltab (V s)))) \<subseteq>\<^sub>m (ltab (V s1) |` (- D))" using f' by (intro restrict_submap) auto
  then have new: "rep_pair repk repv (ltab (V s1) |` (- D)) (kv, vv) x" using s1(7) mono by (auto simp: rep_pair_def)
  have "kv \<notin> fst ` set es"
  proof
    assume "kv \<in> fst ` set es"
    then obtain i where "i < length es" "fst (es ! i) = kv" by (auto simp: in_set_conv_nth)
    then have "fst (ys ! i) = fst x" "i < length ys"
      using old new lua_key.rep_exact [OF k] by (auto simp: list_all2_conv_all_nth rep_pair_def)
    then show False using x(3) by (metis image_eqI nth_mem)
  qed
  note ms = same_map_mset [OF _ s2(2) this s2(3)]
  have tab2: "ltab (V s2) |` (- D) = ltab (V s1) |` (- D)" using f' by (auto simp: s2(4) restrict_map_def fun_eq_iff)
  have "list_all2 (rep_pair repk repv (ltab (V s2) |` (- D))) (es @ [(kv, vv)]) (ys @ [x])"
    unfolding tab2 using old new by (auto intro!: list_all2_appendI)
  then obtain ys2 where ys2: "list_all2 (rep_pair repk repv (ltab (V s2) |` (- D))) es2 ys2" "mset ys2 = mset (ys @ [x])"
    using list_all2_reorder_left_invariance [OF _ ms] f' by blast
  have "set es2 = set (es @ [(kv, vv)])" using ms f' by (intro mset_eq_setD) blast
  then have "LNil \<notin> fst ` set es2" using f' s1(5) by (auto simp: key_like_def)
  moreover have "D \<subseteq> dom (ltab (V s1))" using f' map_le_implies_dom_le [OF s1(3)] by blast
  then have "D \<subseteq> dom (ltab (V s2))" by (auto simp: s2(4))
  ultimately have "filled V (rep_pair repk repv) base t D s2 es2 ys2" using f' s2(2,4) ys2(1) unfolding filled_def by simp
  moreover have "(ltab (V s) |` (- {t})) \<subseteq>\<^sub>m ltab (V s2)" using s1(3) by (auto simp: s2(4) map_le_def restrict_map_def dom_def split: if_splits)
  ultimately show ?thesis using s1(1,4) s2(1,4) ys2(2) by (intro exI [of _ s1] exI [of _ s2] exI [of _ es2] exI [of _ ys2]) simp
qed

lemma push_items_effect:
  assumes "lua_key L V opk okk repk" "lua_conversion L V opv okv repv" "filled V (rep_pair repk repv) base t D s es ys"
    and "\<forall>x \<in> set xs. okk (fst x) \<and> okv (snd x)" "distinct (map fst (ys @ xs))"
  shows "\<exists>s' es' ys'. push_items L opk opv s xs = Inr s' \<and> filled V (rep_pair repk repv) base t D s' es' ys' \<and> mset ys' = mset (ys @ xs) \<and>
    lglobal (V s') = lglobal (V s) \<and> (ltab (V s) |` (- {t})) \<subseteq>\<^sub>m ltab (V s')"
  using assms(3-)
proof (induction xs arbitrary: s es ys)
  case Nil
  then show ?case by (intro exI [of _ s] exI [of _ es] exI [of _ ys]) (auto simp: map_le_def restrict_map_def)
next
  case (Cons x xs)
  obtain s1 s2 es2 ys2 where x: "push_pair opk opv s x = Inr s1" "l_settable L s1 (- 3) = Inr s2" "filled V (rep_pair repk repv) base t D s2 es2 ys2"
    "mset ys2 = add_mset x (mset ys)" "lglobal (V s2) = lglobal (V s)" "(ltab (V s) |` (- {t})) \<subseteq>\<^sub>m ltab (V s2)"
    using push_item [OF assms(1,2) Cons.prems(1), of x] Cons.prems(2,3) by auto
  have "mset (map fst (ys2 @ xs)) = mset (map fst (ys @ x # xs))" using x(4) by simp
  then have "distinct (map fst (ys2 @ xs))" using Cons.prems(3) by (metis mset_eq_imp_distinct_iff)
  then obtain s' es' ys' where s': "push_items L opk opv s2 xs = Inr s'" "filled V (rep_pair repk repv) base t D s' es' ys'"
    "mset ys' = mset (ys2 @ xs)" "lglobal (V s') = lglobal (V s2)" "(ltab (V s2) |` (- {t})) \<subseteq>\<^sub>m ltab (V s')"
    using Cons.IH [OF x(3)] Cons.prems(2) by auto
  have "(ltab (V s) |` (- {t})) \<subseteq>\<^sub>m (ltab (V s2) |` (- {t}))"
    using x(6) by (auto simp: map_le_def restrict_map_def dom_def split: if_splits)
  then have "(ltab (V s) |` (- {t})) \<subseteq>\<^sub>m ltab (V s')" using s'(5) by (rule map_le_trans)
  then show ?case using s' x by (intro exI [of _ s'] exI [of _ es'] exI [of _ ys']) simp
qed

subsection \<open>Containers keep the contract\<close>

definition rep_table :: "('n tabs \<Rightarrow> 'n lua_value \<times> 'n lua_value \<Rightarrow> 'e \<Rightarrow> bool) \<Rightarrow> 'n tabs \<Rightarrow> 'n lua_value \<Rightarrow> 'e list \<Rightarrow> bool" where
  "rep_table R T v ys \<longleftrightarrow> (\<exists>t es. v = LTable t \<and> T t = Some es \<and> distinct (map fst es) \<and> LNil \<notin> fst ` set es \<and> list_all2 (R T) es ys)"

lemma rep_table_mono:
  assumes "rep_table R T v ys" "T \<subseteq>\<^sub>m T'" "\<And>e y. R T e y \<Longrightarrow> R T' e y"
  shows "rep_table R T' v ys"
proof -
  from assms(1) obtain t es where "v = LTable t" "T t = Some es" "distinct (map fst es)" "LNil \<notin> fst ` set es" "list_all2 (R T) es ys"
    unfolding rep_table_def by blast
  moreover have "T' t = Some es" using calculation(2) assms(2) unfolding map_le_def by (metis domI)
  ultimately show ?thesis unfolding rep_table_def using assms(3) list_all2_mono by blast
qed

lemma rep_table_map: "rep_table R T v ys \<Longrightarrow> (\<And>e y. R T e y \<Longrightarrow> S T e (f y)) \<Longrightarrow> rep_table S T v (map f ys)"
  unfolding rep_table_def list_all2_map2 using list_all2_mono [of "R T" _ _ "\<lambda>e y. S T e (f y)"] by blast

lemma push_container:
  assumes "lua_key L V opk okk repk" "lua_conversion L V opv okv repv" "\<forall>x \<in> set xs. okk (fst x) \<and> okv (snd x)" "distinct (map fst xs)"
  shows "\<exists>s' v ys. push_items L opk opv (l_newtable L s) xs = Inr s' \<and> pushed V s v s' \<and>
    rep_table (rep_pair repk repv) (ltab (V s') |` (- dom (ltab (V s)))) v ys \<and> mset ys = mset xs"
proof -
  note laws = lua_conversion.laws [OF assms(2)]
  obtain t where t: "ltab (V s) t = None" "V (l_newtable L s) = (V s)\<lparr>lstack := lstack (V s) @ [LTable t], ltab := (ltab (V s))(t \<mapsto> [])\<rparr>"
    using lua_newtable [OF laws, of s] by blast
  let ?D = "insert t (dom (ltab (V s)))"
  have f: "filled V (rep_pair repk repv) (lstack (V s)) t ?D (l_newtable L s) [] []" by (simp add: filled_def t(2))
  obtain s' es' ys' where s': "push_items L opk opv (l_newtable L s) xs = Inr s'" "filled V (rep_pair repk repv) (lstack (V s)) t ?D s' es' ys'"
    "mset ys' = mset xs" "lglobal (V s') = lglobal (V s)" "(ltab (V (l_newtable L s)) |` (- {t})) \<subseteq>\<^sub>m ltab (V s')"
    using push_items_effect [OF assms(1,2) f assms(3)] assms(4) by (auto simp: t(2))
  have "ltab (V (l_newtable L s)) |` (- {t}) = ltab (V s)" using t(1) by (auto simp: t(2) restrict_map_def fun_eq_iff)
  then have "ltab (V s) \<subseteq>\<^sub>m ltab (V s')" using s'(5) by simp
  then have "pushed V s (LTable t) s'" using s'(2,4) by (simp add: pushed_def filled_def)
  moreover have "rep_table (rep_pair repk repv) (ltab (V s') |` (- dom (ltab (V s)))) (LTable t) ys'"
  proof -
    have le: "(ltab (V s') |` (- ?D)) \<subseteq>\<^sub>m (ltab (V s') |` (- dom (ltab (V s))))" by (intro restrict_submap) auto
    have "list_all2 (rep_pair repk repv (ltab (V s') |` (- dom (ltab (V s))))) es' ys'"
      using s'(2) lua_conversion.rep_mono [OF lua_key.axioms(1) [OF assms(1)] _ le] lua_conversion.rep_mono [OF assms(2) _ le]
      by (auto simp: filled_def rep_pair_def elim!: list_all2_mono)
    then show ?thesis using s'(2) t(1) by (auto simp: rep_table_def filled_def restrict_map_def domIff)
  qed
  ultimately show ?thesis using s'(1,3) by blast
qed

lemma get_container:
  assumes "lua_laws L V" "at (lstack (V s)) p = Some v" "rep_table R (ltab (V s)) v ys"
    and "\<And>s st k w y. lstack (V s) = st @ [k, w] \<Longrightarrow> R (ltab (V s)) (k, w) y \<Longrightarrow>
      \<exists>s' y'. read s = Some (Inr (False, y', s')) \<and> V s' = V s \<and> R (ltab (V s)) (k, w) y'"
  shows "\<exists>s' ys'. container_get L read add early s p c = Some (Inr (False, fold add ys' c, s')) \<and> V s' = V s \<and> rep_table R (ltab (V s)) v ys' \<and>
    (\<exists>t es. ltab (V s) t = Some es \<and> list_all2 (R (ltab (V s))) es ys \<and> list_all2 (R (ltab (V s))) es ys')"
proof -
  obtain t es where v: "v = LTable t" "ltab (V s) t = Some es" "distinct (map fst es)" "LNil \<notin> fst ` set es" "list_all2 (R (ltab (V s))) es ys"
    using assms(3) unfolding rep_table_def by blast
  have "reads V read (ltab (V s)) es (R (ltab (V s)))"
    unfolding reads_def using assms(4) v(5) by (metis in_set_conv_nth list_all2_conv_all_nth)
  moreover have "at (lstack (V s) @ [w]) (real_index p) = Some (LTable t)" for w
    using at_append [OF assms(2)] v(1) by (simp add: real_index_def)
  ultimately obtain s' ys' where "each_entry L read add early (real_index p) (l_push L s LNil) c = Some (Inr (False, fold add ys' c, s'))"
    "V s' = V s" "list_all2 (R (ltab (V s))) es ys'"
    using each_entry_all [of L V "ltab (V s)" t es read "R (ltab (V s))" "lstack (V s)" "real_index p" "l_push L s LNil" add early c] assms(1) v(2-4)
    by (auto simp: lua_push [OF assms(1)])
  then show ?thesis using v assms(2) unfolding rep_table_def container_get_def lua_value [OF assms(1)] by (auto intro!: exI [of _ s'] exI [of _ ys'])
qed

subsubsection \<open>\<open>vector\<close> and \<open>list\<close>\<close>

definition rep_seq :: "('n tabs \<Rightarrow> 'n lua_value \<Rightarrow> 'a \<Rightarrow> bool) \<Rightarrow> 'n tabs \<Rightarrow> 'n lua_value \<Rightarrow> 'a list \<Rightarrow> bool" where
  "rep_seq rep T v xs \<longleftrightarrow> (\<exists>ys. rep_table (\<lambda>T e. rep T (snd e)) T v ys \<and> mset ys = mset xs)"

definition seq_ok :: "('a \<Rightarrow> bool) \<Rightarrow> 'a list \<Rightarrow> bool" where
  "seq_ok ok xs \<longleftrightarrow> length xs < 2 ^ 31 \<and> (\<forall>x \<in> set xs. ok x)"

lemma push_seq_effect:
  assumes "lua_conversion L V op ok rep" "seq_ok ok xs"
  shows "\<exists>s' v. push_seq L op s xs = Inr s' \<and> pushed V s v s' \<and> rep_seq rep (ltab (V s') |` (- dom (ltab (V s)))) v xs"
proof -
  let ?xs = "zip (map int [1..<length xs + 1]) xs"
  have k: "lua_key L V (op_int32 L) (\<lambda>x. - 2147483648 \<le> x \<and> x \<le> 2147483647) (rep_integer L (- 2147483648) 2147483647)"
    unfolding op_int32_def by (rule integer_key) (use lua_conversion.laws [OF assms(1)] in auto)
  have "length (map int [1..<length xs + 1]) = length xs" by (simp del: upt_Suc)
  then have "map snd ?xs = xs" "map fst ?xs = map int [1..<length xs + 1]" by (metis map_snd_zip, metis map_fst_zip)
  then have d: "distinct (map fst ?xs)" by (simp add: distinct_map del: upt_Suc)
  have "- 2147483648 \<le> fst x \<and> fst x \<le> 2147483647 \<and> ok (snd x)" if "x \<in> set ?xs" for x
  proof -
    obtain a b where x: "x = (a, b)" by (cases x)
    have "a \<in> set (map int [1..<length xs + 1])" "b \<in> set xs" using that set_zip_leftD set_zip_rightD unfolding x by fast+
    then show ?thesis using assms(2) by (auto simp: seq_ok_def x simp del: upt_Suc)
  qed
  then have "\<forall>x \<in> set ?xs. (- 2147483648 \<le> fst x \<and> fst x \<le> 2147483647) \<and> ok (snd x)" by blast
  then obtain s' v ys where s': "push_items L (op_int32 L) op (l_newtable L s) ?xs = Inr s'" "pushed V s v s'"
    "rep_table (rep_pair (rep_integer L (- 2147483648) 2147483647) rep) (ltab (V s') |` (- dom (ltab (V s)))) v ys" "mset ys = mset ?xs"
    using push_container [OF k assms(1) _ d] by blast
  have "rep_table (\<lambda>T e. rep T (snd e)) (ltab (V s') |` (- dom (ltab (V s)))) v (map snd ys)"
    using rep_table_map [OF s'(3), of "\<lambda>T e. rep T (snd e)" snd] by (simp add: rep_pair_def)
  moreover have "mset (map snd ys) = mset xs" using s'(4) \<open>map snd ?xs = xs\<close> by (metis mset_map)
  ultimately show ?thesis using s'(1,2) unfolding push_seq_def rep_seq_def by blast
qed

lemma rep_seq_mono: "rep_seq rep T v xs \<Longrightarrow> T \<subseteq>\<^sub>m T' \<Longrightarrow> (\<And>v x. rep T v x \<Longrightarrow> rep T' v x) \<Longrightarrow> rep_seq rep T' v xs"
  unfolding rep_seq_def using rep_table_mono by blast

lemma get_seq:
  assumes "lua_conversion L V op ok rep" "at (lstack (V s)) p = Some v" "rep_table (\<lambda>T e. rep T (snd e)) (ltab (V s)) v ys"
  shows "\<exists>s' ys'. container_get L (\<lambda>s. get_ret_value op s (- 1) (init_value op)) add early s p c = Some (Inr (False, fold add ys' c, s')) \<and>
    V s' = V s \<and> rep_table (\<lambda>T e. rep T (snd e)) (ltab (V s)) v ys' \<and>
    (\<exists>t es. ltab (V s) t = Some es \<and> list_all2 (\<lambda>e. rep (ltab (V s)) (snd e)) es ys \<and> list_all2 (\<lambda>e. rep (ltab (V s)) (snd e)) es ys')"
proof (rule get_container [where R = "\<lambda>T e. rep T (snd e)", OF lua_conversion.laws [OF assms(1)] assms(2,3)])
  fix s st k w y assume "lstack (V s) = st @ [k, w]" "rep (ltab (V s)) (snd (k, w)) y"
  then show "\<exists>s' y'. get_ret_value op s (- 1) (init_value op) = Some (Inr (False, y', s')) \<and> V s' = V s \<and> rep (ltab (V s)) (snd (k, w)) y'"
    using lua_conversion.get [OF assms(1), of s "- 1" w y] by auto
qed

lemma vector_conversion:
  assumes "lua_conversion L V op ok rep"
  shows "lua_conversion L V (op_vector L op) (seq_ok ok) (rep_seq rep)"
proof (unfold_locales, goal_cases)
  case 1
  then show ?case by (rule lua_conversion.laws [OF assms])
next
  case (2 T v x T')
  then show ?case using rep_seq_mono lua_conversion.rep_mono [OF assms] by blast
next
  case (4 x s)
  then show ?case using push_seq_effect [OF assms] by (simp add: op_vector_def)
next
  case (5 s p v x)
  then obtain ys where "rep_table (\<lambda>T e. rep T (snd e)) (ltab (V s)) v ys" by (auto simp: rep_seq_def)
  then obtain s' ys' where "container_get L (\<lambda>s. get_ret_value op s (- 1) (init_value op)) (\<lambda>x c. c @ [x]) True s p [] = Some (Inr (False, fold (\<lambda>x c. c @ [x]) ys' [], s'))"
    "V s' = V s" "rep_table (\<lambda>T e. rep T (snd e)) (ltab (V s)) v ys'" using get_seq [OF assms 5(1), of ys "\<lambda>x c. c @ [x]" True "[]"] by auto
  moreover have "fold (\<lambda>x c. c @ [x]) ys' c = c @ ys'" for c by (induction ys' arbitrary: c) simp_all
  ultimately show ?case by (auto simp: op_vector_def rep_seq_def)
qed (auto simp: rep_seq_def rep_table_def)

lemma list_conversion:
  assumes "lua_conversion L V op ok rep"
  shows "lua_conversion L V (op_list L op) (seq_ok ok) (rep_seq rep)"
  using vector_conversion [OF assms] by (simp add: op_list_def op_vector_def)

subsubsection \<open>\<open>set\<close> and \<open>map\<close>\<close>

definition rep_set :: "('n tabs \<Rightarrow> 'n lua_value \<Rightarrow> 'a::linorder \<Rightarrow> bool) \<Rightarrow> 'n tabs \<Rightarrow> 'n lua_value \<Rightarrow> 'a oset \<Rightarrow> bool" where
  "rep_set rep T v x \<longleftrightarrow> os_wf x \<and> (\<exists>ys. rep_table (\<lambda>T e. rep T (snd e)) T v ys \<and> set ys = set x)"

lemma fold_os_insert: "os_wf c \<Longrightarrow> os_wf (fold os_insert ys c) \<and> set (fold os_insert ys c) = set c \<union> set ys"
  by (induction ys arbitrary: c) auto

lemma set_conversion:
  assumes "lua_conversion L V op ok rep"
  shows "lua_conversion L V (op_set L op) (\<lambda>x. seq_ok ok x \<and> os_wf x) (rep_set rep)"
proof (unfold_locales, goal_cases)
  case 1
  then show ?case by (rule lua_conversion.laws [OF assms])
next
  case (2 T v x T')
  then show ?case using rep_table_mono lua_conversion.rep_mono [OF assms] unfolding rep_set_def by blast
next
  case (4 x s)
  then show ?case using push_seq_effect [OF assms, of x s] by (simp add: op_set_def rep_set_def rep_seq_def) (metis mset_eq_setD)
next
  case (5 s p v x)
  then obtain ys where "rep_table (\<lambda>T e. rep T (snd e)) (ltab (V s)) v ys" by (auto simp: rep_set_def)
  then obtain s' ys' where "container_get L (\<lambda>s. get_ret_value op s (- 1) (init_value op)) os_insert False s p [] = Some (Inr (False, fold os_insert ys' [], s'))"
    "V s' = V s" "rep_table (\<lambda>T e. rep T (snd e)) (ltab (V s)) v ys'" using get_seq [OF assms 5(1), of ys os_insert False "[]"] by auto
  moreover have "os_wf (fold os_insert ys' []) \<and> set (fold os_insert ys' []) = set ys'" using fold_os_insert [of "[]" ys'] by (simp add: os_wf_def)
  ultimately show ?case unfolding op_set_def rep_set_def by (auto intro!: exI [of _ ys'])
qed (auto simp: rep_set_def rep_table_def)

definition rep_map :: "('n tabs \<Rightarrow> 'n lua_value \<Rightarrow> 'k::linorder \<Rightarrow> bool) \<Rightarrow> ('n tabs \<Rightarrow> 'n lua_value \<Rightarrow> 'v \<Rightarrow> bool) \<Rightarrow> 'n tabs \<Rightarrow> 'n lua_value \<Rightarrow> ('k, 'v) omap \<Rightarrow> bool" where
  "rep_map repk repv T v m \<longleftrightarrow> om_wf m \<and> (\<exists>ys. rep_table (rep_pair repk repv) T v ys \<and> mset ys = mset m)"

lemma mset_om_put: "k \<notin> fst ` set m \<Longrightarrow> mset (om_put k v m) = add_mset (k, v) (mset m)"
  by (induction k v m rule: om_put.induct) auto

lemma fold_om_insert:
  "om_wf c \<Longrightarrow> distinct (map fst ys) \<Longrightarrow> fst ` set ys \<inter> fst ` set c = {} \<Longrightarrow>
    om_wf (fold (\<lambda>(k, v) c. fst (om_insert k v c)) ys c) \<and> mset (fold (\<lambda>(k, v) c. fst (om_insert k v c)) ys c) = mset c + mset ys"
proof (induction ys arbitrary: c)
  case (Cons y ys)
  obtain k v where y: "y = (k, v)" by (cases y)
  have "k \<notin> fst ` set c" using Cons.prems(3) y by auto
  then have i: "fst (om_insert k v c) = om_put k v c" using map_of_eq_None_iff [of c k] by (simp add: om_insert_def)
  have "fst ` set ys \<inter> fst ` set (om_put k v c) = {}" using Cons.prems(2,3) y by auto
  then show ?case using Cons.IH [of "om_put k v c"] Cons.prems(1,2) mset_om_put [OF \<open>k \<notin> fst ` set c\<close>] by (simp add: y i)
qed simp

lemma read_pair_entry:
  assumes "lua_key L V opk okk repk" "lua_conversion L V opv okv repv" "lstack (V s) = st @ [k, w]" "rep_pair repk repv (ltab (V s)) (k, w) y"
  shows "\<exists>s' y'. read_pair opk opv s = Some (Inr (False, y', s')) \<and> V s' = V s \<and> rep_pair repk repv (ltab (V s)) (k, w) y'"
proof -
  obtain s1 where s1: "get_ret_value opk s (- 2) (init_value opk) = Some (Inr (False, fst y, s1))" "V s1 = V s"
    using lua_key.get_exact [OF assms(1), of s "- 2" k "fst y"] assms(3,4) by (auto simp: rep_pair_def)
  obtain s2 b where "get_ret_value opv s1 (- 1) (init_value opv) = Some (Inr (False, b, s2))" "V s2 = V s1" "repv (ltab (V s)) w b"
    using lua_conversion.get [OF assms(2), of s1 "- 1" w "snd y"] assms(3,4) s1(2) by (auto simp: rep_pair_def)
  then show ?thesis using s1 assms(4) by (auto simp: read_pair_def rep_pair_def)
qed

lemma map_conversion:
  assumes "lua_key L V opk okk repk" "lua_conversion L V opv okv repv"
  shows "lua_conversion L V (op_map L opk opv) (\<lambda>m. om_wf m \<and> (\<forall>x \<in> set m. okk (fst x) \<and> okv (snd x))) (rep_map repk repv)"
proof (unfold_locales, goal_cases)
  case 1
  then show ?case by (rule lua_conversion.laws [OF assms(2)])
next
  case (2 T v x T')
  have "rep_pair repk repv T e y \<Longrightarrow> rep_pair repk repv T' e y" for e y
    using 2(2) lua_conversion.rep_mono [OF lua_key.axioms(1) [OF assms(1)]] lua_conversion.rep_mono [OF assms(2)] by (auto simp: rep_pair_def)
  then show ?case using 2 rep_table_mono unfolding rep_map_def by blast
next
  case (4 x s)
  then have "distinct (map fst x)" by (simp add: om_wf_def strict_sorted_iff)
  then show ?case using push_container [OF assms, of x s] 4 by (auto simp: op_map_def rep_map_def)
next
  case (5 s p v x)
  let ?R = "rep_pair repk repv (ltab (V s))"
  obtain ys where ys: "rep_table (rep_pair repk repv) (ltab (V s)) v ys" "mset ys = mset x" "om_wf x" using 5 by (auto simp: rep_map_def)
  have "\<exists>s' ys'. container_get L (read_pair opk opv) (\<lambda>(k, v) c. fst (om_insert k v c)) False s p [] =
      Some (Inr (False, fold (\<lambda>(k, v) c. fst (om_insert k v c)) ys' [], s')) \<and> V s' = V s \<and> rep_table (rep_pair repk repv) (ltab (V s)) v ys' \<and>
      (\<exists>t es. ltab (V s) t = Some es \<and> list_all2 ?R es ys \<and> list_all2 ?R es ys')"
    by (rule get_container [OF lua_conversion.laws [OF assms(2)] 5(1) ys(1) read_pair_entry [OF assms]])
  then obtain s' ys' t es where s': "container_get L (read_pair opk opv) (\<lambda>(k, v) c. fst (om_insert k v c)) False s p [] =
      Some (Inr (False, fold (\<lambda>(k, v) c. fst (om_insert k v c)) ys' [], s'))" "V s' = V s" "rep_table (rep_pair repk repv) (ltab (V s)) v ys'"
      "ltab (V s) t = Some es" "list_all2 ?R es ys" "list_all2 ?R es ys'" by blast
  have "map fst ys' = map fst ys"
    using s'(5,6) lua_key.rep_exact [OF assms(1)] unfolding list_all2_conv_all_nth rep_pair_def
    by (intro nth_equalityI) (simp_all, metis)
  moreover have "distinct (map fst ys)" using ys(2,3) by (metis mset_eq_imp_distinct_iff mset_map om_wf_def strict_sorted_iff)
  ultimately have "om_wf (fold (\<lambda>(k, v) c. fst (om_insert k v c)) ys' []) \<and> mset (fold (\<lambda>(k, v) c. fst (om_insert k v c)) ys' []) = mset ys'"
    using fold_om_insert [of "[]" ys'] by simp
  then show ?case using s'(1-3) unfolding op_map_def rep_map_def by (auto intro!: exI [of _ ys'])
qed (auto simp: rep_map_def rep_table_def)

end
