(* ===== verification/Fflua.thy ===== *)
theory Fflua
  imports Fflua_Type
begin

section \<open>Calling Lua\<close>

text \<open>
  \<open>fflua_t\<close> of \<^verbatim>\<open>lua/fflua.h\<close> over the parameter of \<open>Lua_Api\<close> and the conversions of \<open>Fflua_Type\<close>. The overloads of
  \<open>call\<close> for none to nine arguments are one definition over a list of pushed arguments. A result is \<open>None\<close> if a loop does
  not end, \<open>Inl\<close> for a Lua error outside a protected call, and otherwise the C++ outcome with the state, \<open>lua_exception_t\<close>
  being a \<open>Runtime_error\<close>.
\<close>

definition or_null :: "string option \<Rightarrow> string" where
  "or_null x = (case x of Some y \<Rightarrow> y | None \<Rightarrow> ''(null)'')"

definition dump_error :: "('s, 'n) lua_lib \<Rightarrow> 's \<Rightarrow> string \<Rightarrow> string \<times> 's" where
  "dump_error L s head = (let (msg, s1) = l_tolstring L s (- 1) in (take 1023 head @ take 1023 ('' tracback:'' @ c_str (or_null msg)), s1))"

text \<open>What every failed protected call does: the error's text, and one value off the stack.\<close>

definition throw_error :: "('s, 'n) lua_lib \<Rightarrow> 's \<Rightarrow> string \<Rightarrow> (exn + 'a) \<times> 's" where
  "throw_error L s head = (let (err, s1) = dump_error L s head in (Inl (Runtime_error err), l_pop L s1 1))"

definition load_file :: "('s, 'n) lua_lib \<Rightarrow> string \<Rightarrow> 's \<Rightarrow> (exn + unit) \<times> 's" where
  "load_file L fname s = (case l_dofile L s (c_str fname) of
     (True, s1) \<Rightarrow> throw_error L s1 (''cannot load file<'' @ c_str fname @ ''>'') | (False, s1) \<Rightarrow> (Inr (), s1))"

definition run_string :: "('s, 'n) lua_lib \<Rightarrow> string \<Rightarrow> 's \<Rightarrow> (exn + unit) \<times> 's" where
  "run_string L str s = (case l_dostring L s (c_str str) of
     (True, s1) \<Rightarrow> throw_error L s1 (''fflua_t::run_string ::lua_pcall faled str<'' @ c_str str @ ''>'') | (False, s1) \<Rightarrow> (Inr (), s1))"

definition package_statement :: "string \<Rightarrow> string" where
  "package_statement str = ''package.path = package.path .. '' @ [CHR 0x22] @ (if hd str \<noteq> CHR '';'' then '';'' else []) @ str @
     (if last str \<noteq> CHR ''/'' then ''/'' else []) @ ''?.lua'' @ [CHR 0x22] @ '' ''"

definition add_package_path :: "('s, 'n) lua_lib \<Rightarrow> string \<Rightarrow> 's \<Rightarrow> (exn + int) \<times> 's" where
  "add_package_path L str s = (if str = [] then (Inr (- 1), s)
     else case run_string L (package_statement str) s of (Inl e, s1) \<Rightarrow> (Inl e, s1) | (Inr _, s1) \<Rightarrow> (Inr 0, s1))"

definition get_global_variable :: "('s, 'n) lua_lib \<Rightarrow> ('s, 'a) lua_op_t \<Rightarrow> string \<Rightarrow> 'a \<Rightarrow> 's \<Rightarrow> (bool \<times> 'a \<times> 's) exc option" where
  "get_global_variable L op field_name x s = (case get_ret_value op (l_getglobal L s (c_str field_name)) (- 1) x of None \<Rightarrow> None | Some (Inl e) \<Rightarrow> Some (Inl e)
     | Some (Inr (failed, y, s1)) \<Rightarrow> Some (Inr (failed, y, l_pop L s1 1)))"

definition set_global_variable :: "('s, 'n) lua_lib \<Rightarrow> ('s, 'a) lua_op_t \<Rightarrow> string \<Rightarrow> 'a \<Rightarrow> 's \<Rightarrow> 's exc" where
  "set_global_variable L op field_name x s = (case push_stack op s x of Inl e \<Rightarrow> Inl e | Inr s1 \<Rightarrow> Inr (l_setglobal L s1 (c_str field_name)))"

definition register_raw_function :: "('s, 'n) lua_lib \<Rightarrow> string \<Rightarrow> nat \<Rightarrow> 's \<Rightarrow> 's" where
  "register_raw_function L func_name f s = l_setglobal L (l_push L s (LFunction f)) func_name"

definition call_void :: "('s, 'n) lua_lib \<Rightarrow> string \<Rightarrow> 's \<Rightarrow> (exn + unit) \<times> 's" where
  "call_void L func_name s = (case l_pcall L (l_getglobal L s func_name) 0 0 of
     (True, s1) \<Rightarrow> throw_error L s1 (''lua_pcall faled func_name<'' @ c_str func_name @ ''>'') | (False, s1) \<Rightarrow> (Inr (), s1))"

fun push_args :: "('s \<Rightarrow> 's exc) list \<Rightarrow> 's \<Rightarrow> 's exc" where
  "push_args [] s = Inr s"
| "push_args (a # args) s = (case a s of Inl e \<Rightarrow> Inl e | Inr s1 \<Rightarrow> push_args args s1)"

definition ret_failed :: "nat \<Rightarrow> string \<Rightarrow> exn" where
  "ret_failed n func_name = Runtime_error (take 511 (''callfunc [arg'' @ show_nat n @ ''] get_ret_value failed '' @ (if n = 9 then [] else '' '') @
     ''func_name<'' @ c_str func_name @ ''>''))"

definition fflua_call :: "('s, 'n) lua_lib \<Rightarrow> ('s, 'a) lua_op_t \<Rightarrow> string \<Rightarrow> ('s \<Rightarrow> 's exc) list \<Rightarrow> 's \<Rightarrow> ((exn + 'a) \<times> 's) exc option" where
  "fflua_call L op func_name args s = (case push_args args (l_getglobal L s func_name) of Inl e \<Rightarrow> Some (Inl e)
     | Inr s1 \<Rightarrow> (case l_pcall L s1 (length args) 1 of
         (True, s2) \<Rightarrow> Some (Inr (throw_error L s2 (''lua_pcall failed func_name<'' @ c_str func_name @ ''>'')))
       | (False, s2) \<Rightarrow> (case get_ret_value op s2 (- 1) (init_value op) of None \<Rightarrow> None | Some (Inl e) \<Rightarrow> Some (Inl e)
           | Some (Inr (failed, x, s3)) \<Rightarrow> Some (Inr (if failed then Inl (ret_failed (length args) func_name) else Inr x, l_pop L s3 1)))))"

subsection \<open>The stack after a call\<close>

text \<open>Reading the value on top leaves everything below it and one value on top.\<close>

definition tidy :: "('s \<Rightarrow> 'n lua_view) \<Rightarrow> ('s, 'a) lua_op_t \<Rightarrow> bool" where
  "tidy V op \<longleftrightarrow> (\<forall>s st v x r. lstack (V s) = st @ [v] \<and> get_ret_value op s (- 1) x = Some (Inr r) \<longrightarrow> (\<exists>w. lstack (V (snd (snd r))) = st @ [w]))"

lemma tidy_integer: "tidy V (op_integer L lo hi)"
  by (auto simp: tidy_def op_integer_def split: option.splits sum.splits)

lemma tidy_real: "tidy V (op_real L conv)"
  by (auto simp: tidy_def op_real_def split: option.splits)

lemma tidy_bool: "tidy V (op_bool L)"
  by (auto simp: tidy_def op_bool_def split: option.splits lua_value.splits)

lemma tidy_void_ptr: "tidy V (op_void_ptr L)"
  by (auto simp: tidy_def op_void_ptr_def split: option.splits lua_value.splits)

lemma tidy_big: "lua_laws L V \<Longrightarrow> tidy V (op_big L conv)"
  using lua_tolstring_top by (fastforce simp: tidy_def op_big_def split: option.splits prod.splits if_splits)

lemma tidy_string:
  assumes "lua_laws L V"
  shows "tidy V (op_string L)"
  unfolding tidy_def
proof (intro allI impI)
  fix s st v x r assume a: "lstack (V s) = st @ [v] \<and> get_ret_value (op_string L) s (- 1) x = Some (Inr r)"
  have "lstack (V (l_push L s v)) = lstack (V s) @ [v]" for v by (simp add: lua_push [OF assms])
  from lua_tolstring_top [OF assms this] obtain w where w: "lstack (V (snd (l_tolstring L (l_push L s v) (- 1)))) = st @ [v, w]" using a by fastforce
  show "\<exists>w. lstack (V (snd (snd r))) = st @ [w]"
    using a w by (auto simp: op_string_def lua_value [OF assms] lua_pop [OF assms] split: option.splits prod.splits if_splits)
qed

text \<open>An argument that was pushed is one value more.\<close>

definition arg_ok :: "('s \<Rightarrow> 'n lua_view) \<Rightarrow> ('s \<Rightarrow> 's exc) \<Rightarrow> bool" where
  "arg_ok V a \<longleftrightarrow> (\<forall>s s'. a s = Inr s' \<longrightarrow> (\<exists>v. lstack (V s') = lstack (V s) @ [v]))"

lemma push_args_stack: "\<forall>a \<in> set args. arg_ok V a \<Longrightarrow> push_args args s = Inr s' \<Longrightarrow> \<exists>vs. lstack (V s') = lstack (V s) @ vs \<and> length vs = length args"
proof (induction args arbitrary: s)
  case (Cons a args)
  from Cons.prems(2) obtain s1 where s1: "a s = Inr s1" "push_args args s1 = Inr s'" by (auto split: sum.splits)
  obtain v where "lstack (V s1) = lstack (V s) @ [v]" using Cons.prems(1) s1(1) unfolding arg_ok_def by (meson list.set_intros(1))
  moreover obtain vs where "lstack (V s') = lstack (V s1) @ vs \<and> length vs = length args" using Cons.IH [OF _ s1(2)] Cons.prems(1) by auto
  ultimately show ?case by (intro exI [of _ "v # vs"]) simp
qed simp

lemma throw_error_stack:
  assumes "lua_laws L V" "lstack (V s) = st @ [v]"
  shows "lstack (V (snd (throw_error L s head))) = st"
  using lua_tolstring_top [OF assms] by (auto simp: throw_error_def dump_error_def lua_pop [OF assms(1)] split: prod.splits)

lemma pcall_one:
  assumes "lua_laws L V" "\<forall>a \<in> set args. arg_ok V a" "push_args args (l_getglobal L s g) = Inr s1" "l_pcall L s1 (length args) 1 = (failed, s2)"
  shows "\<exists>v. lstack (V s2) = lstack (V s) @ [v]"
proof -
  obtain vs where vs: "lstack (V s1) = lstack (V (l_getglobal L s g)) @ vs" "length vs = length args"
    using push_args_stack [OF assms(2,3)] by blast
  then have "lstack (V s1) = lstack (V s) @ [lglobal (V s) g] @ vs" by (simp add: lua_getglobal [OF assms(1)])
  from lua_pcall [OF assms(1) this, of 1 failed s2] assms(4) vs(2) obtain rs where "lstack (V s2) = lstack (V s) @ rs" "length rs = 1" by auto
  then show ?thesis by (metis length_0_conv length_Suc_conv One_nat_def)
qed

lemma call_stack:
  assumes "lua_laws L V" "tidy V op" "\<forall>a \<in> set args. arg_ok V a" "fflua_call L op g args s = Some (Inr (r, s'))"
  shows "lstack (V s') = lstack (V s)"
proof -
  obtain s1 where s1: "push_args args (l_getglobal L s g) = Inr s1" using assms(4) by (auto simp: fflua_call_def split: sum.splits)
  obtain failed s2 where s2: "l_pcall L s1 (length args) 1 = (failed, s2)" by fastforce
  obtain v where v: "lstack (V s2) = lstack (V s) @ [v]" using pcall_one [OF assms(1,3) s1 s2] by blast
  show ?thesis
  proof (cases failed)
    case True
    then obtain head where "throw_error L s2 head = (r, s')" using assms(4) s1 s2 by (auto simp: fflua_call_def)
    then show ?thesis using throw_error_stack [OF assms(1) v, of head] by (metis snd_conv)
  next
    case False
    then obtain f x s3 where "get_ret_value op s2 (- 1) (init_value op) = Some (Inr (f, x, s3))" "s' = l_pop L s3 1"
      using assms(4) s1 s2 by (auto simp: fflua_call_def split: option.splits sum.splits)
    then show ?thesis using assms(2) v unfolding tidy_def by (fastforce simp: lua_pop [OF assms(1)])
  qed
qed

text \<open>
  (C29) Calls are balanced. Whatever a Lua function does and whether the call returns or throws, a call whose result
  is a number, a 64-bit integer, a boolean, a string or a pointer leaves the Lua stack exactly as it was.
\<close>

theorem call_balanced:
  assumes "lua_laws L V"
  shows "tidy V (op_integer L lo hi) \<and> tidy V (op_big L conv) \<and> tidy V (op_real L rconv) \<and> tidy V (op_bool L) \<and> tidy V (op_string L) \<and> tidy V (op_void_ptr L) \<and>
    (\<forall>op g args s r s'. tidy V op \<and> (\<forall>a \<in> set args. arg_ok V a) \<and> fflua_call L op g args s = Some (Inr (r, s')) \<longrightarrow> lstack (V s') = lstack (V s))"
proof (intro conjI allI impI)
  fix op :: "('a, 'd) lua_op_t" and g args s r s'
  assume "tidy V op \<and> (\<forall>a \<in> set args. arg_ok V a) \<and> fflua_call L op g args s = Some (Inr (r, s'))"
  then show "lstack (V s') = lstack (V s)" using call_stack [OF assms] by blast
qed (simp_all add: tidy_integer tidy_big [OF assms] tidy_real tidy_bool tidy_string [OF assms] tidy_void_ptr)

lemma arg_ok_scalar: "lua_laws L V \<Longrightarrow> arg_ok V (\<lambda>s. push_stack (op_string L) s x) \<and> arg_ok V (\<lambda>s. push_stack (op_integer L lo hi) s i)"
  by (simp add: arg_ok_def op_string_def op_integer_def lua_push)

definition sample_state :: smp where
  "sample_state = \<lparr>s_stack = [LBool True], s_global = [(''fail'', LFunction 0), (''first'', LFunction 1), (''table'', LFunction 2), (''t'', LTable 0)],
     s_tabs = [[(LNumber 1, LNumber 5), (LNumber 2, LBool True)]],
     s_reg = [], s_meta = [], s_blocks = []\<rparr>"

theorem call_balanced_witness:
  "\<exists>e s1 s2. fflua_call sample_lua (op_string sample_lua) ''fail'' [\<lambda>s. push_stack (op_string sample_lua) s ''x''] sample_state = Some (Inr (Inl e, s1)) \<and>
    s_stack s1 = [LBool True] \<and>
    fflua_call sample_lua (op_int64 sample_lua) ''first'' [\<lambda>s. push_stack (op_int32 sample_lua) s 7] sample_state = Some (Inr (Inr 7, s2)) \<and> s_stack s2 = [LBool True]"
proof -
  have "\<exists>e s1. fflua_call sample_lua (op_string sample_lua) ''fail'' [\<lambda>s. push_stack (op_string sample_lua) s ''x''] sample_state = Some (Inr (Inl e, s1))"
    by (simp add: fflua_call_def sample_lua_def sample_state_def op_string_def smp_global_def or_nil_def smp_pcall_def at_def slot_def throw_error_def dump_error_def smp_tolstring_def)
  then obtain e s1 where 1: "fflua_call sample_lua (op_string sample_lua) ''fail'' [\<lambda>s. push_stack (op_string sample_lua) s ''x''] sample_state = Some (Inr (Inl e, s1))" by blast
  have "strtoll ''7'' = 7" "show_int 7 = ''7''" by code_simp+
  then have "\<exists>s2. fflua_call sample_lua (op_int64 sample_lua) ''first'' [\<lambda>s. push_stack (op_int32 sample_lua) s 7] sample_state = Some (Inr (Inr 7, s2))"
    by (simp add: fflua_call_def sample_lua_def sample_state_def op_int64_def op_big_def op_int32_def op_integer_def smp_global_def or_nil_def smp_pcall_def at_def slot_def is_string_def smp_tolstring_def)
  then obtain s2 where 2: "fflua_call sample_lua (op_int64 sample_lua) ''first'' [\<lambda>s. push_stack (op_int32 sample_lua) s 7] sample_state = Some (Inr (Inr 7, s2))" by blast
  note bal = call_balanced [OF sample_lua_laws, THEN conjunct2, THEN conjunct2, THEN conjunct2, THEN conjunct2, THEN conjunct2, THEN conjunct2]
  have "lstack (smp_view s1) = lstack (smp_view sample_state)"
    using bal [rule_format, OF conjI [OF tidy_string [OF sample_lua_laws] conjI [OF _ 1]]] arg_ok_scalar [OF sample_lua_laws] by simp
  moreover have "lstack (smp_view s2) = lstack (smp_view sample_state)"
    using bal [rule_format, OF conjI [OF tidy_big [OF sample_lua_laws, folded op_int64_def] conjI [OF _ 2 [unfolded op_int64_def]]]] arg_ok_scalar [OF sample_lua_laws] by (simp add: op_int32_def)
  ultimately show ?thesis using 1 2 by (auto simp: smp_view_def sample_state_def)
qed

subsection \<open>A vector that cannot be converted\<close>

text \<open>
  A result that fails half way. When a function returns a table for a \<open>vector<int>\<close> and some element is no number,
  the call throws, but the table and the key at which it stopped stay on the stack.
\<close>

theorem call_vector_leaks:
  assumes "lua_laws L V" "\<forall>a \<in> set args. arg_ok V a" "push_args args (l_getglobal L s g) = Inr s1" "l_pcall L s1 (length args) 1 = (False, s2)"
    and "lstack (V s2) = lstack (V s) @ [LTable t]" "ltab (V s2) t = Some (es1 @ (k, LBool b) # es2)"
    and "distinct (map fst (es1 @ (k, LBool b) # es2))" "LNil \<notin> fst ` set (es1 @ (k, LBool b) # es2)"
    and "\<forall>e \<in> set es1. \<exists>i. - (2 ^ 31) \<le> i \<and> i < 2 ^ 31 \<and> snd e = LNumber (l_of_int L i)"
  shows "\<exists>s'. fflua_call L (op_vector L (op_int32 L)) g args s = Some (Inr (Inl (ret_failed (length args) g), s')) \<and> lstack (V s') = lstack (V s) @ [LTable t, k]"
proof -
  let ?read = "\<lambda>s. get_ret_value (op_int32 L) s (- 1) (init_value (op_int32 L))"
  have k: "lua_conversion L V (op_int32 L) (\<lambda>x. - 2147483648 \<le> x \<and> x \<le> 2147483647) (rep_integer L (- 2147483648) 2147483647)"
    unfolding op_int32_def by (rule lua_key.axioms(1) [OF integer_key]) (use assms(1) in auto)
  have good: "reads V ?read (ltab (V s2)) es1 (\<lambda>e. rep_integer L (- 2147483648) 2147483647 (ltab (V s2)) (snd e))"
    unfolding reads_def
  proof (intro allI impI)
    fix s st k v assume a: "(k, v) \<in> set es1 \<and> lstack (V s) = st @ [k, v] \<and> ltab (V s) = ltab (V s2)"
    then obtain i where "rep_integer L (- 2147483648) 2147483647 (ltab (V s2)) v i" using assms(9) by (force simp: rep_integer_def)
    then show "\<exists>s' y. ?read s = Some (Inr (False, y, s')) \<and> V s' = V s \<and> rep_integer L (- 2147483648) 2147483647 (ltab (V s2)) (snd (k, v)) y"
      using lua_conversion.get [OF k, of s "- 1" v i] a by auto
  qed
  have bad: "\<exists>y s'. ?read s = Some (Inr (True, y, s')) \<and> V s' = V s" if "lstack (V s) = (lstack (V s2)) @ [k, LBool b]" for s
    using that by (simp add: op_int32_def op_integer_def to_number_def lua_value [OF assms(1)])
  have at: "at (lstack (V s2) @ [w]) (real_index (- 1)) = Some (LTable t)" for w by (simp add: assms(5) real_index_def)
  obtain s3 c where s3: "each_entry L ?read (\<lambda>x c. c @ [x]) True (real_index (- 1)) (l_push L s2 LNil) [] = Some (Inr (True, c, s3))"
    "lstack (V s3) = lstack (V s2) @ [k, LBool b]"
    using each_entry_fails [of L V "ltab (V s2)" t es1 k "LBool b" es2 ?read _ "lstack (V s2)" "real_index (- 1)" "l_push L s2 LNil" "\<lambda>x c. c @ [x]" True "[]", OF assms(1,6-8) good bad at]
    by (auto simp: lua_push [OF assms(1)])
  have "l_value L s2 (- 1) = Some (LTable t)" by (simp add: lua_value [OF assms(1)] assms(5))
  then have "get_ret_value (op_vector L (op_int32 L)) s2 (- 1) [] = Some (Inr (True, c, s3))"
    using s3(1) by (simp add: op_vector_def container_get_def)
  then show ?thesis using assms(3,4) s3(2) by (auto simp: fflua_call_def op_vector_def lua_pop [OF assms(1)] assms(5))
qed

theorem call_vector_leaks_witness:
  "\<exists>s'. fflua_call sample_lua (op_vector sample_lua (op_int32 sample_lua)) ''table'' [] sample_state = Some (Inr (Inl (ret_failed 0 ''table''), s')) \<and>
    s_stack s' = [LBool True, LTable 0, LNumber 2]"
proof -
  let ?s = "sample_state\<lparr>s_stack := [LBool True, LTable 0]\<rparr>"
  have p: "l_pcall sample_lua (l_getglobal sample_lua sample_state ''table'') 0 1 = (False, ?s)"
    by (simp add: sample_lua_def sample_state_def smp_global_def or_nil_def smp_pcall_def at_def slot_def)
  have "\<exists>s'. fflua_call sample_lua (op_vector sample_lua (op_int32 sample_lua)) ''table'' [] sample_state = Some (Inr (Inl (ret_failed (length ([] :: (smp \<Rightarrow> smp exc) list)) ''table''), s')) \<and>
      lstack (smp_view s') = lstack (smp_view sample_state) @ [LTable 0, LNumber 2]"
    by (rule call_vector_leaks [OF sample_lua_laws, of _ sample_state "''table''" "l_getglobal sample_lua sample_state ''table''" ?s 0 "[(LNumber 1, LNumber 5)]" "LNumber 2" True "[]"])
      (use p in \<open>simp_all add: smp_view_def sample_state_def sample_lua_def\<close>)
  then show ?thesis by (simp add: smp_view_def sample_state_def)
qed

subsection \<open>Globals are read back\<close>

context lua_conversion
begin

lemma global_back:
  assumes "ok x"
  shows "\<exists>s1 s2 y T v. set_global_variable L op g x s = Inr s1 \<and> get_global_variable L op g (init_value op) s1 = Some (Inr (False, y, s2)) \<and>
    rep T v x \<and> rep T v y \<and> lstack (V s2) = lstack (V s) \<and> ltab (V s) \<subseteq>\<^sub>m ltab (V s2)"
proof -
  obtain s1 v where s1: "push_stack op s x = Inr s1" "pushed V s v s1" "rep (ltab (V s1) |` (- dom (ltab (V s)))) v x" using push [OF assms] by blast
  have "(ltab (V s1) |` (- dom (ltab (V s)))) \<subseteq>\<^sub>m ltab (V s1)" unfolding map_le_def by (metis domIff restrict_map_def)
  then have r: "rep (ltab (V s1)) v x" using rep_mono s1(3) by blast
  let ?s1 = "l_setglobal L s1 (c_str g)" and ?s2 = "l_getglobal L (l_setglobal L s1 (c_str g)) (c_str g)"
  have v1: "V ?s1 = (V s1)\<lparr>lstack := lstack (V s), lglobal := (lglobal (V s1))(c_str g := v)\<rparr>"
    using lua_setglobal [OF laws] s1(2) by (simp add: pushed_def)
  have v2: "lstack (V ?s2) = lstack (V s) @ [v]" "ltab (V ?s2) = ltab (V s1)" by (simp_all add: lua_getglobal [OF laws] v1)
  obtain s3 y where s3: "get_ret_value op ?s2 (- 1) (init_value op) = Some (Inr (False, y, s3))" "V s3 = V ?s2" "rep (ltab (V s1)) v y"
    using get [of ?s2 "- 1" v x] r v2 by auto
  have "set_global_variable L op g x s = Inr ?s1" by (simp add: set_global_variable_def s1(1))
  moreover have "get_global_variable L op g (init_value op) ?s1 = Some (Inr (False, y, l_pop L s3 1))" by (simp add: get_global_variable_def s3(1))
  moreover have "lstack (V (l_pop L s3 1)) = lstack (V s)" "ltab (V (l_pop L s3 1)) = ltab (V s1)" by (simp_all add: lua_pop [OF laws] s3(2) v2)
  ultimately show ?thesis using r s3(3) s1(2) unfolding pushed_def by metis
qed

end

lemma rep_seq_exact:
  assumes "rep_seq rep T v xs" "rep_seq rep T v ys" "\<And>w x y. rep T w x \<Longrightarrow> rep T w y \<Longrightarrow> x = y"
  shows "mset xs = mset ys"
proof -
  obtain us vs where u: "rep_table (\<lambda>T e. rep T (snd e)) T v us" "mset us = mset xs" and w: "rep_table (\<lambda>T e. rep T (snd e)) T v vs" "mset vs = mset ys"
    using assms(1,2) by (auto simp: rep_seq_def)
  obtain t es where es: "T t = Some es" "list_all2 (\<lambda>e. rep T (snd e)) es us" "list_all2 (\<lambda>e. rep T (snd e)) es vs"
    using u(1) w(1) unfolding rep_table_def by auto
  then have "us = vs" using assms(3) unfolding list_all2_conv_all_nth by (intro nth_equalityI) (simp, metis)
  then show ?thesis using u(2) w(2) by simp
qed

lemma mset_map_of:
  assumes "mset us = mset m" "om_wf m"
  shows "map_of us = map_of m"
proof -
  have "distinct (map fst m)" using assms(2) by (simp add: om_wf_def strict_sorted_iff)
  moreover have "distinct (map fst us)" using calculation assms(1) by (metis mset_eq_imp_distinct_iff mset_map)
  ultimately show ?thesis using map_of_inject_set [of us m] mset_eq_setD [OF assms(1)] by simp
qed

lemma rep_map_exact:
  assumes "rep_map repk repv T v m" "rep_map repk repv T v n" "\<And>w x y. repk T w x \<Longrightarrow> repk T w y \<Longrightarrow> x = y" "\<And>w x y. repv T w x \<Longrightarrow> repv T w y \<Longrightarrow> S x y"
  shows "rel_option S (map_of m k) (map_of n k)"
proof -
  obtain us vs where u: "rep_table (rep_pair repk repv) T v us" "mset us = mset m" "om_wf m" and w: "rep_table (rep_pair repk repv) T v vs" "mset vs = mset n" "om_wf n"
    using assms(1,2) by (auto simp: rep_map_def)
  obtain t es where es: "T t = Some es" "list_all2 (rep_pair repk repv T) es us" "list_all2 (rep_pair repk repv T) es vs"
    using u(1) w(1) unfolding rep_table_def by auto
  have "list_all2 (\<lambda>a b. fst a = fst b \<and> S (snd a) (snd b)) us vs"
    using es(2,3) assms(3,4) unfolding list_all2_conv_all_nth rep_pair_def by metis
  then have "rel_option S (map_of us k) (map_of vs k)" by (induction us vs rule: list_all2_induct) auto
  moreover have "map_of us = map_of m" "map_of vs = map_of n"
    using mset_map_of [OF u(2,3)] mset_map_of [OF w(2,3)] by simp_all
  ultimately show ?thesis by simp
qed

text \<open>The conversions of one type that combines the others, and the contract on the sample library.\<close>

definition op_example :: "('s, 'n) lua_lib \<Rightarrow> ('s, (int, string list) omap) lua_op_t" where
  "op_example L = op_map L (op_int64 L) (op_vector L (op_string L))"

definition example_ok :: "(int, string list) omap \<Rightarrow> bool" where
  "example_ok m \<longleftrightarrow> om_wf m \<and> (\<forall>x \<in> set m. strtoll (show_int (fst x)) = fst x \<and> seq_ok (\<lambda>_. True) (snd x))"

abbreviation rep_example where
  "rep_example \<equiv> rep_map (rep_big strtoll) (rep_seq rep_string)"

lemma init_example: "init_value (op_example L) = []"
  by (simp add: op_example_def op_map_def)

lemma example_conversion: "lua_laws L V \<Longrightarrow> lua_conversion L V (op_example L) example_ok rep_example"
  using map_conversion [OF big_key [of L V strtoll] vector_conversion [OF lua_key.axioms(1) [OF string_key [of L V]]]]
  unfolding op_example_def op_int64_def example_ok_def by blast

interpretation lua_text: lua_key sample_lua smp_view "op_string sample_lua" "\<lambda>_. True" rep_string
  by (rule string_key [OF sample_lua_laws])

interpretation lua_example: lua_conversion sample_lua smp_view "op_example sample_lua" example_ok rep_example
  by (rule example_conversion [OF sample_lua_laws])

text \<open>
  (C33) Values survive. A \<open>map<int64_t, vector<string> >\<close> whose keys are 64-bit integers, set as a global, is read back from
  it by every library that keeps the manual: the same keys, each with the same strings as often as before, in the
  order in which \<open>lua_next\<close> visits them; the stack is as before and no other table has changed.
\<close>

theorem global_roundtrip:
  fixes L :: "('s, 'n) lua_lib"
  assumes "lua_laws L V" "om_wf m" "\<forall>(k, xs) \<in> set m. - (2 ^ 63) \<le> k \<and> k < 2 ^ 63 \<and> length xs < 2 ^ 31"
  shows "\<exists>s1 s2 m'. set_global_variable L (op_map L (op_int64 L) (op_vector L (op_string L))) g m s = Inr s1 \<and>
    get_global_variable L (op_map L (op_int64 L) (op_vector L (op_string L))) g [] s1 = Some (Inr (False, m', s2)) \<and>
    (\<forall>k. rel_option (\<lambda>xs ys. mset xs = mset ys) (map_of m k) (map_of m' k)) \<and> lstack (V s2) = lstack (V s) \<and> ltab (V s) \<subseteq>\<^sub>m ltab (V s2)"
proof -
  have "example_ok m" using assms(2,3) by (auto simp: example_ok_def strtoll_show seq_ok_def)
  from lua_conversion.global_back [OF example_conversion [OF assms(1)] this, of g s] obtain s1 s2 m' T v where
    s: "set_global_variable L (op_example L) g m s = Inr s1" "get_global_variable L (op_example L) g [] s1 = Some (Inr (False, m', s2))"
      "rep_example (T :: 'n tabs) v m" "rep_example T v m'" "lstack (V s2) = lstack (V s)" "ltab (V s) \<subseteq>\<^sub>m ltab (V s2)"
    by (auto simp: init_example)
  have big: "x = y" if "rep_big strtoll T w x" "rep_big strtoll T w y" for w x y
    using that lua_key.rep_exact [OF big_key [OF assms(1), of strtoll]] by blast
  have seq: "mset x = mset y" if "rep_seq rep_string T w x" "rep_seq rep_string T w y" for w x y
    using rep_seq_exact [OF that] by (auto simp: rep_string_def)
  have "rel_option (\<lambda>xs ys. mset xs = mset ys) (map_of m k) (map_of m' k)" for k
    by (rule rep_map_exact [OF s(3,4) big seq])
  then show ?thesis using s unfolding op_example_def by blast
qed

theorem global_roundtrip_witness:
  "\<exists>s1 s2 m'. set_global_variable sample_lua (op_map sample_lua (op_int64 sample_lua) (op_vector sample_lua (op_string sample_lua))) ''g'' [(- 5, [''a'', ''b'']), (2 ^ 40, [])] sample_state = Inr s1 \<and>
    get_global_variable sample_lua (op_map sample_lua (op_int64 sample_lua) (op_vector sample_lua (op_string sample_lua))) ''g'' [] s1 = Some (Inr (False, m', s2)) \<and>
    (\<exists>xs. map_of m' (- 5) = Some xs \<and> mset xs = {#''a'', ''b''#}) \<and> s_stack s2 = [LBool True]"
proof -
  let ?m = "[(- 5, [''a'', ''b'']), (2 ^ 40, [])] :: (int, string list) omap"
  have m: "om_wf ?m" "\<forall>(k, xs) \<in> set ?m. - (2 ^ 63) \<le> k \<and> k < 2 ^ 63 \<and> length xs < 2 ^ 31" by (simp_all add: om_wf_def)
  from global_roundtrip [OF sample_lua_laws m, of "''g''" sample_state] obtain s1 s2 m' where
    s: "set_global_variable sample_lua (op_map sample_lua (op_int64 sample_lua) (op_vector sample_lua (op_string sample_lua))) ''g'' ?m sample_state = Inr s1"
      "get_global_variable sample_lua (op_map sample_lua (op_int64 sample_lua) (op_vector sample_lua (op_string sample_lua))) ''g'' [] s1 = Some (Inr (False, m', s2))"
      "\<forall>k. rel_option (\<lambda>xs ys. mset xs = mset ys) (map_of ?m k) (map_of m' k)" "lstack (smp_view s2) = lstack (smp_view sample_state)" by blast
  have "rel_option (\<lambda>xs ys. mset xs = mset ys) (Some [''a'', ''b'']) (map_of m' (- 5))" using s(3) [THEN spec, of "- 5"] by simp
  then have "\<exists>xs. map_of m' (- 5) = Some xs \<and> mset xs = {#''a'', ''b''#}" by (auto simp: option_rel_Some1)
  then show ?thesis using s by (auto simp: smp_view_def sample_state_def)
qed

subsection \<open>Running source text\<close>

text \<open>What a chunk returns stays on the stack; a chunk that fails leaves nothing.\<close>

lemma run_string_stack:
  assumes "lua_laws L V" "run_string L x s = (r, s')"
  shows "case r of Inl e \<Rightarrow> lstack (V s') = lstack (V s) | Inr _ \<Rightarrow> (\<exists>rs. lstack (V s') = lstack (V s) @ rs)"
proof -
  obtain failed s1 where s1: "l_dostring L s (c_str x) = (failed, s1)" by fastforce
  obtain rs where rs: "lstack (V s1) = lstack (V s) @ rs" "failed \<longrightarrow> length rs = 1" using lua_do [OF assms(1)] s1 by blast
  show ?thesis
  proof (cases failed)
    case True
    then obtain v where "rs = [v]" using rs(2) by (auto simp: length_Suc_conv)
    moreover obtain head where "throw_error L s1 head = (r, s')" using assms(2) s1 True by (auto simp: run_string_def)
    ultimately show ?thesis using throw_error_stack [OF assms(1), of s1 "lstack (V s)" v head] rs(1) by (auto simp: throw_error_def split: prod.splits)
  qed (use assms(2) s1 rs in \<open>auto simp: run_string_def\<close>)
qed

end
