(* ===== verification/Fflua_Register.thy ===== *)
theory Fflua_Register
  imports Fflua
begin

section \<open>Classes in Lua\<close>

text \<open>
  The registration of C++ classes and functions with Lua (\<^verbatim>\<open>lua/fflua_register.h\<close>) and the conversion of object pointers
  (\<open>lua_op_t<T*>\<close> of \<^verbatim>\<open>lua/fflua_type.h\<close>). A userdata block holds a pointer to the object, and its metatable, found under
  the class's name in the registry, says what the block is. When Lua calls a registered function, the stack of the view is
  the function's own frame, with the arguments at the positions 1, 2, \<open>\<dots>\<close> The functions are numbered by their
  addresses. The C++ objects that exist are a set of pointers; the overloads for none to nine arguments are one
  definition over a list of argument readers.
\<close>

subsection \<open>Names of classes\<close>

record lua_type_info_t =
  ti_name :: string
  ti_inherit :: string




definition is_registed :: "lua_type_info_t \<Rightarrow> bool" where
  "is_registed ti \<longleftrightarrow> ti_name ti \<noteq> []"

definition is_inherit :: "lua_type_info_t \<Rightarrow> bool" where
  "is_inherit ti \<longleftrightarrow> ti_inherit ti \<noteq> []"

definition to_metatable_name :: "string \<Rightarrow> string" where
  "to_metatable_name n = c_str (''fflua.'' @ n)"

subsection \<open>From userdata to objects\<close>

definition to_userdata :: "('s, 'n) lua_lib \<Rightarrow> 's \<Rightarrow> int \<Rightarrow> nat option" where
  "to_userdata L s p = (case l_value L s p of Some (LUdata a) \<Rightarrow> Some a | Some (LLight a) \<Rightarrow> (if a = 0 then None else Some a) | _ \<Rightarrow> None)"

definition raw_equal :: "('s, 'n) lua_lib \<Rightarrow> 's \<Rightarrow> int \<Rightarrow> int \<Rightarrow> bool" where
  "raw_equal L s p q \<longleftrightarrow> l_value L s p \<noteq> None \<and> l_value L s p = l_value L s q"

text \<open>With the metatable of a userdata on top: is it that of the class, or does its \<open>inherit_table\<close> name the class's?\<close>

definition check_meta :: "('s, 'n) lua_lib \<Rightarrow> lua_type_info_t \<Rightarrow> 's \<Rightarrow> (bool \<times> 's) exc" where
  "check_meta L ti s = (let s1 = l_reg_metatable L s (ti_name ti) in
     if raw_equal L s1 (- 1) (- 2) then Inr (True, l_pop L s1 2)
     else case l_getfield L s1 (- 2) ''inherit_table'' of Inl e \<Rightarrow> Inl e
       | Inr s2 \<Rightarrow> Inr (raw_equal L s2 (- 1) (- 2), l_pop L s2 3))"

definition op_object :: "('s, 'n) lua_lib \<Rightarrow> lua_type_info_t \<Rightarrow> ('s, nat) lua_op_t" where
  "op_object L ti = \<lparr>
     push_stack = (\<lambda>s x. let (a, s1) = l_newuserdata L s in Inr (l_setmetatable L (l_reg_metatable L (l_block_put L s1 a x) (ti_name ti)) (- 2))),
     get_ret_value = (\<lambda>s p x. if \<not> is_registed ti then lua_error ''type not supported''
       else case to_userdata L s p of None \<Rightarrow> Some (Inr (True, x, s))
       | Some a \<Rightarrow> (case l_getmetatable L s p of (False, s1) \<Rightarrow> Some (Inr (True, x, s1))
           | (True, s1) \<Rightarrow> (case check_meta L ti s1 of Inl e \<Rightarrow> Some (Inl e)
               | Inr (same, s2) \<Rightarrow> (if \<not> same \<or> l_block_get L s2 a = 0 then Some (Inr (True, x, s2)) else Some (Inr (False, l_block_get L s2 a, s2)))))),
     lua_to_value = (\<lambda>s p x. if \<not> is_registed ti then lua_error ''type not supported''
       else case to_userdata L s p of None \<Rightarrow> lua_error ''arg1 connot be null''
       | Some a \<Rightarrow> (case l_getmetatable L s p of (False, s1) \<Rightarrow> lua_error ''arg1 connot be null''
           | (True, s1) \<Rightarrow> (case check_meta L ti s1 of Inl e \<Rightarrow> Some (Inl e)
               | Inr (same, s2) \<Rightarrow> (if \<not> same then lua_error ''arg1 type not equal''
                   else if l_block_get L s2 a = 0 then lua_error ''object ptr can't be null'' else Some (Inr (l_block_get L s2 a, s2)))))),
     init_value = 0\<rparr>"

definition userdata_to_object_ptr_address :: "('s, 'n) lua_lib \<Rightarrow> lua_type_info_t \<Rightarrow> 's \<Rightarrow> nat exc" where
  "userdata_to_object_ptr_address L ti s = (if \<not> is_registed ti then Inl (Runtime_error ''the class has not registed to Lua'')
     else l_checkudata L s 1 (ti_name ti))"

definition userdata_to_object :: "('s, 'n) lua_lib \<Rightarrow> lua_type_info_t \<Rightarrow> 's \<Rightarrow> (nat \<times> 's) exc" where
  "userdata_to_object L ti s = (if \<not> is_registed ti then Inl (Runtime_error ''the class has not registed to Lua'')
     else case to_userdata L s 1 of None \<Rightarrow> Inl (Runtime_error ''arg 1 need userdsata(can't be null) param'')
     | Some a \<Rightarrow> (case l_getmetatable L s 1 of (False, s1) \<Rightarrow> Inl (Runtime_error ''arg 1 has no metatable, it is not cpp type'')
         | (True, s1) \<Rightarrow> (case check_meta L ti s1 of Inl e \<Rightarrow> Inl e
             | Inr (same, s2) \<Rightarrow> (if \<not> same then Inl (Runtime_error ''type convert failed'')
                 else if l_block_get L s2 a = 0 then Inl (Runtime_error ''object ptr can't be null'') else Inr (l_block_get L s2 a, s2)))))"

definition get_pointer :: "('s, 'n) lua_lib \<Rightarrow> lua_type_info_t \<Rightarrow> 's \<Rightarrow> 's exc" where
  "get_pointer L ti s = (case userdata_to_object_ptr_address L ti s of Inl e \<Rightarrow> Inl e | Inr a \<Rightarrow> push_stack (op_int64 L) s (int (l_block_get L s a)))"

subsection \<open>Fields of objects\<close>

text \<open>
  \<open>__index\<close>: the field in the class's metatable, or in that of the base class when there is none. A property is a userdata
  in the table; \<open>prop\<close> is the function found in it, called with the state. The result is the number of values returned.
\<close>

definition meta_field :: "('s, 'n) lua_lib \<Rightarrow> string \<Rightarrow> string \<Rightarrow> 's \<Rightarrow> 's exc" where
  "meta_field L n key s = (let s1 = l_reg_metatable L s n; mt_index = l_gettop L s1 in
     case l_getfield L s1 (- 1) key of Inl e \<Rightarrow> Inl e | Inr s2 \<Rightarrow> Inr (l_remove L s2 (int mt_index)))"

definition class_field :: "('s, 'n) lua_lib \<Rightarrow> lua_type_info_t \<Rightarrow> string \<Rightarrow> 's \<Rightarrow> 's exc" where
  "class_field L ti key s = (case meta_field L (ti_name ti) key s of Inl e \<Rightarrow> Inl e
     | Inr s1 \<Rightarrow> (if l_value L s1 (- 1) = Some LNil \<and> is_inherit ti then meta_field L (ti_inherit ti) key (l_pop L s1 1) else Inr s1))"

definition mt_index_function :: "('s, 'n) lua_lib \<Rightarrow> lua_type_info_t \<Rightarrow> (nat \<Rightarrow> string \<Rightarrow> 's \<Rightarrow> (nat \<times> 's) exc) \<Rightarrow> 's \<Rightarrow> (nat \<times> 's) exc" where
  "mt_index_function L ti prop s = (case l_tolstring L s 2 of (None, _) \<Rightarrow> Inl (Runtime_error ''string expected'')
     | (Some key, s1) \<Rightarrow> (case class_field L ti (c_str key) s1 of Inl e \<Rightarrow> Inl e
         | Inr s2 \<Rightarrow> (case to_userdata L s2 (- 1) of Some a \<Rightarrow> prop a (c_str key) (l_pop L s2 1) | None \<Rightarrow> Inr (1, s2))))"

text \<open>\<open>__newindex\<close> is the same with the function that stores the value at position 3.\<close>

definition mt_newindex_function :: "('s, 'n) lua_lib \<Rightarrow> lua_type_info_t \<Rightarrow> (nat \<Rightarrow> string \<Rightarrow> int \<Rightarrow> 's \<Rightarrow> (nat \<times> 's) exc) \<Rightarrow> 's \<Rightarrow> (nat \<times> 's) exc" where
  "mt_newindex_function L ti prop s = (case l_tolstring L s 2 of (None, _) \<Rightarrow> Inl (Runtime_error ''string expected'')
     | (Some key, s1) \<Rightarrow> (case class_field L ti (c_str key) s1 of Inl e \<Rightarrow> Inl e
         | Inr s2 \<Rightarrow> (case to_userdata L s2 (- 1) of Some a \<Rightarrow> prop a (c_str key) 3 (l_pop L s2 1) | None \<Rightarrow> Inr (1, s2))))"

text \<open>
  The functions of a property: \<open>field\<close> reads the member of an object and is missing if the member pointer is null. Storing gives
  the members of all objects afterwards.
\<close>

definition process_index :: "('s, 'n) lua_lib \<Rightarrow> lua_type_info_t \<Rightarrow> ('s, 'a) lua_op_t \<Rightarrow> (nat \<Rightarrow> 'a) option \<Rightarrow> nat set \<Rightarrow> 's \<Rightarrow> (nat \<times> 's) exc" where
  "process_index L ti op field objs s = (case userdata_to_object L ti s of Inl e \<Rightarrow> Inl e
     | Inr (obj, s1) \<Rightarrow> (case field of None \<Rightarrow> Inr (0, s1)
         | Some m \<Rightarrow> (if obj \<notin> objs then Inl Dangling else case push_stack op s1 (m obj) of Inl e \<Rightarrow> Inl e | Inr s2 \<Rightarrow> Inr (1, s2))))"

definition process_newindex :: "('s, 'n) lua_lib \<Rightarrow> lua_type_info_t \<Rightarrow> ('s, 'a) lua_op_t \<Rightarrow> (nat \<Rightarrow> 'a) option \<Rightarrow> nat set \<Rightarrow> int \<Rightarrow> 's
    \<Rightarrow> ((nat \<Rightarrow> 'a) option \<times> 's) exc option" where
  "process_newindex L ti op field objs value_index s = (case userdata_to_object L ti s of Inl e \<Rightarrow> Some (Inl e)
     | Inr (obj, s1) \<Rightarrow> (case field of None \<Rightarrow> Some (Inr (None, s1))
         | Some m \<Rightarrow> (case lua_to_value op s1 value_index (init_value op) of None \<Rightarrow> None | Some (Inl e) \<Rightarrow> Some (Inl e)
             | Some (Inr (x, s2)) \<Rightarrow> (if obj \<notin> objs then Some (Inl Dangling) else Some (Inr (Some (m(obj := x)), s2))))))"

subsection \<open>Making, using and deleting objects\<close>

fun read_args :: "('s \<Rightarrow> int \<Rightarrow> ('v \<times> 's) exc option) list \<Rightarrow> int \<Rightarrow> 's \<Rightarrow> ('v list \<times> 's) exc option" where
  "read_args [] p s = Some (Inr ([], s))"
| "read_args (r # rs) p s = (case r s p of None \<Rightarrow> None | Some (Inl e) \<Rightarrow> Some (Inl e)
     | Some (Inr (v, s1)) \<Rightarrow> (case read_args rs (p + 1) s1 of None \<Rightarrow> None | Some (Inl e) \<Rightarrow> Some (Inl e)
         | Some (Inr (vs, s2)) \<Rightarrow> Some (Inr (v # vs, s2))))"


definition delete_function :: "('s, 'n) lua_lib \<Rightarrow> lua_type_info_t \<Rightarrow> nat set \<Rightarrow> 's \<Rightarrow> (nat set \<times> 's) exc" where
  "delete_function L ti objs s = (case userdata_to_object_ptr_address L ti s of Inl e \<Rightarrow> Inl e
     | Inr a \<Rightarrow> (let x = l_block_get L s a in if x \<noteq> 0 \<and> x \<notin> objs then Inl Dangling else Inr (objs - {x}, l_block_put L s a 0)))"

text \<open>A method: \<open>ret\<close> pushes the result, and is missing for \<open>void\<close>. Calling a method of an object that is gone is undefined.\<close>

definition class_function :: "('s, 'n) lua_lib \<Rightarrow> lua_type_info_t \<Rightarrow> ('s \<Rightarrow> int \<Rightarrow> ('v \<times> 's) exc option) list \<Rightarrow> (nat \<Rightarrow> 'v list \<Rightarrow> 'r) \<Rightarrow> ('s \<Rightarrow> 'r \<Rightarrow> 's exc) option
    \<Rightarrow> nat set \<Rightarrow> 's \<Rightarrow> (nat \<times> 's) exc option" where
  "class_function L ti readers real_func ret objs s = (case userdata_to_object L ti s of Inl e \<Rightarrow> Some (Inl e)
     | Inr (obj, s1) \<Rightarrow> (case read_args readers 2 s1 of None \<Rightarrow> None | Some (Inl e) \<Rightarrow> Some (Inl e)
         | Some (Inr (vs, s2)) \<Rightarrow> (if obj \<notin> objs then Some (Inl Dangling)
             else case ret of None \<Rightarrow> Some (Inr (0, s2))
               | Some push \<Rightarrow> (case push s2 (real_func obj vs) of Inl e \<Rightarrow> Some (Inl e) | Inr s3 \<Rightarrow> Some (Inr (1, s3))))))"

definition plain_function :: "('s \<Rightarrow> int \<Rightarrow> ('v \<times> 's) exc option) list \<Rightarrow> ('v list \<Rightarrow> 'r) \<Rightarrow> ('s \<Rightarrow> 'r \<Rightarrow> 's exc) option \<Rightarrow> 's \<Rightarrow> (nat \<times> 's) exc option" where
  "plain_function readers real_func ret s = (case read_args readers 1 s of None \<Rightarrow> None | Some (Inl e) \<Rightarrow> Some (Inl e)
     | Some (Inr (vs, s2)) \<Rightarrow> (case ret of None \<Rightarrow> Some (Inr (0, s2))
         | Some push \<Rightarrow> (case push s2 (real_func vs) of Inl e \<Rightarrow> Some (Inl e) | Inr s3 \<Rightarrow> Some (Inr (1, s3)))))"

subsection \<open>Registering\<close>




definition and_exc :: "'a exc \<Rightarrow> ('a \<Rightarrow> 'b exc) \<Rightarrow> 'b exc" where
  "and_exc x f = (case x of Inl e \<Rightarrow> Inl e | Inr y \<Rightarrow> f y)"

definition push_copy :: "('s, 'n) lua_lib \<Rightarrow> int \<Rightarrow> 's \<Rightarrow> 's" where
  "push_copy L p s = l_push L s (case l_value L s p of Some v \<Rightarrow> v | None \<Rightarrow> LNil)"




definition def_class_func :: "('s, 'n) lua_lib \<Rightarrow> string \<Rightarrow> nat \<Rightarrow> string \<Rightarrow> 's \<Rightarrow> 's exc" where
  "def_class_func L class_name f func_name s =
     (let s1 = l_pushcclosure L (snd (l_newuserdata L s)) f 1;
          s2 = push_copy L (- 3) (l_push L (l_reg_metatable L s1 (to_metatable_name class_name)) (LString (c_str func_name)))
      in and_exc (l_settable L s2 (- 3)) (\<lambda>s3. Inr (l_pop L s3 2)))"

definition def_class_property :: "('s, 'n) lua_lib \<Rightarrow> lua_type_info_t \<Rightarrow> string \<Rightarrow> 's \<Rightarrow> 's exc" where
  "def_class_property L ti property_name s =
     (let s1 = snd (l_newuserdata L s); udata_index = int (l_gettop L s1);
          s2 = push_copy L udata_index (l_push L (l_reg_metatable L s1 (ti_name ti)) (LString (c_str property_name)))
      in and_exc (l_settable L s2 (- 3)) (\<lambda>s3. Inr (l_remove L (l_pop L s3 1) udata_index)))"

definition def_func :: "('s, 'n) lua_lib \<Rightarrow> nat \<Rightarrow> string \<Rightarrow> 's \<Rightarrow> 's" where
  "def_func L f func_name s = l_setglobal L (l_pushcclosure L (snd (l_newuserdata L s)) f 1) (c_str func_name)"

text \<open>\<open>def\<close> picks by the type of what is registered: a function, a method with or without \<open>const\<close>, or a member.\<close>

datatype def_arg =
    Def_function nat
  | Def_method nat
  | Def_member

definition fflua_def :: "('s, 'n) lua_lib \<Rightarrow> string \<Rightarrow> lua_type_info_t \<Rightarrow> def_arg \<Rightarrow> string \<Rightarrow> 's \<Rightarrow> 's exc" where
  "fflua_def L class_name ti arg n s = (case arg of Def_function f \<Rightarrow> Inr (def_func L f n s)
     | Def_method f \<Rightarrow> def_class_func L class_name f n s | Def_member \<Rightarrow> def_class_property L ti n s)"

subsection \<open>Facts about the laws of classes\<close>

lemma lua_gettop: "lua_laws L V \<Longrightarrow> l_gettop L s = length (lstack (V s))"
  by (simp add: lua_laws_def class_laws_def meta_laws_def)

lemma lua_remove: "lua_laws L V \<Longrightarrow> slot (lstack (V s)) p = Some i \<Longrightarrow> V (l_remove L s p) = (V s)\<lparr>lstack := take i (lstack (V s)) @ drop (Suc i) (lstack (V s))\<rparr>"
  by (simp add: lua_laws_def class_laws_def meta_laws_def)

lemma lua_reg: "lua_laws L V \<Longrightarrow> V (l_reg_metatable L s n) = (V s)\<lparr>lstack := lstack (V s) @ [lreg (V s) n]\<rparr>"
  by (simp add: lua_laws_def class_laws_def meta_laws_def)





lemma lua_getfield:
  "lua_laws L V \<Longrightarrow> at (lstack (V s)) p = Some (LTable t) \<Longrightarrow> ltab (V s) t = Some es \<Longrightarrow>
    \<exists>s'. l_getfield L s p key = Inr s' \<and> V s' = (V s)\<lparr>lstack := lstack (V s) @ [field_of es key]\<rparr>"
  unfolding lua_laws_def class_laws_def meta_laws_def by blast


lemma lua_closure: "lua_laws L V \<Longrightarrow> lstack (V s) = st @ ups \<Longrightarrow> n = length ups \<Longrightarrow> V (l_pushcclosure L s f n) = (V s)\<lparr>lstack := st @ [LFunction f]\<rparr>"
  unfolding lua_laws_def class_laws_def meta_laws_def by blast

lemma lua_newuserdata:
  "lua_laws L V \<Longrightarrow> \<exists>a s' b. l_newuserdata L s = (a, s') \<and> a \<noteq> 0 \<and> lblock (V s) a = None \<and>
    V s' = (V s)\<lparr>lstack := lstack (V s) @ [LUdata a], lmeta := (lmeta (V s))(a := LNil), lblock := (lblock (V s))(a \<mapsto> b)\<rparr>"
  unfolding lua_laws_def class_laws_def udata_laws_def by blast

lemma lua_block_put: "lua_laws L V \<Longrightarrow> lblock (V s) a \<noteq> None \<Longrightarrow> V (l_block_put L s a x) = (V s)\<lparr>lblock := (lblock (V s))(a \<mapsto> x)\<rparr>"
  by (simp add: lua_laws_def class_laws_def udata_laws_def)

lemma lua_block_get: "lua_laws L V \<Longrightarrow> lblock (V s) a = Some x \<Longrightarrow> l_block_get L s a = x"
  by (simp add: lua_laws_def class_laws_def udata_laws_def)

lemma lua_setmetatable:
  "lua_laws L V \<Longrightarrow> lstack (V s) = st @ [LUdata a, m] \<Longrightarrow> V (l_setmetatable L s (- 2)) = (V s)\<lparr>lstack := st @ [LUdata a], lmeta := (lmeta (V s))(a := m)\<rparr>"
  by (simp add: lua_laws_def class_laws_def udata_laws_def)

lemma lua_getmetatable_law:
  "lua_laws L V \<Longrightarrow> \<forall>s p a. at (lstack (V s)) p = Some (LUdata a) \<longrightarrow> (\<exists>s'. l_getmetatable L s p = (lmeta (V s) a \<noteq> LNil, s') \<and>
    V s' = (if lmeta (V s) a = LNil then V s else (V s)\<lparr>lstack := lstack (V s) @ [lmeta (V s) a]\<rparr>))"
  unfolding lua_laws_def class_laws_def udata_laws_def by (elim conjE)

lemma lua_getmetatable:
  assumes "lua_laws L V" "at (lstack (V s)) p = Some (LUdata a)" "lmeta (V s) a \<noteq> LNil"
  shows "\<exists>s'. l_getmetatable L s p = (True, s') \<and> V s' = (V s)\<lparr>lstack := lstack (V s) @ [lmeta (V s) a]\<rparr>"
  using lua_getmetatable_law [OF assms(1), rule_format, OF assms(2)] assms(3) by simp

lemma lua_checkudata_law:
  "lua_laws L V \<Longrightarrow> \<forall>s p n. (case at (lstack (V s)) p of
      Some (LUdata a) \<Rightarrow> if lmeta (V s) a = lreg (V s) n \<and> lreg (V s) n \<noteq> LNil then l_checkudata L s p n = Inr a else (\<exists>e. l_checkudata L s p n = Inl (Runtime_error e))
    | _ \<Rightarrow> \<exists>e. l_checkudata L s p n = Inl (Runtime_error e))"
  unfolding lua_laws_def class_laws_def udata_laws_def by (elim conjE)

lemma lua_checkudata:
  assumes "lua_laws L V" "at (lstack (V s)) p = Some (LUdata a)" "lmeta (V s) a = lreg (V s) n" "lreg (V s) n \<noteq> LNil"
  shows "l_checkudata L s p n = Inr a"
  using lua_checkudata_law [OF assms(1), rule_format, of s p n] assms(2-4) by simp

lemma lua_checkudata_other:
  assumes "lua_laws L V" "at (lstack (V s)) p = Some (LUdata a)" "lmeta (V s) a \<noteq> lreg (V s) n"
  shows "\<exists>e. l_checkudata L s p n = Inl (Runtime_error e)"
  using lua_checkudata_law [OF assms(1), rule_format, of s p n] assms(2,3) by simp

subsection \<open>Which userdata is an object of a class\<close>

lemma at_snoc [simp]: "at (st @ [u, v, w]) (- 1) = Some w" "at (st @ [u, v, w]) (- 2) = Some v"
  by (simp_all add: at_def slot_def nth_append)

lemma check_meta_effect:
  assumes "lua_laws L V" "lstack (V s) = st @ [LTable m]" "ltab (V s) m = Some em"
  shows "\<exists>s'. check_meta L ti s = Inr (LTable m = lreg (V s) (ti_name ti) \<or> field_of em ''inherit_table'' = lreg (V s) (ti_name ti), s') \<and> V s' = (V s)\<lparr>lstack := st\<rparr>"
proof -
  define s1 where "s1 = l_reg_metatable L s (ti_name ti)"
  have s1: "V s1 = (V s)\<lparr>lstack := st @ [LTable m, lreg (V s) (ti_name ti)]\<rparr>" using assms(2) by (simp add: s1_def lua_reg [OF assms(1)])
  obtain s2 where s2: "l_getfield L s1 (- 2) ''inherit_table'' = Inr s2" "V s2 = (V s1)\<lparr>lstack := lstack (V s1) @ [field_of em ''inherit_table'']\<rparr>"
    using lua_getfield [OF assms(1), of s1 "- 2" m em "''inherit_table''"] s1 assms(3) by auto
  have e1: "raw_equal L s1 (- 1) (- 2) \<longleftrightarrow> LTable m = lreg (V s) (ti_name ti)"
    by (auto simp: raw_equal_def lua_value [OF assms(1)] s1)
  have e2: "raw_equal L s2 (- 1) (- 2) \<longleftrightarrow> field_of em ''inherit_table'' = lreg (V s) (ti_name ti)"
    by (auto simp: raw_equal_def lua_value [OF assms(1)] s1 s2(2))
  show ?thesis unfolding check_meta_def Let_def s1_def [symmetric] e1 s2(1)
    by (auto simp: e2 lua_pop [OF assms(1)] s1 s2(2))
qed

text \<open>
  Which userdata passes for an object. A block with a metatable is taken as an object of a class exactly if its metatable is
  the class's, or the \<open>inherit_table\<close> of its metatable is the class's and its pointer is not null: the base class is found, a class
  further up is not. The stack is left as it was.
\<close>

lemma object_type_check:
  assumes "lua_laws L V" "lstack (V s) = LUdata a # args" "lmeta (V s) a = LTable m" "ltab (V s) m = Some em" "lblock (V s) a = Some x" "is_registed ti"
  shows "if x \<noteq> 0 \<and> (LTable m = lreg (V s) (ti_name ti) \<or> field_of em ''inherit_table'' = lreg (V s) (ti_name ti))
    then \<exists>s'. userdata_to_object L ti s = Inr (x, s') \<and> V s' = V s else \<exists>e. userdata_to_object L ti s = Inl (Runtime_error e)"
proof -
  let ?same = "LTable m = lreg (V s) (ti_name ti) \<or> field_of em ''inherit_table'' = lreg (V s) (ti_name ti)"
  have a: "at (lstack (V s)) 1 = Some (LUdata a)" using assms(2) by (simp add: at_def slot_def)
  obtain s1 where s1: "l_getmetatable L s 1 = (True, s1)" "V s1 = (V s)\<lparr>lstack := lstack (V s) @ [LTable m]\<rparr>"
    using lua_getmetatable [OF assms(1) a] assms(3) by auto
  obtain s2 where s2: "check_meta L ti s1 = Inr (LTable m = lreg (V s) (ti_name ti) \<or> field_of em ''inherit_table'' = lreg (V s) (ti_name ti), s2)" "V s2 = V s"
    using check_meta_effect [OF assms(1), of s1 "lstack (V s)" m em ti] s1(2) assms(4) by auto
  have x: "l_block_get L s2 a = x" by (rule lua_block_get [OF assms(1)]) (simp add: s2(2) assms(5))
  have u: "to_userdata L s 1 = Some a" by (simp add: to_userdata_def lua_value [OF assms(1)] a)
  have "userdata_to_object L ti s = (if \<not> ?same then Inl (Runtime_error ''type convert failed'')
      else if x = 0 then Inl (Runtime_error ''object ptr can't be null'') else Inr (x, s2))"
    by (simp only: userdata_to_object_def assms(6) u s1(1) s2(1) x not_True_eq_False if_False option.case prod.case bool.case sum.case)
  then show ?thesis using s2(2) by (cases "x = 0"; cases ?same) simp_all
qed

subsection \<open>Looking up fields\<close>

lemma at_length [simp]: "at (st @ [v]) (1 + int (length st)) = Some v"
  by (simp add: at_def slot_def nat_add_distrib)

lemma slot_length [simp]: "slot (st @ [v, w]) (1 + int (length st)) = Some (length st)"
  by (simp add: slot_def nat_add_distrib)

lemma meta_field_table:
  assumes "lua_laws L V" "lreg (V s) n = LTable t" "ltab (V s) t = Some es"
  shows "\<exists>s'. meta_field L n key s = Inr s' \<and> V s' = (V s)\<lparr>lstack := lstack (V s) @ [field_of es key]\<rparr>"
proof -
  define s1 where "s1 = l_reg_metatable L s n"
  have s1: "V s1 = (V s)\<lparr>lstack := lstack (V s) @ [LTable t]\<rparr>" using assms(2) by (simp add: s1_def lua_reg [OF assms(1)])
  obtain s2 where s2: "l_getfield L s1 (- 1) key = Inr s2" "V s2 = (V s)\<lparr>lstack := lstack (V s) @ [LTable t, field_of es key]\<rparr>"
    using lua_getfield [OF assms(1), of s1 "- 1" t es key] s1 assms(3) by auto
  have "V (l_remove L s2 (1 + int (length (lstack (V s))))) = (V s)\<lparr>lstack := lstack (V s) @ [field_of es key]\<rparr>"
    by (subst lua_remove [OF assms(1), where i = "length (lstack (V s))"]) (simp_all add: s2(2))
  then show ?thesis using s2(1) by (simp add: meta_field_def s1_def [symmetric] lua_gettop [OF assms(1)] s1)
qed


lemma class_field_own:
  assumes "lua_laws L V" "lreg (V s) (ti_name ti) = LTable t" "ltab (V s) t = Some es" "field_of es key \<noteq> LNil \<or> \<not> is_inherit ti"
  shows "\<exists>s'. class_field L ti key s = Inr s' \<and> V s' = (V s)\<lparr>lstack := lstack (V s) @ [field_of es key]\<rparr>"
  using meta_field_table [OF assms(1-3), of key] assms(4) by (auto simp: class_field_def lua_value [OF assms(1)])




subsection \<open>What registering a class does\<close>

lemma key_like_string [simp]: "key_like L (LString x)"
  by (simp add: key_like_def)


lemma and_exc_simps [simp]: "and_exc (Inr x) f = f x" "and_exc (Inl e) f = Inl e"
  by (simp_all add: and_exc_def)








subsection \<open>Fields of a registered class\<close>


lemma metatable_name_no_nul [simp]: "CHR 0x00 \<notin> set (to_metatable_name n)"
  by (auto simp: to_metatable_name_def c_str_def dest: set_takeWhileD)

lemma metatable_name_nonempty [simp]: "to_metatable_name n \<noteq> []"
  by (simp add: to_metatable_name_def c_str_def)









subsection \<open>The life of an object\<close>

text \<open>A frame in which the first argument is a userdata of the class, whose block has the pointer \<open>x\<close>.\<close>

definition object_frame :: "'n lua_view \<Rightarrow> lua_type_info_t \<Rightarrow> nat \<Rightarrow> nat \<Rightarrow> bool" where
  "object_frame v ti a x \<longleftrightarrow> (\<exists>m em args. lstack v = LUdata a # args \<and> lmeta v a = LTable m \<and> lreg v (ti_name ti) = LTable m \<and> ltab v m = Some em \<and> lblock v a = Some x)"

lemma frame_object:
  assumes "lua_laws L V" "is_registed ti" "object_frame (V s) ti a x"
  shows "if x = 0 then \<exists>e. userdata_to_object L ti s = Inl (Runtime_error e) else \<exists>s'. userdata_to_object L ti s = Inr (x, s') \<and> V s' = V s"
proof -
  obtain m em args where f: "lstack (V s) = LUdata a # args" "lmeta (V s) a = LTable m" "lreg (V s) (ti_name ti) = LTable m" "ltab (V s) m = Some em" "lblock (V s) a = Some x"
    using assms(3) by (auto simp: object_frame_def)
  show ?thesis using object_type_check [OF assms(1) f(1,2,4,5) assms(2)] f(3) by (cases "x = 0") simp_all
qed

lemma frame_delete:
  assumes "lua_laws L V" "is_registed ti" "object_frame (V s) ti a x" "x = 0 \<or> x \<in> objs"
  shows "\<exists>s'. delete_function L ti objs s = Inr (objs - {x}, s') \<and> V s' = (V s)\<lparr>lblock := (lblock (V s))(a \<mapsto> 0)\<rparr> \<and> object_frame (V s') ti a 0"
proof -
  obtain m em args where f: "lstack (V s) = LUdata a # args" "lmeta (V s) a = LTable m" "lreg (V s) (ti_name ti) = LTable m" "ltab (V s) m = Some em" "lblock (V s) a = Some x"
    using assms(3) by (auto simp: object_frame_def)
  have "l_checkudata L s 1 (ti_name ti) = Inr a" by (rule lua_checkudata [OF assms(1)]) (simp_all add: f at_def slot_def)
  moreover have "l_block_get L s a = x" by (rule lua_block_get [OF assms(1) f(5)])
  ultimately have d: "delete_function L ti objs s = Inr (objs - {x}, l_block_put L s a 0)"
    using assms(2,4) by (simp add: delete_function_def userdata_to_object_ptr_address_def)
  have v: "V (l_block_put L s a 0) = (V s)\<lparr>lblock := (lblock (V s))(a \<mapsto> 0)\<rparr>" by (rule lua_block_put [OF assms(1)]) (simp add: f(5))
  show ?thesis using d v f by (auto simp: object_frame_def)
qed






subsection \<open>Passing objects to Lua and back\<close>

lemma push_object:
  assumes "lua_laws L V" "lreg (V s) (ti_name ti) = m"
  shows "\<exists>a s'. push_stack (op_object L ti) s x = Inr s' \<and> a \<noteq> 0 \<and> lblock (V s) a = None \<and>
    V s' = (V s)\<lparr>lstack := lstack (V s) @ [LUdata a], lmeta := (lmeta (V s))(a := m), lblock := (lblock (V s))(a \<mapsto> x)\<rparr>"
proof -
  obtain a s2 b where 2: "l_newuserdata L s = (a, s2)" "a \<noteq> 0" "lblock (V s) a = None"
      "V s2 = (V s)\<lparr>lstack := lstack (V s) @ [LUdata a], lmeta := (lmeta (V s))(a := LNil), lblock := (lblock (V s))(a \<mapsto> b)\<rparr>"
    using lua_newuserdata [OF assms(1), of s] by blast
  define s3 where "s3 = l_block_put L s2 a x"
  have 3: "V s3 = (V s2)\<lparr>lblock := (lblock (V s2))(a \<mapsto> x)\<rparr>" unfolding s3_def by (rule lua_block_put [OF assms(1)]) (simp add: 2(4))
  define s4 where "s4 = l_setmetatable L (l_reg_metatable L s3 (ti_name ti)) (- 2)"
  have 4: "V s4 = (V s)\<lparr>lstack := lstack (V s) @ [LUdata a], lmeta := (lmeta (V s))(a := m), lblock := (lblock (V s))(a \<mapsto> x)\<rparr>"
    unfolding s4_def by (subst lua_setmetatable [OF assms(1)]) (auto simp: lua_reg [OF assms(1)] 3 2(4) assms(2) intro!: lua_view.equality)
  have "push_stack (op_object L ti) s x = Inr s4" by (simp add: op_object_def 2(1) s3_def s4_def)
  then show ?thesis using 2(2,3) 4 by blast
qed

lemma read_object:
  assumes "lua_laws L V" "at (lstack (V s)) p = Some (LUdata a)" "lmeta (V s) a = LTable m" "ltab (V s) m = Some em" "lblock (V s) a = Some x" "is_registed ti"
    and same: "LTable m = lreg (V s) (ti_name ti) \<or> field_of em ''inherit_table'' = lreg (V s) (ti_name ti)" and "x \<noteq> 0"
  shows "\<exists>s'. lua_to_value (op_object L ti) s p d = Some (Inr (x, s')) \<and> get_ret_value (op_object L ti) s p d = Some (Inr (False, x, s')) \<and> V s' = V s"
proof -
  obtain s1 where s1: "l_getmetatable L s p = (True, s1)" "V s1 = (V s)\<lparr>lstack := lstack (V s) @ [LTable m]\<rparr>"
    using lua_getmetatable [OF assms(1,2)] assms(3) by auto
  obtain s2 where s2: "check_meta L ti s1 = Inr (True, s2)" "V s2 = V s"
    using check_meta_effect [OF assms(1), of s1 "lstack (V s)" m em ti] s1(2) assms(4) same by auto
  have x: "l_block_get L s2 a = x" by (rule lua_block_get [OF assms(1)]) (simp add: s2(2) assms(5))
  have u: "to_userdata L s p = Some a" by (simp add: to_userdata_def lua_value [OF assms(1)] assms(2))
  show ?thesis by (intro exI [of _ s2]) (simp add: op_object_def assms(6) u s1(1) s2 x assms(8))
qed

text \<open>
  Objects go to Lua and come back. A pointer pushed as an object of a registered class is read back, as an argument and as a
  result, as the same pointer, both as that class and as the base it was registered with, and the stack keeps the value.
\<close>

lemma object_roundtrip:
  assumes "lua_laws L V" "lreg (V s) (ti_name ti) = LTable m" "ltab (V s) m = Some em" "is_registed tb" "x \<noteq> 0"
    and "ti_name tb = ti_name ti \<or> field_of em ''inherit_table'' = lreg (V s) (ti_name tb)"
  shows "\<exists>s1 s2 a. push_stack (op_object L ti) s x = Inr s1 \<and> lstack (V s1) = lstack (V s) @ [LUdata a] \<and> V s2 = V s1 \<and>
    lua_to_value (op_object L tb) s1 (- 1) d = Some (Inr (x, s2)) \<and> get_ret_value (op_object L tb) s1 (- 1) d = Some (Inr (False, x, s2))"
proof -
  obtain a s1 where s1: "push_stack (op_object L ti) s x = Inr s1"
      "V s1 = (V s)\<lparr>lstack := lstack (V s) @ [LUdata a], lmeta := (lmeta (V s))(a := LTable m), lblock := (lblock (V s))(a \<mapsto> x)\<rparr>"
    using push_object [OF assms(1,2), of x] by blast
  obtain s2 where "lua_to_value (op_object L tb) s1 (- 1) d = Some (Inr (x, s2)) \<and> get_ret_value (op_object L tb) s1 (- 1) d = Some (Inr (False, x, s2)) \<and> V s2 = V s1"
    using read_object [OF assms(1), of s1 "- 1" a m em x tb d] s1(2) assms by auto
  then show ?thesis using s1 by auto
qed

text \<open>Two userdata for one object: after \<open>delete\<close> through one of them, a method called through the other runs on the deleted object.\<close>

lemma second_userdata_dangles:
  assumes "lua_laws L V" "is_registed ti" "object_frame (V s) ti a x" "x \<in> objs" "x \<noteq> 0" "lmeta (V s) b = lmeta (V s) a" "lblock (V s) b = Some x" "b \<noteq> a"
  shows "\<exists>s1. delete_function L ti objs s = Inr (objs - {x}, s1) \<and>
    (\<forall>s2 args. V s2 = (V s1)\<lparr>lstack := LUdata b # args\<rparr> \<longrightarrow> class_function L ti [] f ret (objs - {x}) s2 = Some (Inl Dangling))"
proof -
  obtain s1 where d: "delete_function L ti objs s = Inr (objs - {x}, s1)" "V s1 = (V s)\<lparr>lblock := (lblock (V s))(a \<mapsto> 0)\<rparr>"
    using frame_delete [OF assms(1-3)] assms(4) by blast
  have "class_function L ti [] f ret (objs - {x}) s2 = Some (Inl Dangling)" if v: "V s2 = (V s1)\<lparr>lstack := LUdata b # args\<rparr>" for s2 args
  proof -
    have "object_frame (V s2) ti b x" using assms(3,6-8) by (auto simp: object_frame_def v d(2))
    from frame_object [OF assms(1,2) this] assms(5) show ?thesis by (auto simp: class_function_def)
  qed
  then show ?thesis using d(1) by blast
qed

subsection \<open>Registering methods and properties\<close>

lemma enter_field:
  assumes "lua_laws L V" "lstack (V s) = st @ [LTable m, LString key, v]" "ltab (V s) m = Some em" "distinct (map fst em)" "v \<noteq> LNil"
  shows "\<exists>s' em'. l_settable L s (- 3) = Inr s' \<and> distinct (map fst em') \<and> map_of em' = (map_of em)(LString key \<mapsto> v) \<and>
    V s' = (V s)\<lparr>lstack := st @ [LTable m], ltab := (ltab (V s))(m \<mapsto> em')\<rparr>"
  using lua_settable_at [OF assms(1), of s "st @ [LTable m]" "LString key" v "- 3" m em] assms(2-5) by (simp add: at_def slot_def nth_append)

lemma field_of_upd: "map_of es' = (map_of es)(LString k \<mapsto> v) \<Longrightarrow> field_of es' key = (if key = k then v else field_of es key)"
  by (simp add: field_of_def)

text \<open>
  After a method is defined for a registered class, looking up its name finds the function; after a property is defined,
  looking it up finds a new userdata. Both leave the stack as it was.
\<close>

lemma def_class_func_found:
  assumes "lua_laws L V" "lreg (V s) (to_metatable_name c) = LTable m" "ltab (V s) m = Some em" "distinct (map fst em)" "ti_name ti = to_metatable_name c"
  shows "\<exists>s1 s2. def_class_func L c f name s = Inr s1 \<and> lstack (V s1) = lstack (V s) \<and>
      class_field L ti (c_str name) s1 = Inr s2 \<and> lstack (V s2) = lstack (V s) @ [LFunction f]"
proof -
  let ?st = "lstack (V s)"
  obtain a s1 b where 1: "l_newuserdata L s = (a, s1)" "lblock (V s) a = None"
      "V s1 = (V s)\<lparr>lstack := ?st @ [LUdata a], lmeta := (lmeta (V s))(a := LNil), lblock := (lblock (V s))(a \<mapsto> b)\<rparr>"
    using lua_newuserdata [OF assms(1), of s] by blast
  note steps = lua_push [OF assms(1)] lua_reg [OF assms(1)] lua_value [OF assms(1)]
  define s2 where "s2 = l_pushcclosure L s1 f 1"
  have 2: "V s2 = (V s1)\<lparr>lstack := ?st @ [LFunction f]\<rparr>" unfolding s2_def by (rule lua_closure [OF assms(1), where ups = "[LUdata a]"]) (simp_all add: 1(3))
  define s3 where "s3 = push_copy L (- 3) (l_push L (l_reg_metatable L s2 (to_metatable_name c)) (LString (c_str name)))"
  have 3: "V s3 = (V s1)\<lparr>lstack := (?st @ [LFunction f]) @ [LTable m, LString (c_str name), LFunction f]\<rparr>"
    by (simp add: s3_def push_copy_def steps 2 1(3) assms(2))
  obtain s4 em' where 4: "l_settable L s3 (- 3) = Inr s4" "map_of em' = (map_of em)(LString (c_str name) \<mapsto> LFunction f)"
      "V s4 = (V s3)\<lparr>lstack := (?st @ [LFunction f]) @ [LTable m], ltab := (ltab (V s3))(m \<mapsto> em')\<rparr>"
    using enter_field [OF assms(1), of s3 "?st @ [LFunction f]" m "c_str name" "LFunction f" em] 3 1(3) assms(3,4) by auto
  let ?s5 = "l_pop L s4 2"
  have 5: "V ?s5 = (V s1)\<lparr>lstack := ?st, ltab := (ltab (V s1))(m \<mapsto> em')\<rparr>" by (simp add: lua_pop [OF assms(1)] 4(3) 3)
  have "def_class_func L c f name s = Inr ?s5" unfolding def_class_func_def Let_def 1(1) snd_conv s2_def [symmetric] s3_def [symmetric] 4(1) by simp
  moreover have "\<exists>s6. class_field L ti (c_str name) ?s5 = Inr s6 \<and> V s6 = (V ?s5)\<lparr>lstack := lstack (V ?s5) @ [field_of em' (c_str name)]\<rparr>"
    by (rule class_field_own [OF assms(1), where t = m and es = em']) (simp_all add: 5 1(3) assms(2,5) field_of_upd [OF 4(2)])
  ultimately show ?thesis using 5 by (auto simp: field_of_upd [OF 4(2)])
qed

lemma def_class_property_found:
  assumes "lua_laws L V" "lreg (V s) (to_metatable_name c) = LTable m" "ltab (V s) m = Some em" "distinct (map fst em)" "ti_name ti = to_metatable_name c"
  shows "\<exists>s1 s2 a. def_class_property L ti name s = Inr s1 \<and> lstack (V s1) = lstack (V s) \<and> lblock (V s) a = None \<and>
      class_field L ti (c_str name) s1 = Inr s2 \<and> lstack (V s2) = lstack (V s) @ [LUdata a]"
proof -
  let ?st = "lstack (V s)"
  obtain a s1 b where 1: "l_newuserdata L s = (a, s1)" "lblock (V s) a = None"
      "V s1 = (V s)\<lparr>lstack := ?st @ [LUdata a], lmeta := (lmeta (V s))(a := LNil), lblock := (lblock (V s))(a \<mapsto> b)\<rparr>"
    using lua_newuserdata [OF assms(1), of s] by blast
  note steps = lua_push [OF assms(1)] lua_reg [OF assms(1)] lua_value [OF assms(1)]
  let ?i = "1 + int (length ?st)"
  define s3 where "s3 = push_copy L ?i (l_push L (l_reg_metatable L s1 (ti_name ti)) (LString (c_str name)))"
  have i: "at (?st @ [LUdata a, u, w]) ?i = Some (LUdata a)" for u w by (simp add: at_def slot_def nat_add_distrib)
  have 3: "V s3 = (V s1)\<lparr>lstack := (?st @ [LUdata a]) @ [LTable m, LString (c_str name), LUdata a]\<rparr>"
    by (simp add: s3_def push_copy_def steps 1(3) assms(2,5) i)
  obtain s4 em' where 4: "l_settable L s3 (- 3) = Inr s4" "map_of em' = (map_of em)(LString (c_str name) \<mapsto> LUdata a)"
      "V s4 = (V s3)\<lparr>lstack := (?st @ [LUdata a]) @ [LTable m], ltab := (ltab (V s3))(m \<mapsto> em')\<rparr>"
    using enter_field [OF assms(1), of s3 "?st @ [LUdata a]" m "c_str name" "LUdata a" em] 3 1(3) assms(3,4) by auto
  define s5 where "s5 = l_remove L (l_pop L s4 1) ?i"
  have p: "V (l_pop L s4 1) = (V s1)\<lparr>lstack := ?st @ [LUdata a], ltab := (ltab (V s1))(m \<mapsto> em')\<rparr>" by (simp add: lua_pop [OF assms(1)] 4(3) 3)
  have 5: "V s5 = (V s1)\<lparr>lstack := ?st, ltab := (ltab (V s1))(m \<mapsto> em')\<rparr>"
    unfolding s5_def by (subst lua_remove [OF assms(1), where i = "length ?st"]) (simp_all add: p [unfolded One_nat_def] slot_def nat_add_distrib)
  have "def_class_property L ti name s = Inr s5"
    by (simp add: def_class_property_def 1(1) lua_gettop [OF assms(1)] 1(3) s3_def [symmetric] 4(1) s5_def)
  moreover have "\<exists>s6. class_field L ti (c_str name) s5 = Inr s6 \<and> V s6 = (V s5)\<lparr>lstack := lstack (V s5) @ [field_of em' (c_str name)]\<rparr>"
    by (rule class_field_own [OF assms(1), where t = m and es = em']) (simp_all add: 5 1(3) assms(2,5) field_of_upd [OF 4(2)])
  ultimately show ?thesis using 5 1(2) by (auto simp: field_of_upd [OF 4(2)])
qed

lemma fflua_def_stack:
  assumes "lua_laws L V" "lreg (V s) (to_metatable_name c) = LTable m" "ltab (V s) m = Some em" "distinct (map fst em)" "ti_name ti = to_metatable_name c"
  shows "\<exists>s'. fflua_def L c ti arg n s = Inr s' \<and> lstack (V s') = lstack (V s)"
proof (cases arg)
  case (Def_function f)
  obtain a s1 b where 1: "l_newuserdata L s = (a, s1)" "V s1 = (V s)\<lparr>lstack := lstack (V s) @ [LUdata a], lmeta := (lmeta (V s))(a := LNil), lblock := (lblock (V s))(a \<mapsto> b)\<rparr>"
    using lua_newuserdata [OF assms(1), of s] by blast
  have "V (l_pushcclosure L s1 f 1) = (V s1)\<lparr>lstack := lstack (V s) @ [LFunction f]\<rparr>"
    by (rule lua_closure [OF assms(1), where ups = "[LUdata a]"]) (simp_all add: 1(2))
  then have "lstack (V (l_setglobal L (l_pushcclosure L s1 f 1) (c_str n))) = lstack (V s)"
    using lua_setglobal [OF assms(1), of "l_pushcclosure L s1 f 1" "lstack (V s)" "LFunction f" "c_str n"] by simp
  then show ?thesis by (simp add: fflua_def_def Def_function def_func_def 1(1))
next
  case (Def_method f)
  then show ?thesis using def_class_func_found [OF assms, of f n] by (auto simp: fflua_def_def)
next
  case Def_member
  then show ?thesis using def_class_property_found [OF assms, of n] by (auto simp: fflua_def_def)
qed

end
