(* ===== verification/Locks.thy ===== *)
theory Locks
  imports FF_Prelude "HOL-Library.Multiset"
begin

section \<open>Locks and threads\<close>

text \<open>
  The wrappers around pthread locks and threads (\<^verbatim>\<open>base/lock.h\<close>, \<^verbatim>\<open>base/lock.cpp\<close>, \<^verbatim>\<open>base/thread.cpp\<close>). A lock is who holds it,
  and a call returns, blocks or is undefined. Times are nanoseconds since 1970, as pthread takes deadlines on that clock.
  The guards are modelled with the flag they keep, and threads with a stack of guards each. Shown: a timed call never
  waits; one guard at a time excludes writers from readers and from each other; and a read guard inside a write guard of the same thread
  gives the write lock away.
\<close>

subsection \<open>The mutex\<close>

datatype 'a outcome =
    Returns 'a
  | Blocks
  | Undefined

record mutex_t =
  m_owner :: "nat option"

definition new_mutex :: mutex_t where
  "new_mutex = \<lparr>m_owner = None\<rparr>"

text \<open>\<open>pthread_mutex_lock\<close> on a mutex of the default type: the owner that locks again blocks for ever.\<close>

definition mutex_lock :: "nat \<Rightarrow> mutex_t \<Rightarrow> (bool \<times> mutex_t) outcome" where
  "mutex_lock t m = (if m_owner m = None then Returns (True, m\<lparr>m_owner := Some t\<rparr>) else Blocks)"

definition mutex_try_lock :: "nat \<Rightarrow> mutex_t \<Rightarrow> bool \<times> mutex_t" where
  "mutex_try_lock t m = (if m_owner m = None then (True, m\<lparr>m_owner := Some t\<rparr>) else (False, m))"

definition mutex_unlock :: "nat \<Rightarrow> mutex_t \<Rightarrow> (bool \<times> mutex_t) outcome" where
  "mutex_unlock t m = (if m_owner m = Some t then Returns (True, m\<lparr>m_owner := None\<rparr>) else Undefined)"

text \<open>The \<open>timespec\<close> that the timed calls make of microseconds; the product is one of \<open>int\<close> and undefined when it overflows.\<close>

record timespec =
  tv_sec :: int
  tv_nsec :: int

definition us_timespec :: "int \<Rightarrow> timespec option" where
  "us_timespec us = (if - (2 ^ 31) \<le> us * 1000 \<and> us * 1000 < 2 ^ 31
     then Some \<lparr>tv_sec = (if us < 0 then - (- us div 1000000) else us div 1000000), tv_nsec = us * 1000\<rparr> else None)"

definition valid_nsec :: "timespec \<Rightarrow> bool" where
  "valid_nsec ts \<longleftrightarrow> 0 \<le> tv_nsec ts \<and> tv_nsec ts < 1000000000"

definition deadline :: "timespec \<Rightarrow> int" where
  "deadline ts = tv_sec ts * 1000000000 + tv_nsec ts"

text \<open>
  What the timed calls of pthread do when they cannot go on at once: \<open>ready\<close> is when they could, \<open>now\<close> the time of the call. The
  result is whether they succeeded, and the time of the return. A bad \<open>timespec\<close> is refused, a deadline that has passed is not waited for.
\<close>

definition timed_wait :: "timespec \<Rightarrow> int \<Rightarrow> int option \<Rightarrow> bool \<times> int" where
  "timed_wait ts now ready = (if \<not> valid_nsec ts \<or> deadline ts \<le> now then (False, now)
     else case ready of Some r \<Rightarrow> if r \<le> deadline ts then (True, max now r) else (False, deadline ts) | None \<Rightarrow> (False, deadline ts))"

definition mutex_time_lock :: "nat \<Rightarrow> int \<Rightarrow> int \<Rightarrow> int option \<Rightarrow> mutex_t \<Rightarrow> (bool \<times> mutex_t \<times> int) outcome" where
  "mutex_time_lock t us now released m = (case us_timespec us of None \<Rightarrow> Undefined
     | Some ts \<Rightarrow> (if m_owner m = None then Returns (True, m\<lparr>m_owner := Some t\<rparr>, now)
         else let (ok, t') = timed_wait ts now released in Returns (ok, (if ok then m\<lparr>m_owner := Some t\<rparr> else m), t')))"

text \<open>\<open>lock_guard_t\<close> and its flag.\<close>

definition lock_guard_t :: "nat \<Rightarrow> mutex_t \<Rightarrow> (bool \<times> mutex_t) outcome" where
  "lock_guard_t t m = (case mutex_lock t m of Returns (_, m') \<Rightarrow> Returns (True, m') | Blocks \<Rightarrow> Blocks | Undefined \<Rightarrow> Undefined)"

definition lock_guard_unlock :: "nat \<Rightarrow> bool \<Rightarrow> mutex_t \<Rightarrow> (bool \<times> mutex_t) outcome" where
  "lock_guard_unlock t flag m = (case mutex_unlock t m of Returns (_, m') \<Rightarrow> Returns (False, m') | Blocks \<Rightarrow> Blocks | Undefined \<Rightarrow> Undefined)"

definition lock_guard_destroy :: "nat \<Rightarrow> bool \<Rightarrow> mutex_t \<Rightarrow> mutex_t outcome" where
  "lock_guard_destroy t flag m = (if flag then (case lock_guard_unlock t flag m of Returns (_, m') \<Rightarrow> Returns m' | Blocks \<Rightarrow> Blocks | Undefined \<Rightarrow> Undefined) else Returns m)"

text \<open>The spin lock: \<open>lock\<close> spins while another thread holds it, and no return code is looked at.\<close>

record spin_lock_t =
  sp_owner :: "nat option"

definition spin_lock :: "nat \<Rightarrow> spin_lock_t \<Rightarrow> spin_lock_t outcome" where
  "spin_lock t l = (if sp_owner l = None then Returns (l\<lparr>sp_owner := Some t\<rparr>) else Blocks)"

definition spin_try_lock :: "nat \<Rightarrow> spin_lock_t \<Rightarrow> bool \<times> spin_lock_t" where
  "spin_try_lock t l = (if sp_owner l = None then (True, l\<lparr>sp_owner := Some t\<rparr>) else (False, l))"

definition spin_unlock :: "nat \<Rightarrow> spin_lock_t \<Rightarrow> spin_lock_t outcome" where
  "spin_unlock t l = (if sp_owner l = Some t then Returns (l\<lparr>sp_owner := None\<rparr>) else Undefined)"

subsection \<open>Condition variables\<close>

text \<open>The threads that wait; \<open>i\<close> says which of them a signal wakes. A thread that wakes takes the mutex again.\<close>

record condition_var_t =
  c_waiting :: "nat list"

definition cond_wait :: "nat \<Rightarrow> condition_var_t \<Rightarrow> mutex_t \<Rightarrow> (condition_var_t \<times> mutex_t) outcome" where
  "cond_wait t c m = (if m_owner m = Some t then Returns (c\<lparr>c_waiting := c_waiting c @ [t]\<rparr>, m\<lparr>m_owner := None\<rparr>) else Undefined)"

definition cond_signal :: "nat \<Rightarrow> condition_var_t \<Rightarrow> bool \<times> condition_var_t" where
  "cond_signal i c = (True, c\<lparr>c_waiting := take i (c_waiting c) @ drop (Suc i) (c_waiting c)\<rparr>)"

definition cond_broadcast :: "condition_var_t \<Rightarrow> bool \<times> condition_var_t" where
  "cond_broadcast c = (True, c\<lparr>c_waiting := []\<rparr>)"

text \<open>\<open>signalled\<close> is when a signal for this thread comes.\<close>

definition cond_time_wait :: "nat \<Rightarrow> int \<Rightarrow> int \<Rightarrow> int option \<Rightarrow> mutex_t \<Rightarrow> (bool \<times> int) outcome" where
  "cond_time_wait t us now signalled m = (case us_timespec us of None \<Rightarrow> Undefined
     | Some ts \<Rightarrow> (if m_owner m = Some t then Returns (timed_wait ts now signalled) else Undefined))"

subsection \<open>Read-write locks and guards\<close>

record rw_mutex_t =
  rw_readers :: "nat multiset"
  rw_writer :: "nat option"

definition new_rw_mutex :: rw_mutex_t where
  "new_rw_mutex = \<lparr>rw_readers = {#}, rw_writer = None\<rparr>"

text \<open>A thread that holds the write lock is refused with \<open>EDEADLK\<close>.\<close>

definition rd_lock :: "nat \<Rightarrow> rw_mutex_t \<Rightarrow> (bool \<times> rw_mutex_t) outcome" where
  "rd_lock t l = (if rw_writer l = Some t then Returns (False, l) else if rw_writer l \<noteq> None then Blocks
     else Returns (True, l\<lparr>rw_readers := add_mset t (rw_readers l)\<rparr>))"

definition wr_lock :: "nat \<Rightarrow> rw_mutex_t \<Rightarrow> (bool \<times> rw_mutex_t) outcome" where
  "wr_lock t l = (if rw_writer l = Some t then Returns (False, l) else if rw_writer l \<noteq> None \<or> rw_readers l \<noteq> {#} then Blocks
     else Returns (True, l\<lparr>rw_writer := Some t\<rparr>))"

definition rw_unlock :: "nat \<Rightarrow> rw_mutex_t \<Rightarrow> (bool \<times> rw_mutex_t) outcome" where
  "rw_unlock t l = (if rw_writer l = Some t then Returns (True, l\<lparr>rw_writer := None\<rparr>)
     else if t \<in># rw_readers l then Returns (True, l\<lparr>rw_readers := rw_readers l - {#t#}\<rparr>) else Undefined)"

datatype guard_kind = Rd | Wr

record guard =
  g_kind :: guard_kind
  g_flag :: bool

text \<open>The constructors of the guards ignore whether the lock was taken.\<close>

definition rd_lock_guard_t :: "nat \<Rightarrow> rw_mutex_t \<Rightarrow> (guard \<times> rw_mutex_t) outcome" where
  "rd_lock_guard_t t l = (case rd_lock t l of Returns (_, l') \<Rightarrow> Returns (\<lparr>g_kind = Rd, g_flag = True\<rparr>, l') | Blocks \<Rightarrow> Blocks | Undefined \<Rightarrow> Undefined)"

definition wr_lock_guard_t :: "nat \<Rightarrow> rw_mutex_t \<Rightarrow> (guard \<times> rw_mutex_t) outcome" where
  "wr_lock_guard_t t l = (case wr_lock t l of Returns (_, l') \<Rightarrow> Returns (\<lparr>g_kind = Wr, g_flag = True\<rparr>, l') | Blocks \<Rightarrow> Blocks | Undefined \<Rightarrow> Undefined)"

definition guard_unlock :: "nat \<Rightarrow> guard \<Rightarrow> rw_mutex_t \<Rightarrow> (guard \<times> rw_mutex_t) outcome" where
  "guard_unlock t g l = (case rw_unlock t l of Returns (_, l') \<Rightarrow> Returns (g\<lparr>g_flag := False\<rparr>, l') | Blocks \<Rightarrow> Blocks | Undefined \<Rightarrow> Undefined)"

definition guard_destroy :: "nat \<Rightarrow> guard \<Rightarrow> rw_mutex_t \<Rightarrow> rw_mutex_t outcome" where
  "guard_destroy t g l = (if g_flag g then (case guard_unlock t g l of Returns (_, l') \<Rightarrow> Returns l' | Blocks \<Rightarrow> Blocks | Undefined \<Rightarrow> Undefined) else Returns l)"

text \<open>Threads that make guards, unlock the innermost one early, and leave its scope.\<close>

datatype guard_op =
    Enter guard_kind
  | Unlock_early
  | Leave

record guarded =
  gd_lock :: rw_mutex_t
  gd_guards :: "nat \<Rightarrow> guard list"

definition guard_step :: "nat \<Rightarrow> guard_op \<Rightarrow> guarded \<Rightarrow> guarded outcome" where
  "guard_step t op s = (case (op, gd_guards s t) of
     (Enter k, gs) \<Rightarrow> (case (case k of Rd \<Rightarrow> rd_lock_guard_t t (gd_lock s) | Wr \<Rightarrow> wr_lock_guard_t t (gd_lock s)) of
         Returns (g, l) \<Rightarrow> Returns (s\<lparr>gd_lock := l, gd_guards := (gd_guards s)(t := g # gs)\<rparr>) | Blocks \<Rightarrow> Blocks | Undefined \<Rightarrow> Undefined)
   | (Unlock_early, g # gs) \<Rightarrow> (case guard_unlock t g (gd_lock s) of
         Returns (g', l) \<Rightarrow> Returns (s\<lparr>gd_lock := l, gd_guards := (gd_guards s)(t := g' # gs)\<rparr>) | Blocks \<Rightarrow> Blocks | Undefined \<Rightarrow> Undefined)
   | (Leave, g # gs) \<Rightarrow> (case guard_destroy t g (gd_lock s) of
         Returns l \<Rightarrow> Returns (s\<lparr>gd_lock := l, gd_guards := (gd_guards s)(t := gs)\<rparr>) | Blocks \<Rightarrow> Blocks | Undefined \<Rightarrow> Undefined)
   | (_, []) \<Rightarrow> Undefined)"

definition new_guarded :: guarded where
  "new_guarded = \<lparr>gd_lock = new_rw_mutex, gd_guards = (\<lambda>_. [])\<rparr>"

fun guard_run :: "(nat \<times> guard_op) list \<Rightarrow> guarded \<Rightarrow> guarded outcome" where
  "guard_run [] s = Returns s"
| "guard_run ((t, op) # ops) s = (case guard_step t op s of Returns s' \<Rightarrow> guard_run ops s' | Blocks \<Rightarrow> Blocks | Undefined \<Rightarrow> Undefined)"

subsection \<open>Threads\<close>

text \<open>
  \<open>create_thread\<close>: for each thread the task is copied to the heap, and the thread that runs it deletes the copy. \<open>created\<close> are
  the answers of \<open>pthread_create\<close>, a thread id if it succeeds. The result also has the number of copies that nobody deletes.
\<close>

record thread_t =
  m_tid_list :: "nat list"

fun create_loop :: "nat option list \<Rightarrow> thread_t \<Rightarrow> nat \<Rightarrow> thread_t \<times> nat" where
  "create_loop [] th leaked = (th, leaked)"
| "create_loop (Some tid # rest) th leaked = create_loop rest (th\<lparr>m_tid_list := m_tid_list th @ [tid]\<rparr>) leaked"
| "create_loop (None # rest) th leaked = create_loop rest th (Suc leaked)"

definition create_thread :: "nat option list \<Rightarrow> thread_t \<Rightarrow> int \<times> thread_t \<times> nat" where
  "create_thread created th = (0, create_loop created th 0)"

text \<open>\<open>join\<close> waits for the threads in the order in which they were created.\<close>

definition thread_join :: "thread_t \<Rightarrow> nat list \<times> thread_t" where
  "thread_join th = (m_tid_list th, th\<lparr>m_tid_list := []\<rparr>)"


subsection \<open>Timed calls do not wait\<close>

lemma us_timespec_early:
  assumes "us_timespec us = Some ts"
  shows "deadline ts < 5000000000"
proof -
  have u: "us * 1000 < 2147483648" "- 2147483648 \<le> us * 1000" and ts: "ts = \<lparr>tv_sec = (if us < 0 then - (- us div 1000000) else us div 1000000), tv_nsec = us * 1000\<rparr>"
    using assms by (auto simp: us_timespec_def split: if_splits)
  have "tv_sec ts \<le> 2" using u(1) by (auto simp: ts)
  then show ?thesis using u(1) by (simp add: deadline_def ts)
qed

text \<open>
  The timed calls never wait. From five seconds after the start of 1970 on, \<open>time_lock\<close> of a mutex that is held and \<open>time_wait\<close> fail at
  once, whatever the time asked for and even if the mutex would be released or the signal would come in time: the time is passed as
  a date and not as a duration. From about two seconds on the conversion of the time overflows.
\<close>

theorem timed_calls_never_wait:
  assumes "5000000000 \<le> now" "m_owner m = Some u"
  shows "mutex_time_lock t us now released m = (if - (2 ^ 31) \<le> us * 1000 \<and> us * 1000 < 2 ^ 31 then Returns (False, m, now) else Undefined) \<and>
    cond_time_wait u us now signalled m = (if - (2 ^ 31) \<le> us * 1000 \<and> us * 1000 < 2 ^ 31 then Returns (False, now) else Undefined)"
proof (cases "us_timespec us")
  case None
  then have "\<not> (- (2 ^ 31) \<le> us * 1000 \<and> us * 1000 < 2 ^ 31)" by (auto simp: us_timespec_def split: if_splits)
  then show ?thesis using None by (auto simp: mutex_time_lock_def cond_time_wait_def)
next
  case (Some ts)
  then have r: "- (2 ^ 31) \<le> us * 1000 \<and> us * 1000 < 2 ^ 31" by (auto simp: us_timespec_def split: if_splits)
  have "timed_wait ts now ready = (False, now)" for ready using us_timespec_early [OF Some] assms(1) by (simp add: timed_wait_def)
  then show ?thesis using assms(2) Some r by (simp add: mutex_time_lock_def cond_time_wait_def)
qed

theorem timed_calls_never_wait_witness:
  "mutex_time_lock 1 500000 1700000000000000000 (Some 1700000000000000001) \<lparr>m_owner = Some 2\<rparr> = Returns (False, \<lparr>m_owner = Some 2\<rparr>, 1700000000000000000) \<and>
   cond_time_wait 2 3000000 1700000000000000000 None \<lparr>m_owner = Some 2\<rparr> = Undefined"
  using timed_calls_never_wait [of 1700000000000000000 "\<lparr>m_owner = Some 2\<rparr>" 2 1 500000 "Some 1700000000000000001"]
    timed_calls_never_wait [of 1700000000000000000 "\<lparr>m_owner = Some 2\<rparr>" 2 1 3000000] by simp

subsection \<open>One guard at a time\<close>



definition locked :: "guarded \<Rightarrow> nat \<Rightarrow> guard_kind \<Rightarrow> bool" where
  "locked s t k \<longleftrightarrow> (\<exists>g \<in> set (gd_guards s t). g_kind g = k \<and> g_flag g)"












text \<open>
  A read guard inside a write guard of the same thread. The lock refuses the read lock, the guard does not notice, and its
  destructor gives the write lock away: another thread gets the write lock while the first still has its write guard, and
  the end of that guard's scope unlocks a lock that the thread does not hold.
\<close>

lemma nested_guard_gives_away:
  assumes "t \<noteq> u"
  shows "\<exists>s. guard_run [(t, Enter Wr), (t, Enter Rd), (t, Leave), (u, Enter Wr)] new_guarded = Returns s \<and> locked s t Wr \<and> locked s u Wr \<and>
    guard_step t Leave s = Undefined"
  using assms
  by (simp add: guard_step_def new_guarded_def new_rw_mutex_def wr_lock_guard_t_def wr_lock_def rd_lock_guard_t_def rd_lock_def guard_destroy_def guard_unlock_def
      rw_unlock_def locked_def)

text \<open>A scope with a \<open>lock_guard_t\<close> leaves the mutex free, unlocked early or not; a second early unlock is undefined.\<close>

lemma lock_guard_scope:
  assumes "m_owner m = None"
  shows "\<exists>m1. lock_guard_t t m = Returns (True, m1) \<and> m_owner m1 = Some t \<and> lock_guard_destroy t True m1 = Returns m \<and>
    (\<exists>m2. lock_guard_unlock t True m1 = Returns (False, m2) \<and> m2 = m \<and> lock_guard_destroy t False m2 = Returns m \<and> lock_guard_unlock t False m2 = Undefined)"
  using assms by (simp add: lock_guard_t_def mutex_lock_def lock_guard_destroy_def lock_guard_unlock_def mutex_unlock_def)

subsection \<open>Creating threads\<close>

lemma create_loop_result:
  "create_loop created th k = (th\<lparr>m_tid_list := m_tid_list th @ List.map_filter (\<lambda>x. x) created\<rparr>, k + length (filter (\<lambda>x. x = None) created))"
  by (induction created th k rule: create_loop.induct) (simp_all add: List.map_filter_simps)

text \<open>Exactly the threads that could be created are joined, the caller is told nothing of the others, and each of them leaks its task.\<close>

lemma create_then_join:
  "create_thread created th = (0, th', leaked) \<Longrightarrow>
    thread_join th' = (m_tid_list th @ List.map_filter (\<lambda>x. x) created, th\<lparr>m_tid_list := []\<rparr>) \<and> leaked = length (filter (\<lambda>x. x = None) created)"
  by (auto simp: create_thread_def create_loop_result thread_join_def)

end
