(* ===== verification/Ffai.thy ===== *)
theory Ffai
  imports FF_Prelude
begin

section \<open>The state machine\<close>

text \<open>
  \<open>ffstate_machine_t\<close> of \<^verbatim>\<open>ai/ffai.h\<close>. The states are objects with virtual methods that user code writes; a method may change the state of
  the machine that calls it. So the methods are a parameter, \<open>code\<close>: what a method asks \<open>change\<close> for, one after the other, given
  the user's data. The calls nest, and \<open>exec\<close> runs them over a stack of what is left to do; it may run for ever, so it is a partial function.
  The machine and the running calls of \<open>change\<close> keep references to states; \<open>owned\<close> are the states others keep.
\<close>

datatype hook = Hook_enter | Hook_update | Hook_exit | Hook_handle

record 'u ffstate_machine_t =
  m_previous_state :: "nat option"
  m_current_state :: "nat option"
  fsm_user :: 'u
  fsm_calls :: "(hook \<times> nat) list"
  fsm_gone :: "nat list"

type_synonym 'u hook_code = "hook \<Rightarrow> nat \<Rightarrow> 'u \<Rightarrow> nat option list \<times> 'u"

text \<open>
  \<open>Change\<close> is a call of \<open>change\<close> and \<open>Assign\<close> its second half, which holds the new state; \<open>Call\<close> runs a method of a state and
  \<open>Return_from\<close> is the end of it, where \<open>fsm_gone\<close> notes a state that was destroyed meanwhile.
\<close>

datatype work =
    Change "nat option"
  | Assign "nat option"
  | Call hook nat
  | Return_from nat

definition held :: "work list \<Rightarrow> nat set" where
  "held ws = {x. Assign (Some x) \<in> set ws}"

definition state_alive :: "nat set \<Rightarrow> work list \<Rightarrow> 'u ffstate_machine_t \<Rightarrow> nat \<Rightarrow> bool" where
  "state_alive owned ws s x \<longleftrightarrow> m_previous_state s = Some x \<or> m_current_state s = Some x \<or> x \<in> owned \<or> x \<in> held ws"

definition call_if :: "hook \<Rightarrow> nat option \<Rightarrow> work list" where
  "call_if h x = (case x of Some c \<Rightarrow> [Call h c] | None \<Rightarrow> [])"

partial_function (option) exec :: "'u hook_code \<Rightarrow> nat set \<Rightarrow> work list \<Rightarrow> 'u ffstate_machine_t \<Rightarrow> 'u ffstate_machine_t option" where
  "exec code owned ws s = (case ws of [] \<Rightarrow> Some s
     | Change n # rest \<Rightarrow> exec code owned (call_if Hook_exit (m_current_state s) @ Assign n # rest) (s\<lparr>m_previous_state := m_current_state s\<rparr>)
     | Assign n # rest \<Rightarrow> exec code owned (call_if Hook_enter n @ rest) (s\<lparr>m_current_state := n\<rparr>)
     | Call h c # rest \<Rightarrow> exec code owned (map Change (fst (code h c (fsm_user s))) @ Return_from c # rest)
         (s\<lparr>fsm_user := snd (code h c (fsm_user s)), fsm_calls := fsm_calls s @ [(h, c)]\<rparr>)
     | Return_from c # rest \<Rightarrow> exec code owned rest (if state_alive owned rest s c then s else s\<lparr>fsm_gone := fsm_gone s @ [c]\<rparr>))"

definition fsm_change :: "'u hook_code \<Rightarrow> nat set \<Rightarrow> nat option \<Rightarrow> 'u ffstate_machine_t \<Rightarrow> 'u ffstate_machine_t option" where
  "fsm_change code owned n s = exec code owned [Change n] s"

definition fsm_update :: "'u hook_code \<Rightarrow> nat set \<Rightarrow> 'u ffstate_machine_t \<Rightarrow> 'u ffstate_machine_t option" where
  "fsm_update code owned s = exec code owned (call_if Hook_update (m_current_state s)) s"

definition fsm_handle :: "'u hook_code \<Rightarrow> nat set \<Rightarrow> 'u ffstate_machine_t \<Rightarrow> 'u ffstate_machine_t option" where
  "fsm_handle code owned s = exec code owned (call_if Hook_handle (m_current_state s)) s"

definition new_fsm :: "'u \<Rightarrow> 'u ffstate_machine_t" where
  "new_fsm u = \<lparr>m_previous_state = None, m_current_state = None, fsm_user = u, fsm_calls = [], fsm_gone = []\<rparr>"

subsection \<open>Running one step\<close>

lemma exec_simps:
  "exec code owned [] s = Some s"
  "exec code owned (Change n # rest) s = exec code owned (call_if Hook_exit (m_current_state s) @ Assign n # rest) (s\<lparr>m_previous_state := m_current_state s\<rparr>)"
  "exec code owned (Assign n # rest) s = exec code owned (call_if Hook_enter n @ rest) (s\<lparr>m_current_state := n\<rparr>)"
  "exec code owned (Call h c # rest) s = exec code owned (map Change (fst (code h c (fsm_user s))) @ Return_from c # rest)
     (s\<lparr>fsm_user := snd (code h c (fsm_user s)), fsm_calls := fsm_calls s @ [(h, c)]\<rparr>)"
  "exec code owned (Return_from c # rest) s = exec code owned rest (if state_alive owned rest s c then s else s\<lparr>fsm_gone := fsm_gone s @ [c]\<rparr>)"
  by (subst exec.simps, simp)+

text \<open>Methods that do not change the state when they run as \<open>enter\<close> or \<open>exit\<close> and leave the user's data alone.\<close>

definition quiet :: "'u hook_code \<Rightarrow> bool" where
  "quiet code \<longleftrightarrow> (\<forall>c u. code Hook_enter c u = ([], u) \<and> code Hook_exit c u = ([], u))"

definition change_calls :: "nat option \<Rightarrow> nat option \<Rightarrow> (hook \<times> nat) list" where
  "change_calls old n = (case old of Some c \<Rightarrow> [(Hook_exit, c)] | None \<Rightarrow> []) @ (case n of Some c \<Rightarrow> [(Hook_enter, c)] | None \<Rightarrow> [])"

lemma exec_quiet_change:
  assumes "quiet code"
  shows "exec code owned (Change n # rest) s = exec code owned rest
    (s\<lparr>m_previous_state := m_current_state s, m_current_state := n, fsm_calls := fsm_calls s @ change_calls (m_current_state s) n\<rparr>)"
  using assms by (cases s; cases "m_current_state s"; cases n) (simp_all add: exec_simps call_if_def quiet_def state_alive_def change_calls_def)

lemma exec_quiet_changes:
  assumes "quiet code"
  shows "exec code owned (map Change ns @ rest) s = exec code owned rest
    (foldl (\<lambda>s n. s\<lparr>m_previous_state := m_current_state s, m_current_state := n, fsm_calls := fsm_calls s @ change_calls (m_current_state s) n\<rparr>) s ns)"
  by (induction ns arbitrary: s) (simp_all add: exec_quiet_change [OF assms])

subsection \<open>Changing the state\<close>

definition leaves :: "nat \<Rightarrow> work list \<Rightarrow> bool" where
  "leaves c ws \<longleftrightarrow> (case ws of Change n # rest \<Rightarrow> True | Call h c' # rest \<Rightarrow> h = Hook_exit \<and> c' = c | _ \<Rightarrow> False)"

lemma exit_change_loops:
  assumes "exec code owned ws s = Some r"
  shows "(\<forall>u. fst (code Hook_exit c u) \<noteq> []) \<longrightarrow> m_current_state s = Some c \<longrightarrow> \<not> leaves c ws"
proof (rule exec.raw_induct [where P = "\<lambda>code owned ws s r. (\<forall>u. fst (code Hook_exit c u) \<noteq> []) \<longrightarrow> m_current_state s = Some c \<longrightarrow> \<not> leaves c ws", OF _ assms], goal_cases)
  case (1 ex code owned ws s r)
  note ih = 1(1) and eq = 1(2)
  show ?case
  proof (intro impI notI)
    assume a: "\<forall>u. fst (code Hook_exit c u) \<noteq> []" "m_current_state s = Some c" "leaves c ws"
    then consider n rest where "ws = Change n # rest" | rest where "ws = Call Hook_exit c # rest" by (auto simp: leaves_def split: list.splits work.splits)
    then show False
    proof cases
      case (1 n rest)
      then have "ex code owned (Call Hook_exit c # Assign n # rest) (s\<lparr>m_previous_state := Some c\<rparr>) = Some r" using eq a(2) by (simp add: call_if_def)
      from ih [OF this] a(1,2) show False by (simp add: leaves_def)
    next
      case (2 rest)
      obtain n ns where n: "fst (code Hook_exit c (fsm_user s)) = n # ns" using a(1) by (meson list.exhaust)
      let ?s = "s\<lparr>fsm_user := snd (code Hook_exit c (fsm_user s)), fsm_calls := fsm_calls s @ [(Hook_exit, c)]\<rparr>"
      have "ex code owned (Change n # map Change ns @ Return_from c # rest) ?s = Some r" using eq 2 n by simp
      from ih [OF this] a(1,2) show False by (simp add: leaves_def)
    qed
  qed
qed

text \<open>
  (C35) A change of state. With methods \<open>enter\<close> and \<open>exit\<close> that do not change the state themselves, \<open>change\<close> returns, the old state is
  the previous one and the new one the current one, and exactly \<open>exit\<close> of the old and then \<open>enter\<close> of the new state ran. If \<open>exit\<close>
  of the current state asks for a change, however often it was asked before, \<open>change\<close> never returns: the state being left is still the current one,
  and is left again.
\<close>

theorem fsm_change_result:
  "(quiet code \<longrightarrow> fsm_change code owned n s =
      Some (s\<lparr>m_previous_state := m_current_state s, m_current_state := n, fsm_calls := fsm_calls s @ change_calls (m_current_state s) n\<rparr>)) \<and>
   (m_current_state s = Some c \<and> (\<forall>u. fst (code Hook_exit c u) \<noteq> []) \<longrightarrow> fsm_change code owned n s = None)"
proof (intro conjI impI)
  show "fsm_change code owned n s = Some (s\<lparr>m_previous_state := m_current_state s, m_current_state := n, fsm_calls := fsm_calls s @ change_calls (m_current_state s) n\<rparr>)"
    if "quiet code" unfolding fsm_change_def exec_quiet_change [OF that] by (rule exec_simps(1))
  show "fsm_change code owned n s = None" if "m_current_state s = Some c \<and> (\<forall>u. fst (code Hook_exit c u) \<noteq> [])"
  proof (rule ccontr)
    assume "fsm_change code owned n s \<noteq> None"
    then obtain r where "exec code owned [Change n] s = Some r" by (auto simp: fsm_change_def)
    then show False using exit_change_loops [of code owned "[Change n]" s r c] that by (simp add: leaves_def)
  qed
qed

theorem fsm_change_result_witness:
  "fsm_change (\<lambda>_ _ u. ([], u)) {} (Some 2) ((new_fsm ())\<lparr>m_current_state := Some 1\<rparr>) =
     Some \<lparr>m_previous_state = Some 1, m_current_state = Some 2, fsm_user = (), fsm_calls = [(Hook_exit, 1), (Hook_enter, 2)], fsm_gone = []\<rparr> \<and>
   fsm_change (\<lambda>h _ u. (if h = Hook_exit then [Some 3] else [], u)) {} (Some 2) ((new_fsm ())\<lparr>m_current_state := Some 1\<rparr>) = None"
  using fsm_change_result [of "\<lambda>_ _ u. ([], u)" "{}" "Some 2" "(new_fsm ())\<lparr>m_current_state := Some 1\<rparr>"]
    fsm_change_result [of "\<lambda>h _ u. (if h = Hook_exit then [Some 3] else [], u)" "{}" "Some 2" "(new_fsm ())\<lparr>m_current_state := Some 1\<rparr>" 1]
  by (simp add: quiet_def new_fsm_def change_calls_def)

subsection \<open>Changing the state while it runs\<close>

definition changed :: "'u ffstate_machine_t \<Rightarrow> nat option list \<Rightarrow> 'u ffstate_machine_t" where
  "changed s ns = foldl (\<lambda>s n. s\<lparr>m_previous_state := m_current_state s, m_current_state := n, fsm_calls := fsm_calls s @ change_calls (m_current_state s) n\<rparr>) s ns"

lemma changed_snoc: "changed s (ns @ [n]) = (changed s ns)\<lparr>m_previous_state := m_current_state (changed s ns), m_current_state := n,
    fsm_calls := fsm_calls (changed s ns) @ change_calls (m_current_state (changed s ns)) n\<rparr>"
  by (simp add: changed_def)

lemma changed_Nil: "changed s [] = s"
  by (simp add: changed_def)

lemma changed_last: "m_previous_state (changed s (ns @ [b, c])) = b" "m_current_state (changed s (ns @ [b, c])) = c"
  using changed_snoc [of s "ns @ [b]" c] changed_snoc [of s ns b] by simp_all

lemma changed_gone: "fsm_gone (changed s ns) = fsm_gone s"
  by (induction ns rule: rev_induct) (simp_all add: changed_Nil changed_snoc)

text \<open>
  \<open>update\<close> of a state whose method changes the state \<open>length ns\<close> times: the state is destroyed under its running method exactly if
  it is neither of the last two states and nobody else keeps it, so one change is safe and two are not.
\<close>

lemma update_destroys:
  assumes "quiet code" "m_current_state s = Some a" "code Hook_update a (fsm_user s) = (ns, u)"
  shows "\<exists>s'. fsm_update code owned s = Some s' \<and> (length ns \<le> 1 \<longrightarrow> fsm_gone s' = fsm_gone s) \<and>
    (\<forall>b c ns'. ns = ns' @ [b, c] \<longrightarrow> m_previous_state s' = b \<and> m_current_state s' = c \<and>
      fsm_gone s' = (if a \<in> owned \<or> b = Some a \<or> c = Some a then fsm_gone s else fsm_gone s @ [a]))"
proof -
  let ?s = "s\<lparr>fsm_user := u, fsm_calls := fsm_calls s @ [(Hook_update, a)]\<rparr>"
  have e: "fsm_update code owned s = exec code owned [Return_from a] (changed ?s ns)"
    by (simp add: fsm_update_def assms(2) call_if_def exec_simps(4) assms(3) exec_quiet_changes [OF assms(1)] changed_def)
  have r: "fsm_update code owned s = Some (if state_alive owned [] (changed ?s ns) a then changed ?s ns else (changed ?s ns)\<lparr>fsm_gone := fsm_gone s @ [a]\<rparr>)"
    by (simp add: e exec_simps changed_gone)
  have one: "state_alive owned [] (changed ?s ns) a" if "length ns \<le> 1"
    using that assms(2) changed_snoc [of ?s "[]"] by (cases ns) (auto simp: changed_Nil state_alive_def)
  show ?thesis unfolding r using one by (auto simp: changed_last changed_gone state_alive_def held_def)
qed

end
