(* ===== verification/Json_Stream.thy ===== *)
theory Json_Stream
  imports Obj_Counter "HOL-Library.Word"
begin

section \<open>Messages as JSON\<close>

text \<open>
  The streams of the message generator (\<^verbatim>\<open>ext/generator/json_instream.h\<close>, \<^verbatim>\<open>json_outstream.h\<close> and their \<^verbatim>\<open>.cpp\<close>) and what they use of the
  value class of RapidJSON (\<^verbatim>\<open>ext/generator/rapidjson/document.h\<close>): which of the integer types a number is said to have, and that
  member names are not copied. Doubles are a type parameter, with the conversion to \<open>float\<close> as an argument. A type's \<open>encode\<close> and
  \<open>decode\<close> are a record; locale \<open>json_conversion\<close> is their contract, and vectors and members inherit it.
\<close>

subsection \<open>Values\<close>

record num_flags =
  f_int :: bool
  f_uint :: bool
  f_int64 :: bool
  f_uint64 :: bool

text \<open>A member name is a text, or a pointer to a buffer that is gone.\<close>

datatype json_name = Name string | Name_gone

datatype 'd json_value_t =
    J_null
  | J_bool bool
  | J_num num_flags int
  | J_double 'd
  | J_str string
  | J_arr "'d json_value_t list"
  | J_obj "(json_name \<times> 'd json_value_t) list"

text \<open>The constructors from \<open>int\<close>, \<open>unsigned\<close>, \<open>int64_t\<close> and \<open>uint64_t\<close> and the flags they set.\<close>

definition num_int :: "int \<Rightarrow> 'd json_value_t" where
  "num_int i = J_num \<lparr>f_int = True, f_uint = (0 \<le> i), f_int64 = True, f_uint64 = (0 \<le> i)\<rparr> i"

definition num_unsigned :: "int \<Rightarrow> 'd json_value_t" where
  "num_unsigned u = J_num \<lparr>f_int = (u < 2 ^ 31), f_uint = True, f_int64 = (u < 2 ^ 31), f_uint64 = True\<rparr> u"

definition num_int64 :: "int \<Rightarrow> 'd json_value_t" where
  "num_int64 i = J_num \<lparr>f_int = (- (2 ^ 31) \<le> i \<and> i < 2 ^ 31), f_uint = (0 \<le> i \<and> i < 2 ^ 32), f_int64 = True, f_uint64 = (0 \<le> i)\<rparr> i"

definition num_uint64 :: "int \<Rightarrow> 'd json_value_t" where
  "num_uint64 u = J_num \<lparr>f_int = (u < 2 ^ 31), f_uint = (u < 2 ^ 32), f_int64 = (u < 2 ^ 63), f_uint64 = True\<rparr> u"

text \<open>The number the reader makes of digits without fraction and exponent that fit 64 bits; \<open>sign\<close> says whether they have a minus sign.\<close>

definition parsed_num :: "bool \<Rightarrow> nat \<Rightarrow> 'd json_value_t" where
  "parsed_num sign n = (if sign then (if n \<le> 2 ^ 31 then num_int (- int n) else num_int64 (- int n))
     else if n < 2 ^ 32 then num_unsigned (int n) else num_uint64 (int n))"

definition find_member :: "(json_name \<times> 'd json_value_t) list \<Rightarrow> string \<Rightarrow> 'd json_value_t" where
  "find_member ms name = (case List.find (\<lambda>m. fst m = Name name) ms of Some (_, v) \<Rightarrow> v | None \<Rightarrow> J_null)"

subsection \<open>Decoding and encoding one type\<close>

record ('d, 'a) json_op =
  j_encode :: "'a \<Rightarrow> 'd json_value_t"
  j_decode :: "'d json_value_t \<Rightarrow> 'a exc"

definition needed :: "string \<Rightarrow> 'a exc" where
  "needed ty = Inl (Runtime_error (ty @ '' field needed''))"

text \<open>Signed types of up to 32 bits are read as \<open>int\<close>, unsigned ones as \<open>unsigned\<close>, and cut to their width.\<close>

definition op_signed :: "string \<Rightarrow> ('d, ('w::len) word) json_op" where
  "op_signed ty = \<lparr>j_encode = (\<lambda>x. num_int (sint x)),
     j_decode = (\<lambda>j. case j of J_num f i \<Rightarrow> (if f_int f then Inr (word_of_int i) else needed ty) | _ \<Rightarrow> needed ty)\<rparr>"

definition op_small_unsigned :: "string \<Rightarrow> ('d, ('w::len) word) json_op" where
  "op_small_unsigned ty = \<lparr>j_encode = (\<lambda>x. num_int (uint x)),
     j_decode = (\<lambda>j. case j of J_num f i \<Rightarrow> (if f_uint f then Inr (word_of_int i) else needed ty) | _ \<Rightarrow> needed ty)\<rparr>"

definition json_int8 :: "('d, 8 word) json_op" where
  "json_int8 = op_signed ''[int8_t]''"

definition json_uint8 :: "('d, 8 word) json_op" where
  "json_uint8 = op_small_unsigned ''[uint8_t]''"

definition json_int16 :: "('d, 16 word) json_op" where
  "json_int16 = op_signed ''[int16_t]''"

definition json_uint16 :: "('d, 16 word) json_op" where
  "json_uint16 = op_small_unsigned ''[uint16_t]''"

definition json_int32 :: "('d, 32 word) json_op" where
  "json_int32 = op_signed ''[int32_t]''"

definition json_uint32 :: "('d, 32 word) json_op" where
  "json_uint32 = \<lparr>j_encode = (\<lambda>x. num_unsigned (uint x)),
     j_decode = (\<lambda>j. case j of J_num f i \<Rightarrow> (if f_uint f then Inr (word_of_int i) else needed ''[int32_t]'') | _ \<Rightarrow> needed ''[int32_t]'')\<rparr>"

definition json_int64 :: "('d, 64 word) json_op" where
  "json_int64 = \<lparr>j_encode = (\<lambda>x. num_int64 (sint x)),
     j_decode = (\<lambda>j. case j of J_num f i \<Rightarrow> (if f_int64 f then Inr (word_of_int i) else needed ''[int64_t]'') | _ \<Rightarrow> needed ''[int64_t]'')\<rparr>"

text \<open>\<open>GetUint64\<close> asserts that the number is an \<open>int64_t\<close>; a failed assertion ends the process.\<close>

definition assert_failed :: exn where
  "assert_failed = Runtime_error ''assert flags_ & kInt64Flag''"

definition json_uint64 :: "('d, 64 word) json_op" where
  "json_uint64 = \<lparr>j_encode = (\<lambda>x. num_uint64 (uint x)),
     j_decode = (\<lambda>j. case j of J_num f i \<Rightarrow> (if f_uint64 f then (if f_int64 f then Inr (word_of_int i) else Inl assert_failed) else needed ''[uint64_t]'') | _ \<Rightarrow> needed ''[uint64_t]'')\<rparr>"

definition json_bool :: "('d, bool) json_op" where
  "json_bool = \<lparr>j_encode = J_bool, j_decode = (\<lambda>j. case j of J_bool b \<Rightarrow> Inr b | _ \<Rightarrow> needed ''[bool]'')\<rparr>"

definition json_float :: "('d \<Rightarrow> 'd) \<Rightarrow> ('d, 'd) json_op" where
  "json_float to_float = \<lparr>j_encode = J_double, j_decode = (\<lambda>j. case j of J_double d \<Rightarrow> Inr (to_float d) | _ \<Rightarrow> needed ''[float]'')\<rparr>"

text \<open>A text is read up to its first zero byte.\<close>

definition json_string :: "('d, string) json_op" where
  "json_string = \<lparr>j_encode = J_str, j_decode = (\<lambda>j. case j of J_str s \<Rightarrow> Inr (c_str s) | _ \<Rightarrow> needed ''[string]'')\<rparr>"

subsection \<open>Containers and members\<close>

text \<open>A vector is read behind what the destination already has.\<close>

fun decode_all :: "('d, 'a) json_op \<Rightarrow> 'd json_value_t list \<Rightarrow> 'a list \<Rightarrow> 'a list exc" where
  "decode_all op [] dest = Inr dest"
| "decode_all op (j # js) dest = (case j_decode op j of Inl e \<Rightarrow> Inl e | Inr x \<Rightarrow> decode_all op js (dest @ [x]))"

definition decode_vector :: "('d, 'a) json_op \<Rightarrow> 'd json_value_t \<Rightarrow> 'a list \<Rightarrow> 'a list exc" where
  "decode_vector op j dest = (case j of J_arr js \<Rightarrow> decode_all op js dest | _ \<Rightarrow> needed ''[Array]'')"

definition json_vector :: "('d, 'a) json_op \<Rightarrow> ('d, 'a list) json_op" where
  "json_vector op = \<lparr>j_encode = (\<lambda>xs. J_arr (map (j_encode op) xs)), j_decode = (\<lambda>j. decode_vector op j [])\<rparr>"

text \<open>
  A map is an object. \<open>show_key\<close> prints a key with \<open>operator<<\<close>; the name of the member points into a string that ends with the
  iteration. Reading, the name is decoded like a value, which is a text.
\<close>

definition encode_map :: "('k \<Rightarrow> string) \<Rightarrow> ('d, 'a) json_op \<Rightarrow> ('k \<times> 'a) list \<Rightarrow> 'd json_value_t" where
  "encode_map show_key op xs = J_obj (map (\<lambda>(k, x). (Name_gone, j_encode op x)) xs)"

fun decode_members :: "('d, 'k) json_op \<Rightarrow> ('d, 'a) json_op \<Rightarrow> (json_name \<times> 'd json_value_t) list \<Rightarrow> ('k \<rightharpoonup> 'a) \<Rightarrow> ('k \<rightharpoonup> 'a) exc" where
  "decode_members kop op [] dest = Inr dest"
| "decode_members kop op ((n, j) # ms) dest = (case n of Name_gone \<Rightarrow> Inl Dangling
     | Name name \<Rightarrow> (case j_decode kop (J_str name) of Inl e \<Rightarrow> Inl e
         | Inr k \<Rightarrow> (case j_decode op j of Inl e \<Rightarrow> Inl e | Inr x \<Rightarrow> decode_members kop op ms (dest(k \<mapsto> x)))))"

definition decode_map :: "('d, 'k) json_op \<Rightarrow> ('d, 'a) json_op \<Rightarrow> 'd json_value_t \<Rightarrow> ('k \<rightharpoonup> 'a) \<Rightarrow> ('k \<rightharpoonup> 'a) exc" where
  "decode_map kop op j dest = (case j of J_obj ms \<Rightarrow> decode_members kop op ms dest | _ \<Rightarrow> needed ''[Dictionary]'')"

text \<open>A member of a message: \<open>encode\<close> appends it, \<open>decode\<close> looks it up; a missing one is null.\<close>

definition encode_member :: "string \<Rightarrow> ('d, 'a) json_op \<Rightarrow> 'a \<Rightarrow> (json_name \<times> 'd json_value_t) list \<Rightarrow> (json_name \<times> 'd json_value_t) list" where
  "encode_member name op x ms = ms @ [(Name name, j_encode op x)]"

definition decode_member :: "string \<Rightarrow> ('d, 'a) json_op \<Rightarrow> (json_name \<times> 'd json_value_t) list \<Rightarrow> 'a exc" where
  "decode_member name op ms = j_decode op (find_member ms name)"

subsection \<open>What was encoded is decoded\<close>

locale json_conversion =
  fixes op :: "('d, 'a) json_op" and ok :: "'a \<Rightarrow> bool"
  assumes json_back: "ok x \<Longrightarrow> j_decode op (j_encode op x) = Inr x"
begin

lemma all_back: "\<forall>x \<in> set xs. ok x \<Longrightarrow> decode_all op (map (j_encode op) xs) dest = Inr (dest @ xs)"
  by (induction xs arbitrary: dest) (simp_all add: json_back)

lemma vector_back: "\<forall>x \<in> set xs. ok x \<Longrightarrow> j_decode (json_vector op) (j_encode (json_vector op) xs) = Inr xs"
  by (simp add: json_vector_def decode_vector_def all_back)

lemma member_back:
  "ok x \<Longrightarrow> Name name \<notin> fst ` set ms \<Longrightarrow> decode_member name op (encode_member name op x ms @ ms') = Inr x"
proof -
  assume "ok x" "Name name \<notin> fst ` set ms"
  then have "List.find (\<lambda>m. fst m = Name name) (ms @ [(Name name, j_encode op x)] @ ms') = Some (Name name, j_encode op x)"
    by (induction ms) auto
  then show ?thesis using \<open>ok x\<close> by (simp add: decode_member_def encode_member_def find_member_def json_back)
qed

end

lemma conversion_vector: "json_conversion op ok \<Longrightarrow> json_conversion (json_vector op) (\<lambda>xs. \<forall>x \<in> set xs. ok x)"
  by (simp add: json_conversion_def json_conversion.vector_back)

lemma signed_back: "json_conversion (op_signed ty) (\<lambda>_. True)"
  by (simp add: json_conversion_def op_signed_def num_int_def)

lemma small_unsigned_back: "json_conversion (op_small_unsigned ty) (\<lambda>_. True)"
  by (simp add: json_conversion_def op_small_unsigned_def num_int_def)

interpretation j8: json_conversion json_int8 "\<lambda>_. True"
  unfolding json_int8_def by (rule signed_back)

interpretation ju8: json_conversion json_uint8 "\<lambda>_. True"
  unfolding json_uint8_def by (rule small_unsigned_back)

interpretation j16: json_conversion json_int16 "\<lambda>_. True"
  unfolding json_int16_def by (rule signed_back)

interpretation ju16: json_conversion json_uint16 "\<lambda>_. True"
  unfolding json_uint16_def by (rule small_unsigned_back)

interpretation j32: json_conversion json_int32 "\<lambda>_. True"
  unfolding json_int32_def by (rule signed_back)

interpretation ju32: json_conversion json_uint32 "\<lambda>_. True"
  by unfold_locales (simp add: json_uint32_def num_unsigned_def)

interpretation j64: json_conversion json_int64 "\<lambda>_. True"
  by unfold_locales (simp add: json_int64_def num_int64_def)

interpretation ju64: json_conversion json_uint64 "\<lambda>x. uint x < 2 ^ 63"
  by unfold_locales (simp add: json_uint64_def num_uint64_def)

interpretation jb: json_conversion json_bool "\<lambda>_. True"
  by unfold_locales (simp add: json_bool_def)

interpretation js: json_conversion json_string "\<lambda>s. CHR 0x00 \<notin> set s"
  by unfold_locales (auto simp: json_string_def c_str_def takeWhile_eq_all_conv)

lemma float_back: "json_conversion (json_float to_float) (\<lambda>d. to_float d = d)"
  by (simp add: json_conversion_def json_float_def)

subsection \<open>Numbers that come as text\<close>




text \<open>A number with a minus sign that fits is read for \<open>int64_t\<close> and refused for \<open>uint64_t\<close>, except for \<open>- 0\<close>.\<close>

lemma parsed_negative_fields:
  "0 < n \<Longrightarrow> j_decode json_int64 (parsed_num True n) = Inr (- of_nat n) \<and> j_decode json_uint64 (parsed_num True n) = needed ''[uint64_t]''"
  by (simp add: parsed_num_def json_int64_def json_uint64_def num_int_def num_int64_def)

subsection \<open>Messages and maps\<close>

text \<open>A message with a number and a vector of texts comes back; the members may stand in any order among others.\<close>

lemma message_back:
  assumes "a \<noteq> b" "Name a \<notin> fst ` set ms" "Name b \<notin> fst ` set ms" "\<forall>s \<in> set ss. CHR 0x00 \<notin> set s"
  shows "let ms' = encode_member b (json_vector json_string) ss (encode_member a json_uint32 x ms) in
    decode_member a json_uint32 ms' = Inr x \<and> decode_member b (json_vector json_string) ms' = Inr ss"
proof -
  have "decode_member a json_uint32 (encode_member a json_uint32 x ms @ [(Name b, j_encode (json_vector json_string) ss)]) = Inr x"
    by (rule ju32.member_back) (simp_all add: assms(2))
  moreover have "decode_member b (json_vector json_string) (encode_member b (json_vector json_string) ss (encode_member a json_uint32 x ms) @ []) = Inr ss"
    by (rule json_conversion.member_back [OF conversion_vector [OF js.json_conversion_axioms]]) (use assms in \<open>auto simp: encode_member_def\<close>)
  ultimately show ?thesis by (simp add: encode_member_def)
qed

text \<open>A map that is not empty does not come back: the names of its members point to buffers that are gone; and keys that are numbers are refused even if the names are intact.\<close>

lemma map_names_gone: "xs \<noteq> [] \<Longrightarrow> decode_map kop op (encode_map show_key op xs) dest = Inl Dangling"
  by (cases xs) (auto simp: decode_map_def encode_map_def)

lemma map_number_keys: "decode_map json_uint32 op (J_obj ((Name n, j) # ms)) dest = needed ''[int32_t]''"
  by (simp add: decode_map_def json_uint32_def needed_def)

end
