(* ===== verification/Astar_Old.thy ===== *)
theory Astar_Old
  imports FF_Prelude
begin

section \<open>The first search\<close>

text \<open>
  \<open>astar_impl_t\<close> of \<^verbatim>\<open>ext/algorithm/astar/astar.cpp\<close>, the search that astar2 replaces. Coordinates and costs are integers: for areas
  of less than \<open>2 ^ 31\<close> cells nothing wraps. \<open>tmp_min_f\<close> is a pointer into the open table and is modelled as the key of
  the entry; it is never reset, and following it after its entry was erased is \<open>Dangling\<close>. An index outside the area is \<open>Out_of_range\<close>.
\<close>

record pos_search_info_t =
  pi_index :: int
  parent_index :: int
  pi_x :: int
  pi_y :: int
  pi_g :: int
  pi_h :: int

definition pi_f :: "pos_search_info_t \<Rightarrow> int" where
  "pi_f n = pi_g n + pi_h n"

record astar_impl_t =
  a_width :: int
  a_height :: int
  a_area :: "bool list"

definition astar_init :: "int \<Rightarrow> int \<Rightarrow> astar_impl_t" where
  "astar_init w h = \<lparr>a_width = w, a_height = h, a_area = replicate (nat (w * h)) True\<rparr>"

definition change_pos_state :: "nat \<Rightarrow> bool \<Rightarrow> astar_impl_t \<Rightarrow> astar_impl_t exc" where
  "change_pos_state i can_pass a = (if i < length (a_area a) then Inr (a\<lparr>a_area := (a_area a)[i := can_pass]\<rparr>) else Inl Out_of_range)"

definition manhattan :: "int \<Rightarrow> int \<Rightarrow> int \<Rightarrow> int \<Rightarrow> int" where
  "manhattan x y x' y' = \<bar>x' - x\<bar> + \<bar>y' - y\<bar>"

record old_search =
  open_table :: "int \<rightharpoonup> pos_search_info_t"
  close_table :: "int set"
  tmp_min_f :: "int option"
  old_path :: "(int \<times> int) list"

text \<open>The nine cells around a position, in the order of the loops.\<close>

definition around :: "int \<Rightarrow> int \<Rightarrow> (int \<times> int) list" where
  "around x y = concat (map (\<lambda>j. map (\<lambda>i. (i, j)) [x - 1, x, x + 1]) [y - 1, y, y + 1])"

definition skipped :: "astar_impl_t \<Rightarrow> pos_search_info_t \<Rightarrow> int \<Rightarrow> int \<Rightarrow> old_search \<Rightarrow> bool" where
  "skipped a nx i j s \<longleftrightarrow> i = pi_x nx \<and> j = pi_y nx \<or> i < 0 \<or> i > a_width a \<or> j < 0 \<or> j > a_height a \<or> j * a_width a + i \<in> close_table s"

text \<open>A cell that can be passed: it is entered into the open table, or its costs there are lowered, and compared with the minimum.\<close>

definition consider_cell :: "astar_impl_t \<Rightarrow> int \<times> int \<Rightarrow> pos_search_info_t \<Rightarrow> int \<Rightarrow> int \<Rightarrow> old_search \<Rightarrow> old_search exc" where
  "consider_cell a to nx i j s =
     (let k = j * a_width a + i; g = pi_g nx + manhattan (pi_x nx) (pi_y nx) i j; h = manhattan i j (fst to) (snd to);
          nd = \<lparr>pi_index = k, parent_index = pi_index nx, pi_x = i, pi_y = j, pi_g = g, pi_h = h\<rparr>;
          entry = (case open_table s k of None \<Rightarrow> nd | Some old \<Rightarrow> if pi_f nd < pi_f old then old\<lparr>pi_g := g, pi_h := h\<rparr> else old);
          s1 = s\<lparr>open_table := (open_table s)(k \<mapsto> entry)\<rparr>
      in case tmp_min_f s of None \<Rightarrow> Inr (s1\<lparr>tmp_min_f := Some k\<rparr>)
         | Some p \<Rightarrow> (case open_table s1 p of None \<Rightarrow> Inl Dangling | Some m \<Rightarrow> Inr (if pi_f nd < pi_f m then s1\<lparr>tmp_min_f := Some k\<rparr> else s1)))"

fun scan_cells :: "astar_impl_t \<Rightarrow> int \<times> int \<Rightarrow> pos_search_info_t \<Rightarrow> (int \<times> int) list \<Rightarrow> old_search \<Rightarrow> (bool \<times> old_search) exc" where
  "scan_cells a to nx [] s = Inr (False, s)"
| "scan_cells a to nx ((i, j) # cs) s = (if (i, j) = to then Inr (True, s\<lparr>old_path := old_path s @ [(i, j)]\<rparr>)
     else if skipped a nx i j s then scan_cells a to nx cs s
     else let k = j * a_width a + i in
       if nat k \<ge> length (a_area a) then Inl Out_of_range
       else if \<not> a_area a ! nat k then scan_cells a to nx cs (s\<lparr>close_table := insert k (close_table s)\<rparr>)
       else (case consider_cell a to nx i j s of Inl e \<Rightarrow> Inl e | Inr s' \<Rightarrow> scan_cells a to nx cs s'))"

partial_function (option) old_loop :: "astar_impl_t \<Rightarrow> int \<times> int \<Rightarrow> pos_search_info_t \<Rightarrow> old_search \<Rightarrow> (int \<times> (int \<times> int) list) exc option" where
  "old_loop a to nx s = (case scan_cells a to nx (around (pi_x nx) (pi_y nx)) s of Inl e \<Rightarrow> Some (Inl e)
     | Inr (found, s1) \<Rightarrow> (if found then Some (Inr (0, old_path s1)) else
         (case tmp_min_f s1 of None \<Rightarrow> Some (Inr (- 1, old_path s1))
          | Some p \<Rightarrow> (case open_table s1 p of None \<Rightarrow> Some (Inl Dangling)
             | Some n \<Rightarrow> old_loop a to n (s1\<lparr>open_table := (open_table s1)(pi_index n := None), close_table := insert (pi_index n) (close_table s1),
                 old_path := old_path s1 @ [(pi_x n, pi_y n)]\<rparr>)))))"

definition old_start :: "astar_impl_t \<Rightarrow> int \<times> int \<Rightarrow> pos_search_info_t" where
  "old_start a from = \<lparr>pi_index = fst from + snd from * a_width a, parent_index = 0, pi_x = fst from, pi_y = snd from, pi_g = 0, pi_h = 0\<rparr>"

definition old_search_path :: "astar_impl_t \<Rightarrow> int \<times> int \<Rightarrow> int \<times> int \<Rightarrow> (int \<times> int) list \<Rightarrow> (int \<times> (int \<times> int) list) exc option" where
  "old_search_path a from to path = old_loop a to (old_start a from)
     \<lparr>open_table = [pi_index (old_start a from) \<mapsto> old_start a from], close_table = {pi_index (old_start a from)}, tmp_min_f = None, old_path = path @ [from]\<rparr>"

subsection \<open>One scan\<close>

text \<open>The minimum, if there is one, is an entry of the open table that was made in this scan and is not closed.\<close>

definition scan_inv :: "(int \<times> int) set \<Rightarrow> int \<Rightarrow> old_search \<Rightarrow> bool" where
  "scan_inv cells from s \<longleftrightarrow> from \<in> close_table s \<and> (\<forall>k n. open_table s k = Some n \<longrightarrow> pi_index n = k \<and> (k = from \<or> (pi_x n, pi_y n) \<in> cells)) \<and>
     (\<forall>p. tmp_min_f s = Some p \<longrightarrow> p \<noteq> from \<and> open_table s p \<noteq> None)"

lemma consider_cell_inv:
  assumes "scan_inv cells from s" "(i, j) \<in> cells" "j * a_width a + i \<noteq> from"
  shows "\<exists>s'. consider_cell a to nx i j s = Inr s' \<and> scan_inv cells from s' \<and> old_path s' = old_path s"
  using assms by (auto simp: consider_cell_def Let_def scan_inv_def split: option.splits)

lemma scan_cells_inv:
  assumes "scan_inv cells from s" "set cs \<subseteq> cells" "scan_cells a to nx cs s = Inr (found, s')"
  shows "(if found then to \<in> cells \<and> old_path s' = old_path s @ [to] else scan_inv cells from s' \<and> old_path s' = old_path s)"
  using assms
proof (induction a to nx cs s rule: scan_cells.induct)
  case (2 a to nx i j cs s)
  let ?k = "j * a_width a + i"
  consider "(i, j) = to" | "(i, j) \<noteq> to" "skipped a nx i j s" | "(i, j) \<noteq> to" "\<not> skipped a nx i j s" "nat ?k < length (a_area a)" "\<not> a_area a ! nat ?k"
    | "(i, j) \<noteq> to" "\<not> skipped a nx i j s" "nat ?k < length (a_area a)" "a_area a ! nat ?k"
    using 2(6) by (auto simp: Let_def split: if_splits)
  then show ?case
  proof cases
    case 3
    have "scan_inv cells from (s\<lparr>close_table := insert ?k (close_table s)\<rparr>)" using 2(4) by (simp add: scan_inv_def)
    then show ?thesis using 2(2) [OF 3(1,2) refl] 3 2(5,6) by (simp add: Let_def)
  next
    case 4
    have "?k \<noteq> from" using 4(2) 2(4) by (auto simp: skipped_def scan_inv_def)
    then obtain s1 where "consider_cell a to nx i j s = Inr s1" "scan_inv cells from s1" "old_path s1 = old_path s"
      using consider_cell_inv [OF 2(4), of i j a to nx] 2(5) by auto
    then show ?thesis using 2(3) [OF 4(1,2) refl] 4 2(5,6) by (simp add: Let_def)
  qed (use 2 in auto)
qed simp

text \<open>With a minimum whose entry was erased, a scan finds the target, fails, or ends with the same minimum.\<close>

lemma scan_cells_stale:
  assumes "tmp_min_f s = Some p" "open_table s p = None" "p \<in> close_table s" "scan_cells a to nx cs s = Inr (found, s')"
  shows "if found then to \<in> set cs \<and> old_path s' = old_path s @ [to] else tmp_min_f s' = Some p \<and> open_table s' p = None"
  using assms
proof (induction a to nx cs s rule: scan_cells.induct)
  case (2 a to nx i j cs s)
  let ?k = "j * a_width a + i"
  have stale: "consider_cell a to nx i j s = Inl Dangling" if "\<not> skipped a nx i j s"
  proof -
    have "p \<noteq> ?k" using that 2(6) by (auto simp: skipped_def)
    then show ?thesis using 2(4,5) by (simp add: consider_cell_def Let_def)
  qed
  show ?case using 2 stale by (auto simp: Let_def split: if_splits)
qed simp

subsection \<open>The search gives up after two steps\<close>

lemma around_near: "(i, j) \<in> set (around x y) \<longleftrightarrow> \<bar>i - x\<bar> \<le> 1 \<and> \<bar>j - y\<bar> \<le> 1"
  by (simp add: around_def) presburger

definition steps_apart :: "int \<times> int \<Rightarrow> int \<times> int \<Rightarrow> int" where
  "steps_apart p q = max \<bar>fst q - fst p\<bar> \<bar>snd q - snd p\<bar>"

lemma around_steps: "q \<in> set (around x y) \<longleftrightarrow> steps_apart (x, y) q \<le> 1"
  by (cases q) (auto simp: around_near steps_apart_def)

lemma old_loop_stale:
  assumes "tmp_min_f s = Some p" "open_table s p = None" "p \<in> close_table s"
  shows "\<exists>e. old_loop a to nx s = Some (Inl e) \<or> old_loop a to nx s = Some (Inr (0, old_path s @ [to])) \<and> steps_apart (pi_x nx, pi_y nx) to \<le> 1"
proof (cases "scan_cells a to nx (around (pi_x nx) (pi_y nx)) s")
  case (Inl e)
  then show ?thesis by (subst (1) old_loop.simps) simp
next
  case (Inr r)
  obtain found s1 where r: "r = (found, s1)" by (cases r)
  have e: "old_loop a to nx s = (if found then Some (Inr (0, old_path s1)) else Some (Inl Dangling))"
    using scan_cells_stale [OF assms Inr [unfolded r]] Inr r by (subst old_loop.simps) simp
  show ?thesis using scan_cells_stale [OF assms Inr [unfolded r]] around_steps unfolding e by (cases found) auto
qed

text \<open>
  The first search cannot look further than two steps. It always returns, and either fails, or is undefined, or has found a target that is at most
  two steps away with a path of at most three positions: in the second round it follows a pointer to an entry of the open table that it has erased.
\<close>

theorem old_search_two_steps:
  "\<exists>r. old_search_path a from to path = Some r \<and>
    (case r of Inl e \<Rightarrow> True | Inr (ret, path') \<Rightarrow> ret = - 1 \<or> ret = 0 \<and> steps_apart from to \<le> 2 \<and> (\<exists>way. path' = path @ from # way @ [to] \<and> length way \<le> 1))"
proof -
  let ?n = "old_start a from"
  let ?s = "\<lparr>open_table = [pi_index ?n \<mapsto> ?n], close_table = {pi_index ?n}, tmp_min_f = None, old_path = path @ [from]\<rparr>"
  let ?cells = "around (pi_x ?n) (pi_y ?n)"
  have inv: "scan_inv (set ?cells) (pi_index ?n) ?s" by (simp add: scan_inv_def)
  have l: "old_search_path a from to path = old_loop a to ?n ?s" by (simp add: old_search_path_def)
  have near: "q \<in> set ?cells \<longleftrightarrow> steps_apart from q \<le> 1" for q by (simp add: around_steps old_start_def)
  show ?thesis
  proof (cases "scan_cells a to ?n ?cells ?s")
    case (Inl e)
    then have "old_loop a to ?n ?s = Some (Inl e)" by (subst old_loop.simps) simp
    then show ?thesis by (simp add: l)
  next
    case (Inr r)
    obtain found s1 where r: "r = (found, s1)" by (cases r)
    note res = scan_cells_inv [OF inv subset_refl Inr [unfolded r]]
    consider "found" | "\<not> found" "tmp_min_f s1 = None" | p n where "\<not> found" "tmp_min_f s1 = Some p" "open_table s1 p = Some n" "pi_index n = p" "(pi_x n, pi_y n) \<in> set ?cells"
      using res by (cases "tmp_min_f s1") (fastforce simp: scan_inv_def)+
    then show ?thesis
    proof cases
      case 1
      then have "old_loop a to ?n ?s = Some (Inr (0, old_path s1))" using Inr r by (subst old_loop.simps) simp
      then show ?thesis using 1 res near [of to] by (auto simp: l intro: exI [of _ "[]"])
    next
      case 2
      then have "old_loop a to ?n ?s = Some (Inr (- 1, old_path s1))" using Inr r by (subst old_loop.simps) simp
      then show ?thesis by (simp add: l)
    next
      case 3
      let ?s2 = "s1\<lparr>open_table := (open_table s1)(pi_index n := None), close_table := insert (pi_index n) (close_table s1), old_path := old_path s1 @ [(pi_x n, pi_y n)]\<rparr>"
      have e: "old_loop a to ?n ?s = old_loop a to n ?s2" using 3 Inr r by (subst old_loop.simps) simp
      have p: "old_path s1 = path @ [from]" using res 3(1) by simp
      have two: "steps_apart from to \<le> 2" if "steps_apart (pi_x n, pi_y n) to \<le> 1" using that 3(5) [unfolded near] by (auto simp: steps_apart_def)
      show ?thesis using old_loop_stale [of ?s2 p a to n] 3(2,4) p two
        by (auto simp: l e intro!: exI [of _ "[(pi_x n, pi_y n)]"])
    qed
  qed
qed

text \<open>On an empty area of five by five cells, the search from a corner to the opposite one is undefined.\<close>

declare old_loop.simps [code]

lemma old_search_dangles: "old_search_path (astar_init 5 5) (0, 0) (4, 4) [] = Some (Inl Dangling)"
  by code_simp

end
